(* ===== verification/Prelude.thy ===== *)
theory Prelude
  imports "HOL-Library.Word"
begin

text \<open>
  Shared vocabulary of the development: bytes and colours (\<open>include/utils/ColorRgb.h\<close>),
  the errors a C++ operation can end in, the result type that carries them, and the generic
  lemmas on lists and bytes that every component uses.  Lemmas that rewrite buffers are
  collected in \<open>buf_simps\<close>, the unfolding rules of the result type in \<open>res_simps\<close>.
\<close>

unbundle bit_operations_syntax

named_theorems buf_simps \<open>lengths and entries of byte buffers after a write\<close>
named_theorems res_simps \<open>equations of the result type\<close>

section \<open>Bytes and colours\<close>

type_synonym byte = "8 word"

record ColorRgb =
  red :: byte
  green :: byte
  blue :: byte

definition rgb :: "byte \<Rightarrow> byte \<Rightarrow> byte \<Rightarrow> ColorRgb" where
  "rgb r g b = \<lparr>red = r, green = g, blue = b\<rparr>"

definition BLACK :: ColorRgb where
  "BLACK = rgb 0 0 0"

lemma rgb_sel [simp]: "red (rgb r g b) = r" "green (rgb r g b) = g" "blue (rgb r g b) = b"
  by (simp_all add: rgb_def)

lemma rgb_eq_iff [simp]: "rgb r g b = rgb r' g' b' \<longleftrightarrow> r = r' \<and> g = g' \<and> b = b'"
  by (auto simp: rgb_def)

lemma rgb_collapse [simp]: "rgb (red c) (green c) (blue c) = c"
  by (simp add: rgb_def)

text \<open>A vector of colours read as raw memory: three bytes per colour, red first.\<close>

definition color_bytes :: "ColorRgb \<Rightarrow> byte list" where
  "color_bytes c = [red c, green c, blue c]"

definition raw_bytes :: "ColorRgb list \<Rightarrow> byte list" where
  "raw_bytes cs = concat (map color_bytes cs)"

lemma length_color_bytes [simp]: "length (color_bytes c) = 3"
  by (simp add: color_bytes_def)

lemma raw_bytes_simps [simp]:
  "raw_bytes [] = []"
  "raw_bytes (c # cs) = color_bytes c @ raw_bytes cs"
  by (simp_all add: raw_bytes_def)

lemma raw_bytes_append [simp]: "raw_bytes (cs @ ds) = raw_bytes cs @ raw_bytes ds"
  by (simp add: raw_bytes_def)

lemma length_raw_bytes [simp, buf_simps]: "length (raw_bytes cs) = 3 * length cs"
  by (induction cs) simp_all

lemma color_bytes_inj: "color_bytes c = color_bytes d \<Longrightarrow> c = d"
  by (simp add: color_bytes_def)

lemma raw_bytes_inj: "raw_bytes cs = raw_bytes ds \<Longrightarrow> cs = ds"
proof (induction cs arbitrary: ds)
  case Nil
  then show ?case by (cases ds) (simp_all add: color_bytes_def)
next
  case (Cons c cs)
  then obtain d ds' where ds: "ds = d # ds'"
    by (cases ds) (auto simp: color_bytes_def)
  with Cons.prems have "color_bytes c = color_bytes d \<and> raw_bytes cs = raw_bytes ds'"
    by (simp add: append_eq_append_conv)
  with Cons.IH ds show ?case by (auto dest: color_bytes_inj)
qed

section \<open>Errors and results\<close>

text \<open>
  The ways an operation can fail: a thrown \<open>std::runtime_error\<close>, a bounds-checked access
  (\<open>vector::at\<close>) out of range, a failed \<open>assert\<close>, and behaviour the C++ standard leaves
  undefined (a raw access past a buffer, a dereferenced end iterator).
\<close>

datatype cpp_error = RuntimeError | OutOfRange | AssertFail | Undefined

type_synonym 'a res = "cpp_error + 'a"

definition res_bind :: "'a res \<Rightarrow> ('a \<Rightarrow> 'b res) \<Rightarrow> 'b res" where
  "res_bind r f = (case r of Inl e \<Rightarrow> Inl e | Inr x \<Rightarrow> f x)"

lemma res_bind_simps [simp, res_simps]:
  "res_bind (Inl e) f = Inl e"
  "res_bind (Inr x) f = f x"
  by (simp_all add: res_bind_def)

lemma res_bind_Inr_iff: "res_bind r f = Inr y \<longleftrightarrow> (\<exists>x. r = Inr x \<and> f x = Inr y)"
  by (cases r) simp_all

lemma res_bind_InrE:
  assumes "res_bind r f = Inr y"
  obtains x where "r = Inr x" "f x = Inr y"
  using assms by (auto simp: res_bind_Inr_iff)

lemma res_bind_split:
  "P (res_bind r f) \<longleftrightarrow> (\<forall>e. r = Inl e \<longrightarrow> P (Inl e)) \<and> (\<forall>x. r = Inr x \<longrightarrow> P (f x))"
  by (cases r) simp_all

section \<open>Buffers\<close>

text \<open>
  \<open>blit off src buf\<close> is \<open>memcpy(buf + off, src, len)\<close>; a copy that would leave the buffer
  is undefined behaviour.  \<open>poke\<close> is a single raw write \<open>buf[i] = b\<close>.
\<close>

definition blit :: "nat \<Rightarrow> 'a list \<Rightarrow> 'a list \<Rightarrow> 'a list res" where
  "blit off src buf =
     (if off + length src \<le> length buf
      then Inr (take off buf @ src @ drop (off + length src) buf) else Inl Undefined)"

definition poke :: "nat \<Rightarrow> 'a \<Rightarrow> 'a list \<Rightarrow> 'a list res" where
  "poke i b buf = (if i < length buf then Inr (buf[i := b]) else Inl Undefined)"

lemma blit_ok [buf_simps]:
  "off + length src \<le> length buf \<Longrightarrow>
     blit off src buf = Inr (take off buf @ src @ drop (off + length src) buf)"
  by (simp add: blit_def)

lemma blit_Inr_iff:
  "blit off src buf = Inr buf' \<longleftrightarrow>
     off + length src \<le> length buf \<and> buf' = take off buf @ src @ drop (off + length src) buf"
  by (auto simp: blit_def)

lemma blit_length: "blit off src buf = Inr buf' \<Longrightarrow> length buf' = length buf"
  by (auto simp: blit_def split: if_splits)

lemma blit_nth:
  "blit off src buf = Inr buf' \<Longrightarrow> i < length buf \<Longrightarrow>
     buf' ! i = (if off \<le> i \<and> i < off + length src then src ! (i - off) else buf ! i)"
  by (auto simp: blit_def nth_append min_def not_le split: if_splits)

lemma poke_ok [buf_simps]: "i < length buf \<Longrightarrow> poke i b buf = Inr (buf[i := b])"
  by (simp add: poke_def)

text \<open>Reading raw memory out of range is undefined behaviour, \<open>vector::at\<close> throws.\<close>

definition peek :: "'a list \<Rightarrow> nat \<Rightarrow> 'a res" where
  "peek buf i = (if i < length buf then Inr (buf ! i) else Inl Undefined)"

definition vec_at :: "'a list \<Rightarrow> nat \<Rightarrow> 'a res" where
  "vec_at buf i = (if i < length buf then Inr (buf ! i) else Inl OutOfRange)"

lemma peek_ok [buf_simps]: "i < length buf \<Longrightarrow> peek buf i = Inr (buf ! i)"
  by (simp add: peek_def)

lemma vec_at_ok [buf_simps]: "i < length buf \<Longrightarrow> vec_at buf i = Inr (buf ! i)"
  by (simp add: vec_at_def)

text \<open>\<open>vector::resize(n, x)\<close>: cut or pad at the end.\<close>

definition vec_resize :: "nat \<Rightarrow> 'a \<Rightarrow> 'a list \<Rightarrow> 'a list" where
  "vec_resize n x buf = take n buf @ replicate (n - length buf) x"

lemma length_vec_resize [simp, buf_simps]: "length (vec_resize n x buf) = n"
  by (simp add: vec_resize_def)

lemma vec_resize_Nil [simp]: "vec_resize n x [] = replicate n x"
  by (simp add: vec_resize_def)

text \<open>
  \<open>memcpy\<close> of \<open>k\<close> bytes, which must be there to be read; consecutive single writes; and a loop
  over indices whose body may fail.
\<close>

definition memcpy :: "nat \<Rightarrow> 'a list \<Rightarrow> nat \<Rightarrow> 'a list \<Rightarrow> 'a list res" where
  "memcpy off src k buf = (if k \<le> length src then blit off (take k src) buf else Inl Undefined)"

fun pokes :: "nat \<Rightarrow> 'a list \<Rightarrow> 'a list \<Rightarrow> 'a list res" where
  "pokes off [] buf = Inr buf"
| "pokes off (x # xs) buf = res_bind (poke off x buf) (pokes (Suc off) xs)"

fun index_loop :: "(nat \<Rightarrow> 'b \<Rightarrow> 'b res) \<Rightarrow> nat list \<Rightarrow> 'b \<Rightarrow> 'b res" where
  "index_loop f [] s = Inr s"
| "index_loop f (i # is) s = res_bind (f i s) (index_loop f is)"

lemma memcpy_ok [buf_simps]:
  "k \<le> length src \<Longrightarrow> off + k \<le> length buf \<Longrightarrow>
     memcpy off src k buf = Inr (take off buf @ take k src @ drop (off + k) buf)"
  by (simp add: memcpy_def blit_def)

lemma pokes_blit: "off + length xs \<le> length buf \<Longrightarrow> pokes off xs buf = blit off xs buf"
proof (induction off xs buf rule: pokes.induct)
  case (2 off x xs buf)
  have "take (Suc off) (buf[off := x]) = take off buf @ [x]"
    using 2(2) by (simp add: take_Suc_conv_app_nth)
  with 2 show ?case by (simp add: poke_ok blit_ok)
qed (simp add: blit_def)

lemma index_loop_append:
  "index_loop f (xs @ ys) s = res_bind (index_loop f xs s) (index_loop f ys)"
proof (induction xs arbitrary: s)
  case (Cons x xs)
  show ?case by (cases "f x s") (simp_all add: Cons)
qed simp

lemma index_loop_either:
  "(\<And>i s. i \<in> set xs \<Longrightarrow> P s \<Longrightarrow> f i s = Inl e \<or> (\<exists>s'. f i s = Inr s' \<and> P s')) \<Longrightarrow> P s \<Longrightarrow>
     index_loop f xs s = Inl e \<or> (\<exists>s'. index_loop f xs s = Inr s' \<and> P s')"
proof (induction xs arbitrary: s)
  case (Cons x xs)
  from Cons.prems(1) [of x s] Cons.prems(2) consider "f x s = Inl e" | s' where "f x s = Inr s'" "P s'" by auto
  then show ?case
  proof cases
    case 2
    with Cons.IH [of s'] Cons.prems(1) show ?thesis by simp
  qed simp
qed simp

lemma index_loop_fails:
  assumes "\<And>i s. i \<in> set xs \<Longrightarrow> P s \<Longrightarrow> f i s = Inl e \<or> (\<exists>s'. f i s = Inr s' \<and> P s')"
    and "P s" "i \<in> set xs" "\<And>s. P s \<Longrightarrow> f i s = Inl e"
  shows "index_loop f xs s = Inl e"
proof -
  obtain ys zs where xs: "xs = ys @ i # zs" using split_list [OF assms(3)] by blast
  have "index_loop f ys s = Inl e \<or> (\<exists>s'. index_loop f ys s = Inr s' \<and> P s')"
    using assms(1,2) xs by (intro index_loop_either [where P = P]) auto
  then show ?thesis using assms(4) xs by (auto simp: index_loop_append)
qed

text \<open>Writing one chunk of \<open>k\<close> entries per index, one behind the other.\<close>

lemma index_loop_chunks:
  assumes "\<And>i s. i < n \<Longrightarrow> length s = length pre + k * n + length post \<Longrightarrow>
      f i s = blit (length pre + k * i) (g i) s"
    and "\<And>i. i < n \<Longrightarrow> length (g i) = k" "length mid = k * n"
  shows "index_loop f [0 ..< n] (pre @ mid @ post) = Inr (pre @ concat (map g [0 ..< n]) @ post)"
proof -
  have "index_loop f [0 ..< m] (pre @ mid @ post)
      = Inr (pre @ concat (map g [0 ..< m]) @ drop (k * m) mid @ post)" if "m \<le> n" for m
    using that
  proof (induction m)
    case (Suc m)
    let ?s = "pre @ concat (map g [0 ..< m]) @ drop (k * m) mid @ post"
    have "map length (map g [0 ..< m]) = replicate m k"
      using Suc.prems assms(2) by (intro nth_equalityI) simp_all
    then have len: "length (concat (map g [0 ..< m])) = k * m"
      by (simp only: length_concat sum_list_replicate) simp
    have le: "k * Suc m \<le> k * n" using Suc.prems by (intro mult_le_mono2)
    then have s: "length ?s = length pre + k * n + length post" using assms(3) len by simp
    have "f m ?s = blit (length pre + k * m) (g m) ?s"
      using Suc.prems s by (intro assms(1)) simp_all
    also have "\<dots> = Inr (pre @ concat (map g [0 ..< m]) @ g m @ drop (k * Suc m) mid @ post)"
      using le len assms(2) [of m] assms(3) Suc.prems by (subst blit_ok) (simp_all add: drop_append)
    finally show ?case using Suc by (simp add: index_loop_append)
  qed simp
  from this [of n] show ?thesis using assms(3) by simp
qed

text \<open>Rewriting block after block, when a step only changes the block of its index.\<close>

lemma index_loop_blocks:
  assumes "\<And>i left right. i < n \<Longrightarrow> length left = k * i \<Longrightarrow>
      f i (pre @ left @ h i @ right @ post) = Inr (pre @ left @ g i @ right @ post)"
    and "\<And>i. i < n \<Longrightarrow> length (g i) = k"
  shows "index_loop f [0 ..< n] (pre @ concat (map h [0 ..< n]) @ post)
    = Inr (pre @ concat (map g [0 ..< n]) @ post)"
proof -
  have "index_loop f [0 ..< m] (pre @ concat (map h [0 ..< n]) @ post)
      = Inr (pre @ concat (map g [0 ..< m]) @ concat (map h [m ..< n]) @ post)" if "m \<le> n" for m
    using that
  proof (induction m)
    case (Suc m)
    have "map length (map g [0 ..< m]) = replicate m k"
      using Suc.prems assms(2) by (intro nth_equalityI) simp_all
    then have len: "length (concat (map g [0 ..< m])) = k * m"
      by (simp only: length_concat sum_list_replicate) simp
    have "[m ..< n] = m # [Suc m ..< n]" using Suc.prems by (simp add: upt_conv_Cons)
    then show ?case
      using Suc assms(1) [of m "concat (map g [0 ..< m])" "concat (map h [Suc m ..< n])"] len
      by (simp add: index_loop_append)
  qed simp
  from this [of n] show ?thesis by simp
qed

lemma index_loop_Suc: "index_loop f [1 ..< n + 1] s = index_loop (\<lambda>i. f (Suc i)) [0 ..< n] s"
proof -
  have "index_loop f (map Suc is) s = index_loop (\<lambda>i. f (Suc i)) is s" for "is" s
  proof (induction "is" arbitrary: s)
    case (Cons i "is")
    then show ?case by (cases "f (Suc i) s") simp_all
  qed simp
  moreover have "[1 ..< n + 1] = map Suc [0 ..< n]" by (simp add: map_Suc_upt del: upt_Suc)
  ultimately show ?thesis by (simp only:)
qed

lemma pokes_between:
  "length xs = length ys \<Longrightarrow> pokes (length l) xs (l @ ys @ r) = Inr (l @ xs @ r)"
  by (subst pokes_blit) (simp_all add: blit_def)

lemma poke_between: "poke (length l) x (l @ y # r) = Inr (l @ x # r)"
  by (simp add: poke_def)

section \<open>C integer conversions\<close>

text \<open>
  \<open>uint8_t(n)\<close> of an \<open>int\<close> keeps the low eight bits.
\<close>

definition u8 :: "int \<Rightarrow> byte" where
  "u8 n = word_of_int n"

lemma uint_u8: "uint (u8 n) = n mod 256"
  by (simp add: u8_def uint_word_of_int)

lemma u8_small: "0 \<le> n \<Longrightarrow> n < 256 \<Longrightarrow> uint (u8 n) = n"
  by (simp add: uint_u8)

lemma byte_bound: "uint (b :: byte) < 256" "0 \<le> uint b" "unat b < 256"
  using unsigned_less [of b, where ?'a = int] unsigned_less [of b, where ?'a = nat] by simp_all

text \<open>Reading 32 bits as a signed number gives back an \<open>int\<close> that fits.\<close>

lemma sint32_id:
  assumes "- (2 ^ 31) \<le> n" "n < 2 ^ 31"
  shows "sint (word_of_int n :: 32 word) = n"
  using assms by (simp add: signed_of_int signed_take_bit_int_eq_self)

text \<open>An \<open>int\<close> passed as \<open>unsigned\<close>.\<close>

definition as_unsigned :: "int \<Rightarrow> nat" where
  "as_unsigned i = nat (i mod 2 ^ 32)"

lemma as_unsigned_id: "0 \<le> n \<Longrightarrow> n < 2 ^ 32 \<Longrightarrow> as_unsigned n = nat n"
  by (simp add: as_unsigned_def)

section \<open>Lists\<close>

lemma nth_take_drop_split:
  "i < length xs \<Longrightarrow> xs = take i xs @ xs ! i # drop (Suc i) xs"
  by (simp add: id_take_nth_drop)

lemma sorted_wrt_less_distinct: "sorted_wrt (<) (xs :: 'a::linorder list) \<Longrightarrow> distinct xs"
  by (simp add: strict_sorted_iff)

end
