(* ===== verification/Images.thy ===== *)
theory Images
  imports Prelude
begin

text \<open>
  \<open>Image<Pixel_T>\<close> (\<open>include/utils/Image.h\<close>): a row-major pixel buffer with one spare pixel
  behind the last one.  Reading outside the allocation is undefined behaviour.  Dimensions
  are \<open>nat\<close>: the model assumes \<open>width * height < 2 ^ 32\<close>, as any image that fits in memory.
\<close>

record 'p image =
  img_width :: nat
  img_height :: nat
  img_pixels :: "'p list"

definition img_default :: "'p \<Rightarrow> 'p image" where
  "img_default zero = \<lparr>img_width = 1, img_height = 1, img_pixels = replicate 2 zero\<rparr>"

definition img_new :: "'p \<Rightarrow> nat \<Rightarrow> nat \<Rightarrow> 'p image" where
  "img_new zero w h = \<lparr>img_width = w, img_height = h, img_pixels = replicate (w * h + 1) zero\<rparr>"

text \<open>The spare pixel of the filling constructor and of the copy is uninitialised: \<open>spare\<close>.\<close>

definition img_fill :: "'p \<Rightarrow> nat \<Rightarrow> nat \<Rightarrow> 'p \<Rightarrow> 'p image" where
  "img_fill spare w h background =
     \<lparr>img_width = w, img_height = h, img_pixels = replicate (w * h) background @ [spare]\<rparr>"

definition img_clone :: "'p \<Rightarrow> 'p image \<Rightarrow> 'p image" where
  "img_clone spare other =
     \<lparr>img_width = img_width other, img_height = img_height other,
      img_pixels = take (img_width other * img_height other) (img_pixels other) @ [spare]\<rparr>"

definition toIndex :: "'p image \<Rightarrow> nat \<Rightarrow> nat \<Rightarrow> nat" where
  "toIndex im x y = y * img_width im + x"

definition img_at :: "'p image \<Rightarrow> nat \<Rightarrow> nat \<Rightarrow> 'p res" where
  "img_at im x y = peek (img_pixels im) (toIndex im x y)"

definition img_put :: "'p image \<Rightarrow> nat \<Rightarrow> nat \<Rightarrow> 'p \<Rightarrow> 'p image res" where
  "img_put im x y p =
     res_bind (poke (toIndex im x y) p (img_pixels im)) (\<lambda>ps. Inr (im\<lparr>img_pixels := ps\<rparr>))"

text \<open>
  \<open>resize\<close> allocates only when the new area exceeds the current capacity; the new memory
  holds whatever \<open>junk\<close> gives.
\<close>

definition img_capacity :: "'p image \<Rightarrow> nat" where
  "img_capacity im = length (img_pixels im) - 1"

definition img_resize :: "(nat \<Rightarrow> 'p) \<Rightarrow> nat \<Rightarrow> nat \<Rightarrow> 'p image \<Rightarrow> 'p image" where
  "img_resize junk w h im =
     (let im' = (if w * h > img_capacity im
                 then im\<lparr>img_pixels := map junk [0 ..< w * h + 1]\<rparr> else im)
      in im'\<lparr>img_width := w, img_height := h\<rparr>)"

definition img_copy :: "'p image \<Rightarrow> 'p image \<Rightarrow> 'p image res" where
  "img_copy im other =
     (if img_width other = img_width im \<and> img_height other = img_height im
      then res_bind (blit 0 (take (img_width im * img_height im) (img_pixels other)) (img_pixels im))
             (\<lambda>ps. Inr (im\<lparr>img_pixels := ps\<rparr>))
      else Inl AssertFail)"

definition img_toRgb :: "(nat \<Rightarrow> ColorRgb) \<Rightarrow> ('p \<Rightarrow> ColorRgb) \<Rightarrow> 'p image \<Rightarrow> ColorRgb image \<Rightarrow> ColorRgb image res" where
  "img_toRgb junk conv im out =
     (let out' = img_resize junk (img_width im) (img_height im) out in
      res_bind (blit 0 (map conv (take (img_width im * img_height im) (img_pixels im))) (img_pixels out'))
        (\<lambda>ps. Inr (out'\<lparr>img_pixels := ps\<rparr>)))"

text \<open>Well formed: the buffer holds all pixels and the spare one.\<close>

definition img_wf :: "'p image \<Rightarrow> bool" where
  "img_wf im \<longleftrightarrow> img_width im * img_height im < length (img_pixels im)"

lemma img_wf_constructors [simp]:
  "img_wf (img_default z)" "img_wf (img_new z w h)" "img_wf (img_fill z w h b)"
  by (simp_all add: img_wf_def img_default_def img_new_def img_fill_def)

lemma img_wf_clone [simp]: "img_wf im \<Longrightarrow> img_wf (img_clone s im)"
  by (simp add: img_wf_def img_clone_def)

lemma img_wf_resize [simp]: "img_wf im \<Longrightarrow> img_wf (img_resize junk w h im)"
  by (auto simp: img_wf_def img_resize_def img_capacity_def Let_def)

lemma index_in_image:
  assumes "x < w" "y < (h :: nat)"
  shows "y * w + x < w * h"
proof -
  have "y * w + x < Suc y * w" using assms(1) by simp
  also have "\<dots> \<le> h * w" using assms(2) by (intro mult_le_mono1) simp
  finally show ?thesis by (simp add: mult.commute)
qed

lemma img_at_ok:
  assumes "img_wf im" "x < img_width im" "y < img_height im"
  shows "img_at im x y = Inr (img_pixels im ! toIndex im x y)"
  using index_in_image [OF assms(2,3)] assms(1)
  by (simp add: img_at_def toIndex_def img_wf_def peek_ok)

lemma toIndex_inj:
  assumes "x < img_width im" "x' < img_width im" "toIndex im x y = toIndex im x' y'"
  shows "x = x' \<and> y = y'"
proof -
  have "(y * img_width im + x) mod img_width im = (y' * img_width im + x') mod img_width im"
    "(y * img_width im + x) div img_width im = (y' * img_width im + x') div img_width im"
    using assms(3) by (simp_all add: toIndex_def)
  with assms(1,2) show ?thesis by simp
qed

lemma img_put_at:
  assumes "img_wf im" "x < img_width im" "y < img_height im"
  obtains im' where "img_put im x y p = Inr im'" "img_wf im'" "img_at im' x y = Inr p"
    "img_width im' = img_width im" "img_height im' = img_height im"
proof -
  have i: "toIndex im x y < length (img_pixels im)"
    using index_in_image [OF assms(2,3)] assms(1) by (simp add: toIndex_def img_wf_def)
  show thesis
    using assms i by (intro that [of "im\<lparr>img_pixels := (img_pixels im)[toIndex im x y := p]\<rparr>"])
      (simp_all add: img_put_def img_wf_def img_at_def poke_ok peek_ok toIndex_def)
qed

text \<open>A picture given by a function of the coordinates, as an image.\<close>

definition img_of :: "(nat \<Rightarrow> nat \<Rightarrow> 'p) \<Rightarrow> nat \<Rightarrow> nat \<Rightarrow> 'p \<Rightarrow> 'p image" where
  "img_of f w h spare =
     \<lparr>img_width = w, img_height = h,
      img_pixels = map (\<lambda>i. f (i mod w) (i div w)) [0 ..< w * h] @ [spare]\<rparr>"

lemma img_of_sel [simp]: "img_width (img_of f w h s) = w" "img_height (img_of f w h s) = h"
  by (simp_all add: img_of_def)

lemma img_wf_of [simp]: "img_wf (img_of f w h s)"
  by (simp add: img_wf_def img_of_def)

lemma img_at_of: "x < w \<Longrightarrow> y < h \<Longrightarrow> img_at (img_of f w h s) x y = Inr (f x y)"
  using index_in_image [of x w y h] by (simp add: img_at_def toIndex_def peek_def img_of_def nth_append)

end
