(* ===== verification/Doubles.thy ===== *)
theory Doubles
  imports Prelude "HOL-Library.Log_Nat"
begin

text \<open>
  The floating-point arithmetic of the code.  A \<open>double\<close> (or \<open>float\<close>) is the rational it
  stands for, and every operation is the exact one followed by rounding to the nearest
  number of the format, ties to even: \<open>fl p\<close> rounds to \<open>p\<close> significant bits (53 for
  \<open>double\<close>, 24 for \<open>float\<close>).  Exponents are unbounded: overflow to infinity, subnormal
  numbers and NaN are outside the model (the code's values stay far from both ends).
  What the components use of rounding is the locale \<open>rounding\<close>, interpreted on both formats.
\<close>

section \<open>Rounding to an integer, ties to even\<close>

definition rhe :: "rat \<Rightarrow> int" where
  "rhe x = (let f = \<lfloor>x\<rfloor>; d = x - of_int f in
     if d < 1/2 then f else if d > 1/2 then f + 1 else if even f then f else f + 1)"

lemma rhe_floor: "\<lfloor>x\<rfloor> \<le> rhe x" "rhe x \<le> \<lfloor>x\<rfloor> + 1"
  by (simp_all add: rhe_def Let_def)

lemma rhe_of_int [simp]: "rhe (of_int n) = n"
  by (simp add: rhe_def)

lemma rhe_mono: "x \<le> y \<Longrightarrow> rhe x \<le> rhe y"
proof (cases "\<lfloor>x\<rfloor> = \<lfloor>y\<rfloor>")
  case True
  assume "x \<le> y"
  with True show ?thesis by (auto simp: rhe_def Let_def)
next
  case False
  assume "x \<le> y"
  with False have "\<lfloor>x\<rfloor> + 1 \<le> \<lfloor>y\<rfloor>"
    using floor_mono [of x y] by linarith
  then show ?thesis using rhe_floor [of x] rhe_floor [of y] by linarith
qed

section \<open>The binary exponent\<close>

definition ilog2 :: "rat \<Rightarrow> int" where
  "ilog2 x = (if 1 \<le> x then int (floorlog 2 (nat \<lfloor>x\<rfloor>)) - 1
              else - int (floorlog 2 (nat (\<lceil>1 / x\<rceil> - 1))))"

lemma floorlog_bounds_rat:
  assumes "0 < n"
  shows "2 powi (int (floorlog 2 n) - 1) \<le> (of_nat n :: rat)" "of_nat n < (2 powi int (floorlog 2 n) :: rat)"
proof -
  obtain k where k: "floorlog 2 n = Suc k"
    using assms by (cases "floorlog 2 n") (auto simp: floorlog_eq_zero_iff)
  have b: "2 ^ k \<le> n \<and> n < 2 ^ Suc k"
    using floorlog_bounds [of n 2] assms k by simp
  then have "(2::rat) ^ k \<le> of_nat n"
    by (metis of_nat_le_iff of_nat_numeral of_nat_power)
  moreover have "of_nat n < (2::rat) ^ Suc k"
    using b by (metis of_nat_less_iff of_nat_numeral of_nat_power)
  ultimately show "2 powi (int (floorlog 2 n) - 1) \<le> (of_nat n :: rat)"
    "of_nat n < (2 powi int (floorlog 2 n) :: rat)"
    by (simp_all add: k power_int_add)
qed

lemma ilog2_bounds:
  assumes "0 < x"
  shows "2 powi ilog2 x \<le> x" "x < 2 powi (ilog2 x + 1)"
proof -
  show "2 powi ilog2 x \<le> x"
  proof (cases "1 \<le> x")
    case True
    then have pos: "0 < nat \<lfloor>x\<rfloor>" by simp
    have "(of_nat (nat \<lfloor>x\<rfloor>) :: rat) \<le> x" using True by simp
    with floorlog_bounds_rat(1) [OF pos] have "2 powi (int (floorlog 2 (nat \<lfloor>x\<rfloor>)) - 1) \<le> x"
      by (rule order_trans)
    then show ?thesis using True by (simp add: ilog2_def)
  next
    case False
    let ?c = "\<lceil>1 / x\<rceil>" and ?k = "floorlog 2 (nat (\<lceil>1 / x\<rceil> - 1))"
    have "1 < 1 / x" using False assms by (simp add: field_simps)
    then have c: "1 < ?c" by linarith
    then have "?c - 1 < 2 ^ ?k"
      using floorlog_bounds_rat(2) [of "nat (?c - 1)"] by simp
    then have "?c \<le> 2 ^ ?k" by simp
    then have "1 / x \<le> 2 ^ ?k"
      by (metis ceiling_le_iff of_int_numeral of_int_power)
    then have "1 / 2 ^ ?k \<le> x" using assms by (simp add: field_simps)
    then show ?thesis using False by (simp add: ilog2_def power_int_minus field_simps)
  qed
  show "x < 2 powi (ilog2 x + 1)"
  proof (cases "1 \<le> x")
    case True
    then have pos: "0 < nat \<lfloor>x\<rfloor>" by simp
    have "of_nat (nat \<lfloor>x\<rfloor>) < (2 powi int (floorlog 2 (nat \<lfloor>x\<rfloor>)) :: rat)"
      by (rule floorlog_bounds_rat(2) [OF pos])
    then have "\<lfloor>x\<rfloor> < 2 ^ floorlog 2 (nat \<lfloor>x\<rfloor>)"
      using True by (metis of_int_less_iff of_int_numeral of_int_power of_nat_nat
          power_int_of_nat zero_le_floor zero_le_one order_trans)
    then have "x < 2 ^ floorlog 2 (nat \<lfloor>x\<rfloor>)"
      by (metis floor_less_iff of_int_numeral of_int_power)
    then show ?thesis using True by (simp add: ilog2_def)
  next
    case False
    let ?c = "\<lceil>1 / x\<rceil>" and ?k = "floorlog 2 (nat (\<lceil>1 / x\<rceil> - 1))"
    have "1 < 1 / x" using False assms by (simp add: field_simps)
    then have c: "1 < ?c" by linarith
    have "0 < nat (?c - 1)" using c by simp
    moreover have "(of_nat (nat (?c - 1)) :: rat) = of_int (?c - 1)"
      using c by (metis diff_gt_0_iff_gt less_imp_le of_int_of_nat_eq int_nat_eq)
    ultimately have "2 powi (int ?k - 1) \<le> (of_int (?c - 1) :: rat)"
      using floorlog_bounds_rat(1) [of "nat (?c - 1)"] by simp
    also have "\<dots> < 1 / x" by linarith
    finally have "2 powi (int ?k - 1) * x < 1" using assms by (simp add: field_simps)
    then have "x < 1 / 2 powi (int ?k - 1)"
      by (simp add: pos_less_divide_eq mult.commute)
    moreover have "(1::rat) / 2 powi (int ?k - 1) = 2 powi (1 - int ?k)"
      by (metis inverse_eq_divide minus_diff_eq power_int_minus)
    ultimately show ?thesis using False by (simp add: ilog2_def add.commute)
  qed
qed

lemma ilog2_mono:
  assumes "0 < x" "x \<le> y"
  shows "ilog2 x \<le> ilog2 y"
proof -
  have "(2::rat) powi ilog2 x < 2 powi (ilog2 y + 1)"
    using ilog2_bounds [of x] ilog2_bounds [of y] assms by linarith
  then show ?thesis
    using power_int_increasing [of "ilog2 y + 1" "ilog2 x" "2::rat"] by linarith
qed

section \<open>Rounding to \<open>p\<close> bits\<close>

definition ulp :: "nat \<Rightarrow> int \<Rightarrow> rat" where
  "ulp p e = 2 powi (e + 1 - int p)"

definition fl_pos :: "nat \<Rightarrow> rat \<Rightarrow> rat" where
  "fl_pos p x = (let q = ulp p (ilog2 x) in of_int (rhe (x / q)) * q)"

definition fl :: "nat \<Rightarrow> rat \<Rightarrow> rat" where
  "fl p x = (if x = 0 then 0 else if x < 0 then - fl_pos p (- x) else fl_pos p x)"

lemma ulp_pos [simp]: "0 < ulp p e"
  by (simp add: ulp_def)

lemma ulp_nz [simp]: "ulp p e \<noteq> 0"
  using ulp_pos [of p e] by linarith

lemma ulp_scale: "1 \<le> p \<Longrightarrow> 2 powi e = of_int (2 ^ (p - 1)) * ulp p e"
  "1 \<le> p \<Longrightarrow> 2 powi (e + 1) = of_int (2 ^ p) * ulp p e"
proof -
  assume p: "1 \<le> p"
  have "(2::rat) ^ (p - 1) = 2 powi (int p - 1)"
    using p by (metis of_nat_1 of_nat_diff power_int_of_nat)
  then show "2 powi e = of_int (2 ^ (p - 1)) * ulp p e"
    by (simp add: ulp_def flip: power_int_add)
  show "2 powi (e + 1) = of_int (2 ^ p) * ulp p e"
    by (simp add: ulp_def flip: power_int_add power_int_of_nat)
qed

lemma fl_pos_range:
  assumes "0 < x" "1 \<le> p"
  shows "2 powi ilog2 x \<le> fl_pos p x" "fl_pos p x \<le> 2 powi (ilog2 x + 1)"
proof -
  let ?q = "ulp p (ilog2 x)"
  have "of_int (2 ^ (p - 1)) \<le> x / ?q"
    using ilog2_bounds(1) [OF assms(1)] ulp_scale(1) [OF assms(2), of "ilog2 x"]
    by (simp add: pos_le_divide_eq)
  from rhe_mono [OF this] have "2 ^ (p - 1) \<le> rhe (x / ?q)" by (simp only: rhe_of_int)
  then have "of_int (2 ^ (p - 1)) * ?q \<le> of_int (rhe (x / ?q)) * ?q"
    by (intro mult_right_mono) (simp_all only: of_int_le_iff less_imp_le ulp_pos)
  then show "2 powi ilog2 x \<le> fl_pos p x"
    by (simp only: fl_pos_def Let_def ulp_scale(1) [OF assms(2), of "ilog2 x"])
  have "x / ?q \<le> of_int (2 ^ p)"
    using ilog2_bounds(2) [OF assms(1)] ulp_scale(2) [OF assms(2), of "ilog2 x"]
    by (simp add: pos_divide_le_eq less_imp_le)
  from rhe_mono [OF this] have "rhe (x / ?q) \<le> 2 ^ p" by (simp only: rhe_of_int)
  then have "of_int (rhe (x / ?q)) * ?q \<le> of_int (2 ^ p) * ?q"
    by (intro mult_right_mono) (simp_all only: of_int_le_iff less_imp_le ulp_pos)
  then show "fl_pos p x \<le> 2 powi (ilog2 x + 1)"
    by (simp only: fl_pos_def Let_def ulp_scale(2) [OF assms(2), of "ilog2 x"])
qed

lemma fl_pos_mono:
  assumes "0 < x" "x \<le> y" "1 \<le> p"
  shows "fl_pos p x \<le> fl_pos p y"
proof (cases "ilog2 x = ilog2 y")
  case True
  have "x / ulp p (ilog2 y) \<le> y / ulp p (ilog2 y)"
    using assms by (intro divide_right_mono) (simp_all add: less_imp_le)
  from rhe_mono [OF this] True show ?thesis
    by (simp add: fl_pos_def Let_def mult_right_mono less_imp_le)
next
  case False
  then have "ilog2 x + 1 \<le> ilog2 y" using ilog2_mono [OF assms(1,2)] by simp
  then have "(2::rat) powi (ilog2 x + 1) \<le> 2 powi ilog2 y"
    by (simp add: power_int_increasing)
  with fl_pos_range [of x p] fl_pos_range [of y p] assms show ?thesis by linarith
qed

lemma fl_mono: "1 \<le> p \<Longrightarrow> x \<le> y \<Longrightarrow> fl p x \<le> fl p y"
proof -
  assume p: "1 \<le> p" and xy: "x \<le> y"
  have nn: "0 < z \<Longrightarrow> 0 \<le> fl_pos p z" for z
    using fl_pos_range(1) [of z p] p by (metis order.trans zero_le_numeral zero_le_power_int)
  consider "y < 0" | "x < 0" "0 \<le> y" | "0 \<le> x" by linarith
  then show ?thesis
  proof cases
    case 1
    with xy p fl_pos_mono [of "- y" "- x" p] show ?thesis by (simp add: fl_def)
  next
    case 2
    then show ?thesis using nn [of "- x"] nn [of y] by (cases "y = 0") (simp_all add: fl_def)
  next
    case 3
    then show ?thesis
      using xy p nn [of y] fl_pos_mono [of x y p] by (auto simp: fl_def)
  qed
qed

lemma fl_pos_of_int:
  assumes "0 < n" "n \<le> 2 ^ p" "1 \<le> p"
  shows "fl_pos p (of_int n) = of_int n"
proof -
  let ?e = "ilog2 (of_int n)" and ?q = "ulp p (ilog2 (of_int n))"
  have "floorlog 2 (nat n) \<noteq> 0" using assms(1) by (simp add: floorlog_eq_zero_iff)
  then have e0: "0 \<le> ?e" using assms(1) by (simp add: ilog2_def)
  show ?thesis
  proof (cases "?e + 1 \<le> int p")
    case True
    define k where "k = nat (int p - (?e + 1))"
    have "?e + 1 - int p = - int k" using True by (simp add: k_def)
    then have "?q = 1 / 2 ^ k" by (simp only: ulp_def power_int_minus power_int_of_nat inverse_eq_divide)
    then have "of_int n / ?q = (of_int (n * 2 ^ k) :: rat)"
      by (simp only: divide_divide_eq_right of_int_mult of_int_power of_int_numeral div_by_1)
    moreover from this have "of_int (n * 2 ^ k) * ?q = (of_int n :: rat)"
      using ulp_pos [of p ?e] by (simp add: field_simps)
    ultimately show ?thesis by (simp only: fl_pos_def Let_def rhe_of_int)
  next
    case False
    then have "(2::rat) ^ p \<le> 2 powi ?e"
      by (simp add: power_int_increasing flip: power_int_of_nat)
    moreover have "2 powi ?e \<le> (of_int n :: rat)" using ilog2_bounds(1) assms(1) by simp
    moreover have "(of_int n :: rat) \<le> 2 ^ p"
      using assms(2) by (metis of_int_le_iff of_int_numeral of_int_power)
    ultimately have eq: "(of_int n :: rat) = 2 powi ?e" by linarith
    have "of_int n / ?q = (of_int (2 ^ (p - 1)) :: rat)"
      using ulp_scale(1) [OF assms(3), of ?e] eq by (metis nonzero_mult_div_cancel_right ulp_nz)
    then show ?thesis
      using ulp_scale(1) [OF assms(3), of ?e] eq by (simp only: fl_pos_def Let_def rhe_of_int)
  qed
qed

lemma fl_of_int: "1 \<le> p \<Longrightarrow> \<bar>n\<bar> \<le> 2 ^ p \<Longrightarrow> fl p (of_int n) = of_int n"
  using fl_pos_of_int [of n p] fl_pos_of_int [of "- n" p] by (auto simp: fl_def abs_if)

text \<open>Scaling by a power of two commutes with rounding, so dyadic fractions are exact.\<close>

lemma ilog2_unique:
  assumes "2 powi e \<le> x" "x < 2 powi (e + 1)"
  shows "ilog2 x = e"
proof -
  have x: "0 < x" using assms(1) by (metis less_le_trans zero_less_numeral zero_less_power_int)
  have "\<not> ilog2 x + 1 \<le> e"
    using power_int_increasing [of "ilog2 x + 1" e "2::rat"] ilog2_bounds [OF x] assms by linarith
  moreover have "\<not> e + 1 \<le> ilog2 x"
    using power_int_increasing [of "e + 1" "ilog2 x" "2::rat"] ilog2_bounds [OF x] assms by linarith
  ultimately show ?thesis by linarith
qed

lemma fl_pos_half: "0 < x \<Longrightarrow> fl_pos p (x / 2) = fl_pos p x / 2"
proof -
  assume x: "0 < x"
  have e: "ilog2 (x / 2) = ilog2 x - 1"
    using ilog2_bounds [OF x] by (intro ilog2_unique) (simp_all add: power_int_diff power_int_add)
  have u: "ulp p (ilog2 x) = 2 * ulp p (ilog2 x - 1)"
    by (simp add: ulp_def power_int_diff power_int_add)
  show ?thesis by (simp add: fl_pos_def Let_def e u)
qed

lemma fl_half: "fl p (x / 2) = fl p x / 2"
  using fl_pos_half [of x p] fl_pos_half [of "- x" p] by (simp add: fl_def)

lemma fl_dyadic: "1 \<le> p \<Longrightarrow> \<bar>n\<bar> \<le> 2 ^ p \<Longrightarrow> fl p (of_int n / 2 ^ k) = of_int n / 2 ^ k"
proof (induction k)
  case (Suc k)
  then have "fl p (of_int n / 2 ^ k / 2) = of_int n / 2 ^ k / 2" by (simp only: fl_half)
  then show ?case by (simp add: mult.commute)
qed (simp add: fl_of_int)

section \<open>The interface of rounding\<close>

locale rounding =
  fixes rnd :: "rat \<Rightarrow> rat" and lim :: int
  assumes lim_pos: "0 < lim"
    and rnd_mono: "x \<le> y \<Longrightarrow> rnd x \<le> rnd y"
    and rnd_dyadic: "\<bar>n\<bar> \<le> lim \<Longrightarrow> rnd (of_int n / 2 ^ k) = of_int n / 2 ^ k"
begin

lemma rnd_int: "\<bar>n\<bar> \<le> lim \<Longrightarrow> rnd (of_int n) = of_int n"
  using rnd_dyadic [of n 0] by simp

lemma rnd_le: "x \<le> of_int n \<Longrightarrow> \<bar>n\<bar> \<le> lim \<Longrightarrow> rnd x \<le> of_int n"
  by (metis rnd_mono rnd_int)

lemma rnd_ge: "of_int n \<le> x \<Longrightarrow> \<bar>n\<bar> \<le> lim \<Longrightarrow> of_int n \<le> rnd x"
  by (metis rnd_mono rnd_int)

lemma rnd_0 [simp]: "rnd 0 = 0"
  using rnd_int [of 0] lim_pos by simp

lemma rnd_1 [simp]: "rnd 1 = 1"
  using rnd_int [of 1] lim_pos by simp

lemma rnd_nonneg: "0 \<le> x \<Longrightarrow> 0 \<le> rnd x"
  using rnd_ge [of 0 x] lim_pos by simp

lemma rnd_le_1: "x \<le> 1 \<Longrightarrow> rnd x \<le> 1"
  using rnd_le [of x 1] lim_pos by simp

lemma rnd_scale:
  assumes "0 \<le> k" "k \<le> 1" "0 \<le> n" "n \<le> lim"
  shows "0 \<le> rnd (of_int n * k)" "rnd (of_int n * k) \<le> of_int n"
proof -
  show "0 \<le> rnd (of_int n * k)" using assms by (intro rnd_nonneg) simp
  have "of_int n * k \<le> of_int n"
    using assms by (metis mult.right_neutral mult_left_mono of_int_0_le_iff)
  then show "rnd (of_int n * k) \<le> of_int n" using assms by (intro rnd_le) simp_all
qed

text \<open>
  A quotient that stays a whole \<open>1/s\<close> below an integer is not rounded up to it, as long as
  the denominator is small against the precision.
\<close>

lemma rnd_below_int:
  assumes "x \<le> of_int n - 1 / of_int s" "0 < s" "s \<le> 1024" "0 \<le> n" "n * 1024 \<le> lim"
  shows "rnd x < of_int n"
proof -
  have "(1::rat) / 1024 \<le> 1 / of_int s" using assms by (simp add: frac_le)
  then have "x \<le> of_int n - 1 / 1024" using assms(1) by linarith
  also have "\<dots> = of_int (n * 1024 - 1) / 2 ^ 10" by simp
  finally have "rnd x \<le> rnd (of_int (n * 1024 - 1) / 2 ^ 10)" by (rule rnd_mono)
  also have "\<dots> = of_int (n * 1024 - 1) / 2 ^ 10"
    using assms lim_pos by (intro rnd_dyadic) linarith
  also have "\<dots> < of_int n" by simp
  finally show ?thesis .
qed

end

definition dbl :: "rat \<Rightarrow> rat" where
  "dbl x = fl 53 x"

definition flt :: "rat \<Rightarrow> rat" where
  "flt x = fl 24 x"

interpretation dbl: rounding dbl "2 ^ 53"
  by unfold_locales (simp_all add: dbl_def fl_mono fl_dyadic)

interpretation flt: rounding flt "2 ^ 24"
  by unfold_locales (simp_all add: flt_def fl_mono fl_dyadic)

text \<open>
  Conversions to integers: \<open>(int)x\<close> drops the fraction; \<open>(uint8_t)x\<close> does too and is undefined
  when the result is not a byte; \<open>std::round\<close> rounds halves away from zero.
\<close>

definition trunc_rat :: "rat \<Rightarrow> int" where
  "trunc_rat x = (if x < 0 then - \<lfloor>- x\<rfloor> else \<lfloor>x\<rfloor>)"

definition rat_to_u8 :: "rat \<Rightarrow> byte res" where
  "rat_to_u8 x =
     (if 0 \<le> trunc_rat x \<and> trunc_rat x \<le> 255 then Inr (u8 (trunc_rat x)) else Inl Undefined)"

definition round_away :: "rat \<Rightarrow> int" where
  "round_away x = (if x < 0 then - \<lfloor>1/2 - x\<rfloor> else \<lfloor>x + 1/2\<rfloor>)"

lemma trunc_rat_of_int [simp]: "trunc_rat (of_int n) = n"
  by (simp add: trunc_rat_def)

lemma trunc_rat_sign: "0 \<le> x \<Longrightarrow> 0 \<le> trunc_rat x" "x \<le> 0 \<Longrightarrow> trunc_rat x \<le> 0"
  by (simp_all add: trunc_rat_def)

lemma trunc_rat_mono: "x \<le> y \<Longrightarrow> trunc_rat x \<le> trunc_rat y"
proof (cases "x < 0 \<and> 0 \<le> y")
  case True
  then show ?thesis using trunc_rat_sign(2) [of x] trunc_rat_sign(1) [of y] by simp
next
  case False
  assume "x \<le> y"
  with False floor_mono [of x y] floor_mono [of "- y" "- x"] show ?thesis
    by (auto simp: trunc_rat_def)
qed

lemma trunc_rat_range:
  "of_int a \<le> x \<Longrightarrow> x \<le> of_int b \<Longrightarrow> a \<le> trunc_rat x \<and> trunc_rat x \<le> b"
  using trunc_rat_mono [of "of_int a" x] trunc_rat_mono [of x "of_int b"] by simp

lemma rat_to_u8_ok:
  assumes "0 \<le> x" "x \<le> of_int n" "n \<le> 255"
  obtains b where "rat_to_u8 x = Inr b" "uint b \<le> n"
proof -
  have "0 \<le> trunc_rat x \<and> trunc_rat x \<le> n" using trunc_rat_range [of 0 x n] assms by simp
  with assms show thesis
    by (intro that [of "u8 (trunc_rat x)"]) (simp_all add: rat_to_u8_def u8_small)
qed

lemma round_away_sign: "0 \<le> x \<Longrightarrow> 0 \<le> round_away x" "x \<le> 0 \<Longrightarrow> round_away x \<le> 0"
proof -
  show "0 \<le> x \<Longrightarrow> 0 \<le> round_away x"
    by (auto simp: round_away_def)
  show "x \<le> 0 \<Longrightarrow> round_away x \<le> 0"
    by (cases "x = 0") (auto simp: round_away_def floor_eq_iff)
qed

lemma round_away_mono: "x \<le> y \<Longrightarrow> round_away x \<le> round_away y"
proof (cases "x < 0 \<and> 0 \<le> y")
  case True
  then show ?thesis using round_away_sign(2) [of x] round_away_sign(1) [of y] by simp
next
  case False
  assume "x \<le> y"
  with False floor_mono [of "x + 1/2" "y + 1/2"] floor_mono [of "1/2 - y" "1/2 - x"] show ?thesis
    by (auto simp: round_away_def)
qed

lemma round_away_of_int [simp]: "round_away (of_int n) = n"
  unfolding round_away_def by (auto simp: floor_eq_iff)

end
