(* ===== verification/BlackBorder.thy ===== *)
theory BlackBorder
  imports Images Doubles
begin

text \<open>
  \<open>hyperion::BlackBorderDetector\<close> (\<open>include/blackborder/BlackBorderDetector.h\<close>,
  \<open>libsrc/blackborder/BlackBorderDetector.cpp\<close>): the detection of black borders on one image
  in the three modes, and that each mode finds the exact border of a letterboxed picture.
\<close>

section \<open>Operations\<close>

record BlackBorder =
  bb_unknown :: bool
  bb_horizontalSize :: int
  bb_verticalSize :: int

definition bb_eq :: "BlackBorder \<Rightarrow> BlackBorder \<Rightarrow> bool" where
  "bb_eq a b =
     (if bb_unknown a then bb_unknown b
      else bb_unknown b = False \<and> bb_horizontalSize a = bb_horizontalSize b \<and>
           bb_verticalSize a = bb_verticalSize b)"

definition calculateThreshold :: "rat \<Rightarrow> byte" where
  "calculateThreshold threshold =
     (let rgbThreshold = \<lceil>dbl (threshold * 255)\<rceil> in
      if rgbThreshold < 0 then u8 0 else if rgbThreshold > 255 then u8 255 else u8 rgbThreshold)"

definition isBlack :: "byte \<Rightarrow> ColorRgb \<Rightarrow> bool" where
  "isBlack thr c \<longleftrightarrow> red c < thr \<and> green c < thr \<and> blue c < thr"

text \<open>A search loop: the first index of the list whose test succeeds, \<open>-1\<close> if there is none.\<close>

fun scan :: "(nat \<Rightarrow> bool res) \<Rightarrow> nat list \<Rightarrow> int res" where
  "scan test [] = Inr (-1)"
| "scan test (x # xs) = res_bind (test x) (\<lambda>hit. if hit then Inr (int x) else scan test xs)"

text \<open>Whether some pixel of a list of positions is not black.\<close>

fun some_not_black :: "byte \<Rightarrow> ColorRgb image \<Rightarrow> (nat \<times> nat) list \<Rightarrow> bool res" where
  "some_not_black thr im [] = Inr False"
| "some_not_black thr im ((x, y) # ps) =
     res_bind (img_at im x y) (\<lambda>c. res_bind (some_not_black thr im ps) (\<lambda>b. Inr (\<not> isBlack thr c \<or> b)))"

definition make_border :: "int \<Rightarrow> int \<Rightarrow> BlackBorder" where
  "make_border firstX firstY =
     \<lparr>bb_unknown = (firstX = -1 \<or> firstY = -1), bb_horizontalSize = firstY, bb_verticalSize = firstX\<rparr>"

definition bb_process :: "byte \<Rightarrow> ColorRgb image \<Rightarrow> BlackBorder res" where
  "bb_process thr im =
     (let width = img_width im; height = img_height im;
          width33percent = width div 3; height33percent = height div 3;
          width66percent = width33percent * 2; height66percent = height33percent * 2;
          xCenter = width div 2; yCenter = height div 2;
          w1 = width - 1; h1 = height - 1
      in res_bind (scan (\<lambda>x. some_not_black thr im
             [(w1 - x, yCenter), (x, height33percent), (x, height66percent)]) [0 ..< width33percent]) (\<lambda>firstX.
         res_bind (scan (\<lambda>y. some_not_black thr im
             [(xCenter, h1 - y), (width33percent, y), (width66percent, y)]) [0 ..< height33percent]) (\<lambda>firstY.
         Inr (make_border firstX firstY))))"

text \<open>
  The two walks of the classic mode, towards the left and towards the top: each goes on while
  the next pixel is not black.
\<close>

fun walk :: "(nat \<Rightarrow> bool res) \<Rightarrow> nat \<Rightarrow> nat res" where
  "walk black 0 = Inr 0"
| "walk black (Suc n) = res_bind (black n) (\<lambda>b. if b then Inr (Suc n) else walk black n)"

definition bb_process_classic :: "byte \<Rightarrow> ColorRgb image \<Rightarrow> BlackBorder res" where
  "bb_process_classic thr im =
     (let width = img_width im div 3; height = img_height im div 3; maxSize = max width height in
      res_bind (scan (\<lambda>i. some_not_black thr im [(min i width, min i height)]) [0 ..< maxSize]) (\<lambda>hit.
        if hit = -1 then Inr (make_border (-1) (-1))
        else
          (let x0 = min (nat hit) width; y0 = min (nat hit) height in
           res_bind (walk (\<lambda>x. res_bind (img_at im x y0) (\<lambda>c. Inr (isBlack thr c))) x0) (\<lambda>x1.
           res_bind (walk (\<lambda>y. res_bind (img_at im x1 y) (\<lambda>c. Inr (isBlack thr c))) y0) (\<lambda>y1.
           Inr (make_border (int x1) (int y1)))))))"

definition bb_process_osd :: "byte \<Rightarrow> ColorRgb image \<Rightarrow> BlackBorder res" where
  "bb_process_osd thr im =
     (let width = img_width im; height = img_height im;
          width33percent = width div 3; height33percent = height div 3;
          height66percent = height33percent * 2; yCenter = height div 2;
          w1 = width - 1; h1 = height - 1
      in res_bind (scan (\<lambda>x. some_not_black thr im
             [(w1 - x, yCenter), (x, height33percent), (x, height66percent)]) [0 ..< width33percent]) (\<lambda>firstX.
         let x = (if firstX = -1 then width33percent else nat firstX) in
         res_bind (scan (\<lambda>y. some_not_black thr im
             [(x, y), (x, h1 - y), (w1 - x, y), (w1 - x, h1 - y)]) [0 ..< height33percent]) (\<lambda>firstY.
         Inr (make_border firstX firstY))))"

section \<open>Search loops\<close>

lemma scan_pure:
  assumes "\<And>x. x \<in> set xs \<Longrightarrow> test x = Inr (f x)"
  shows "scan test xs = Inr (case List.find f xs of None \<Rightarrow> -1 | Some x \<Rightarrow> int x)"
  using assms by (induction xs) auto

lemma find_upt_None: "List.find f [0 ..< n] = None \<longleftrightarrow> (\<forall>x < n. \<not> f x)"
  by (auto simp: find_None_iff)

lemma find_upt_Some:
  assumes "x < n" "f x" "\<And>y. y < x \<Longrightarrow> \<not> f y"
  shows "List.find f [0 ..< n] = Some x"
proof -
  have "[0 ..< n] = [0 ..< x] @ x # [Suc x ..< n]"
    using assms(1) upt_add_eq_append [of 0 x "n - x"] by (simp add: upt_conv_Cons)
  moreover have "List.find f [0 ..< x] = None" using assms(3) by (simp add: find_upt_None)
  moreover have "List.find f (as @ bs) = (case List.find f as of None \<Rightarrow> List.find f bs | Some y \<Rightarrow> Some y)" for as bs
    by (induction as) simp_all
  ultimately show ?thesis using assms(2) by simp
qed

lemma walk_pure:
  assumes "\<And>n. n < m \<Longrightarrow> black n = Inr (f n)" "k \<le> m" "\<And>n. k \<le> n \<Longrightarrow> n < m \<Longrightarrow> \<not> f n" "0 < k \<Longrightarrow> f (k - 1)"
  shows "walk black m = Inr k"
  using assms
proof (induction m)
  case (Suc m)
  show ?case
  proof (cases "k = Suc m")
    case True
    with Suc.prems show ?thesis by simp
  next
    case False
    then have "walk black m = Inr k" using Suc.prems by (intro Suc.IH) auto
    with False Suc.prems show ?thesis by simp
  qed
qed simp

abbreviation in_image :: "'p image \<Rightarrow> nat \<times> nat \<Rightarrow> bool" where
  "in_image im p \<equiv> fst p < img_width im \<and> snd p < img_height im"

lemma some_not_black_pure:
  assumes "img_wf im" "list_all (in_image im) ps"
  shows "some_not_black thr im ps =
    Inr (list_ex (\<lambda>p. \<not> isBlack thr (img_pixels im ! toIndex im (fst p) (snd p))) ps)"
  using assms(2)
proof (induction ps)
  case (Cons p ps)
  then show ?case by (cases p) (simp add: img_at_ok [OF assms(1)])
qed simp

declare some_not_black.simps [simp del]

section \<open>Letterboxed pictures\<close>

text \<open>
  A picture is letterboxed by \<open>v\<close> columns left and right and \<open>h\<close> rows above and below when
  exactly the pixels of that frame are black.
\<close>

definition inside_frame :: "nat \<Rightarrow> nat \<Rightarrow> nat \<Rightarrow> nat \<Rightarrow> nat \<Rightarrow> nat \<Rightarrow> bool" where
  "inside_frame w ht v h x y \<longleftrightarrow> v \<le> x \<and> x + v < w \<and> h \<le> y \<and> y + h < ht"

definition letterboxed :: "byte \<Rightarrow> ColorRgb image \<Rightarrow> nat \<Rightarrow> nat \<Rightarrow> bool" where
  "letterboxed thr im v h \<longleftrightarrow> img_wf im \<and>
     (\<forall>x < img_width im. \<forall>y < img_height im.
        isBlack thr (img_pixels im ! toIndex im x y)
          \<longleftrightarrow> \<not> inside_frame (img_width im) (img_height im) v h x y)"

lemma letterboxed_pixel:
  assumes "letterboxed thr im v h" "x < img_width im" "y < img_height im"
  shows "isBlack thr (img_pixels im ! toIndex im x y)
     \<longleftrightarrow> \<not> inside_frame (img_width im) (img_height im) v h x y"
    and "img_at im x y = Inr (img_pixels im ! toIndex im x y)"
  using assms img_at_ok [of im x y] by (simp_all add: letterboxed_def)

lemma list_ex_cong_all:
  "list_all Q ps \<Longrightarrow> (\<And>p. Q p \<Longrightarrow> A p = B p) \<Longrightarrow> list_ex A ps = list_ex B ps"
  by (induction ps) auto

lemma letterboxed_some:
  assumes "letterboxed thr im v h" "list_all (in_image im) ps"
  shows "some_not_black thr im ps =
    Inr (list_ex (\<lambda>p. inside_frame (img_width im) (img_height im) v h (fst p) (snd p)) ps)"
proof -
  have wf: "img_wf im" using assms(1) by (simp add: letterboxed_def)
  have "list_ex (\<lambda>p. \<not> isBlack thr (img_pixels im ! toIndex im (fst p) (snd p))) ps =
      list_ex (\<lambda>p. inside_frame (img_width im) (img_height im) v h (fst p) (snd p)) ps"
    using letterboxed_pixel(1) [OF assms(1)] by (intro list_ex_cong_all [OF assms(2)]) blast
  then show ?thesis by (simp only: some_not_black_pure [OF wf assms(2)])
qed

text \<open>The white picture with black borders is letterboxed.\<close>

definition letterbox_picture :: "nat \<Rightarrow> nat \<Rightarrow> nat \<Rightarrow> nat \<Rightarrow> ColorRgb image" where
  "letterbox_picture w ht v h =
     img_of (\<lambda>x y. if inside_frame w ht v h x y then rgb 255 255 255 else BLACK) w ht BLACK"

lemma letterboxed_picture: "0 < thr \<Longrightarrow> letterboxed thr (letterbox_picture w ht v h) v h"
proof -
  assume thr: "0 < thr"
  let ?im = "letterbox_picture w ht v h"
  have "img_pixels ?im ! toIndex ?im x y = (if inside_frame w ht v h x y then rgb 255 255 255 else BLACK)"
    if "x < w" "y < ht" for x y
  proof -
    have "img_wf ?im" "x < img_width ?im" "y < img_height ?im"
      using that by (simp_all add: letterbox_picture_def)
    from img_at_ok [OF this] have "Inr (img_pixels ?im ! toIndex ?im x y) = img_at ?im x y" by (rule sym)
    also have "\<dots> = Inr (if inside_frame w ht v h x y then rgb 255 255 255 else BLACK)"
      unfolding letterbox_picture_def by (rule img_at_of [OF that])
    finally show ?thesis by (simp only: sum.inject)
  qed
  moreover have "\<not> isBlack thr (rgb 255 255 255)" "isBlack thr BLACK"
    using thr byte_bound(3) [of thr] by (auto simp: isBlack_def BLACK_def word_le_nat_alt not_less)
  ultimately show ?thesis by (simp add: letterboxed_def letterbox_picture_def)
qed

lemma scan_found:
  assumes "\<And>x. x < n \<Longrightarrow> test x = Inr (f x)" "k < n" "f k" "\<And>y. y < k \<Longrightarrow> \<not> f y"
  shows "scan test [0 ..< n] = Inr (int k)"
  using scan_pure [of "[0 ..< n]" test f] find_upt_Some [of k n f] assms by simp

lemma letterboxed_columns:
  assumes lb: "letterboxed thr im v h" and v: "v < img_width im div 3" and h: "h < img_height im div 3"
  shows "scan (\<lambda>x. some_not_black thr im
      [(img_width im - 1 - x, img_height im div 2), (x, img_height im div 3), (x, img_height im div 3 * 2)])
      [0 ..< img_width im div 3] = Inr (int v)"
proof (rule scan_found)
  fix x assume x: "x < img_width im div 3"
  show "some_not_black thr im
      [(img_width im - 1 - x, img_height im div 2), (x, img_height im div 3), (x, img_height im div 3 * 2)]
      = Inr (v \<le> x)"
    using x v h by (subst letterboxed_some [OF lb]) (auto simp: inside_frame_def)
qed (use v in auto)

lemma letterboxed_rows:
  assumes lb: "letterboxed thr im v h" and v: "v < img_width im div 3" and h: "h < img_height im div 3"
  shows "scan (\<lambda>y. some_not_black thr im
      [(img_width im div 2, img_height im - 1 - y), (img_width im div 3, y), (img_width im div 3 * 2, y)])
      [0 ..< img_height im div 3] = Inr (int h)"
proof (rule scan_found)
  fix y assume y: "y < img_height im div 3"
  show "some_not_black thr im
      [(img_width im div 2, img_height im - 1 - y), (img_width im div 3, y), (img_width im div 3 * 2, y)]
      = Inr (h \<le> y)"
    using y v h by (subst letterboxed_some [OF lb]) (auto simp: inside_frame_def)
qed (use h in auto)

lemma bb_process_letterboxed:
  assumes "letterboxed thr im v h" "v < img_width im div 3" "h < img_height im div 3"
  shows "bb_process thr im =
    Inr \<lparr>bb_unknown = False, bb_horizontalSize = int h, bb_verticalSize = int v\<rparr>"
  using letterboxed_columns [OF assms] letterboxed_rows [OF assms]
  by (simp add: bb_process_def Let_def make_border_def)

text \<open>
  C28.  The default mode is exact: on a letterboxed picture whose borders are thinner than a
  third of the picture it reports precisely those borders, without reading outside the image.
\<close>

theorem bb_process_exact:
  assumes lb: "letterboxed thr im v h" and v: "v < img_width im div 3" and h: "h < img_height im div 3"
  shows "bb_process thr im =
    Inr \<lparr>bb_unknown = False, bb_horizontalSize = int h, bb_verticalSize = int v\<rparr>"
  using assms by (rule bb_process_letterboxed)

theorem bb_process_exact_witness:
  "bb_process 3 (letterbox_picture 12 9 3 2) =
    Inr \<lparr>bb_unknown = False, bb_horizontalSize = 2, bb_verticalSize = 3\<rparr>"
  using bb_process_exact [OF letterboxed_picture [of 3 12 9 3 2]]
  by (simp add: letterbox_picture_def)

text \<open>
  The classic and the osd mode report the same borders on such pictures.
\<close>

theorem bb_process_modes_exact:
  assumes lb: "letterboxed thr im v h" and v: "v < img_width im div 3" and h: "h < img_height im div 3"
  shows "bb_process_classic thr im = bb_process thr im \<and> bb_process_osd thr im = bb_process thr im"
proof -
  let ?w = "img_width im" and ?t = "img_height im"
  let ?m = "max v h"
  have black: "res_bind (img_at im x y) (\<lambda>c. Inr (isBlack thr c)) = Inr (\<not> inside_frame ?w ?t v h x y)"
    if "x < ?w" "y < ?t" for x y
    using letterboxed_pixel [OF lb that] by simp
  have border: "bb_process thr im =
      Inr \<lparr>bb_unknown = False, bb_horizontalSize = int h, bb_verticalSize = int v\<rparr>"
    using lb v h by (rule bb_process_letterboxed)
  have hit: "scan (\<lambda>i. some_not_black thr im [(min i (?w div 3), min i (?t div 3))])
      [0 ..< max (?w div 3) (?t div 3)] = Inr (int ?m)"
  proof (rule scan_found)
    fix i assume i: "i < max (?w div 3) (?t div 3)"
    show "some_not_black thr im [(min i (?w div 3), min i (?t div 3))] = Inr (?m \<le> i)"
      using i v h by (subst letterboxed_some [OF lb]) (auto simp: inside_frame_def)
  qed (use v h in auto)
  have left: "walk (\<lambda>x. res_bind (img_at im x (min ?m (?t div 3))) (\<lambda>c. Inr (isBlack thr c)))
      (min ?m (?w div 3)) = Inr v"
    by (rule walk_pure [where f = "\<lambda>x. \<not> inside_frame ?w ?t v h x (min ?m (?t div 3))"])
      (use v h in \<open>auto simp: black inside_frame_def\<close>)
  have top: "walk (\<lambda>y. res_bind (img_at im v y) (\<lambda>c. Inr (isBlack thr c))) (min ?m (?t div 3)) = Inr h"
    by (rule walk_pure [where f = "\<lambda>y. \<not> inside_frame ?w ?t v h v y"])
      (use v h in \<open>auto simp: black inside_frame_def\<close>)
  have classic: "bb_process_classic thr im = bb_process thr im"
    using hit left top border by (simp add: bb_process_classic_def Let_def make_border_def)
  have X: "scan (\<lambda>x. some_not_black thr im [(?w - 1 - x, ?t div 2), (x, ?t div 3), (x, ?t div 3 * 2)])
      [0 ..< ?w div 3] = Inr (int v)"
    by (rule letterboxed_columns [OF lb v h])
  have Y: "scan (\<lambda>y. some_not_black thr im [(v, y), (v, ?t - 1 - y), (?w - 1 - v, y), (?w - 1 - v, ?t - 1 - y)])
      [0 ..< ?t div 3] = Inr (int h)"
  proof (rule scan_found)
    fix y assume y: "y < ?t div 3"
    show "some_not_black thr im [(v, y), (v, ?t - 1 - y), (?w - 1 - v, y), (?w - 1 - v, ?t - 1 - y)] = Inr (h \<le> y)"
      using y v h by (subst letterboxed_some [OF lb]) (auto simp: inside_frame_def)
  qed (use h in auto)
  have "bb_process_osd thr im = bb_process thr im"
    using X Y border by (simp add: bb_process_osd_def Let_def make_border_def)
  with classic show ?thesis by simp
qed

theorem bb_process_modes_exact_witness:
  "bb_process_classic 3 (letterbox_picture 12 9 3 2) = bb_process 3 (letterbox_picture 12 9 3 2)"
  using bb_process_modes_exact [OF letterboxed_picture [of 3 12 9 3 2]]
  by (simp add: letterbox_picture_def)

end
