(* ===== verification/BorderProcessor.thy ===== *)
theory BorderProcessor
  imports BlackBorder
begin

text \<open>
  \<open>hyperion::BlackBorderProcessor\<close> (\<open>libsrc/blackborder/BlackBorderProcessor.cpp\<close>): the filter
  that turns the borders detected on single frames into the current border.  The counters are
  \<open>unsigned\<close> and wrap at \<open>2 ^ 32\<close>.  Shown: a border is adopted only after it has been seen
  often enough, a border that stays is adopted within a known number of frames, and short
  disturbances have no effect.
\<close>

section \<open>State and operations\<close>

record bproc =
  bp_enabled :: bool
  bp_unknownSwitchCnt :: "32 word"
  bp_borderSwitchCnt :: "32 word"
  bp_maxInconsistentCnt :: "32 word"
  bp_blurRemoveCnt :: "32 word"
  bp_detectionMode :: string
  bp_threshold :: byte
  bp_currentBorder :: BlackBorder
  bp_previousDetectedBorder :: BlackBorder
  bp_consistentCnt :: "32 word"
  bp_inconsistentCnt :: "32 word"

definition no_border :: BlackBorder where
  "no_border = \<lparr>bb_unknown = True, bb_horizontalSize = -1, bb_verticalSize = -1\<rparr>"

text \<open>The constructor, with the configuration values already read from the JSON object.\<close>

definition bp_new :: "bool \<Rightarrow> int \<Rightarrow> int \<Rightarrow> int \<Rightarrow> int \<Rightarrow> string \<Rightarrow> rat \<Rightarrow> bproc" where
  "bp_new enable unknownFrameCnt borderFrameCnt maxInconsistentCnt blurRemoveCnt mode threshold =
     \<lparr>bp_enabled = enable,
      bp_unknownSwitchCnt = word_of_int unknownFrameCnt,
      bp_borderSwitchCnt = word_of_int borderFrameCnt,
      bp_maxInconsistentCnt = word_of_int maxInconsistentCnt,
      bp_blurRemoveCnt = word_of_int blurRemoveCnt,
      bp_detectionMode = mode,
      bp_threshold = calculateThreshold threshold,
      bp_currentBorder = no_border,
      bp_previousDetectedBorder = no_border,
      bp_consistentCnt = 0,
      bp_inconsistentCnt = 10\<rparr>"

definition bp_setEnabled :: "bool \<Rightarrow> bproc \<Rightarrow> bproc" where
  "bp_setEnabled enable s = s\<lparr>bp_enabled := enable\<rparr>"

text \<open>The part of \<open>updateBorder\<close> behind the counting: the decision to switch.\<close>

definition bp_decide :: "BlackBorder \<Rightarrow> bproc \<Rightarrow> bproc \<times> bool" where
  "bp_decide newBorder s =
     (if bb_eq (bp_currentBorder s) newBorder then (s\<lparr>bp_inconsistentCnt := 0\<rparr>, False)
      else if bb_unknown newBorder then
        (if bp_consistentCnt s = bp_unknownSwitchCnt s
         then (s\<lparr>bp_currentBorder := newBorder\<rparr>, True) else (s, False))
      else
        (if bb_unknown (bp_currentBorder s) \<or> bp_consistentCnt s = bp_borderSwitchCnt s
         then (s\<lparr>bp_currentBorder := newBorder\<rparr>, True) else (s, False)))"

definition updateBorder :: "BlackBorder \<Rightarrow> bproc \<Rightarrow> bproc \<times> bool" where
  "updateBorder newBorder s =
     (if bb_eq newBorder (bp_previousDetectedBorder s)
      then bp_decide newBorder
             (s\<lparr>bp_consistentCnt := bp_consistentCnt s + 1, bp_inconsistentCnt := 0\<rparr>)
      else
        (let s1 = s\<lparr>bp_inconsistentCnt := bp_inconsistentCnt s + 1\<rparr> in
         if bp_inconsistentCnt s1 \<le> bp_maxInconsistentCnt s1 then (s1, False)
         else bp_decide newBorder
                (s1\<lparr>bp_previousDetectedBorder := newBorder, bp_consistentCnt := 0\<rparr>)))"

text \<open>
  \<open>int += unsigned\<close>: the sum is taken modulo \<open>2 ^ 32\<close> and converted back to \<open>int\<close>.
\<close>

definition blur_size :: "32 word \<Rightarrow> int \<Rightarrow> int" where
  "blur_size blur size0 = (if size0 > 0 then sint (word_of_int size0 + blur) else size0)"

definition bp_detect :: "bproc \<Rightarrow> ColorRgb image \<Rightarrow> BlackBorder res" where
  "bp_detect s im =
     (if bp_detectionMode s = ''default'' then bb_process (bp_threshold s) im
      else if bp_detectionMode s = ''classic'' then bb_process_classic (bp_threshold s) im
      else if bp_detectionMode s = ''osd'' then bb_process_osd (bp_threshold s) im
      else Inl Undefined)"

definition bp_process :: "ColorRgb image \<Rightarrow> bproc \<Rightarrow> (bproc \<times> bool) res" where
  "bp_process im s =
     (if \<not> bp_enabled s
      then Inr (s\<lparr>bp_currentBorder :=
                   \<lparr>bb_unknown = True, bb_horizontalSize = 0, bb_verticalSize = 0\<rparr>\<rparr>, True)
      else res_bind (bp_detect s im) (\<lambda>b.
             let b1 = b\<lparr>bb_horizontalSize := blur_size (bp_blurRemoveCnt s) (bb_horizontalSize b)\<rparr>;
                 b2 = b1\<lparr>bb_verticalSize := blur_size (bp_blurRemoveCnt s) (bb_verticalSize b1)\<rparr>
             in Inr (updateBorder b2 s)))"

section \<open>Basic lemmas\<close>

lemma bb_eq_refl [simp]: "bb_eq b b"
  by (simp add: bb_eq_def)

lemma bb_eq_sym: "bb_eq a b \<Longrightarrow> bb_eq b a"
  by (auto simp: bb_eq_def split: if_splits)

lemma bb_eq_trans: "bb_eq a b \<Longrightarrow> bb_eq b c \<Longrightarrow> bb_eq a c"
  by (auto simp: bb_eq_def split: if_splits)

lemma bb_eq_unknown: "bb_eq a b \<Longrightarrow> bb_unknown a = bb_unknown b"
  by (auto simp: bb_eq_def split: if_splits)

text \<open>The number of consistent frames a border needs.\<close>

definition switchCnt :: "bproc \<Rightarrow> BlackBorder \<Rightarrow> 32 word" where
  "switchCnt s b = (if bb_unknown b then bp_unknownSwitchCnt s else bp_borderSwitchCnt s)"

lemma switchCnt_counters [simp]:
  "switchCnt (s\<lparr>bp_consistentCnt := c\<rparr>) b = switchCnt s b"
  "switchCnt (s\<lparr>bp_inconsistentCnt := c\<rparr>) b = switchCnt s b"
  "switchCnt (s\<lparr>bp_previousDetectedBorder := p\<rparr>) b = switchCnt s b"
  "switchCnt (s\<lparr>bp_currentBorder := p\<rparr>) b = switchCnt s b"
  by (simp_all add: switchCnt_def)

lemma switchCnt_cong: "bb_eq a b \<Longrightarrow> switchCnt s a = switchCnt s b"
  by (simp add: switchCnt_def bb_eq_unknown)

definition same_config :: "bproc \<Rightarrow> bproc \<Rightarrow> bool" where
  "same_config s t \<longleftrightarrow>
     bp_enabled s = bp_enabled t \<and> bp_unknownSwitchCnt s = bp_unknownSwitchCnt t \<and>
     bp_borderSwitchCnt s = bp_borderSwitchCnt t \<and>
     bp_maxInconsistentCnt s = bp_maxInconsistentCnt t \<and>
     bp_blurRemoveCnt s = bp_blurRemoveCnt t \<and> bp_detectionMode s = bp_detectionMode t \<and>
     bp_threshold s = bp_threshold t"

lemma same_config_update [simp]: "same_config (fst (updateBorder b s)) s"
  by (simp add: updateBorder_def bp_decide_def same_config_def Let_def)

lemma same_config_switchCnt: "same_config s t \<Longrightarrow> switchCnt s b = switchCnt t b"
  by (simp add: same_config_def switchCnt_def)

text \<open>
  \<open>updateBorder\<close> by cases: discarded, counted without effect, or adopted.
\<close>

lemma updateBorder_discard:
  assumes "\<not> bb_eq b (bp_previousDetectedBorder s)" "bp_inconsistentCnt s + 1 \<le> bp_maxInconsistentCnt s"
  shows "updateBorder b s = (s\<lparr>bp_inconsistentCnt := bp_inconsistentCnt s + 1\<rparr>, False)"
  using assms by (simp add: updateBorder_def Let_def)

text \<open>
  The invariant: while a known current border differs from the border being counted, the count
  has not reached the number needed to switch.
\<close>

definition bp_inv :: "bproc \<Rightarrow> bool" where
  "bp_inv s \<longleftrightarrow>
     (\<not> bb_unknown (bp_currentBorder s) \<and> \<not> bb_eq (bp_currentBorder s) (bp_previousDetectedBorder s)
       \<longrightarrow> bp_consistentCnt s < switchCnt s (bp_previousDetectedBorder s))"

lemma word_Suc_less: "(c :: 32 word) < n \<Longrightarrow> c + 1 \<noteq> n \<Longrightarrow> c + 1 < n"
  by (simp add: inc_le order_less_le)

lemma decide_inv:
  assumes "bb_eq newB (bp_previousDetectedBorder s)"
    "bb_unknown (bp_currentBorder s) \<or> bb_eq (bp_currentBorder s) newB \<or>
     bp_consistentCnt s = switchCnt s newB \<or> bp_consistentCnt s < switchCnt s newB"
  shows "bp_inv (fst (bp_decide newB s))"
proof (cases "bb_eq (bp_currentBorder s) newB")
  case True
  then show ?thesis using bb_eq_trans [OF True assms(1)] by (simp add: bp_decide_def bp_inv_def)
next
  case False
  have adopted: "bp_inv (s\<lparr>bp_currentBorder := newB\<rparr>)"
    using assms(1) by (simp add: bp_inv_def)
  have kept: "bp_inv s" if "bb_unknown (bp_currentBorder s) \<or> bp_consistentCnt s < switchCnt s newB"
    using that switchCnt_cong [OF assms(1), of s] by (auto simp: bp_inv_def)
  show ?thesis
  proof (cases "bb_unknown newB")
    case True
    with False adopted kept assms(2) show ?thesis
      by (auto simp: bp_decide_def switchCnt_def)
  next
    case known: False
    with False adopted kept assms(2) show ?thesis
      by (auto simp: bp_decide_def switchCnt_def)
  qed
qed

lemma updateBorder_inv:
  assumes "bp_inv s"
  shows "bp_inv (fst (updateBorder newB s))"
proof (cases "bb_eq newB (bp_previousDetectedBorder s)")
  case True
  let ?t = "s\<lparr>bp_consistentCnt := bp_consistentCnt s + 1, bp_inconsistentCnt := 0\<rparr>"
  have "bb_unknown (bp_currentBorder s) \<or> bb_eq (bp_currentBorder s) newB \<or>
      bp_consistentCnt s + 1 = switchCnt s newB \<or> bp_consistentCnt s + 1 < switchCnt s newB"
  proof (cases "bb_unknown (bp_currentBorder s) \<or> bb_eq (bp_currentBorder s) newB")
    case pending: False
    then have "\<not> bb_eq (bp_currentBorder s) (bp_previousDetectedBorder s)"
      using True bb_eq_trans bb_eq_sym by blast
    then have "bp_consistentCnt s < switchCnt s newB"
      using assms pending switchCnt_cong [OF True, of s] by (simp add: bp_inv_def)
    then show ?thesis using word_Suc_less by blast
  qed blast
  then have "bp_inv (fst (bp_decide newB ?t))"
    using True by (intro decide_inv) simp_all
  with True show ?thesis by (simp add: updateBorder_def)
next
  case False
  show ?thesis
  proof (cases "bp_inconsistentCnt s + 1 \<le> bp_maxInconsistentCnt s")
    case True
    with assms False show ?thesis by (simp add: updateBorder_discard bp_inv_def)
  next
    case exceeded: False
    let ?t = "s\<lparr>bp_inconsistentCnt := bp_inconsistentCnt s + 1,
      bp_previousDetectedBorder := newB, bp_consistentCnt := 0\<rparr>"
    have "bp_inv (fst (bp_decide newB ?t))"
      by (intro decide_inv) (auto simp: word_neq_0_conv [symmetric])
    with False exceeded show ?thesis by (simp add: updateBorder_def Let_def)
  qed
qed

text \<open>A run over the borders detected on successive frames.\<close>

definition bp_feed :: "BlackBorder list \<Rightarrow> bproc \<Rightarrow> bproc" where
  "bp_feed bs s = fold (\<lambda>b t. fst (updateBorder b t)) bs s"

lemma bp_feed_simps [simp]:
  "bp_feed [] s = s"
  "bp_feed (b # bs) s = bp_feed bs (fst (updateBorder b s))"
  "bp_feed (bs @ cs) s = bp_feed cs (bp_feed bs s)"
  by (simp_all add: bp_feed_def)

lemma bp_feed_inv: "bp_inv s \<Longrightarrow> bp_inv (bp_feed bs s)"
  by (induction bs arbitrary: s) (simp_all add: updateBorder_inv)

lemma bp_new_inv [simp]: "bp_inv (bp_new e u b m r md thr)"
  by (simp add: bp_inv_def bp_new_def no_border_def)

section \<open>A border that stays is adopted\<close>

lemma decide_adopts:
  assumes "bb_unknown (bp_currentBorder s) \<and> \<not> bb_unknown b \<or> bp_consistentCnt s = switchCnt s b"
  shows "bb_eq (bp_currentBorder (fst (bp_decide b s))) b"
  using assms by (auto simp: bp_decide_def switchCnt_def split: if_splits)

lemma decide_keeps:
  "bb_eq (bp_currentBorder s) b \<Longrightarrow> bb_eq (bp_currentBorder (fst (bp_decide b s))) b"
  by (simp add: bp_decide_def)

lemma updateBorder_keeps:
  assumes "bb_eq (bp_currentBorder s) b"
  shows "bb_eq (bp_currentBorder (fst (updateBorder b s))) b"
  using assms by (auto simp: updateBorder_def Let_def intro!: decide_keeps)

lemma feed_keeps: "bb_eq (bp_currentBorder s) b \<Longrightarrow> bb_eq (bp_currentBorder (bp_feed (replicate n b) s)) b"
  by (induction n arbitrary: s) (simp_all add: updateBorder_keeps)

lemma unatSuc2_less: "(c :: 32 word) < n \<Longrightarrow> unat (c + 1) = Suc (unat c)"
  using unsigned_less [of n, where ?'a = nat] by (simp add: word_less_nat_alt unat_word_ariths(1))

text \<open>While the border is the one being counted.\<close>

lemma feed_counting:
  assumes "bp_inv s" "bb_eq b (bp_previousDetectedBorder s)"
    "unat (switchCnt s b) \<le> unat (bp_consistentCnt s) + n" "0 < n"
  shows "bb_eq (bp_currentBorder (bp_feed (replicate n b) s)) b"
  using assms
proof (induction n arbitrary: s)
  case (Suc n)
  let ?t = "s\<lparr>bp_consistentCnt := bp_consistentCnt s + 1, bp_inconsistentCnt := 0\<rparr>"
  let ?s = "fst (updateBorder b s)"
  have upd: "?s = fst (bp_decide b ?t)" using Suc.prems(2) by (simp add: updateBorder_def)
  consider (eq) "bb_eq (bp_currentBorder s) b"
    | (switch) "bb_unknown (bp_currentBorder s) \<and> \<not> bb_unknown b
        \<or> bp_consistentCnt s + 1 = switchCnt s b"
    | (wait) "\<not> bb_eq (bp_currentBorder s) b" "\<not> bb_unknown (bp_currentBorder s)"
        "bp_consistentCnt s + 1 \<noteq> switchCnt s b"
    | (both) "\<not> bb_eq (bp_currentBorder s) b" "bb_unknown (bp_currentBorder s)" "bb_unknown b"
    by blast
  then show ?case
  proof cases
    case eq
    then show ?thesis by (simp add: feed_keeps updateBorder_keeps)
  next
    case switch
    then have "bb_eq (bp_currentBorder ?s) b"
      unfolding upd by (intro decide_adopts) auto
    then show ?thesis by (simp add: feed_keeps)
  next
    case both
    then show ?thesis by (simp add: bb_eq_def)
  next
    case wait
    have less: "bp_consistentCnt s < switchCnt s b"
      using Suc.prems(1,2) wait(1,2) switchCnt_cong [OF Suc.prems(2), of s]
        bb_eq_trans bb_eq_sym unfolding bp_inv_def by metis
    then have "bp_consistentCnt s + 1 < switchCnt s b" using wait(3) by (rule word_Suc_less)
    moreover have cnt: "unat (bp_consistentCnt s + 1) = Suc (unat (bp_consistentCnt s))"
      using less by (metis unatSuc2_less)
    ultimately have n: "0 < n" and fuel: "unat (switchCnt s b) \<le> unat (bp_consistentCnt s + 1) + n"
      using Suc.prems(3) by (auto simp: word_less_nat_alt)
    have st: "?s = ?t"
      using wait unfolding upd by (auto simp: bp_decide_def switchCnt_def split: if_splits)
    have "bp_inv ?s" using Suc.prems(1) by (rule updateBorder_inv)
    then have "bb_eq (bp_currentBorder (bp_feed (replicate n b) ?s)) b"
      using n fuel Suc.prems(2) by (intro Suc.IH) (simp_all add: st)
    then show ?thesis by simp
  qed
qed simp

text \<open>The number of frames still discarded before another border is counted.\<close>

definition discards_left :: "bproc \<Rightarrow> nat" where
  "discards_left s =
     (if bp_inconsistentCnt s + 1 \<le> bp_maxInconsistentCnt s
      then Suc (unat (bp_maxInconsistentCnt s) - unat (bp_inconsistentCnt s + 1)) else 0)"

lemma discards_left_bound: "discards_left s \<le> Suc (unat (bp_maxInconsistentCnt s))"
  by (simp add: discards_left_def)

lemma discard_decreases:
  assumes "bp_inconsistentCnt s + 1 \<le> bp_maxInconsistentCnt s" "bp_maxInconsistentCnt s \<noteq> - 1"
  shows "Suc (discards_left (s\<lparr>bp_inconsistentCnt := bp_inconsistentCnt s + 1\<rparr>)) = discards_left s"
proof -
  let ?i = "bp_inconsistentCnt s + 1" and ?m = "bp_maxInconsistentCnt s"
  have "?i < - 1" using assms order_le_less_trans [OF assms(1)] by (simp add: order_less_le)
  then have "unat (?i + 1) = Suc (unat ?i)" by (rule unatSuc2_less)
  with assms show ?thesis by (simp add: discards_left_def word_le_nat_alt) arith
qed

lemma feed_stable:
  assumes "bp_inv s" "bp_maxInconsistentCnt s \<noteq> - 1"
    "discards_left s + 1 + unat (switchCnt s b) \<le> n"
  shows "bb_eq (bp_currentBorder (bp_feed (replicate n b) s)) b"
  using assms
proof (induction n arbitrary: s)
  case (Suc n)
  let ?s = "fst (updateBorder b s)"
  have inv: "bp_inv ?s" using Suc.prems(1) by (rule updateBorder_inv)
  show ?case
  proof (cases "bb_eq b (bp_previousDetectedBorder s)")
    case True
    with Suc.prems show ?thesis by (intro feed_counting) auto
  next
    case new: False
    show ?thesis
    proof (cases "bp_inconsistentCnt s + 1 \<le> bp_maxInconsistentCnt s")
      case True
      with new have st: "?s = s\<lparr>bp_inconsistentCnt := bp_inconsistentCnt s + 1\<rparr>"
        by (simp add: updateBorder_discard)
      have "bb_eq (bp_currentBorder (bp_feed (replicate n b) ?s)) b"
        using Suc.prems discard_decreases [OF True Suc.prems(2)] inv
        by (intro Suc.IH) (simp_all add: st)
      then show ?thesis by simp
    next
      case False
      let ?t = "s\<lparr>bp_inconsistentCnt := bp_inconsistentCnt s + 1,
        bp_previousDetectedBorder := b, bp_consistentCnt := 0\<rparr>"
      have upd: "?s = fst (bp_decide b ?t)"
        using new False by (simp add: updateBorder_def Let_def)
      have prev: "bb_eq b (bp_previousDetectedBorder ?s)" "bp_consistentCnt ?s = 0"
        unfolding upd by (simp_all add: bp_decide_def)
      show ?thesis
      proof (cases n)
        case 0
        then have "switchCnt s b = 0" using Suc.prems(3) by (simp add: unat_eq_zero)
        then have "bb_eq (bp_currentBorder ?s) b"
          unfolding upd by (intro decide_adopts) simp
        with 0 show ?thesis by simp
      next
        case (Suc k)
        have "switchCnt ?s b = switchCnt s b" by (rule same_config_switchCnt) simp
        then have "bb_eq (bp_currentBorder (bp_feed (replicate n b) ?s)) b"
          using inv prev Suc Suc.prems(3) by (intro feed_counting) auto
        then show ?thesis by simp
      qed
    qed
  qed
qed simp

section \<open>A border is adopted only after it was seen often enough\<close>

definition seen :: "BlackBorder \<Rightarrow> BlackBorder list \<Rightarrow> nat" where
  "seen b bs = length (filter (\<lambda>x. bb_eq x b) bs)"

lemma seen_simps [simp]:
  "seen b [] = 0"
  "seen b (bs @ cs) = seen b bs + seen b cs"
  "seen b [x] = (if bb_eq x b then 1 else 0)"
  by (simp_all add: seen_def)

lemma seen_cong: "bb_eq a b \<Longrightarrow> seen a bs = seen b bs"
proof -
  assume ab: "bb_eq a b"
  have "bb_eq x a \<longleftrightarrow> bb_eq x b" for x using ab bb_eq_trans bb_eq_sym by blast
  then show ?thesis by (simp add: seen_def)
qed

lemma updateBorder_consistentCnt:
  "bp_consistentCnt (fst (updateBorder b s)) =
     (if bb_eq b (bp_previousDetectedBorder s) then bp_consistentCnt s + 1
      else if bp_inconsistentCnt s + 1 \<le> bp_maxInconsistentCnt s then bp_consistentCnt s else 0)"
  by (simp add: updateBorder_def bp_decide_def Let_def)

lemma updateBorder_count:
  "unat (bp_consistentCnt (fst (updateBorder b s))) \<le>
     (if bb_eq b (bp_previousDetectedBorder s) then Suc (unat (bp_consistentCnt s))
      else unat (bp_consistentCnt s))"
proof -
  have "unat (bp_consistentCnt s + 1) \<le> Suc (unat (bp_consistentCnt s))"
    by (simp add: unat_word_ariths(1))
  then show ?thesis by (simp add: updateBorder_consistentCnt)
qed

lemma updateBorder_previous:
  "bp_previousDetectedBorder (fst (updateBorder b s)) = bp_previousDetectedBorder s
   \<or> bp_previousDetectedBorder (fst (updateBorder b s)) = b \<and> bp_consistentCnt (fst (updateBorder b s)) = 0"
  by (simp add: updateBorder_def bp_decide_def Let_def)

text \<open>The counter never exceeds the number of frames that showed the counted border.\<close>

lemma feed_count:
  assumes "bp_consistentCnt s = 0"
  shows "unat (bp_consistentCnt (bp_feed bs s)) \<le> seen (bp_previousDetectedBorder (bp_feed bs s)) bs"
proof (induction bs rule: rev_induct)
  case (snoc b bs)
  let ?t = "bp_feed bs s"
  have "bp_feed (bs @ [b]) s = fst (updateBorder b ?t)" by simp
  with snoc show ?case
    using updateBorder_count [of b ?t] updateBorder_previous [of b ?t]
    by (auto split: if_splits)
qed (simp add: assms)

lemma updateBorder_adopts:
  assumes "bp_currentBorder (fst (updateBorder b s)) \<noteq> bp_currentBorder s"
  shows "snd (updateBorder b s) \<and> bp_currentBorder (fst (updateBorder b s)) = b \<and>
    bb_eq b (bp_previousDetectedBorder (fst (updateBorder b s))) \<and>
    (bb_unknown (bp_currentBorder s) \<and> \<not> bb_unknown b \<or>
     bp_consistentCnt (fst (updateBorder b s)) = switchCnt s b)"
  using assms by (auto simp: updateBorder_def bp_decide_def Let_def switchCnt_def split: if_splits)

lemma same_config_feed: "same_config (bp_feed bs s) s"
proof (induction bs arbitrary: s)
  case (Cons b bs)
  have "same_config (bp_feed bs (fst (updateBorder b s))) (fst (updateBorder b s))" by (rule Cons)
  moreover have "same_config (fst (updateBorder b s)) s" by simp
  ultimately show ?case by (simp add: same_config_def)
qed (simp add: same_config_def)

text \<open>
  Debouncing, for a border processor fresh from its constructor and any sequence of
  detected borders: when the last frame changes a known current border, then the new border is
  the one detected on that frame, the operation reports the change, and the border has been
  detected on at least as many frames as the configuration asks for (\<open>borderFrameCnt\<close> for a
  known border, \<open>unknownFrameCnt\<close> for the unknown one).
\<close>

theorem border_adopted_when_consistent:
  fixes enable :: bool and u b m r :: int and mode :: string and thr :: rat
  assumes "s = bp_feed bs (bp_new enable u b m r mode thr)"
    and "\<not> bb_unknown (bp_currentBorder s)"
    and "bp_currentBorder (fst (updateBorder new s)) \<noteq> bp_currentBorder s"
  shows "bp_currentBorder (fst (updateBorder new s)) = new \<and> snd (updateBorder new s) \<and>
    unat (switchCnt (bp_new enable u b m r mode thr) new) \<le> seen new (bs @ [new])"
proof -
  let ?s0 = "bp_new enable u b m r mode thr"
  let ?t = "fst (updateBorder new s)"
  have t: "?t = bp_feed (bs @ [new]) ?s0" by (simp add: assms(1))
  have adopt: "snd (updateBorder new s)" "bp_currentBorder ?t = new"
      "bb_eq new (bp_previousDetectedBorder ?t)" "bp_consistentCnt ?t = switchCnt s new"
    using updateBorder_adopts [OF assms(3)] assms(2) by auto
  have "switchCnt ?s0 new = switchCnt s new"
    using same_config_switchCnt [OF same_config_feed] by (simp add: assms(1))
  moreover have "unat (bp_consistentCnt ?t) \<le> seen (bp_previousDetectedBorder ?t) (bs @ [new])"
    unfolding t by (rule feed_count) (simp add: bp_new_def)
  ultimately show ?thesis using adopt seen_cong [OF adopt(3)] by simp
qed

definition full_border :: BlackBorder where
  "full_border = \<lparr>bb_unknown = False, bb_horizontalSize = 0, bb_verticalSize = 0\<rparr>"

definition wide_border :: BlackBorder where
  "wide_border = \<lparr>bb_unknown = False, bb_horizontalSize = 12, bb_verticalSize = 0\<rparr>"

theorem border_adopted_when_consistent_witness:
  "bp_currentBorder (fst (updateBorder wide_border
      (bp_feed [full_border, wide_border, wide_border] (bp_new True 3 2 0 1 ''default'' 0)))) = wide_border"
proof -
  let ?s = "bp_feed [full_border, wide_border, wide_border] (bp_new True 3 2 0 1 ''default'' 0)"
  have st: "\<not> bb_unknown (bp_currentBorder ?s)"
      "bp_currentBorder (fst (updateBorder wide_border ?s)) \<noteq> bp_currentBorder ?s"
    by (simp_all add: bp_new_def no_border_def full_border_def wide_border_def updateBorder_def
        bp_decide_def bb_eq_def Let_def)
  show ?thesis using border_adopted_when_consistent [OF refl st] by simp
qed

text \<open>
  C29.  A border that stays is adopted: from every state the processor can reach, feeding the
  same border makes it the current one after at most \<open>maxInconsistentCnt + 2\<close> frames plus the
  number of consistent frames it needs, and it stays.  (With \<open>maxInconsistentCnt\<close> at the
  largest \<open>unsigned\<close> value every other border would be discarded for ever.)
\<close>

theorem border_adopted_eventually:
  fixes enable :: bool and u b m r :: int and mode :: string and thr :: rat
  assumes "s = bp_feed bs (bp_new enable u b m r mode thr)"
    and "(word_of_int m :: 32 word) \<noteq> - 1"
    and "unat (word_of_int m :: 32 word) + 2 + unat (switchCnt s new) \<le> n"
  shows "bb_eq (bp_currentBorder (bp_feed (replicate n new) s)) new"
proof (rule feed_stable)
  have m: "bp_maxInconsistentCnt s = word_of_int m"
    using same_config_feed [of bs "bp_new enable u b m r mode thr"]
    by (simp add: assms(1) same_config_def bp_new_def)
  show "bp_inv s" by (simp add: assms(1) bp_feed_inv)
  show "bp_maxInconsistentCnt s \<noteq> - 1" using assms(2) m by simp
  show "discards_left s + 1 + unat (switchCnt s new) \<le> n"
    using discards_left_bound [of s] assms(3) m by simp
qed

theorem border_adopted_eventually_witness:
  "bb_eq (bp_currentBorder (bp_feed (replicate 62 wide_border)
      (bp_feed [full_border] (bp_new True 600 50 10 1 ''default'' 0)))) wide_border"
proof -
  let ?s = "bp_feed [full_border] (bp_new True 600 50 10 1 ''default'' 0)"
  have "switchCnt ?s wide_border = switchCnt (bp_new True 600 50 10 1 ''default'' 0) wide_border"
    by (rule same_config_switchCnt [OF same_config_feed])
  also have "\<dots> = 50" by (simp add: switchCnt_def bp_new_def wide_border_def)
  finally show ?thesis
    by (intro border_adopted_eventually [OF refl, of 10]) simp_all
qed

text \<open>
  Short disturbances have no effect: after a frame that showed the border being counted,
  up to \<open>maxInconsistentCnt\<close> frames with other borders only move the inconsistency counter; the
  current border, the counted border and its count are as before.
\<close>

theorem disturbance_ignored:
  assumes "bp_inconsistentCnt s = 0" "length bs \<le> unat (bp_maxInconsistentCnt s)"
    and "\<forall>b \<in> set bs. \<not> bb_eq b (bp_previousDetectedBorder s)"
  shows "bp_feed bs s = s\<lparr>bp_inconsistentCnt := of_nat (length bs)\<rparr>"
  using assms(2,3)
proof (induction bs rule: rev_induct)
  case (snoc b bs)
  let ?t = "s\<lparr>bp_inconsistentCnt := of_nat (length bs)\<rparr>"
  have IH: "bp_feed bs s = ?t" using snoc by simp
  have "Suc (length bs) < 2 ^ 32"
    using snoc.prems(1) unsigned_less [of "bp_maxInconsistentCnt s", where ?'a = nat] by simp
  then have "unat (of_nat (length bs) + 1 :: 32 word) = Suc (length bs)"
    by (simp add: unat_word_ariths(1) unat_of_nat take_bit_nat_eq_self)
  then have "of_nat (length bs) + 1 \<le> bp_maxInconsistentCnt s"
    using snoc.prems(1) by (simp add: word_le_nat_alt)
  then have "updateBorder b ?t = (?t\<lparr>bp_inconsistentCnt := of_nat (length bs) + 1\<rparr>, False)"
    using snoc.prems(2) by (subst updateBorder_discard) simp_all
  then show ?case by (simp add: IH add.commute)
qed (use assms(1) in simp)

theorem disturbance_ignored_witness:
  "bp_currentBorder (bp_feed [wide_border, wide_border]
      (bp_feed [full_border, full_border] (bp_new True 600 50 2 1 ''default'' 0))) = full_border"
  (is "bp_currentBorder (bp_feed _ ?s) = _")
proof -
  have "bp_feed [wide_border, wide_border] ?s = ?s\<lparr>bp_inconsistentCnt := of_nat (length [wide_border, wide_border])\<rparr>"
    by (rule disturbance_ignored) (simp_all add: bp_new_def no_border_def full_border_def
        wide_border_def updateBorder_def bp_decide_def bb_eq_def Let_def)
  then show ?thesis
    by (simp add: bp_new_def no_border_def full_border_def updateBorder_def bp_decide_def bb_eq_def Let_def)
qed

end
