(* ===== verification/LedConfig.thy ===== *)
theory LedConfig
  imports Doubles "HOL-Library.Multiset"
begin

text \<open>
  The description of the leds: \<open>Led\<close>, \<open>ColorOrder\<close> and \<open>LedString\<close>
  (\<open>include/hyperion/LedString.h\<close>) and their construction from the configuration
  (\<open>Hyperion::createLedString\<close>, \<open>createLedStringClone\<close>, \<open>getLedLayoutGridSize\<close> in
  \<open>libsrc/hyperion/Hyperion.cpp\<close>).  A configuration entry is the record of the values its JSON
  object yields through \<open>toInt\<close>, \<open>toDouble\<close> and \<open>toString\<close>.
\<close>

section \<open>Colour order\<close>

datatype ColorOrder = ORDER_RGB | ORDER_RBG | ORDER_GRB | ORDER_BRG | ORDER_GBR | ORDER_BGR

fun colorOrderToString :: "ColorOrder \<Rightarrow> string" where
  "colorOrderToString ORDER_RGB = ''rgb''"
| "colorOrderToString ORDER_RBG = ''rbg''"
| "colorOrderToString ORDER_GRB = ''grb''"
| "colorOrderToString ORDER_BRG = ''brg''"
| "colorOrderToString ORDER_GBR = ''gbr''"
| "colorOrderToString ORDER_BGR = ''bgr''"

definition stringToColorOrder :: "string \<Rightarrow> ColorOrder" where
  "stringToColorOrder order =
     (if order = ''rgb'' then ORDER_RGB
      else if order = ''bgr'' then ORDER_BGR
      else if order = ''rbg'' then ORDER_RBG
      else if order = ''brg'' then ORDER_BRG
      else if order = ''gbr'' then ORDER_GBR
      else if order = ''grb'' then ORDER_GRB
      else ORDER_RGB)"

lemma colorOrder_round_trip [simp]: "stringToColorOrder (colorOrderToString c) = c"
  by (cases c) (simp_all add: stringToColorOrder_def)

section \<open>Leds\<close>

record Led =
  led_index :: nat
  minX_frac :: rat
  maxX_frac :: rat
  minY_frac :: rat
  maxY_frac :: rat
  led_clone :: int
  led_colorOrder :: ColorOrder

text \<open>One entry of the \<open>leds\<close> array: the accessed fields, \<open>None\<close> where the default applies.\<close>

record led_cfg =
  cfg_index :: int
  cfg_clone :: "int option"
  cfg_hmin :: rat
  cfg_hmax :: rat
  cfg_vmin :: rat
  cfg_vmax :: rat
  cfg_order :: "string option"

text \<open>\<open>std::max(0.0, std::min(1.0, x))\<close>\<close>

definition clamp_frac :: "rat \<Rightarrow> rat" where
  "clamp_frac x = max 0 (min 1 x)"

definition swap_frac :: "rat \<Rightarrow> rat \<Rightarrow> rat \<times> rat" where
  "swap_frac a b = (if a > b then (b, a) else (a, b))"

text \<open>The clone index of an entry after the range check against the number of entries.\<close>

definition clone_of :: "nat \<Rightarrow> led_cfg \<Rightarrow> int" where
  "clone_of maxLedId c =
     (let cl = (case cfg_clone c of None \<Rightarrow> -1 | Some i \<Rightarrow> i) in
      if cl < -1 \<or> cl \<ge> int maxLedId then -1 else cl)"

definition order_of :: "ColorOrder \<Rightarrow> led_cfg \<Rightarrow> ColorOrder" where
  "order_of deviceOrder c =
     stringToColorOrder (case cfg_order c of None \<Rightarrow> colorOrderToString deviceOrder | Some s \<Rightarrow> s)"

definition make_led :: "ColorOrder \<Rightarrow> led_cfg \<Rightarrow> Led" where
  "make_led deviceOrder c =
     (let (x0, x1) = swap_frac (clamp_frac (cfg_hmin c)) (clamp_frac (cfg_hmax c));
          (y0, y1) = swap_frac (clamp_frac (cfg_vmin c)) (clamp_frac (cfg_vmax c))
      in \<lparr>led_index = nat (cfg_index c mod 2 ^ 32), minX_frac = x0, maxX_frac = x1,
          minY_frac = y0, maxY_frac = y1, led_clone = -1, led_colorOrder = order_of deviceOrder c\<rparr>)"

definition make_clone :: "nat \<Rightarrow> ColorOrder \<Rightarrow> led_cfg \<Rightarrow> Led" where
  "make_clone n deviceOrder c =
     \<lparr>led_index = nat (cfg_index c mod 2 ^ 32), minX_frac = 0, maxX_frac = 0,
      minY_frac = 0, maxY_frac = 0, led_clone = clone_of n c, led_colorOrder = order_of deviceOrder c\<rparr>"

text \<open>
  The loops skip the entries of the other kind.  \<open>std::sort\<close> does not specify the order of
  entries with equal index; the model keeps them in the order of the configuration.
\<close>

fun led_loop :: "nat \<Rightarrow> ColorOrder \<Rightarrow> led_cfg list \<Rightarrow> Led list" where
  "led_loop n order [] = []"
| "led_loop n order (c # cs) =
     (if clone_of n c < 0 then make_led order c # led_loop n order cs else led_loop n order cs)"

fun clone_loop :: "nat \<Rightarrow> ColorOrder \<Rightarrow> led_cfg list \<Rightarrow> Led list" where
  "clone_loop n order [] = []"
| "clone_loop n order (c # cs) =
     (if clone_of n c \<ge> 0 then make_clone n order c # clone_loop n order cs else clone_loop n order cs)"

definition createLedString :: "led_cfg list \<Rightarrow> ColorOrder \<Rightarrow> Led list" where
  "createLedString cfg order = sort_key led_index (led_loop (length cfg) order cfg)"

definition createLedStringClone :: "led_cfg list \<Rightarrow> ColorOrder \<Rightarrow> Led list" where
  "createLedStringClone cfg order = sort_key led_index (clone_loop (length cfg) order cfg)"

text \<open>
  \<open>getLedLayoutGridSize\<close>: the midpoints in thousandths, sorted, without repetitions.  The entry
  counts when its clone value is negative, without the range check.
\<close>

definition mid_point :: "rat \<Rightarrow> rat \<Rightarrow> int" where
  "mid_point a b =
     (let (lo, hi) = swap_frac (clamp_frac a) (clamp_frac b)
      in trunc_rat (dbl (dbl (1000 * dbl (lo + hi)) / 2)))"

definition not_cloned :: "led_cfg \<Rightarrow> bool" where
  "not_cloned c \<longleftrightarrow> (case cfg_clone c of None \<Rightarrow> -1 | Some i \<Rightarrow> i) < 0"

definition unique_sorted :: "int list \<Rightarrow> int list" where
  "unique_sorted xs = remdups_adj (sort xs)"

definition getLedLayoutGridSize :: "led_cfg list \<Rightarrow> nat \<times> nat" where
  "getLedLayoutGridSize cfg =
     (let used = filter not_cloned cfg;
          midPointsX = map (\<lambda>c. mid_point (cfg_hmin c) (cfg_hmax c)) used;
          midPointsY = map (\<lambda>c. mid_point (cfg_vmin c) (cfg_vmax c)) used
      in (length (unique_sorted midPointsX), length (unique_sorted midPointsY)))"

section \<open>Properties\<close>

definition led_wf :: "Led \<Rightarrow> bool" where
  "led_wf l \<longleftrightarrow> 0 \<le> minX_frac l \<and> minX_frac l \<le> maxX_frac l \<and> maxX_frac l \<le> 1 \<and>
     0 \<le> minY_frac l \<and> minY_frac l \<le> maxY_frac l \<and> maxY_frac l \<le> 1"

lemma swap_clamped:
  "0 \<le> fst (swap_frac (clamp_frac a) (clamp_frac b))"
  "fst (swap_frac (clamp_frac a) (clamp_frac b)) \<le> snd (swap_frac (clamp_frac a) (clamp_frac b))"
  "snd (swap_frac (clamp_frac a) (clamp_frac b)) \<le> 1"
  by (auto simp: swap_frac_def clamp_frac_def)

lemma make_led_wf: "led_wf (make_led order c)"
  by (simp add: make_led_def led_wf_def split_beta swap_clamped)

lemma make_clone_wf: "led_wf (make_clone n order c)"
  by (simp add: make_clone_def led_wf_def)

lemma led_loop_map: "led_loop n order cs = map (make_led order) (filter (\<lambda>c. clone_of n c < 0) cs)"
  by (induction cs) simp_all

lemma clone_loop_map:
  "clone_loop n order cs = map (make_clone n order) (filter (\<lambda>c. \<not> clone_of n c < 0) cs)"
  by (induction cs) auto

lemma createLedString_wf: "l \<in> set (createLedString cfg order) \<Longrightarrow> led_wf l"
  by (auto simp: createLedString_def led_loop_map make_led_wf)

lemma createLedString_sorted: "sorted (map led_index (createLedString cfg order))"
  by (simp add: createLedString_def)

text \<open>Sorting and dropping repetitions keeps each value once.\<close>

lemma sorted_remdups_adj_distinct: "sorted (xs :: 'a :: linorder list) \<Longrightarrow> distinct (remdups_adj xs)"
  by (induction xs rule: remdups_adj.induct) auto

lemma length_unique_sorted: "length (unique_sorted xs) = card (set xs)"
proof -
  have "distinct (unique_sorted xs)"
    by (simp add: unique_sorted_def sorted_remdups_adj_distinct)
  then have "length (unique_sorted xs) = card (set (unique_sorted xs))"
    by (simp add: distinct_card)
  then show ?thesis by (simp add: unique_sorted_def)
qed

text \<open>
  Reading the led section: every led of the string covers an ordered area inside the
  picture whatever the configured numbers are, both strings are sorted by index, a clone
  refers to an index of the section, and every configured entry ends up in exactly one of the
  two strings.
\<close>

theorem led_strings_partition:
  "list_all led_wf (createLedString cfg order) \<and>
   sorted (map led_index (createLedString cfg order)) \<and>
   sorted (map led_index (createLedStringClone cfg order)) \<and>
   list_all (\<lambda>l. 0 \<le> led_clone l \<and> led_clone l < int (length cfg)) (createLedStringClone cfg order) \<and>
   mset (map led_index (createLedString cfg order)) + mset (map led_index (createLedStringClone cfg order))
     = mset (map (\<lambda>c. nat (cfg_index c mod 2 ^ 32)) cfg)"
proof (intro conjI)
  show "list_all led_wf (createLedString cfg order)"
    by (simp add: list_all_iff createLedString_wf)
  show "sorted (map led_index (createLedString cfg order))"
    by (rule createLedString_sorted)
  show "sorted (map led_index (createLedStringClone cfg order))"
    by (simp add: createLedStringClone_def)
  have "0 \<le> clone_of (length cfg) c \<and> clone_of (length cfg) c < int (length cfg)"
    if "c \<in> set cfg" "\<not> clone_of (length cfg) c < 0" for c
    using that by (cases cfg) (auto simp: clone_of_def Let_def split: if_splits)
  then show "list_all (\<lambda>l. 0 \<le> led_clone l \<and> led_clone l < int (length cfg)) (createLedStringClone cfg order)"
    by (auto simp: list_all_iff createLedStringClone_def clone_loop_map make_clone_def)
  have idx: "led_index (make_led order c) = nat (cfg_index c mod 2 ^ 32)"
    "led_index (make_clone n order c) = nat (cfg_index c mod 2 ^ 32)" for c n
    by (simp_all add: make_led_def make_clone_def split_beta)
  let ?P = "\<lambda>c. clone_of (length cfg) c < 0" and ?i = "\<lambda>c. nat (cfg_index c mod 2 ^ 32)"
  have "mset (map led_index (createLedString cfg order)) = image_mset ?i (filter_mset ?P (mset cfg))"
    by (simp add: createLedString_def led_loop_map image_mset.compositionality comp_def idx)
  moreover have "mset (map led_index (createLedStringClone cfg order))
      = image_mset ?i (filter_mset (\<lambda>c. \<not> ?P c) (mset cfg))"
    by (simp add: createLedStringClone_def clone_loop_map image_mset.compositionality comp_def idx)
  ultimately show "mset (map led_index (createLedString cfg order)) +
      mset (map led_index (createLedStringClone cfg order)) = mset (map ?i cfg)"
    by (simp add: image_mset_union [symmetric] multiset_partition [symmetric] del: image_mset_union)
qed

end
