(* ===== verification/ImageToLeds.thy ===== *)
theory ImageToLeds
  imports LedConfig Images
begin

text \<open>
  \<open>hyperion::ImageToLedsMap\<close> (\<open>libsrc/hyperion/ImageToLedsMap.cpp\<close>,
  \<open>include/hyperion/ImageToLedsMap.h\<close>): the pixels that determine the colour of each led and
  their mean.  \<open>u32\<close> is the wrap of \<open>unsigned\<close> arithmetic; \<open>w\<close> is the width of
  \<open>uint_fast16_t\<close> on the platform.
\<close>

section \<open>Operations\<close>

definition u32 :: "nat \<Rightarrow> nat" where
  "u32 n = n mod 2 ^ 32"

lemma u32_small [simp]: "n < 2 ^ 32 \<Longrightarrow> u32 n = n"
  by (simp add: u32_def)

record ledmap =
  itl_width :: nat
  itl_height :: nat
  itl_horizontalBorder :: nat
  itl_verticalBorder :: nat
  itl_colorsMap :: "nat list list"

definition frac_eps :: rat where
  "frac_eps = dbl (1 / 10 ^ 6)"

definition no_area :: "Led \<Rightarrow> bool" where
  "no_area l \<longleftrightarrow> dbl (maxX_frac l - minX_frac l) < frac_eps \<or> dbl (maxY_frac l - minY_frac l) < frac_eps"

text \<open>
  One axis: the index boundaries of a led, made to enclose at least one position, and the
  positions the loop visits.
\<close>

definition axis_range :: "nat \<Rightarrow> nat \<Rightarrow> rat \<Rightarrow> rat \<Rightarrow> nat list" where
  "axis_range offset actual minFrac maxFrac =
     (let min_idx = u32 (offset + nat (round_away (dbl (of_nat actual * minFrac))));
          max_idx = u32 (offset + nat (round_away (dbl (of_nat actual * maxFrac))));
          min_idx = min min_idx (u32 (offset + actual - 1));
          max_idx = (if min_idx = max_idx then u32 (min_idx + 1) else max_idx)
      in [min_idx ..< min max_idx (u32 (offset + actual))])"

definition led_indices :: "nat \<Rightarrow> nat \<Rightarrow> nat \<Rightarrow> nat \<Rightarrow> Led \<Rightarrow> nat list" where
  "led_indices width height horizontalBorder verticalBorder l =
     (let xOffset = verticalBorder; actualWidth = width - u32 (2 * verticalBorder);
          yOffset = horizontalBorder; actualHeight = height - u32 (2 * horizontalBorder)
      in if no_area l then []
         else concat (map (\<lambda>y. map (\<lambda>x. u32 (y * width + x))
                (axis_range xOffset actualWidth (minX_frac l) (maxX_frac l)))
                (axis_range yOffset actualHeight (minY_frac l) (maxY_frac l))))"

definition itl_new :: "nat \<Rightarrow> nat \<Rightarrow> nat \<Rightarrow> nat \<Rightarrow> Led list \<Rightarrow> ledmap res" where
  "itl_new width height horizontalBorder verticalBorder leds =
     (if width > u32 (2 * verticalBorder) \<and> height > u32 (2 * horizontalBorder)
      then Inr \<lparr>itl_width = width, itl_height = height, itl_horizontalBorder = horizontalBorder,
        itl_verticalBorder = verticalBorder,
        itl_colorsMap = map (led_indices width height horizontalBorder verticalBorder) leds\<rparr>
      else Inl AssertFail)"

text \<open>The accumulators wrap at the width \<open>w\<close> of \<open>uint_fast16_t\<close>.\<close>

definition acc_add :: "nat \<Rightarrow> nat \<Rightarrow> byte \<Rightarrow> nat" where
  "acc_add w acc b = (acc + unat b) mod 2 ^ w"

fun acc_pixels :: "nat \<Rightarrow> ColorRgb list \<Rightarrow> nat list \<Rightarrow> nat \<times> nat \<times> nat \<Rightarrow> (nat \<times> nat \<times> nat) res" where
  "acc_pixels w mem [] acc = Inr acc"
| "acc_pixels w mem (i # is) acc =
     (let (r, g, b) = acc in
      res_bind (peek mem i) (\<lambda>p.
        acc_pixels w mem is (acc_add w r (red p), acc_add w g (green p), acc_add w b (blue p))))"

definition mean_color :: "nat \<Rightarrow> ColorRgb list \<Rightarrow> nat list \<Rightarrow> nat \<Rightarrow> ColorRgb res" where
  "mean_color w mem idx n =
     res_bind (acc_pixels w mem idx (0, 0, 0)) (\<lambda>(r, g, b).
       if n = 0 then Inl Undefined
       else Inr (rgb (u8 (int (r div n))) (u8 (int (g div n))) (u8 (int (b div n)))))"

definition calcMeanColor :: "nat \<Rightarrow> ColorRgb image \<Rightarrow> nat list \<Rightarrow> ColorRgb res" where
  "calcMeanColor w im colors =
     (if length colors = 0 then Inr BLACK
      else mean_color w (img_pixels im) colors (length colors))"

definition calcMeanColorAll :: "nat \<Rightarrow> ColorRgb image \<Rightarrow> ColorRgb res" where
  "calcMeanColorAll w im =
     (let imageSize = u32 (img_width im * img_height im)
      in mean_color w (img_pixels im) [0 ..< imageSize] imageSize)"

fun mean_loop :: "nat \<Rightarrow> ColorRgb image \<Rightarrow> nat list list \<Rightarrow> ColorRgb list res" where
  "mean_loop w im [] = Inr []"
| "mean_loop w im (cs # css) =
     res_bind (calcMeanColor w im cs) (\<lambda>c. res_bind (mean_loop w im css) (\<lambda>r. Inr (c # r)))"

text \<open>The variants that write into a given vector check its size; the others allocate it.\<close>

definition getMeanLedColor_into :: "nat \<Rightarrow> ledmap \<Rightarrow> ColorRgb image \<Rightarrow> ColorRgb list \<Rightarrow> ColorRgb list res" where
  "getMeanLedColor_into w m im ledColors =
     (if length (itl_colorsMap m) = length ledColors then mean_loop w im (itl_colorsMap m)
      else Inl AssertFail)"

definition getMeanLedColor :: "nat \<Rightarrow> ledmap \<Rightarrow> ColorRgb image \<Rightarrow> ColorRgb list res" where
  "getMeanLedColor w m im =
     getMeanLedColor_into w m im (replicate (length (itl_colorsMap m)) BLACK)"

definition getUniLedColor_into :: "nat \<Rightarrow> ledmap \<Rightarrow> ColorRgb image \<Rightarrow> ColorRgb list \<Rightarrow> ColorRgb list res" where
  "getUniLedColor_into w m im ledColors =
     (if length (itl_colorsMap m) = length ledColors
      then res_bind (calcMeanColorAll w im) (\<lambda>c. Inr (map (\<lambda>_. c) ledColors))
      else Inl AssertFail)"

definition getUniLedColor :: "nat \<Rightarrow> ledmap \<Rightarrow> ColorRgb image \<Rightarrow> ColorRgb list res" where
  "getUniLedColor w m im =
     getUniLedColor_into w m im (replicate (length (itl_colorsMap m)) BLACK)"

section \<open>Index ranges\<close>

lemma frac_index:
  assumes "0 \<le> f" "f \<le> 1" "n < 2 ^ 32"
  shows "0 \<le> round_away (dbl (of_nat n * f))" "round_away (dbl (of_nat n * f)) \<le> int n"
proof -
  have "0 \<le> dbl (of_nat n * f)" using assms by (intro dbl.rnd_nonneg) simp
  then show "0 \<le> round_away (dbl (of_nat n * f))" by (rule round_away_sign)
  have "of_nat n * f \<le> of_int (int n)" using assms by (simp add: mult_left_le)
  then have "dbl (of_nat n * f) \<le> of_int (int n)" using assms(3) by (intro dbl.rnd_le) simp_all
  from round_away_mono [OF this] show "round_away (dbl (of_nat n * f)) \<le> int n"
    by (simp only: round_away_of_int)
qed

lemma frac_index_mono:
  assumes "f \<le> g"
  shows "round_away (dbl (of_nat n * f)) \<le> round_away (dbl (of_nat n * g))"
  using assms by (intro round_away_mono dbl.rnd_mono mult_left_mono) simp_all

lemma axis_range_ok:
  assumes "0 \<le> f" "f \<le> g" "g \<le> 1" "0 < n" "off + n < 2 ^ 32"
  shows "axis_range off n f g \<noteq> []" "set (axis_range off n f g) \<subseteq> {off ..< off + n}"
proof -
  define a b where "a = nat (round_away (dbl (of_nat n * f)))" and "b = nat (round_away (dbl (of_nat n * g)))"
  have n: "n < 2 ^ 32" using assms by simp
  have ab: "a \<le> b" "b \<le> n"
    using frac_index [of f n] frac_index [of g n] frac_index_mono [of f g n] n assms
    unfolding a_def b_def by (simp_all add: nat_mono)
  let ?lo = "min (off + a) (off + n - 1)"
  let ?hi = "if ?lo = off + b then ?lo + 1 else off + b"
  have range: "axis_range off n f g = [?lo ..< min ?hi (off + n)]"
    using ab assms by (simp add: axis_range_def Let_def a_def [symmetric] b_def [symmetric])
  show "axis_range off n f g \<noteq> []" using ab assms(4) unfolding range by auto
  show "set (axis_range off n f g) \<subseteq> {off ..< off + n}" using ab assms(4) unfolding range by auto
qed

text \<open>The positions inside the borders.\<close>

definition inner :: "nat \<Rightarrow> nat \<Rightarrow> nat \<Rightarrow> nat \<Rightarrow> nat set" where
  "inner width height hb vb =
     {y * width + x | x y. vb \<le> x \<and> x < width - vb \<and> hb \<le> y \<and> y < height - hb}"

lemma inner_in_image: "inner width height hb vb \<subseteq> {..< width * height}"
  using index_in_image by (fastforce simp: inner_def)

lemma led_indices_ok:
  assumes l: "led_wf l" and w: "2 * vb < width" and h: "2 * hb < height" and wh: "width * height < 2 ^ 32"
    and wb: "width < 2 ^ 32" "height < 2 ^ 32"
  shows "set (led_indices width height hb vb l) \<subseteq> inner width height hb vb"
    and "led_indices width height hb vb l = [] \<longleftrightarrow> no_area l"
proof -
  let ?X = "axis_range vb (width - 2 * vb) (minX_frac l) (maxX_frac l)"
  let ?Y = "axis_range hb (height - 2 * hb) (minY_frac l) (maxY_frac l)"
  have u: "u32 (2 * vb) = 2 * vb" "u32 (2 * hb) = 2 * hb" using w h wb by simp_all
  have X: "?X \<noteq> []" "set ?X \<subseteq> {vb ..< vb + (width - 2 * vb)}"
    using axis_range_ok [of "minX_frac l" "maxX_frac l" "width - 2 * vb" vb] l w wb
    by (simp_all add: led_wf_def)
  have Y: "?Y \<noteq> []" "set ?Y \<subseteq> {hb ..< hb + (height - 2 * hb)}"
    using axis_range_ok [of "minY_frac l" "maxY_frac l" "height - 2 * hb" hb] l h wb
    by (simp_all add: led_wf_def)
  have pos: "u32 (y * width + x) = y * width + x" "y * width + x \<in> inner width height hb vb"
    if "x \<in> set ?X" "y \<in> set ?Y" for x y
  proof -
    have xy: "vb \<le> x" "x < width - vb" "hb \<le> y" "y < height - hb"
      using X(2) Y(2) that w h by auto
    then show "y * width + x \<in> inner width height hb vb" by (auto simp: inner_def)
    have "y * width + x < width * height" using xy by (intro index_in_image) auto
    then show "u32 (y * width + x) = y * width + x" using wh by simp
  qed
  have eq: "led_indices width height hb vb l =
      (if no_area l then [] else concat (map (\<lambda>y. map (\<lambda>x. u32 (y * width + x)) ?X) ?Y))"
    by (simp add: led_indices_def Let_def u)
  show "set (led_indices width height hb vb l) \<subseteq> inner width height hb vb"
    unfolding eq using pos by auto
  show "led_indices width height hb vb l = [] \<longleftrightarrow> no_area l"
    unfolding eq using X(1) Y(1) by (cases ?Y) auto
qed

section \<open>Means\<close>

definition channel_sum :: "(ColorRgb \<Rightarrow> byte) \<Rightarrow> ColorRgb list \<Rightarrow> nat" where
  "channel_sum ch ps = (\<Sum>p \<leftarrow> ps. unat (ch p))"

lemma channel_sum_simps [simp]:
  "channel_sum ch [] = 0"
  "channel_sum ch (p # ps) = unat (ch p) + channel_sum ch ps"
  by (simp_all add: channel_sum_def)

lemma channel_sum_bound: "channel_sum ch ps \<le> 255 * length ps"
proof (induction ps)
  case (Cons p ps)
  moreover have "unat (ch p) \<le> 255" using byte_bound(3) [of "ch p"] by simp
  ultimately show ?case by simp
qed simp

text \<open>The specification: the mean of the pixels, channel by channel, rounded down.\<close>

definition average :: "ColorRgb list \<Rightarrow> ColorRgb" where
  "average ps =
     (let m = (\<lambda>ch. of_nat (channel_sum ch ps div length ps)) in rgb (m red) (m green) (m blue))"

lemma channel_mean_between:
  assumes "ps \<noteq> []" "\<forall>p \<in> set ps. lo \<le> unat (ch p) \<and> unat (ch p) \<le> hi"
  shows "lo \<le> channel_sum ch ps div length ps \<and> channel_sum ch ps div length ps \<le> hi"
proof -
  have "lo * length ps \<le> channel_sum ch ps \<and> channel_sum ch ps \<le> hi * length ps"
    using assms(2) by (induction ps) auto
  moreover have pos: "0 < length ps" using assms(1) by simp
  moreover have "channel_sum ch ps div length ps \<le> hi * length ps div length ps"
    using calculation by (intro div_le_mono) simp
  moreover have "hi * length ps div length ps = hi" using pos by simp
  ultimately show ?thesis by (simp add: less_eq_div_iff_mult_less_eq)
qed

lemma channel_mean_byte: "channel_sum ch ps div length ps \<le> 255"
  using channel_mean_between [of ps 0 ch 255] byte_bound(3)
  by (cases ps) (force simp: less_Suc_eq_le [symmetric])+

lemma unat_average:
  "unat (red (average ps)) = channel_sum red ps div length ps"
  "unat (green (average ps)) = channel_sum green ps div length ps"
  "unat (blue (average ps)) = channel_sum blue ps div length ps"
proof -
  have "unat (of_nat (channel_sum ch ps div length ps) :: byte) = channel_sum ch ps div length ps" for ch
    using channel_mean_byte [of ch ps] by (simp add: unat_of_nat)
  then show "unat (red (average ps)) = channel_sum red ps div length ps"
    "unat (green (average ps)) = channel_sum green ps div length ps"
    "unat (blue (average ps)) = channel_sum blue ps div length ps"
    by (simp_all add: average_def Let_def)
qed

lemma acc_pixels_exact:
  assumes "\<forall>i \<in> set is. i < length mem"
    and "r + 255 * length is < 2 ^ w" "g + 255 * length is < 2 ^ w" "b + 255 * length is < 2 ^ w"
  shows "acc_pixels w mem is (r, g, b) =
    Inr (r + channel_sum red (map ((!) mem) is), g + channel_sum green (map ((!) mem) is),
      b + channel_sum blue (map ((!) mem) is))"
  using assms
proof (induction "is" arbitrary: r g b)
  case (Cons i "is")
  have byte: "unat (ch (mem ! i)) \<le> 255" for ch :: "ColorRgb \<Rightarrow> byte"
    using byte_bound(3) [of "ch (mem ! i)"] by simp
  have add: "acc_add w a (ch (mem ! i)) = a + unat (ch (mem ! i))" "a + unat (ch (mem ! i)) + 255 * length is < 2 ^ w"
    if "a + 255 * length (i # is) < 2 ^ w" for a and ch :: "ColorRgb \<Rightarrow> byte"
    using that byte [of ch] by (simp_all add: acc_add_def)
  have "acc_pixels w mem is (r + unat (red (mem ! i)), g + unat (green (mem ! i)), b + unat (blue (mem ! i))) =
      Inr (r + unat (red (mem ! i)) + channel_sum red (map ((!) mem) is),
        g + unat (green (mem ! i)) + channel_sum green (map ((!) mem) is),
        b + unat (blue (mem ! i)) + channel_sum blue (map ((!) mem) is))"
    using Cons.prems add by (intro Cons.IH) auto
  with Cons.prems add show ?case by (simp add: peek_ok add.assoc)
qed simp

lemma mean_color_exact:
  assumes "\<forall>i \<in> set is. i < length mem" "255 * length is < 2 ^ w" "is \<noteq> []"
  shows "mean_color w mem is (length is) = Inr (average (map ((!) mem) is))"
  using assms by (simp add: mean_color_def acc_pixels_exact average_def Let_def u8_def)

lemma mean_loop_exact:
  assumes "\<forall>cs \<in> set css. (\<forall>i \<in> set cs. i < length (img_pixels im)) \<and> 255 * length cs < 2 ^ w"
  shows "mean_loop w im css =
    Inr (map (\<lambda>cs. if cs = [] then BLACK else average (map ((!) (img_pixels im)) cs)) css)"
  using assms by (induction css) (simp_all add: calcMeanColor_def mean_color_exact)

text \<open>The number of pixels of a led is bounded by the picture, whatever the fractions are.\<close>

lemma length_interval_subset: "set [a ..< b] \<subseteq> {c ..< c + n} \<Longrightarrow> length [a ..< b] \<le> n"
  using card_mono [of "{c ..< c + n}" "{a ..< b}"] by simp

lemma length_led_indices:
  assumes "led_wf l" "2 * vb < width" "2 * hb < height" "width < 2 ^ 32" "height < 2 ^ 32"
  shows "length (led_indices width height hb vb l) \<le> width * height"
proof -
  let ?X = "axis_range vb (width - 2 * vb) (minX_frac l) (maxX_frac l)"
  let ?Y = "axis_range hb (height - 2 * hb) (minY_frac l) (maxY_frac l)"
  have "length (axis_range off n f g) \<le> n" if "0 \<le> f" "f \<le> g" "g \<le> 1" "0 < n" "off + n < 2 ^ 32" for off n f g
    using axis_range_ok(2) [OF that] length_interval_subset unfolding axis_range_def Let_def by blast
  then have "length ?X \<le> width - 2 * vb" "length ?Y \<le> height - 2 * hb"
    using assms by (simp_all add: led_wf_def)
  then have "length ?Y * length ?X \<le> height * width" by (intro mult_le_mono) simp_all
  then show ?thesis
    using assms by (simp add: led_indices_def Let_def length_concat comp_def sum_list_triv mult.commute)
qed

lemma itl_new_ok:
  assumes "2 * vb < width" "2 * hb < height" "width < 2 ^ 32" "height < 2 ^ 32"
  shows "itl_new width height hb vb leds = Inr \<lparr>itl_width = width, itl_height = height,
    itl_horizontalBorder = hb, itl_verticalBorder = vb,
    itl_colorsMap = map (led_indices width height hb vb) leds\<rparr>"
proof -
  have "u32 (2 * vb) = 2 * vb" "u32 (2 * hb) = 2 * hb" using assms by simp_all
  with assms(1,2) show ?thesis by (simp add: itl_new_def)
qed

text \<open>
  C30.  The mapping: for leds of the configuration and borders that leave some picture, the
  constructor succeeds and every led gets pixels of the picture inside the borders; it gets
  none exactly when its area is negligible.
\<close>

theorem led_mapping_inside:
  assumes "list_all led_wf leds" "2 * vb < width" "2 * hb < height"
    and "width < 2 ^ 32" "height < 2 ^ 32" "width * height < 2 ^ 32"
  shows "\<exists>m. itl_new width height hb vb leds = Inr m \<and> length (itl_colorsMap m) = length leds \<and>
    (\<forall>k < length leds. set (itl_colorsMap m ! k) \<subseteq> inner width height hb vb \<and>
       (itl_colorsMap m ! k = [] \<longleftrightarrow> no_area (leds ! k)))"
proof -
  have "set (led_indices width height hb vb (leds ! k)) \<subseteq> inner width height hb vb \<and>
      (led_indices width height hb vb (leds ! k) = [] \<longleftrightarrow> no_area (leds ! k))"
    if "k < length leds" for k
    using led_indices_ok [of "leds ! k" vb width hb height] assms that by (simp add: list_all_length)
  then show ?thesis using itl_new_ok [OF assms(2,3,4,5)] by simp
qed

text \<open>A led that covers the left half of the picture.\<close>

definition left_led :: Led where
  "left_led = \<lparr>led_index = 0, minX_frac = 0, maxX_frac = 1 / 2, minY_frac = 0, maxY_frac = 1,
     led_clone = -1, led_colorOrder = ORDER_RGB\<rparr>"

lemma left_led_wf [simp]: "led_wf left_led"
  by (simp add: led_wf_def left_led_def)

lemma left_led_area [simp]: "\<not> no_area left_led"
proof -
  have "dbl (1 / 10 ^ 6) \<le> dbl (of_int 1 / 2 ^ 1)" by (intro dbl.rnd_mono) simp
  also have "\<dots> = 1 / 2" by (subst dbl.rnd_dyadic) simp_all
  finally have "frac_eps \<le> 1 / 2" by (simp add: frac_eps_def)
  moreover have "dbl (1 / 2) = 1 / 2" using dbl.rnd_dyadic [of 1 1] by simp
  ultimately show ?thesis by (simp add: no_area_def left_led_def)
qed

theorem led_mapping_inside_witness:
  "\<exists>m. itl_new 16 9 1 2 [left_led] = Inr m \<and> itl_colorsMap m ! 0 \<noteq> [] \<and>
     set (itl_colorsMap m ! 0) \<subseteq> inner 16 9 1 2"
  using led_mapping_inside [of "[left_led]" 2 16 1 9] by auto

text \<open>
  C31.  The colours: with a mapping built for the size of the picture and accumulators wide
  enough for it (\<open>uint_fast16_t\<close> of 32 bits is enough up to 16 million pixels), every led gets
  the exact mean of its pixels, rounded down, or black when it has none; no pixel outside the
  picture is read.  The single-colour variant gives every led the mean of the whole picture.
\<close>

theorem mean_led_colors_exact:
  assumes m: "itl_new (img_width im) (img_height im) hb vb leds = Inr m"
    and leds: "list_all led_wf leds" and im: "img_wf im"
    and b: "2 * vb < img_width im" "2 * hb < img_height im"
    and sz: "img_width im < 2 ^ 32" "img_height im < 2 ^ 32" "img_width im * img_height im < 2 ^ 32"
    and w: "255 * (img_width im * img_height im) < 2 ^ w"
  shows "getMeanLedColor w m im =
      Inr (map (\<lambda>cs. if cs = [] then BLACK else average (map ((!) (img_pixels im)) cs)) (itl_colorsMap m)) \<and>
    getUniLedColor w m im =
      Inr (replicate (length leds) (average (take (img_width im * img_height im) (img_pixels im))))"
proof
  let ?n = "img_width im * img_height im"
  have mem: "?n < length (img_pixels im)" using im by (simp add: img_wf_def)
  have map: "itl_colorsMap m = map (led_indices (img_width im) (img_height im) hb vb) leds"
    using m itl_new_ok [OF b sz(1,2)] by auto
  have "(\<forall>i \<in> set cs. i < length (img_pixels im)) \<and> 255 * length cs < 2 ^ w"
    if "cs \<in> set (itl_colorsMap m)" for cs
  proof -
    from that obtain l where l: "led_wf l" "cs = led_indices (img_width im) (img_height im) hb vb l"
      using leds by (auto simp: map list_all_iff)
    have "set cs \<subseteq> inner (img_width im) (img_height im) hb vb"
      using led_indices_ok(1) [OF l(1) b sz(3,1,2)] l(2) by simp
    then have "set cs \<subseteq> {..< ?n}" using inner_in_image by blast
    then have "\<forall>i \<in> set cs. i < length (img_pixels im)" using mem by auto
    moreover have "255 * length cs \<le> 255 * ?n"
      using length_led_indices [OF l(1) b sz(1,2)] l(2) by simp
    ultimately show ?thesis using w by simp
  qed
  then show "getMeanLedColor w m im =
      Inr (map (\<lambda>cs. if cs = [] then BLACK else average (map ((!) (img_pixels im)) cs)) (itl_colorsMap m))"
    by (simp add: getMeanLedColor_def getMeanLedColor_into_def mean_loop_exact)
  have pos: "0 < ?n" using b by simp
  have "map ((!) (img_pixels im)) [0 ..< ?n] = take ?n (img_pixels im)"
    using mem by (intro nth_equalityI) simp_all
  then have "mean_color w (img_pixels im) [0 ..< ?n] ?n = Inr (average (take ?n (img_pixels im)))"
    using mean_color_exact [of "[0 ..< ?n]" "img_pixels im" w] mem w pos by simp
  then show "getUniLedColor w m im = Inr (replicate (length leds) (average (take ?n (img_pixels im))))"
    using sz(3) by (simp add: getUniLedColor_def getUniLedColor_into_def calcMeanColorAll_def Let_def map
        map_replicate_const)
qed

theorem mean_led_colors_exact_witness:
  "\<exists>m. itl_new 16 9 1 2 [left_led] = Inr m \<and>
     getUniLedColor 32 m (img_fill BLACK 16 9 (rgb 1 2 3)) = Inr [rgb 1 2 3]"
proof -
  let ?im = "img_fill BLACK 16 9 (rgb 1 2 3)"
  obtain m where m: "itl_new (img_width ?im) (img_height ?im) 1 2 [left_led] = Inr m"
    using itl_new_ok [of 2 16 1 9] by (simp add: img_fill_def)
  have "getUniLedColor 32 m ?im =
      Inr (replicate 1 (average (take (img_width ?im * img_height ?im) (img_pixels ?im))))"
    using mean_led_colors_exact [OF m, of 32] by (simp add: img_fill_def img_wf_def)
  moreover have "average (replicate 144 (rgb 1 2 3)) = rgb 1 2 3"
    by (simp add: average_def Let_def channel_sum_def sum_list_replicate)
  ultimately show ?thesis using m by (intro exI [of _ m]) (simp add: img_fill_def)
qed

end
