(* ===== verification/ImgProcessor.thy ===== *)
theory ImgProcessor
  imports ImageToLeds BorderProcessor
begin

text \<open>
  \<open>ImageProcessor\<close> (\<open>libsrc/hyperion/ImageProcessor.cpp\<close>, \<open>include/hyperion/ImageProcessor.h\<close>):
  from a picture to the colours of the leds, with the border processor and the pixel map it
  owns.  Shown: whatever pictures arrive, no assertion of the map fails and no read leaves a
  picture.
\<close>

section \<open>State and operations\<close>

record imgproc =
  ip_leds :: "Led list"
  ip_border :: bproc
  ip_map :: "ledmap option"
  ip_mappingType :: int

definition ip_new :: "Led list \<Rightarrow> bproc \<Rightarrow> imgproc" where
  "ip_new leds border = \<lparr>ip_leds = leds, ip_border = border, ip_map = None, ip_mappingType = 0\<rparr>"

definition ip_getLedCount :: "imgproc \<Rightarrow> nat" where
  "ip_getLedCount s = length (ip_leds s)"

definition ip_replaceMap :: "nat \<Rightarrow> nat \<Rightarrow> nat \<Rightarrow> nat \<Rightarrow> imgproc \<Rightarrow> imgproc res" where
  "ip_replaceMap w h hb vb s =
     res_bind (itl_new w h hb vb (ip_leds s)) (\<lambda>m. Inr (s\<lparr>ip_map := Some m\<rparr>))"

definition ip_setSize :: "nat \<Rightarrow> nat \<Rightarrow> imgproc \<Rightarrow> imgproc res" where
  "ip_setSize w h s =
     (case ip_map s of
        Some m \<Rightarrow> if itl_width m = w \<and> itl_height m = h then Inr s else ip_replaceMap w h 0 0 s
      | None \<Rightarrow> ip_replaceMap w h 0 0 s)"

definition enableBlackBorderDetector :: "bool \<Rightarrow> imgproc \<Rightarrow> imgproc" where
  "enableBlackBorderDetector enable s = s\<lparr>ip_border := bp_setEnabled enable (ip_border s)\<rparr>"

definition setLedMappingType :: "int \<Rightarrow> imgproc \<Rightarrow> imgproc" where
  "setLedMappingType mapType s = s\<lparr>ip_mappingType := mapType\<rparr>"

definition mappingTypeToInt :: "string \<Rightarrow> int" where
  "mappingTypeToInt t = (if t = ''unicolor_mean'' then 1 else 0)"

definition mappingTypeToStr :: "int \<Rightarrow> string" where
  "mappingTypeToStr t = (if t = 1 then ''unicolor_mean'' else ''multicolor_mean'')"

text \<open>\<open>getScanParameters\<close>: the four output variables and the returned flag.\<close>

definition getScanParameters ::
  "imgproc \<Rightarrow> nat \<Rightarrow> rat \<times> rat \<times> rat \<times> rat \<Rightarrow> (rat \<times> rat \<times> rat \<times> rat) \<times> bool" where
  "getScanParameters s led out =
     (if led < length (ip_leds s)
      then (let l = ip_leds s ! led in ((minX_frac l, maxX_frac l, minY_frac l, maxY_frac l), False))
      else (out, False))"

definition verifyBorder_disabled :: "ColorRgb image \<Rightarrow> imgproc \<Rightarrow> imgproc res" where
  "verifyBorder_disabled im s =
     (if bp_enabled (ip_border s) then Inr s
      else (case ip_map s of
          None \<Rightarrow> Inl Undefined
        | Some m \<Rightarrow>
            if itl_horizontalBorder m \<noteq> 0 \<or> itl_verticalBorder m \<noteq> 0
            then res_bind (bp_process im (ip_border s)) (\<lambda>(bp, _).
                   ip_replaceMap (img_width im) (img_height im) 0 0 (s\<lparr>ip_border := bp\<rparr>))
            else Inr s))"

definition verifyBorder_enabled :: "ColorRgb image \<Rightarrow> imgproc \<Rightarrow> imgproc res" where
  "verifyBorder_enabled im s =
     (if bp_enabled (ip_border s)
      then res_bind (bp_process im (ip_border s)) (\<lambda>(bp, changed).
        let s' = s\<lparr>ip_border := bp\<rparr>; border = bp_currentBorder bp in
        if changed then
          (if bb_unknown border then ip_replaceMap (img_width im) (img_height im) 0 0 s'
           else ip_replaceMap (img_width im) (img_height im)
                  (as_unsigned (bb_horizontalSize border)) (as_unsigned (bb_verticalSize border)) s')
        else Inr s')
      else Inr s)"

definition verifyBorder :: "ColorRgb image \<Rightarrow> imgproc \<Rightarrow> imgproc res" where
  "verifyBorder im s = res_bind (verifyBorder_disabled im s) (verifyBorder_enabled im)"

definition ip_colors :: "nat \<Rightarrow> ColorRgb image \<Rightarrow> imgproc \<Rightarrow> ColorRgb list res" where
  "ip_colors w im s =
     (case ip_map s of
        None \<Rightarrow> Inl Undefined
      | Some m \<Rightarrow> if ip_mappingType s = 1 then getUniLedColor w m im else getMeanLedColor w m im)"

definition ip_process :: "nat \<Rightarrow> ColorRgb image \<Rightarrow> imgproc \<Rightarrow> (imgproc \<times> ColorRgb list) res" where
  "ip_process w im s =
     res_bind (ip_setSize (img_width im) (img_height im) s) (\<lambda>s1.
     res_bind (verifyBorder im s1) (\<lambda>s2.
     res_bind (ip_colors w im s2) (\<lambda>cs. Inr (s2, cs))))"

text \<open>The variant that writes into the vector of the caller.\<close>

definition ip_process_into ::
  "nat \<Rightarrow> ColorRgb image \<Rightarrow> ColorRgb list \<Rightarrow> imgproc \<Rightarrow> (imgproc \<times> ColorRgb list) res" where
  "ip_process_into w im ledColors s =
     res_bind (ip_setSize (img_width im) (img_height im) s) (\<lambda>s1.
     res_bind (verifyBorder im s1) (\<lambda>s2.
     res_bind (case ip_map s2 of
         None \<Rightarrow> Inl Undefined
       | Some m \<Rightarrow> if ip_mappingType s2 = 1 then getUniLedColor_into w m im ledColors
                   else getMeanLedColor_into w m im ledColors)
       (\<lambda>cs. Inr (s2, cs))))"

lemma mappingType_round_trip: "mappingTypeToInt (mappingTypeToStr t) = (if t = 1 then 1 else 0)"
  by (simp add: mappingTypeToInt_def mappingTypeToStr_def)

text \<open>The answer of \<open>getScanParameters\<close> does not tell whether the led exists.\<close>

lemma getScanParameters_flag: "\<not> snd (getScanParameters s led out)"
  by (simp add: getScanParameters_def Let_def)

section \<open>The detected borders fit the picture\<close>

definition border_fits :: "nat \<Rightarrow> nat \<Rightarrow> nat \<Rightarrow> BlackBorder \<Rightarrow> bool" where
  "border_fits w h extra b \<longleftrightarrow> (\<not> bb_unknown b \<longrightarrow>
     0 \<le> bb_horizontalSize b \<and> bb_horizontalSize b \<le> int (h div 3 + extra) \<and>
     0 \<le> bb_verticalSize b \<and> bb_verticalSize b \<le> int (w div 3 + extra))"

lemma find_upt_bound: "List.find f [0 ..< n] = Some x \<Longrightarrow> x < n"
  by (metis (no_types, lifting) atLeastLessThan_iff find_Some_iff nth_mem set_upt)

lemma scan_bounded:
  assumes "img_wf im" "\<And>x. x < n \<Longrightarrow> list_all (in_image im) (ps x)"
  shows "\<exists>k. scan (\<lambda>x. some_not_black thr im (ps x)) [0 ..< n] = Inr k \<and> (k = -1 \<or> 0 \<le> k \<and> k < int n)"
proof -
  define f where "f = (\<lambda>x. list_ex (\<lambda>p. \<not> isBlack thr (img_pixels im ! toIndex im (fst p) (snd p))) (ps x))"
  have f: "some_not_black thr im (ps x) = Inr (f x)" if "x < n" for x
    unfolding f_def by (rule some_not_black_pure [OF assms(1) assms(2) [OF that]])
  have "scan (\<lambda>x. some_not_black thr im (ps x)) [0 ..< n]
      = Inr (case List.find f [0 ..< n] of None \<Rightarrow> -1 | Some x \<Rightarrow> int x)"
    by (rule scan_pure) (simp add: f)
  then show ?thesis
    using find_upt_bound [of f n] by (cases "List.find f [0 ..< n]") auto
qed

lemma walk_total:
  assumes "\<And>k. k < n \<Longrightarrow> \<exists>b. black k = Inr b"
  shows "\<exists>k \<le> n. walk black n = Inr k"
  using assms
proof (induction n)
  case (Suc n)
  then obtain b k where "black n = Inr b" "k \<le> n" "walk black n = Inr k"
    by (meson less_Suc_eq)
  then show ?case by (cases b) (auto intro: le_SucI)
qed simp

definition picture_ok :: "'p image \<Rightarrow> bool" where
  "picture_ok im \<longleftrightarrow> img_wf im \<and> 0 < img_width im \<and> 0 < img_height im"

lemma make_border_fits:
  assumes "x = -1 \<or> 0 \<le> x \<and> x \<le> int (w div 3)" "y = -1 \<or> 0 \<le> y \<and> y \<le> int (h div 3)"
  shows "border_fits w h 0 (make_border x y)"
  using assms by (auto simp: border_fits_def make_border_def)

lemma bb_process_fits:
  assumes "picture_ok im"
  shows "\<exists>b. bb_process thr im = Inr b \<and> border_fits (img_width im) (img_height im) 0 b"
proof -
  let ?w = "img_width im" and ?h = "img_height im"
  have wf: "img_wf im" and pos: "0 < ?w" "0 < ?h" using assms by (simp_all add: picture_ok_def)
  have "\<exists>x. scan (\<lambda>x. some_not_black thr im
      [(?w - 1 - x, ?h div 2), (x, ?h div 3), (x, ?h div 3 * 2)]) [0 ..< ?w div 3] = Inr x
      \<and> (x = -1 \<or> 0 \<le> x \<and> x < int (?w div 3))"
    by (rule scan_bounded [OF wf]) (use pos in auto)
  then obtain x where x: "scan (\<lambda>x. some_not_black thr im
      [(?w - 1 - x, ?h div 2), (x, ?h div 3), (x, ?h div 3 * 2)]) [0 ..< ?w div 3] = Inr x"
      "x = -1 \<or> 0 \<le> x \<and> x < int (?w div 3)" by blast
  have "\<exists>y. scan (\<lambda>y. some_not_black thr im
      [(?w div 2, ?h - 1 - y), (?w div 3, y), (?w div 3 * 2, y)]) [0 ..< ?h div 3] = Inr y
      \<and> (y = -1 \<or> 0 \<le> y \<and> y < int (?h div 3))"
    by (rule scan_bounded [OF wf]) (use pos in auto)
  then obtain y where y: "scan (\<lambda>y. some_not_black thr im
      [(?w div 2, ?h - 1 - y), (?w div 3, y), (?w div 3 * 2, y)]) [0 ..< ?h div 3] = Inr y"
      "y = -1 \<or> 0 \<le> y \<and> y < int (?h div 3)" by blast
  have "border_fits ?w ?h 0 (make_border x y)"
    using x(2) y(2) by (intro make_border_fits) auto
  with x(1) y(1) show ?thesis by (simp add: bb_process_def Let_def)
qed

lemma bb_process_osd_fits:
  assumes "picture_ok im"
  shows "\<exists>b. bb_process_osd thr im = Inr b \<and> border_fits (img_width im) (img_height im) 0 b"
proof -
  let ?w = "img_width im" and ?h = "img_height im"
  have wf: "img_wf im" and pos: "0 < ?w" "0 < ?h" using assms by (simp_all add: picture_ok_def)
  have "\<exists>x. scan (\<lambda>x. some_not_black thr im
      [(?w - 1 - x, ?h div 2), (x, ?h div 3), (x, ?h div 3 * 2)]) [0 ..< ?w div 3] = Inr x
      \<and> (x = -1 \<or> 0 \<le> x \<and> x < int (?w div 3))"
    by (rule scan_bounded [OF wf]) (use pos in auto)
  then obtain x where x: "scan (\<lambda>x. some_not_black thr im
      [(?w - 1 - x, ?h div 2), (x, ?h div 3), (x, ?h div 3 * 2)]) [0 ..< ?w div 3] = Inr x"
      "x = -1 \<or> 0 \<le> x \<and> x < int (?w div 3)" by blast
  define c where "c = (if x = -1 then ?w div 3 else nat x)"
  have c: "c < ?w" using x(2) pos unfolding c_def by auto
  have "\<exists>y. scan (\<lambda>y. some_not_black thr im
      [(c, y), (c, ?h - 1 - y), (?w - 1 - c, y), (?w - 1 - c, ?h - 1 - y)]) [0 ..< ?h div 3] = Inr y
      \<and> (y = -1 \<or> 0 \<le> y \<and> y < int (?h div 3))"
    by (rule scan_bounded [OF wf]) (use pos c in auto)
  then obtain y where y: "scan (\<lambda>y. some_not_black thr im
      [(c, y), (c, ?h - 1 - y), (?w - 1 - c, y), (?w - 1 - c, ?h - 1 - y)]) [0 ..< ?h div 3] = Inr y"
      "y = -1 \<or> 0 \<le> y \<and> y < int (?h div 3)" by blast
  have "border_fits ?w ?h 0 (make_border x y)"
    using x(2) y(2) by (intro make_border_fits) auto
  with x(1) y(1) show ?thesis by (simp add: bb_process_osd_def Let_def c_def)
qed

lemma bb_process_classic_fits:
  assumes "picture_ok im"
  shows "\<exists>b. bb_process_classic thr im = Inr b \<and> border_fits (img_width im) (img_height im) 0 b"
proof -
  let ?w = "img_width im div 3" and ?h = "img_height im div 3"
  have wf: "img_wf im" and pos: "0 < img_width im" "0 < img_height im"
    using assms by (simp_all add: picture_ok_def)
  have "\<exists>i. scan (\<lambda>i. some_not_black thr im [(min i ?w, min i ?h)]) [0 ..< max ?w ?h] = Inr i
      \<and> (i = -1 \<or> 0 \<le> i \<and> i < int (max ?w ?h))"
    by (rule scan_bounded [OF wf]) (use pos in auto)
  then obtain i where i: "scan (\<lambda>i. some_not_black thr im [(min i ?w, min i ?h)]) [0 ..< max ?w ?h] = Inr i"
      "i = -1 \<or> 0 \<le> i \<and> i < int (max ?w ?h)" by blast
  show ?thesis
  proof (cases "i = -1")
    case True
    with i show ?thesis by (simp add: bb_process_classic_def Let_def border_fits_def make_border_def)
  next
    case False
    let ?x0 = "min (nat i) ?w" and ?y0 = "min (nat i) ?h"
    obtain x1 where x1: "x1 \<le> ?x0"
        "walk (\<lambda>x. res_bind (img_at im x ?y0) (\<lambda>c. Inr (isBlack thr c))) ?x0 = Inr x1"
      using walk_total [of ?x0 "\<lambda>x. res_bind (img_at im x ?y0) (\<lambda>c. Inr (isBlack thr c))"]
        img_at_ok [OF wf] pos by fastforce
    have lt: "x1 < img_width im" using x1(1) pos by auto
    obtain y1 where y1: "y1 \<le> ?y0"
        "walk (\<lambda>y. res_bind (img_at im x1 y) (\<lambda>c. Inr (isBlack thr c))) ?y0 = Inr y1"
      using walk_total [of ?y0 "\<lambda>y. res_bind (img_at im x1 y) (\<lambda>c. Inr (isBlack thr c))"]
        img_at_ok [OF wf] lt pos by fastforce
    have "border_fits (img_width im) (img_height im) 0 (make_border (int x1) (int y1))"
      using x1(1) y1(1) by (intro make_border_fits) auto
    with i x1(2) y1(2) False show ?thesis by (simp add: bb_process_classic_def Let_def)
  qed
qed

section \<open>Processing is safe\<close>

text \<open>
  The condition on a picture: its pixels are there, its dimensions fit an \<open>int\<close>, and a third
  of it plus the margin the configuration adds still leaves some picture.  The default margin
  of one pixel asks for seven pixels in each direction.
\<close>

definition roomy :: "bproc \<Rightarrow> 'p image \<Rightarrow> bool" where
  "roomy bp im \<longleftrightarrow> img_wf im \<and>
     2 * (img_width im div 3 + unat (bp_blurRemoveCnt bp)) < img_width im \<and>
     2 * (img_height im div 3 + unat (bp_blurRemoveCnt bp)) < img_height im \<and>
     img_width im < 2 ^ 31 \<and> img_height im < 2 ^ 31 \<and> img_width im * img_height im < 2 ^ 32"

definition known_mode :: "bproc \<Rightarrow> bool" where
  "known_mode bp \<longleftrightarrow> bp_detectionMode bp \<in> {''default'', ''classic'', ''osd''}"

lemma detect_fits:
  assumes "picture_ok im" "known_mode bp"
  shows "\<exists>b. bp_detect bp im = Inr b \<and> border_fits (img_width im) (img_height im) 0 b"
  using bb_process_fits bb_process_classic_fits bb_process_osd_fits assms
  by (auto simp: bp_detect_def known_mode_def)

lemma blur_size_fits:
  assumes "x \<le> int m" "m + unat blur < 2 ^ 31" "0 \<le> x"
  shows "0 \<le> blur_size blur x \<and> blur_size blur x \<le> int (m + unat blur)"
proof -
  let ?n = "x + uint blur"
  have u: "uint blur = int (unat blur)" by simp
  have b: "m + unat blur < 2147483648" using assms(2) by simp
  have n: "0 \<le> ?n" using assms(3) unfolding u by linarith
  have n': "?n < 2147483648" "?n \<le> int m + int (unat blur)"
    using assms(1) b unfolding u by linarith+
  have "sint (word_of_int x + blur) = sint (word_of_int ?n :: 32 word)"
    by simp
  also have "\<dots> = ?n" using n n' by (intro sint32_id) simp_all
  finally have "sint (word_of_int x + blur) = ?n" .
  then have "blur_size blur x = (if x > 0 then ?n else x)" by (simp only: blur_size_def)
  then show ?thesis using assms(1,3) n n' by (cases "x > 0") simp_all
qed

lemma updateBorder_True: "snd (updateBorder b s) \<Longrightarrow> bp_currentBorder (fst (updateBorder b s)) = b"
  by (auto simp: updateBorder_def bp_decide_def Let_def split: if_splits)

lemma bp_process_fits:
  assumes "roomy bp im" "known_mode bp" "bp_enabled bp"
  shows "\<exists>bp' ch. bp_process im bp = Inr (bp', ch) \<and> same_config bp' bp \<and>
    (ch \<longrightarrow> border_fits (img_width im) (img_height im) (unat (bp_blurRemoveCnt bp)) (bp_currentBorder bp'))"
proof -
  let ?blur = "bp_blurRemoveCnt bp"
  have ok: "picture_ok im" using assms(1) by (auto simp: roomy_def picture_ok_def)
  obtain b where b: "bp_detect bp im = Inr b" "border_fits (img_width im) (img_height im) 0 b"
    using detect_fits [OF ok assms(2)] by blast
  let ?b = "b\<lparr>bb_horizontalSize := blur_size ?blur (bb_horizontalSize b),
    bb_verticalSize := blur_size ?blur (bb_verticalSize b)\<rparr>"
  have small: "img_width im div 3 + unat ?blur < 2 ^ 31" "img_height im div 3 + unat ?blur < 2 ^ 31"
    using assms(1) by (simp_all add: roomy_def)
  have "border_fits (img_width im) (img_height im) (unat ?blur) ?b"
    using b(2) blur_size_fits [of _ "img_width im div 3" ?blur] blur_size_fits [of _ "img_height im div 3" ?blur] small
    by (simp add: border_fits_def)
  moreover have "bp_process im bp = Inr (updateBorder ?b bp)"
    using b(1) assms(3) by (simp add: bp_process_def Let_def)
  ultimately show ?thesis
    using updateBorder_True [of ?b bp] same_config_update [of ?b bp]
    by (cases "updateBorder ?b bp") auto
qed

text \<open>The invariant: a map in use is the one for its size and borders, with room inside.\<close>

definition map_ok :: "Led list \<Rightarrow> ledmap \<Rightarrow> bool" where
  "map_ok leds m \<longleftrightarrow>
     itl_new (itl_width m) (itl_height m) (itl_horizontalBorder m) (itl_verticalBorder m) leds = Inr m \<and>
     2 * itl_verticalBorder m < itl_width m \<and> 2 * itl_horizontalBorder m < itl_height m"

definition ip_inv :: "imgproc \<Rightarrow> bool" where
  "ip_inv s \<longleftrightarrow> list_all led_wf (ip_leds s) \<and> known_mode (ip_border s) \<and>
     (\<forall>m. ip_map s = Some m \<longrightarrow> map_ok (ip_leds s) m)"

text \<open>What the steps keep, and what each leaves behind.\<close>

definition ip_same :: "imgproc \<Rightarrow> imgproc \<Rightarrow> bool" where
  "ip_same s' s \<longleftrightarrow> ip_leds s' = ip_leds s \<and> ip_mappingType s' = ip_mappingType s \<and>
     same_config (ip_border s') (ip_border s)"

definition sized_for :: "ColorRgb image \<Rightarrow> imgproc \<Rightarrow> bool" where
  "sized_for im s \<longleftrightarrow> (\<exists>m. ip_map s = Some m \<and> itl_width m = img_width im \<and> itl_height m = img_height im)"

lemma ip_same_refl [simp]: "ip_same s s"
  by (simp add: ip_same_def same_config_def)

lemma ip_same_trans: "ip_same a b \<Longrightarrow> ip_same b c \<Longrightarrow> ip_same a c"
  by (simp add: ip_same_def same_config_def)

lemma replaceMap_ok:
  assumes "ip_inv s" "2 * vb < img_width im" "2 * hb < img_height im" "img_width im < 2 ^ 32" "img_height im < 2 ^ 32"
  shows "\<exists>s'. ip_replaceMap (img_width im) (img_height im) hb vb s = Inr s' \<and> ip_inv s' \<and> ip_same s' s \<and> sized_for im s'"
  using assms itl_new_ok [OF assms(2-5)]
  by (simp add: ip_replaceMap_def ip_inv_def ip_same_def sized_for_def same_config_def map_ok_def)

lemma setSize_ok:
  assumes "ip_inv s" "picture_ok im" "img_width im < 2 ^ 32" "img_height im < 2 ^ 32"
  shows "\<exists>s'. ip_setSize (img_width im) (img_height im) s = Inr s' \<and> ip_inv s' \<and> ip_same s' s \<and> sized_for im s'"
  using replaceMap_ok [OF assms(1), of 0 im 0] assms
  by (auto simp: ip_setSize_def picture_ok_def sized_for_def split: option.split)

lemma ip_inv_border: "ip_inv s \<Longrightarrow> same_config bp (ip_border s) \<Longrightarrow> ip_inv (s\<lparr>ip_border := bp\<rparr>)"
  by (simp add: ip_inv_def known_mode_def same_config_def)

lemma verify_disabled_ok:
  assumes "ip_inv s" "roomy (ip_border s) im" "sized_for im s"
  shows "\<exists>s'. verifyBorder_disabled im s = Inr s' \<and> ip_inv s' \<and> ip_same s' s \<and> sized_for im s'"
proof (cases "bp_enabled (ip_border s)")
  case True
  with assms show ?thesis by (simp add: verifyBorder_disabled_def)
next
  case False
  obtain m where m: "ip_map s = Some m" using assms(3) by (auto simp: sized_for_def)
  let ?bp = "ip_border s\<lparr>bp_currentBorder :=
    \<lparr>bb_unknown = True, bb_horizontalSize = 0, bb_verticalSize = 0\<rparr>\<rparr>"
  have bp: "bp_process im (ip_border s) = Inr (?bp, True)" "same_config ?bp (ip_border s)"
    using False by (simp_all add: bp_process_def same_config_def)
  then have "ip_inv (s\<lparr>ip_border := ?bp\<rparr>)" using assms(1) by (intro ip_inv_border) simp_all
  moreover have "0 < img_width im" "0 < img_height im" "img_width im < 2 ^ 32" "img_height im < 2 ^ 32"
    using assms(2) by (auto simp: roomy_def)
  ultimately obtain s' where "ip_replaceMap (img_width im) (img_height im) 0 0 (s\<lparr>ip_border := ?bp\<rparr>) = Inr s'"
      "ip_inv s'" "ip_same s' (s\<lparr>ip_border := ?bp\<rparr>)" "sized_for im s'"
    using replaceMap_ok [of "s\<lparr>ip_border := ?bp\<rparr>" 0 im 0] by auto
  moreover have "ip_same (s\<lparr>ip_border := ?bp\<rparr>) s" using bp(2) by (simp add: ip_same_def)
  ultimately have "\<exists>s'. ip_replaceMap (img_width im) (img_height im) 0 0 (s\<lparr>ip_border := ?bp\<rparr>) = Inr s' \<and>
      ip_inv s' \<and> ip_same s' s \<and> sized_for im s'"
    using ip_same_trans by blast
  moreover have "verifyBorder_disabled im s =
      (if itl_horizontalBorder m \<noteq> 0 \<or> itl_verticalBorder m \<noteq> 0
       then ip_replaceMap (img_width im) (img_height im) 0 0 (s\<lparr>ip_border := ?bp\<rparr>) else Inr s)"
    using False m bp(1) by (simp add: verifyBorder_disabled_def)
  moreover have "ip_same s s" by simp
  ultimately show ?thesis using assms(1,3)
    by (cases "itl_horizontalBorder m \<noteq> 0 \<or> itl_verticalBorder m \<noteq> 0") (simp_all only: if_True if_False, blast)
qed

lemma as_unsigned_fits:
  assumes "0 \<le> n" "n \<le> int k" "2 * k < d" "d < 2 ^ 32"
  shows "2 * as_unsigned n < d"
proof -
  have "as_unsigned n = nat n" using assms by (simp add: as_unsigned_def)
  then show ?thesis using assms by linarith
qed

lemma verify_enabled_ok:
  assumes "ip_inv s" "roomy (ip_border s) im" "sized_for im s"
  shows "\<exists>s'. verifyBorder_enabled im s = Inr s' \<and> ip_inv s' \<and> ip_same s' s \<and> sized_for im s'"
proof (cases "bp_enabled (ip_border s)")
  case False
  with assms show ?thesis by (simp add: verifyBorder_enabled_def)
next
  case True
  have "known_mode (ip_border s)" using assms(1) by (simp add: ip_inv_def)
  from bp_process_fits [OF assms(2) this True] obtain bp ch where
    bp: "bp_process im (ip_border s) = Inr (bp, ch)" "same_config bp (ip_border s)"
      "ch \<Longrightarrow> border_fits (img_width im) (img_height im) (unat (bp_blurRemoveCnt (ip_border s))) (bp_currentBorder bp)"
    by blast
  let ?s = "s\<lparr>ip_border := bp\<rparr>" and ?b = "bp_currentBorder bp"
  let ?h = "if bb_unknown ?b then 0 else as_unsigned (bb_horizontalSize ?b)"
  let ?v = "if bb_unknown ?b then 0 else as_unsigned (bb_verticalSize ?b)"
  have inv: "ip_inv ?s" and same: "ip_same ?s s"
    using assms(1) bp(2) by (simp_all add: ip_inv_border ip_same_def)
  have eq: "verifyBorder_enabled im s =
      (if ch then ip_replaceMap (img_width im) (img_height im) ?h ?v ?s else Inr ?s)"
    using True bp(1) by (simp add: verifyBorder_enabled_def Let_def)
  show ?thesis
  proof (cases ch)
    case False
    with eq inv same assms(3) show ?thesis by (simp add: sized_for_def)
  next
    case ch: True
    have sizes: "img_width im < 2 ^ 32" "img_height im < 2 ^ 32"
      using assms(2) by (simp_all add: roomy_def)
    have room: "2 * (img_width im div 3 + unat (bp_blurRemoveCnt (ip_border s))) < img_width im"
        "2 * (img_height im div 3 + unat (bp_blurRemoveCnt (ip_border s))) < img_height im"
      using assms(2) by (simp_all only: roomy_def)
    have "2 * ?v < img_width im \<and> 2 * ?h < img_height im"
    proof (cases "bb_unknown ?b")
      case True
      with room show ?thesis by simp
    next
      case False
      with bp(3) [OF ch] have fits: "0 \<le> bb_horizontalSize ?b" "0 \<le> bb_verticalSize ?b"
          "bb_horizontalSize ?b \<le> int (img_height im div 3 + unat (bp_blurRemoveCnt (ip_border s)))"
          "bb_verticalSize ?b \<le> int (img_width im div 3 + unat (bp_blurRemoveCnt (ip_border s)))"
        unfolding border_fits_def by blast+
      then show ?thesis using False as_unsigned_fits room sizes by (simp only: if_False)
    qed
    then obtain s' where "ip_replaceMap (img_width im) (img_height im) ?h ?v ?s = Inr s'"
        "ip_inv s'" "ip_same s' ?s" "sized_for im s'"
      using replaceMap_ok [OF inv _ _ sizes, of ?v ?h] by blast
    then show ?thesis using eq ch ip_same_trans [OF _ same] by auto
  qed
qed

definition accumulates :: "nat \<Rightarrow> 'p image \<Rightarrow> bool" where
  "accumulates w im \<longleftrightarrow> 255 * (img_width im * img_height im) < 2 ^ w"

lemma ip_colors_ok:
  assumes "ip_inv s" "roomy bp im" "sized_for im s" "accumulates w im"
  shows "\<exists>cs. ip_colors w im s = Inr cs \<and> length cs = length (ip_leds s)"
proof -
  obtain m where m: "ip_map s = Some m" "itl_width m = img_width im" "itl_height m = img_height im"
    using assms(3) by (auto simp: sized_for_def)
  have ok: "itl_new (img_width im) (img_height im) (itl_horizontalBorder m) (itl_verticalBorder m) (ip_leds s) = Inr m"
      "2 * itl_verticalBorder m < img_width im" "2 * itl_horizontalBorder m < img_height im" "list_all led_wf (ip_leds s)"
    using assms(1) m by (auto simp: ip_inv_def map_ok_def)
  have sizes: "img_width im < 2 ^ 32" "img_height im < 2 ^ 32" "img_width im * img_height im < 2 ^ 32" "img_wf im"
    using assms(2) by (simp_all add: roomy_def)
  have len: "length (itl_colorsMap m) = length (ip_leds s)"
    using itl_new_ok [OF ok(2,3) sizes(1,2), of "ip_leds s"] ok(1) by (metis length_map ledmap.select_convs(5) sum.inject(2))
  show ?thesis
  proof (cases "ip_mappingType s = 1")
    case True
    with m len show ?thesis
      using mean_led_colors_exact [OF ok(1,4) sizes(4) ok(2,3) sizes(1-3), of w] assms(4)
      by (simp add: ip_colors_def accumulates_def)
  next
    case False
    with m len show ?thesis
      using mean_led_colors_exact [OF ok(1,4) sizes(4) ok(2,3) sizes(1-3), of w] assms(4)
      by (simp add: ip_colors_def accumulates_def)
  qed
qed

lemma ip_process_ok:
  assumes "ip_inv s" "roomy (ip_border s) im" "accumulates w im"
  shows "\<exists>s' cs. ip_process w im s = Inr (s', cs) \<and> ip_inv s' \<and> ip_same s' s \<and> length cs = length (ip_leds s)"
proof -
  have pic: "picture_ok im" "img_width im < 2 ^ 32" "img_height im < 2 ^ 32"
    using assms(2) by (auto simp: picture_ok_def roomy_def)
  have roomy: "roomy (ip_border t) im" if "ip_same t s" for t
    using assms(2) that by (simp add: roomy_def ip_same_def same_config_def)
  obtain s1 where s1: "ip_setSize (img_width im) (img_height im) s = Inr s1" "ip_inv s1" "ip_same s1 s" "sized_for im s1"
    using setSize_ok [OF assms(1) pic] by blast
  obtain s2 where s2: "verifyBorder_disabled im s1 = Inr s2" "ip_inv s2" "ip_same s2 s1" "sized_for im s2"
    using verify_disabled_ok [OF s1(2) roomy [OF s1(3)] s1(4)] by blast
  note same2 = ip_same_trans [OF s2(3) s1(3)]
  obtain s3 where s3: "verifyBorder_enabled im s2 = Inr s3" "ip_inv s3" "ip_same s3 s2" "sized_for im s3"
    using verify_enabled_ok [OF s2(2) roomy [OF same2] s2(4)] by blast
  note same3 = ip_same_trans [OF s3(3) same2]
  obtain cs where "ip_colors w im s3 = Inr cs" "length cs = length (ip_leds s3)"
    using ip_colors_ok [OF s3(2) roomy [OF same3] s3(4) assms(3)] by blast
  with s1(1) s2(1) s3 same3 show ?thesis
    by (simp add: ip_process_def verifyBorder_def) (simp add: ip_same_def)
qed

section \<open>Runs\<close>

datatype ip_op = IpFrame "ColorRgb image" | IpDetector bool | IpMapping int

fun ip_run :: "nat \<Rightarrow> ip_op list \<Rightarrow> imgproc \<Rightarrow> (imgproc \<times> ColorRgb list list) res" where
  "ip_run w [] s = Inr (s, [])"
| "ip_run w (IpFrame im # os) s =
     res_bind (ip_process w im s) (\<lambda>(s', cs).
     res_bind (ip_run w os s') (\<lambda>(s'', css). Inr (s'', cs # css)))"
| "ip_run w (IpDetector b # os) s = ip_run w os (enableBlackBorderDetector b s)"
| "ip_run w (IpMapping t # os) s = ip_run w os (setLedMappingType t s)"

definition frames_ok :: "nat \<Rightarrow> bproc \<Rightarrow> ip_op list \<Rightarrow> bool" where
  "frames_ok w bp os \<longleftrightarrow>
     list_all (\<lambda>oper. case oper of IpFrame im \<Rightarrow> roomy bp im \<and> accumulates w im | _ \<Rightarrow> True) os"

lemma frames_ok_simps [simp]:
  "frames_ok w bp []"
  "frames_ok w bp (IpFrame im # os) \<longleftrightarrow> roomy bp im \<and> accumulates w im \<and> frames_ok w bp os"
  "frames_ok w bp (IpDetector b # os) \<longleftrightarrow> frames_ok w bp os"
  "frames_ok w bp (IpMapping t # os) \<longleftrightarrow> frames_ok w bp os"
  by (auto simp: frames_ok_def)

lemma frames_ok_blur: "bp_blurRemoveCnt bp = bp_blurRemoveCnt bp' \<Longrightarrow> frames_ok w bp os = frames_ok w bp' os"
  by (simp add: frames_ok_def roomy_def cong: ip_op.case_cong)

lemma ip_run_ok:
  assumes "ip_inv s" "frames_ok w (ip_border s) os"
  shows "\<exists>s' css. ip_run w os s = Inr (s', css) \<and> list_all (\<lambda>cs. length cs = length (ip_leds s)) css"
  using assms
proof (induction w os s rule: ip_run.induct)
  case (2 w im os s)
  from ip_process_ok [of s im w] 2(2,3) obtain s' cs where
    s': "ip_process w im s = Inr (s', cs)" "ip_inv s'" "ip_same s' s" "length cs = length (ip_leds s)"
    by auto
  have "frames_ok w (ip_border s') os"
    using 2(3) s'(3) frames_ok_blur [of "ip_border s'" "ip_border s"] by (simp add: ip_same_def same_config_def)
  then obtain s'' css where "ip_run w os s' = Inr (s'', css)" "list_all (\<lambda>cs. length cs = length (ip_leds s')) css"
    using 2(1) [OF s'(2)] by blast
  with s' show ?case by (simp add: ip_same_def)
next
  case (3 w b os s)
  have "ip_inv (enableBlackBorderDetector b s)"
    using 3(2) by (simp add: ip_inv_def enableBlackBorderDetector_def bp_setEnabled_def known_mode_def)
  moreover have "frames_ok w (ip_border (enableBlackBorderDetector b s)) os"
    using 3(3) frames_ok_blur [of "bp_setEnabled b (ip_border s)" "ip_border s"]
    by (simp add: enableBlackBorderDetector_def bp_setEnabled_def)
  ultimately show ?case using 3(1) by (simp add: enableBlackBorderDetector_def)
next
  case (4 w t os s)
  have "ip_inv (setLedMappingType t s)" using 4(2) by (simp add: ip_inv_def setLedMappingType_def)
  with 4(1,3) show ?case by (simp add: setLedMappingType_def)
qed simp

text \<open>
  C8.  Robustness of the picture pipeline: from construction with well-formed leds and one of the
  three detection modes, for every sequence of pictures of changing sizes, switches of the border
  detector and changes of the mapping type, processing never fails an assertion and never reads
  outside a picture, and every picture yields one colour per led.  Asked of every picture
  (\<open>frames_ok\<close>) is that it has room for borders of a third of it plus the configured margin on each
  side, and a size whose sums fit the accumulators; a smaller one, as an empty picture, does fail an assertion.
\<close>

theorem image_pipeline_safe:
  assumes "list_all led_wf leds" "known_mode bp" "frames_ok w bp os"
  shows "\<exists>s css. ip_run w os (ip_new leds bp) = Inr (s, css) \<and> list_all (\<lambda>cs. length cs = length leds) css"
  using ip_run_ok [of "ip_new leds bp" w os] assms by (simp add: ip_new_def ip_inv_def)

theorem image_pipeline_safe_witness:
  "\<exists>s css. ip_run 32 [IpFrame (img_fill BLACK 16 9 (rgb 1 2 3)), IpDetector False, IpFrame (letterbox_picture 12 9 3 2)]
     (ip_new [left_led] (bp_new True 600 50 10 1 ''osd'' 0)) = Inr (s, css) \<and> list_all (\<lambda>cs. length cs = 1) css"
proof -
  have "list_all led_wf [left_led]" by simp
  moreover have "known_mode (bp_new True 600 50 10 1 ''osd'' 0)" by (simp add: known_mode_def bp_new_def)
  moreover have "frames_ok 32 (bp_new True 600 50 10 1 ''osd'' 0)
      [IpFrame (img_fill BLACK 16 9 (rgb 1 2 3)), IpDetector False, IpFrame (letterbox_picture 12 9 3 2)]"
    by (simp add: roomy_def accumulates_def bp_new_def letterbox_picture_def) (simp add: img_fill_def img_wf_def)
  ultimately show ?thesis using image_pipeline_safe [of "[left_led]"] by fastforce
qed

end
