(* ===== verification/Components.thy ===== *)
theory Components
  imports Prelude
begin

text \<open>
  The component identifiers (\<open>include/utils/Components.h\<close>) with their names, and the
  register of component states (\<open>libsrc/hyperion/ComponentRegister.cpp\<close>).
\<close>

datatype Components =
    COMP_INVALID | COMP_SMOOTHING | COMP_BLACKBORDER | COMP_KODICHECKER | COMP_FORWARDER
  | COMP_UDPLISTENER | COMP_BOBLIGHTSERVER | COMP_GRABBER | COMP_V4L | COMP_COLOR | COMP_EFFECT

fun componentToString :: "Components \<Rightarrow> string" where
  "componentToString COMP_SMOOTHING = ''Smoothing''"
| "componentToString COMP_BLACKBORDER = ''Blackborder detector''"
| "componentToString COMP_KODICHECKER = ''KodiVideoChecker''"
| "componentToString COMP_FORWARDER = ''Json/Proto forwarder''"
| "componentToString COMP_UDPLISTENER = ''UDP listener''"
| "componentToString COMP_BOBLIGHTSERVER = ''Boblight server''"
| "componentToString COMP_GRABBER = ''Framegrabber''"
| "componentToString COMP_V4L = ''V4L capture device''"
| "componentToString COMP_COLOR = ''Solid color''"
| "componentToString COMP_EFFECT = ''Effect''"
| "componentToString COMP_INVALID = ''''"

fun componentToIdString :: "Components \<Rightarrow> string" where
  "componentToIdString COMP_SMOOTHING = ''SMOOTHING''"
| "componentToIdString COMP_BLACKBORDER = ''BLACKBORDER''"
| "componentToIdString COMP_KODICHECKER = ''KODICHECKER''"
| "componentToIdString COMP_FORWARDER = ''FORWARDER''"
| "componentToIdString COMP_UDPLISTENER = ''UDPLISTENER''"
| "componentToIdString COMP_BOBLIGHTSERVER = ''BOBLIGHTSERVER''"
| "componentToIdString COMP_GRABBER = ''GRABBER''"
| "componentToIdString COMP_V4L = ''V4L''"
| "componentToIdString COMP_COLOR = ''COLOR''"
| "componentToIdString COMP_EFFECT = ''EFFECT''"
| "componentToIdString COMP_INVALID = ''''"

text \<open>\<open>QString::toUpper\<close> on the ASCII letters, the only ones the identifiers use.\<close>

definition char_upper :: "char \<Rightarrow> char" where
  "char_upper c =
     (let n = (of_char c :: nat) in if 97 \<le> n \<and> n \<le> 122 then char_of (n - 32) else c)"

definition to_upper :: "string \<Rightarrow> string" where
  "to_upper s = map char_upper s"

definition stringToComponent :: "string \<Rightarrow> Components" where
  "stringToComponent s =
     (let component = to_upper s in
      if component = ''SMOOTHING'' then COMP_SMOOTHING
      else if component = ''BLACKBORDER'' then COMP_BLACKBORDER
      else if component = ''KODICHECKER'' then COMP_KODICHECKER
      else if component = ''FORWARDER'' then COMP_FORWARDER
      else if component = ''UDPLISTENER'' then COMP_UDPLISTENER
      else if component = ''BOBLIGHTSERVER'' then COMP_BOBLIGHTSERVER
      else if component = ''GRABBER'' then COMP_GRABBER
      else if component = ''V4L'' then COMP_V4L
      else if component = ''COLOR'' then COMP_COLOR
      else if component = ''EFFECT'' then COMP_EFFECT
      else COMP_INVALID)"

lemma to_upper_idem: "to_upper (to_upper s) = to_upper s"
proof -
  have "char_upper (char_upper c) = char_upper c" for c
    by (auto simp: char_upper_def Let_def)
  then show ?thesis by (simp add: to_upper_def)
qed

lemma stringToComponent_case: "stringToComponent (to_upper s) = stringToComponent s"
  by (simp add: stringToComponent_def to_upper_idem)

lemma stringToComponent_IdString: "stringToComponent (componentToIdString c) = c"
  by (cases c) (simp_all add: stringToComponent_def to_upper_def char_upper_def)

section \<open>The component register\<close>

type_synonym component_register = "Components \<rightharpoonup> bool"

definition creg_componentStateChanged ::
  "component_register \<Rightarrow> Components \<Rightarrow> bool \<Rightarrow> component_register" where
  "creg_componentStateChanged r cmp activated =
     (let emplaced = (if r cmp = None then r(cmp \<mapsto> activated) else r)
      in emplaced(cmp \<mapsto> activated))"

lemma creg_componentStateChanged_eq [simp]:
  "creg_componentStateChanged r cmp activated = r(cmp \<mapsto> activated)"
  by (simp add: creg_componentStateChanged_def)

end
