(* ===== verification/QMaps.thy ===== *)
theory QMaps
  imports Main
begin

text \<open>
  The ordered dictionaries of the code (\<open>QMap\<close>, \<open>std::map\<close>): a list of entries in
  ascending key order, which is the order in which the code iterates.  The interface the
  clients rely on is the locale \<open>ordered_map\<close>; it is interpreted on these definitions.
\<close>

type_synonym ('k, 'v) qmap = "('k \<times> 'v) list"

definition qmap_sorted :: "('k::linorder, 'v) qmap \<Rightarrow> bool" where
  "qmap_sorted m \<longleftrightarrow> sorted_wrt (<) (map fst m)"

fun qmap_insert :: "'k::linorder \<Rightarrow> 'v \<Rightarrow> ('k, 'v) qmap \<Rightarrow> ('k, 'v) qmap" where
  "qmap_insert k v [] = [(k, v)]"
| "qmap_insert k v ((k', v') # m) =
     (if k < k' then (k, v) # (k', v') # m
      else if k = k' then (k, v) # m
      else (k', v') # qmap_insert k v m)"

definition qmap_find :: "('k::linorder, 'v) qmap \<Rightarrow> 'k \<Rightarrow> 'v option" where
  "qmap_find m k = map_of m k"

definition qmap_remove :: "'k::linorder \<Rightarrow> ('k, 'v) qmap \<Rightarrow> ('k, 'v) qmap" where
  "qmap_remove k m = filter (\<lambda>e. fst e \<noteq> k) m"

definition qmap_keys :: "('k::linorder, 'v) qmap \<Rightarrow> 'k list" where
  "qmap_keys m = map fst m"

definition qmap_contains :: "('k::linorder, 'v) qmap \<Rightarrow> 'k \<Rightarrow> bool" where
  "qmap_contains m k \<longleftrightarrow> k \<in> set (qmap_keys m)"

locale ordered_map =
  fixes ins :: "'k::linorder \<Rightarrow> 'v \<Rightarrow> 'm \<Rightarrow> 'm"
    and rem :: "'k \<Rightarrow> 'm \<Rightarrow> 'm"
    and find :: "'m \<Rightarrow> 'k \<Rightarrow> 'v option"
    and keys :: "'m \<Rightarrow> 'k list"
    and inv :: "'m \<Rightarrow> bool"
  assumes inv_ins: "inv m \<Longrightarrow> inv (ins k v m)"
    and inv_rem: "inv m \<Longrightarrow> inv (rem k m)"
    and find_ins: "inv m \<Longrightarrow> find (ins k v m) = (find m)(k \<mapsto> v)"
    and find_rem: "inv m \<Longrightarrow> find (rem k m) = (find m)(k := None)"
    and keys_dom: "inv m \<Longrightarrow> set (keys m) = dom (find m)"
    and keys_sorted: "inv m \<Longrightarrow> sorted_wrt (<) (keys m)"
begin

lemma keys_ins: "inv m \<Longrightarrow> set (keys (ins k v m)) = insert k (set (keys m))"
  by (simp add: keys_dom inv_ins find_ins)

lemma keys_rem: "inv m \<Longrightarrow> set (keys (rem k m)) = set (keys m) - {k}"
  by (simp add: keys_dom inv_rem find_rem)

lemma hd_keys_Min: "inv m \<Longrightarrow> keys m \<noteq> [] \<Longrightarrow> Min (set (keys m)) = hd (keys m)"
  using keys_sorted [of m] by (cases "keys m") (auto intro!: Min_eqI simp: less_imp_le)

lemma find_in_keys: "inv m \<Longrightarrow> k \<in> set (keys m) \<longleftrightarrow> (\<exists>v. find m k = Some v)"
  by (auto simp: keys_dom)

lemma ins_ins: "inv m \<Longrightarrow> find (ins k v (ins k w m)) = find (ins k v m)"
  by (simp add: find_ins inv_ins)

lemma rem_ins: "inv m \<Longrightarrow> find m k = None \<Longrightarrow> find (rem k (ins k v m)) = find m"
  by (auto simp: find_rem find_ins inv_ins)

end

lemma set_qmap_insert:
  "set (map fst (qmap_insert k v m)) = insert k (set (map fst m))"
  by (induction k v m rule: qmap_insert.induct) auto

lemma qmap_sorted_insert: "qmap_sorted m \<Longrightarrow> qmap_sorted (qmap_insert k v m)"
proof (induction k v m rule: qmap_insert.induct)
  case (2 k v k' v' m)
  then show ?case
    using set_qmap_insert [of k v m] by (auto simp: qmap_sorted_def)
qed (simp add: qmap_sorted_def)

lemma map_of_qmap_insert:
  "qmap_sorted m \<Longrightarrow> map_of (qmap_insert k v m) = (map_of m)(k \<mapsto> v)"
  by (induction k v m rule: qmap_insert.induct) (auto simp: qmap_sorted_def fun_eq_iff)

lemma qmap_sorted_filter: "qmap_sorted m \<Longrightarrow> qmap_sorted (filter P m)"
  by (induction m) (auto simp: qmap_sorted_def)

lemma map_of_filter_fst:
  "map_of (filter (\<lambda>e. fst e \<noteq> k) m) = (map_of m)(k := None)"
  by (induction m) (auto simp: fun_eq_iff)

interpretation qm: ordered_map qmap_insert qmap_remove qmap_find qmap_keys qmap_sorted
proof unfold_locales
  fix m :: "('a, 'b) qmap" and k v
  assume m: "qmap_sorted m"
  show "qmap_sorted (qmap_insert k v m)" using m by (rule qmap_sorted_insert)
  show "qmap_sorted (qmap_remove k m)"
    using m by (simp add: qmap_remove_def qmap_sorted_filter)
  show "qmap_find (qmap_insert k v m) = (qmap_find m)(k \<mapsto> v)"
    using map_of_qmap_insert [OF m] by (simp add: qmap_find_def fun_eq_iff)
  show "qmap_find (qmap_remove k m) = (qmap_find m)(k := None)"
    by (simp add: qmap_find_def qmap_remove_def map_of_filter_fst fun_eq_iff)
  show "set (qmap_keys m) = dom (qmap_find m)"
    by (auto simp: qmap_keys_def qmap_find_def dom_map_of_conv_image_fst dom_def
        dest: map_of_SomeD simp: map_of_eq_None_iff weak_map_of_SomeI)
  show "sorted_wrt (<) (qmap_keys m)"
    using m by (simp add: qmap_keys_def qmap_sorted_def)
qed

lemma qmap_find_Nil [simp]: "qmap_find [] = (\<lambda>_. None)"
  by (simp add: qmap_find_def fun_eq_iff)

lemma qmap_find_Cons [simp]: "qmap_find ((k, v) # m) = (qmap_find m)(k \<mapsto> v)"
  by (simp add: qmap_find_def fun_eq_iff)

lemma qmap_find_filter:
  assumes "qmap_sorted m"
  shows "qmap_find (filter P m) k =
    (case qmap_find m k of None \<Rightarrow> None | Some v \<Rightarrow> if P (k, v) then Some v else None)"
  using assms
proof (induction m)
  case (Cons e m)
  have none: "map_of m (fst e) = None"
    using Cons.prems by (cases e) (force simp: qmap_sorted_def map_of_eq_None_iff)
  have tl: "qmap_sorted m" using Cons.prems by (simp add: qmap_sorted_def)
  show ?case
    using Cons.IH [OF tl] none by (cases e) (auto simp: qmap_find_def split: option.splits)
qed (simp add: qmap_find_def)

lemma qmap_find_SomeD: "qmap_find m k = Some v \<Longrightarrow> (k, v) \<in> set m"
  by (simp add: qmap_find_def map_of_SomeD)

lemma qmap_find_mem: "qmap_sorted m \<Longrightarrow> (k, v) \<in> set m \<Longrightarrow> qmap_find m k = Some v"
  unfolding qmap_find_def qmap_sorted_def
  by (rule map_of_is_SomeI) (simp_all add: strict_sorted_iff)

lemma qmap_contains_iff: "qmap_sorted m \<Longrightarrow> qmap_contains m k \<longleftrightarrow> qmap_find m k \<noteq> None"
  by (auto simp: qmap_contains_def qm.find_in_keys)

end
