(* ===== verification/Muxer.thy ===== *)
theory Muxer
  imports Prelude Components QMaps
begin

text \<open>
  \<open>PriorityMuxer\<close> (\<open>include/hyperion/PriorityMuxer.h\<close>, \<open>libsrc/hyperion/PriorityMuxer.cpp\<close>):
  the priority channels, the expiry of channels and the choice of the current priority.
  The channel map is the ordered map of \<open>QMaps\<close>; priorities and times are C integers whose
  arithmetic here (\<open>min\<close> and comparisons) cannot overflow, so they are \<open>int\<close>.
\<close>

section \<open>State and operations\<close>

record InputInfo =
  priority :: int
  timeoutTime_ms :: int
  ledColors :: "ColorRgb list"
  componentId :: Components

definition LOWEST_PRIORITY :: int where
  "LOWEST_PRIORITY = 255"

record muxer =
  mux_currentPriority :: int
  mux_activeInputs :: "(int, InputInfo) qmap"
  mux_lowestPriorityInfo :: InputInfo

definition lowest_info :: "nat \<Rightarrow> InputInfo" where
  "lowest_info ledCount =
     \<lparr>priority = LOWEST_PRIORITY, timeoutTime_ms = -1,
      ledColors = replicate ledCount (rgb 0 0 0), componentId = COMP_INVALID\<rparr>"

definition mux_new :: "nat \<Rightarrow> muxer" where
  "mux_new ledCount =
     \<lparr>mux_currentPriority = LOWEST_PRIORITY,
      mux_activeInputs = qmap_insert LOWEST_PRIORITY (lowest_info ledCount) [],
      mux_lowestPriorityInfo = lowest_info ledCount\<rparr>"

definition mux_getCurrentPriority :: "muxer \<Rightarrow> int" where
  "mux_getCurrentPriority m = mux_currentPriority m"

definition mux_getPriorities :: "muxer \<Rightarrow> int list" where
  "mux_getPriorities m = qmap_keys (mux_activeInputs m)"

definition mux_hasPriority :: "muxer \<Rightarrow> int \<Rightarrow> bool" where
  "mux_hasPriority m p =
     (if p = LOWEST_PRIORITY then True else qmap_contains (mux_activeInputs m) p)"

definition mux_getInputInfo :: "muxer \<Rightarrow> int \<Rightarrow> InputInfo res" where
  "mux_getInputInfo m p =
     (case qmap_find (mux_activeInputs m) p of None \<Rightarrow> Inl RuntimeError | Some i \<Rightarrow> Inr i)"

definition mux_setInput ::
  "muxer \<Rightarrow> int \<Rightarrow> ColorRgb list \<Rightarrow> int \<Rightarrow> Components \<Rightarrow> muxer" where
  "mux_setInput m p cs t c =
     m\<lparr>mux_activeInputs :=
         qmap_insert p \<lparr>priority = p, timeoutTime_ms = t, ledColors = cs, componentId = c\<rparr>
           (mux_activeInputs m),
       mux_currentPriority := min (mux_currentPriority m) p\<rparr>"

text \<open>\<open>*std::min_element(keys.begin(), keys.end())\<close>: undefined on an empty range.\<close>

definition min_element :: "int list \<Rightarrow> int res" where
  "min_element ks = (if ks = [] then Inl Undefined else Inr (Min (set ks)))"

definition mux_clearInput :: "muxer \<Rightarrow> int \<Rightarrow> muxer res" where
  "mux_clearInput m p =
     (if p < LOWEST_PRIORITY then
        (let m' = m\<lparr>mux_activeInputs := qmap_remove p (mux_activeInputs m)\<rparr> in
         if mux_currentPriority m' = p
         then res_bind (min_element (qmap_keys (mux_activeInputs m')))
                (\<lambda>k. Inr (m'\<lparr>mux_currentPriority := k\<rparr>))
         else Inr m')
      else Inr m)"

definition mux_clearAll :: "muxer \<Rightarrow> muxer" where
  "mux_clearAll m =
     m\<lparr>mux_activeInputs := qmap_insert LOWEST_PRIORITY (mux_lowestPriorityInfo m) [],
       mux_currentPriority := LOWEST_PRIORITY\<rparr>"

definition expired :: "int \<Rightarrow> InputInfo \<Rightarrow> bool" where
  "expired now i \<longleftrightarrow> timeoutTime_ms i \<noteq> -1 \<and> timeoutTime_ms i \<le> now"

text \<open>The loop of \<open>setCurrentTime\<close>: erase expired entries, keep the minimum of the others.\<close>

fun expire_loop :: "int \<Rightarrow> int \<Rightarrow> (int, InputInfo) qmap \<Rightarrow> int \<times> (int, InputInfo) qmap" where
  "expire_loop now cur [] = (cur, [])"
| "expire_loop now cur ((k, i) # m) =
     (if expired now i then expire_loop now cur m
      else (let (cur', m') = expire_loop now (min cur (priority i)) m in (cur', (k, i) # m')))"

definition mux_setCurrentTime :: "muxer \<Rightarrow> int \<Rightarrow> muxer" where
  "mux_setCurrentTime m now =
     (let (cur, active) = expire_loop now LOWEST_PRIORITY (mux_activeInputs m) in
      m\<lparr>mux_currentPriority := cur, mux_activeInputs := active\<rparr>)"

section \<open>The invariant\<close>

text \<open>
  A muxer is well formed when its channels are in key order and filed under their own
  priority, the lowest channel is present and never times out, and the current priority is
  the least active one.
\<close>

definition mux_wf :: "muxer \<Rightarrow> bool" where
  "mux_wf m \<longleftrightarrow>
     qmap_sorted (mux_activeInputs m) \<and>
     (\<forall>(k, i) \<in> set (mux_activeInputs m). priority i = k) \<and>
     (\<exists>i. qmap_find (mux_activeInputs m) LOWEST_PRIORITY = Some i \<and> timeoutTime_ms i = -1) \<and>
     mux_currentPriority m = Min (set (mux_getPriorities m)) \<and>
     timeoutTime_ms (mux_lowestPriorityInfo m) = -1 \<and>
     priority (mux_lowestPriorityInfo m) = LOWEST_PRIORITY"

lemma mux_wf_sorted [intro]: "mux_wf m \<Longrightarrow> qmap_sorted (mux_activeInputs m)"
  by (simp add: mux_wf_def)

lemma mux_wf_keys_nonempty: "mux_wf m \<Longrightarrow> LOWEST_PRIORITY \<in> set (mux_getPriorities m)"
  by (auto simp: mux_wf_def mux_getPriorities_def qm.find_in_keys)

lemma mux_wf_current: "mux_wf m \<Longrightarrow> mux_currentPriority m = Min (set (mux_getPriorities m))"
  by (simp add: mux_wf_def)

lemma finite_priorities [simp]: "finite (set (mux_getPriorities m))"
  by simp

lemma mux_wf_current_mem: "mux_wf m \<Longrightarrow> mux_currentPriority m \<in> set (mux_getPriorities m)"
  by (metis Min_in empty_iff finite_priorities mux_wf_current mux_wf_keys_nonempty)

lemma mux_wf_current_le: "mux_wf m \<Longrightarrow> p \<in> set (mux_getPriorities m) \<Longrightarrow> mux_currentPriority m \<le> p"
  by (simp add: mux_wf_current)

lemma mux_wf_new: "mux_wf (mux_new n)"
  by (simp add: mux_wf_def mux_new_def lowest_info_def qmap_sorted_def qmap_find_def
      mux_getPriorities_def qmap_keys_def)

lemma set_qmap_insert_subset: "set (qmap_insert k v m) \<subseteq> insert (k, v) (set m)"
  by (induction k v m rule: qmap_insert.induct) auto

lemma mux_wf_setInput:
  assumes wf: "mux_wf m" and low: "p \<noteq> LOWEST_PRIORITY \<or> t = -1"
  shows "mux_wf (mux_setInput m p cs t c)"
proof -
  let ?i = "\<lparr>priority = p, timeoutTime_ms = t, ledColors = cs, componentId = c\<rparr>"
  let ?a = "mux_activeInputs m"
  have s: "qmap_sorted ?a" using wf by auto
  have keys: "set (qmap_keys (qmap_insert p ?i ?a)) = insert p (set (qmap_keys ?a))"
    using s by (rule qm.keys_ins)
  have ne: "set (qmap_keys ?a) \<noteq> {}"
    using mux_wf_keys_nonempty [OF wf] by (auto simp: mux_getPriorities_def)
  have "min (Min (set (qmap_keys ?a))) p = Min (insert p (set (qmap_keys ?a)))"
    using ne by (simp add: min.commute)
  moreover have "\<forall>(k, i) \<in> set (qmap_insert p ?i ?a). priority i = k"
    using wf set_qmap_insert_subset [of p ?i ?a] by (auto simp: mux_wf_def)
  ultimately show ?thesis
    using wf low s keys
    by (auto simp: mux_wf_def mux_setInput_def mux_getPriorities_def qm.inv_ins qm.find_ins)
qed

lemma mux_clearInput_ok:
  assumes wf: "mux_wf m"
  shows "\<exists>m'. mux_clearInput m p = Inr m' \<and> mux_wf m' \<and>
    mux_activeInputs m' =
      (if p < LOWEST_PRIORITY then qmap_remove p (mux_activeInputs m) else mux_activeInputs m) \<and>
    mux_lowestPriorityInfo m' = mux_lowestPriorityInfo m"
proof (cases "p < LOWEST_PRIORITY")
  case False
  with wf show ?thesis by (simp add: mux_clearInput_def)
next
  case True
  let ?a = "mux_activeInputs m" and ?b = "qmap_remove p (mux_activeInputs m)"
  have s: "qmap_sorted ?a" using wf by auto
  have keys: "set (qmap_keys ?b) = set (qmap_keys ?a) - {p}"
    using s by (rule qm.keys_rem)
  have low: "LOWEST_PRIORITY \<in> set (qmap_keys ?b)"
    using mux_wf_keys_nonempty [OF wf] True by (simp add: keys mux_getPriorities_def)
  have sub: "\<forall>(k, i) \<in> set ?b. priority i = k"
    using wf by (auto simp: mux_wf_def qmap_remove_def)
  have find: "\<exists>i. qmap_find ?b LOWEST_PRIORITY = Some i \<and> timeoutTime_ms i = -1"
    using wf True s by (auto simp: mux_wf_def qm.find_rem)
  have cur: "Min (set (qmap_keys ?b)) = Min (set (qmap_keys ?a))" if "Min (set (qmap_keys ?a)) \<noteq> p"
  proof -
    have "Min (set (qmap_keys ?a)) \<in> set (qmap_keys ?b)"
      using that keys low Min_in [of "set (qmap_keys ?a)"] by fastforce
    then show ?thesis
      by (intro Min_eqI) (auto simp: keys)
  qed
  show ?thesis
    using True wf s sub find low cur
    by (auto simp: mux_clearInput_def Let_def min_element_def mux_wf_def mux_getPriorities_def qm.inv_rem)
qed

lemma mux_wf_clearAll: "mux_wf m \<Longrightarrow> mux_wf (mux_clearAll m)"
  by (simp add: mux_wf_def mux_clearAll_def qmap_sorted_def qmap_find_def mux_getPriorities_def
      qmap_keys_def)

lemma expire_loop_eq:
  "expire_loop now cur m =
     (fold (\<lambda>(k, i) c. min c (priority i)) (filter (\<lambda>(k, i). \<not> expired now i) m) cur,
      filter (\<lambda>(k, i). \<not> expired now i) m)"
  by (induction now cur m rule: expire_loop.induct) (auto simp: Let_def split: prod.splits)

lemma fold_min_Min:
  fixes xs :: "int list"
  shows "fold (\<lambda>x c. min c x) xs cur = Min (insert cur (set xs))"
proof (induction xs arbitrary: cur)
  case (Cons x xs)
  then show ?case
    by (cases "xs = []") (simp_all add: min.assoc min.commute min.left_commute)
qed simp

lemma fold_min_priority:
  "\<forall>(k, i) \<in> set m. priority i = k \<Longrightarrow>
     fold (\<lambda>(k, i) c. min c (priority i)) m cur = Min (insert cur (set (map fst m)))"
proof -
  assume "\<forall>(k, i) \<in> set m. priority i = k"
  then have "fold (\<lambda>(k, i) c. min c (priority i)) m cur = fold (\<lambda>x c. min c x) (map fst m) cur"
    by (induction m arbitrary: cur) auto
  then show ?thesis by (simp only: fold_min_Min)
qed

lemma mux_setCurrentTime_find:
  assumes "qmap_sorted (mux_activeInputs m)"
  shows "qmap_find (mux_activeInputs (mux_setCurrentTime m now)) p =
    (case qmap_find (mux_activeInputs m) p of None \<Rightarrow> None
     | Some i \<Rightarrow> if expired now i then None else Some i)"
  using qmap_find_filter [OF assms, of "\<lambda>(k, i). \<not> expired now i" p]
  by (simp add: mux_setCurrentTime_def expire_loop_eq split: option.splits)

lemma mux_wf_setCurrentTime:
  assumes wf: "mux_wf m"
  shows "mux_wf (mux_setCurrentTime m now)"
proof -
  let ?f = "filter (\<lambda>(k, i). \<not> expired now i) (mux_activeInputs m)"
  have s: "qmap_sorted (mux_activeInputs m)" using wf by auto
  have pr: "\<forall>(k, i) \<in> set ?f. priority i = k" using wf by (auto simp: mux_wf_def)
  obtain i where i: "qmap_find (mux_activeInputs m) LOWEST_PRIORITY = Some i" "timeoutTime_ms i = -1"
    using wf by (auto simp: mux_wf_def)
  then have fi: "qmap_find ?f LOWEST_PRIORITY = Some i"
    using qmap_find_filter [OF s] by (simp add: expired_def)
  then have "LOWEST_PRIORITY \<in> set (map fst ?f)"
    by (force dest: qmap_find_SomeD)
  then have "insert LOWEST_PRIORITY (set (map fst ?f)) = set (map fst ?f)"
    by blast
  then show ?thesis
    using wf s fi i(2) pr fold_min_priority [OF pr, of LOWEST_PRIORITY] qmap_sorted_filter [OF s]
    by (auto simp: mux_wf_def mux_setCurrentTime_def expire_loop_eq mux_getPriorities_def qmap_keys_def)
qed

section \<open>Operation sequences and the abstract specification\<close>

text \<open>
  Abstractly the muxer is a partial map from priorities to channel data whose current
  priority is the least key.  \<open>spec_step\<close> says what each operation promises on that map;
  \<open>low\<close> is the data of the lowest channel that \<open>clearAll\<close> restores.
\<close>

datatype mux_op =
    MuxSet int "ColorRgb list" int Components
  | MuxClear int
  | MuxClearAll
  | MuxTime int

fun mux_step :: "muxer \<Rightarrow> mux_op \<Rightarrow> muxer res" where
  "mux_step m (MuxSet p cs t c) = Inr (mux_setInput m p cs t c)"
| "mux_step m (MuxClear p) = mux_clearInput m p"
| "mux_step m MuxClearAll = Inr (mux_clearAll m)"
| "mux_step m (MuxTime now) = Inr (mux_setCurrentTime m now)"

fun mux_run :: "muxer \<Rightarrow> mux_op list \<Rightarrow> muxer res" where
  "mux_run m [] = Inr m"
| "mux_run m (oper # ops) = res_bind (mux_step m oper) (\<lambda>m'. mux_run m' ops)"

text \<open>The lowest channel must not be given a timeout.\<close>

fun mux_admissible :: "mux_op \<Rightarrow> bool" where
  "mux_admissible (MuxSet p cs t c) \<longleftrightarrow> p \<noteq> LOWEST_PRIORITY \<or> t = -1"
| "mux_admissible _ \<longleftrightarrow> True"

definition mux_abs :: "muxer \<Rightarrow> int \<rightharpoonup> InputInfo" where
  "mux_abs m = qmap_find (mux_activeInputs m)"

fun mux_spec_step :: "InputInfo \<Rightarrow> (int \<rightharpoonup> InputInfo) \<Rightarrow> mux_op \<Rightarrow> (int \<rightharpoonup> InputInfo)" where
  "mux_spec_step low a (MuxSet p cs t c) =
     a(p \<mapsto> \<lparr>priority = p, timeoutTime_ms = t, ledColors = cs, componentId = c\<rparr>)"
| "mux_spec_step low a (MuxClear p) = (if p < LOWEST_PRIORITY then a(p := None) else a)"
| "mux_spec_step low a MuxClearAll = [LOWEST_PRIORITY \<mapsto> low]"
| "mux_spec_step low a (MuxTime now) =
     (\<lambda>p. case a p of None \<Rightarrow> None | Some i \<Rightarrow> if expired now i then None else Some i)"

lemma mux_step_refines:
  assumes wf: "mux_wf m" and adm: "mux_admissible oper"
  obtains m' where "mux_step m oper = Inr m'" "mux_wf m'"
    "mux_abs m' = mux_spec_step (mux_lowestPriorityInfo m) (mux_abs m) oper"
    "mux_lowestPriorityInfo m' = mux_lowestPriorityInfo m"
proof (cases oper)
  case (MuxSet p cs t c)
  with wf adm mux_wf_sorted [OF wf] show thesis
    by (intro that [of "mux_setInput m p cs t c"])
      (simp_all add: mux_wf_setInput mux_abs_def, simp_all add: mux_setInput_def qm.find_ins)
next
  case (MuxClear p)
  obtain m' where m': "mux_clearInput m p = Inr m'" "mux_wf m'"
    "mux_activeInputs m' =
      (if p < LOWEST_PRIORITY then qmap_remove p (mux_activeInputs m) else mux_activeInputs m)"
    "mux_lowestPriorityInfo m' = mux_lowestPriorityInfo m"
    using mux_clearInput_ok [OF wf, of p] by blast
  with MuxClear mux_wf_sorted [OF wf] show thesis
    by (intro that [of m']) (simp_all add: mux_abs_def qm.find_rem)
next
  case MuxClearAll
  with wf show thesis
    by (intro that [of "mux_clearAll m"])
      (simp_all add: mux_wf_clearAll mux_abs_def, simp_all add: mux_clearAll_def qmap_find_def)
next
  case (MuxTime now)
  with wf mux_wf_sorted [OF wf] show thesis
    by (intro that [of "mux_setCurrentTime m now"])
      (simp_all add: mux_wf_setCurrentTime mux_abs_def mux_setCurrentTime_find fun_eq_iff,
       simp_all add: mux_setCurrentTime_def split: prod.splits)
qed

lemma mux_run_refines:
  "mux_wf m \<Longrightarrow> list_all mux_admissible ops \<Longrightarrow>
     \<exists>m'. mux_run m ops = Inr m' \<and> mux_wf m' \<and>
       mux_abs m' = fold (\<lambda>oper a. mux_spec_step (mux_lowestPriorityInfo m) a oper) ops (mux_abs m)"
proof (induction ops arbitrary: m)
  case (Cons oper ops)
  then obtain m1 where m1: "mux_step m oper = Inr m1" "mux_wf m1"
    "mux_abs m1 = mux_spec_step (mux_lowestPriorityInfo m) (mux_abs m) oper"
    "mux_lowestPriorityInfo m1 = mux_lowestPriorityInfo m"
    by (auto elim: mux_step_refines)
  with Cons.IH [of m1] Cons.prems show ?case by simp
qed simp

lemma mux_wf_getInputInfo:
  assumes "mux_wf m"
  shows "mux_getInputInfo m (mux_getCurrentPriority m) =
    Inr (the (mux_abs m (mux_getCurrentPriority m)))"
  using mux_wf_current_mem [OF assms] mux_wf_sorted [OF assms]
  by (auto simp: mux_getInputInfo_def mux_getCurrentPriority_def mux_abs_def mux_getPriorities_def
      qm.find_in_keys)

lemma mux_wf_current_abs:
  "mux_wf m \<Longrightarrow> mux_getCurrentPriority m = Min (dom (mux_abs m))"
  using mux_wf_current [of m] mux_wf_sorted [of m]
  by (simp add: mux_getCurrentPriority_def mux_abs_def mux_getPriorities_def qm.keys_dom)

lemma mux_abs_new [simp]: "mux_abs (mux_new n) = [LOWEST_PRIORITY \<mapsto> lowest_info n]"
  by (simp add: mux_abs_def mux_new_def qmap_find_def)

text \<open>
  C5.  Any sequence of muxer operations that never gives the lowest channel a timeout runs
  without error from a fresh muxer; its channels are those of the abstract specification, its
  current priority is the least active one, and reading the current channel never throws.
\<close>

theorem mux_sequence_correct:
  assumes "list_all mux_admissible ops"
  shows "\<exists>m. mux_run (mux_new n) ops = Inr m \<and>
    mux_abs m = fold (\<lambda>oper a. mux_spec_step (lowest_info n) a oper) ops
                  [LOWEST_PRIORITY \<mapsto> lowest_info n] \<and>
    mux_getCurrentPriority m = Min (dom (mux_abs m)) \<and>
    (\<exists>i. mux_getInputInfo m (mux_getCurrentPriority m) = Inr i \<and>
         mux_abs m (mux_getCurrentPriority m) = Some i)"
proof -
  have low: "mux_lowestPriorityInfo (mux_new n) = lowest_info n" by (simp add: mux_new_def)
  from mux_run_refines [OF mux_wf_new assms, of n] low obtain m where
    m: "mux_run (mux_new n) ops = Inr m" "mux_wf m"
      "mux_abs m = fold (\<lambda>oper a. mux_spec_step (lowest_info n) a oper) ops
         [LOWEST_PRIORITY \<mapsto> lowest_info n]"
    by auto
  have "mux_abs m (mux_getCurrentPriority m) \<noteq> None"
    using mux_wf_current_mem [OF m(2)] mux_wf_sorted [OF m(2)]
    by (auto simp: mux_abs_def mux_getCurrentPriority_def mux_getPriorities_def qm.find_in_keys)
  with m mux_wf_getInputInfo [OF m(2)] mux_wf_current_abs [OF m(2)] show ?thesis by auto
qed

theorem mux_sequence_correct_witness:
  "\<exists>m. mux_run (mux_new 1)
         [MuxSet 10 [rgb 1 2 3] 500 COMP_COLOR, MuxSet 5 [BLACK] (-1) COMP_V4L, MuxClear 5, MuxTime 400] = Inr m \<and>
       mux_getCurrentPriority m = Min (dom (mux_abs m))"
  using mux_sequence_correct
    [of "[MuxSet 10 [rgb 1 2 3] 500 COMP_COLOR, MuxSet 5 [BLACK] (-1) COMP_V4L, MuxClear 5, MuxTime 400]" 1]
  by (auto simp: LOWEST_PRIORITY_def)

text \<open>
  The lowest channel is not protected: once it has been set with a timeout (as the
  Proto interface allows, which does not check the range of priorities) and that time has
  passed, the muxer reports it as current and as present, yet reading it throws.
\<close>

theorem mux_lowest_channel_can_vanish:
  assumes "t \<noteq> -1" and "t \<le> now"
  shows "let m = mux_setCurrentTime (mux_setInput (mux_new n) LOWEST_PRIORITY cs t c) now in
     mux_getCurrentPriority m = LOWEST_PRIORITY \<and> mux_hasPriority m LOWEST_PRIORITY \<and>
     mux_getInputInfo m (mux_getCurrentPriority m) = Inl RuntimeError"
  using assms
  by (simp add: mux_setCurrentTime_def mux_setInput_def mux_new_def mux_getCurrentPriority_def
      mux_hasPriority_def mux_getInputInfo_def expired_def qmap_find_def Let_def)

theorem mux_lowest_channel_can_vanish_witness:
  "mux_getInputInfo (mux_setCurrentTime (mux_setInput (mux_new 1) LOWEST_PRIORITY [BLACK] 100 COMP_COLOR) 200)
     LOWEST_PRIORITY = Inl RuntimeError"
  using mux_lowest_channel_can_vanish [of 100 200 1 "[BLACK]" COMP_COLOR]
  unfolding Let_def by (metis neg_equal_zero order.refl rel_simps)

end
