(* ===== verification/Adjustment.thy ===== *)
theory Adjustment
  imports Prelude Doubles
begin

text \<open>
  The colour adjustment from raw colours to led colours:
  \<open>libsrc/utils/RgbChannelAdjustment.cpp\<close> (a linear table per channel),
  \<open>libsrc/utils/RgbTransform.cpp\<close> (gamma tables, brightness cap and backlight) and
  \<open>libsrc/hyperion/MultiColorAdjustment.cpp\<close> (which adjustment serves which led, and its
  application).  Doubles are the rationals of \<open>Doubles\<close>, rounded after every operation;
  \<open>pw\<close> stands for \<open>std::pow\<close>.
\<close>

section \<open>RgbChannelAdjustment\<close>

record RgbChannelAdjustment =
  adj_adjust :: "byte list"
  adj_mapping :: "byte list list"

definition chan_table :: "byte \<Rightarrow> byte list" where
  "chan_table a = map (\<lambda>idx. u8 (min ((int idx * uint a) div 255) 255)) [0..<256]"

definition chan_setAdjustment :: "byte \<Rightarrow> byte \<Rightarrow> byte \<Rightarrow> RgbChannelAdjustment" where
  "chan_setAdjustment r g b =
     \<lparr>adj_adjust = [r, g, b], adj_mapping = map chan_table [r, g, b]\<rparr>"

definition chan_setAdjustmentR :: "RgbChannelAdjustment \<Rightarrow> byte \<Rightarrow> RgbChannelAdjustment" where
  "chan_setAdjustmentR a r = chan_setAdjustment r (adj_adjust a ! 1) (adj_adjust a ! 2)"

definition chan_setAdjustmentG :: "RgbChannelAdjustment \<Rightarrow> byte \<Rightarrow> RgbChannelAdjustment" where
  "chan_setAdjustmentG a g = chan_setAdjustment (adj_adjust a ! 0) g (adj_adjust a ! 2)"

definition chan_setAdjustmentB :: "RgbChannelAdjustment \<Rightarrow> byte \<Rightarrow> RgbChannelAdjustment" where
  "chan_setAdjustmentB a b = chan_setAdjustment (adj_adjust a ! 0) (adj_adjust a ! 1) b"

definition chan_getAdjustmentR :: "RgbChannelAdjustment \<Rightarrow> byte \<Rightarrow> byte" where
  "chan_getAdjustmentR a x = adj_mapping a ! 0 ! unat x"

definition chan_getAdjustmentG :: "RgbChannelAdjustment \<Rightarrow> byte \<Rightarrow> byte" where
  "chan_getAdjustmentG a x = adj_mapping a ! 1 ! unat x"

definition chan_getAdjustmentB :: "RgbChannelAdjustment \<Rightarrow> byte \<Rightarrow> byte" where
  "chan_getAdjustmentB a x = adj_mapping a ! 2 ! unat x"

text \<open>An adjustment is well formed when its tables are the ones its three values give.\<close>

definition chan_wf :: "RgbChannelAdjustment \<Rightarrow> bool" where
  "chan_wf a \<longleftrightarrow> (\<exists>r g b. a = chan_setAdjustment r g b)"

lemma chan_wf_set [simp]: "chan_wf (chan_setAdjustment r g b)"
  by (auto simp: chan_wf_def)

lemma chan_wf_setters [simp]:
  "chan_wf (chan_setAdjustmentR a x)" "chan_wf (chan_setAdjustmentG a x)"
  "chan_wf (chan_setAdjustmentB a x)"
  by (simp_all add: chan_setAdjustmentR_def chan_setAdjustmentG_def chan_setAdjustmentB_def)

lemma prod_div_255_le:
  assumes "0 \<le> i" "0 \<le> a" "a \<le> 255"
  shows "(i * a) div 255 \<le> (i :: int)"
proof -
  have "(i * a) div 255 \<le> (i * 255) div 255"
    using assms by (intro zdiv_mono1 mult_left_mono) simp_all
  then show ?thesis by simp
qed

lemma uint_chan_table:
  "uint (chan_table a ! unat (x :: byte)) = (uint x * uint a) div 255"
proof -
  let ?v = "(uint x * uint a) div 255"
  have "?v \<le> uint x" by (rule prod_div_255_le) (use byte_bound [of a] in simp_all)
  moreover have "0 \<le> ?v" by (simp add: pos_imp_zdiv_nonneg_iff)
  ultimately have "?v < 256" "min ?v 255 = ?v" "0 \<le> ?v" using byte_bound [of x] by linarith+
  then show ?thesis
    using byte_bound(3) [of x] by (simp add: chan_table_def u8_small)
qed

lemma chan_get:
  "uint (chan_getAdjustmentR (chan_setAdjustment r g b) x) = (uint x * uint r) div 255"
  "uint (chan_getAdjustmentG (chan_setAdjustment r g b) x) = (uint x * uint g) div 255"
  "uint (chan_getAdjustmentB (chan_setAdjustment r g b) x) = (uint x * uint b) div 255"
  by (simp_all add: chan_getAdjustmentR_def chan_getAdjustmentG_def chan_getAdjustmentB_def
      chan_setAdjustment_def uint_chan_table)

lemma chan_get_le:
  assumes "chan_wf a"
  shows "uint (chan_getAdjustmentR a x) \<le> uint x" "uint (chan_getAdjustmentG a x) \<le> uint x"
    "uint (chan_getAdjustmentB a x) \<le> uint x"
proof -
  obtain r g b where a: "a = chan_setAdjustment r g b" using assms by (auto simp: chan_wf_def)
  have "(uint x * uint y) div 255 \<le> uint x" for y :: byte
    by (rule prod_div_255_le) (use byte_bound [of y] in simp_all)
  then show "uint (chan_getAdjustmentR a x) \<le> uint x" "uint (chan_getAdjustmentG a x) \<le> uint x"
    "uint (chan_getAdjustmentB a x) \<le> uint x"
    by (simp_all add: a chan_get)
qed

section \<open>RgbTransform\<close>

record RgbTransform =
  tr_backlightThreshold :: rat
  tr_backlightColored :: bool
  tr_brightnessHigh :: rat
  tr_sumBrightnessLow :: rat
  tr_sumBrightnessHigh :: rat
  tr_gammaR :: rat
  tr_gammaG :: rat
  tr_gammaB :: rat
  tr_mappingR :: "byte list"
  tr_mappingG :: "byte list"
  tr_mappingB :: "byte list"
  tr_backLightEnabled :: bool

type_synonym pow_fun = "rat \<Rightarrow> rat \<Rightarrow> rat"

definition gamma_table :: "pow_fun \<Rightarrow> rat \<Rightarrow> byte list" where
  "gamma_table pw g =
     map (\<lambda>i. u8 (min (max (trunc_rat (dbl (pw (dbl (of_nat i / 255)) g * 255))) 0) 255)) [0..<256]"

definition tr_initializeMapping :: "pow_fun \<Rightarrow> RgbTransform \<Rightarrow> RgbTransform" where
  "tr_initializeMapping pw tr =
     tr\<lparr>tr_mappingR := gamma_table pw (tr_gammaR tr),
        tr_mappingG := gamma_table pw (tr_gammaG tr),
        tr_mappingB := gamma_table pw (tr_gammaB tr)\<rparr>"

definition tr_setGamma :: "pow_fun \<Rightarrow> RgbTransform \<Rightarrow> rat \<Rightarrow> rat \<Rightarrow> rat \<Rightarrow> RgbTransform" where
  "tr_setGamma pw tr gR gG gB =
     tr_initializeMapping pw
       (tr\<lparr>tr_gammaR := gR, tr_gammaG := (if gG < 0 then gR else gG),
           tr_gammaB := (if gB < 0 then gR else gB)\<rparr>)"

text \<open>\<open>765.0 * ((std::pow(2.0, b * 2) - 1) / 3.0)\<close>\<close>

definition sum_brightness :: "pow_fun \<Rightarrow> rat \<Rightarrow> rat" where
  "sum_brightness pw b = dbl (765 * dbl (dbl (pw 2 (dbl (b * 2)) - 1) / 3))"

definition tr_setBacklightThreshold :: "pow_fun \<Rightarrow> RgbTransform \<Rightarrow> rat \<Rightarrow> RgbTransform" where
  "tr_setBacklightThreshold pw tr t =
     tr\<lparr>tr_backlightThreshold := t, tr_sumBrightnessLow := sum_brightness pw t\<rparr>"

definition tr_setBacklightColored :: "RgbTransform \<Rightarrow> bool \<Rightarrow> RgbTransform" where
  "tr_setBacklightColored tr c = tr\<lparr>tr_backlightColored := c\<rparr>"

definition tr_setBackLightEnabled :: "RgbTransform \<Rightarrow> bool \<Rightarrow> RgbTransform" where
  "tr_setBackLightEnabled tr e = tr\<lparr>tr_backLightEnabled := e\<rparr>"

definition tr_setBrightness :: "pow_fun \<Rightarrow> RgbTransform \<Rightarrow> rat \<Rightarrow> RgbTransform" where
  "tr_setBrightness pw tr b =
     tr\<lparr>tr_brightnessHigh := b, tr_sumBrightnessHigh := sum_brightness pw b\<rparr>"

text \<open>The fields before \<open>init\<close> runs; \<open>init\<close> sets every one of them.\<close>

definition tr_raw :: RgbTransform where
  "tr_raw = \<lparr>tr_backlightThreshold = 0, tr_backlightColored = False, tr_brightnessHigh = 0,
     tr_sumBrightnessLow = 0, tr_sumBrightnessHigh = 0, tr_gammaR = 0, tr_gammaG = 0,
     tr_gammaB = 0, tr_mappingR = [], tr_mappingG = [], tr_mappingB = [],
     tr_backLightEnabled = False\<rparr>"

definition tr_init :: "pow_fun \<Rightarrow> rat \<Rightarrow> rat \<Rightarrow> rat \<Rightarrow> rat \<Rightarrow> bool \<Rightarrow> rat \<Rightarrow> RgbTransform" where
  "tr_init pw gR gG gB backlightThreshold backlightColored brightnessHigh =
     (let tr1 = tr_raw\<lparr>tr_backLightEnabled := True\<rparr>;
          tr2 = tr_setGamma pw tr1 gR gG gB;
          tr3 = tr_setBacklightThreshold pw tr2 backlightThreshold;
          tr4 = tr_setBacklightColored tr3 backlightColored;
          tr5 = tr_setBrightness pw tr4 brightnessHigh
      in tr_initializeMapping pw tr5)"

text \<open>\<open>x *= k\<close> for a byte \<open>x\<close> and a double \<open>k\<close>.\<close>

definition scale_u8 :: "byte \<Rightarrow> rat \<Rightarrow> byte res" where
  "scale_u8 x k = rat_to_u8 (dbl (of_int (uint x) * k))"

definition scale3 :: "byte \<Rightarrow> byte \<Rightarrow> byte \<Rightarrow> rat \<Rightarrow> (byte \<times> byte \<times> byte) res" where
  "scale3 r g b k =
     res_bind (scale_u8 r k) (\<lambda>r'. res_bind (scale_u8 g k) (\<lambda>g'. res_bind (scale_u8 b k) (\<lambda>b'.
       Inr (r', g', b'))))"

definition rgb_sum :: "byte \<Rightarrow> byte \<Rightarrow> byte \<Rightarrow> int" where
  "rgb_sum r g b = uint r + uint g + uint b"

definition backlight_coloured :: "rat \<Rightarrow> byte \<Rightarrow> byte \<Rightarrow> byte \<Rightarrow> (byte \<times> byte \<times> byte) res" where
  "backlight_coloured low r g b =
     (let s = rgb_sum r g b;
          r2 = (if s = 0 \<and> r = 0 then 1 else r);
          g2 = (if s = 0 \<and> g = 0 then 1 else g);
          b2 = (if s = 0 \<and> b = 0 then 1 else b);
          s2 = (if s = 0 then rgb_sum r2 g2 b2 else s);
          cL = of_int (min (trunc_rat (dbl (low / of_int s2))) 255)
      in scale3 r2 g2 b2 cL)"

definition tr_transform :: "RgbTransform \<Rightarrow> byte \<Rightarrow> byte \<Rightarrow> byte \<Rightarrow> (byte \<times> byte \<times> byte) res" where
  "tr_transform tr red0 green0 blue0 =
     (let r = tr_mappingR tr ! unat red0;
          g = tr_mappingR tr ! unat green0;
          b = tr_mappingR tr ! unat blue0;
          s = rgb_sum r g b
      in if tr_sumBrightnessHigh tr > 0 \<and> of_int s > tr_sumBrightnessHigh tr
         then scale3 r g b (dbl (tr_sumBrightnessHigh tr / of_int s))
         else if tr_backLightEnabled tr \<and> tr_sumBrightnessLow tr > 0 \<and> of_int s < tr_sumBrightnessLow tr
         then (if tr_backlightColored tr then backlight_coloured (tr_sumBrightnessLow tr) r g b
               else (let x = u8 (min (trunc_rat (dbl (tr_sumBrightnessLow tr / 3))) 255)
                     in Inr (x, x, x)))
         else Inr (r, g, b))"

lemma rgb_sum_bounds: "0 \<le> rgb_sum r g b" "rgb_sum r g b \<le> 765"
  "uint r \<le> rgb_sum r g b" "uint g \<le> rgb_sum r g b" "uint b \<le> rgb_sum r g b"
  using byte_bound [of r] byte_bound [of g] byte_bound [of b] by (simp_all add: rgb_sum_def)

lemma scale_u8_le:
  assumes "0 \<le> k" "k \<le> 1"
  obtains y where "scale_u8 x k = Inr y" "uint y \<le> uint x"
proof -
  have x: "0 \<le> uint x" "uint x \<le> 255" using byte_bound [of x] by simp_all
  then have "0 \<le> dbl (of_int (uint x) * k) \<and> dbl (of_int (uint x) * k) \<le> of_int (uint x)"
    using dbl.rnd_scale [OF assms x(1)] by simp
  with rat_to_u8_ok [of "dbl (of_int (uint x) * k)" "uint x"] x that show thesis
    unfolding scale_u8_def by blast
qed

lemma scale3_le:
  assumes "0 \<le> k" "k \<le> 1"
  obtains r' g' b' where "scale3 r g b k = Inr (r', g', b')"
    "uint r' \<le> uint r" "uint g' \<le> uint g" "uint b' \<le> uint b"
proof -
  obtain r' where r': "scale_u8 r k = Inr r'" "uint r' \<le> uint r" using scale_u8_le [OF assms] .
  obtain g' where g': "scale_u8 g k = Inr g'" "uint g' \<le> uint g" using scale_u8_le [OF assms] .
  obtain b' where b': "scale_u8 b k = Inr b'" "uint b' \<le> uint b" using scale_u8_le [OF assms] .
  from r' g' b' show thesis by (intro that [of r' g' b']) (simp_all add: scale3_def)
qed

text \<open>Multiplying by an integer is exact as long as the products are bytes.\<close>

lemma scale_u8_int:
  assumes "0 \<le> n" "uint x * n \<le> 255"
  shows "scale_u8 x (of_int n) = Inr (u8 (uint x * n))"
proof -
  have p: "0 \<le> uint x * n" using assms(1) byte_bound [of x] by simp
  then have "dbl (of_int (uint x * n)) = of_int (uint x * n)"
    using assms(2) by (intro dbl.rnd_int) simp
  then have "dbl (of_int (uint x) * of_int n) = of_int (uint x * n)" by simp
  with p assms(2) show ?thesis by (simp only: scale_u8_def rat_to_u8_def trunc_rat_of_int) simp
qed

lemma scale3_int:
  assumes "0 \<le> n" "rgb_sum r g b * n \<le> 255"
  shows "scale3 r g b (of_int n) = Inr (u8 (uint r * n), u8 (uint g * n), u8 (uint b * n))"
proof -
  have "uint x * n \<le> 255" if "uint x \<le> rgb_sum r g b" for x :: byte
    using mult_right_mono [OF that assms(1)] assms(2) by linarith
  then show ?thesis
    using assms(1) rgb_sum_bounds [where r = r and g = g and b = b] by (simp add: scale3_def scale_u8_int)
qed

text \<open>The factor of the coloured backlight never takes the sum past the threshold.\<close>

lemma backlight_factor:
  assumes "0 < low" "low \<le> 255" "0 < s" "s \<le> 765"
  shows "0 \<le> min (trunc_rat (dbl (low / of_int s))) 255"
    and "s * min (trunc_rat (dbl (low / of_int s))) 255 \<le> 255"
proof -
  let ?q = "low / of_int s"
  let ?n = "min (trunc_rat (dbl ?q)) 255"
  have q0: "0 \<le> dbl ?q" using assms by (intro dbl.rnd_nonneg) simp
  then show n0: "0 \<le> ?n" using trunc_rat_sign(1) [OF q0] by simp
  show "s * ?n \<le> 255"
  proof (rule ccontr)
    assume "\<not> s * ?n \<le> 255"
    then have "255 \<le> s * ?n - 1" by simp
    then have "low \<le> of_int (s * ?n - 1)" using assms(2) by (metis of_int_le_iff of_int_numeral order_trans)
    then have "?q \<le> of_int (s * ?n - 1) / of_int s" using assms(3) by (simp add: divide_right_mono)
    also have "\<dots> = of_int ?n - 1 / of_int s" using assms(3) by (simp add: diff_divide_distrib)
    finally have below: "?q \<le> of_int ?n - 1 / of_int s" .
    have "s \<le> 1024" using assms(4) by linarith
    with below assms n0 have "dbl ?q < of_int ?n" by (intro dbl.rnd_below_int [where s = s]) simp_all
    moreover have "of_int ?n \<le> dbl ?q"
    proof -
      have "of_int (trunc_rat (dbl ?q)) \<le> dbl ?q" using q0 by (simp add: trunc_rat_def)
      moreover have "(of_int ?n :: rat) \<le> of_int (trunc_rat (dbl ?q))" by (simp only: of_int_le_iff min.cobounded1)
      ultimately show ?thesis by linarith
    qed
    ultimately show False by simp
  qed
qed

lemma backlight_coloured_ok:
  assumes "0 < low" "low \<le> 255"
  shows "\<exists>c. backlight_coloured low r g b = Inr c"
proof (cases "rgb_sum r g b = 0")
  case False
  then have s: "0 < rgb_sum r g b" "rgb_sum r g b \<le> 765" using rgb_sum_bounds [where r = r and g = g and b = b] by linarith+
  with False backlight_factor [OF assms s] show ?thesis
    by (simp add: backlight_coloured_def Let_def scale3_int)
next
  case True
  then have z: "uint r = 0" "uint g = 0" "uint b = 0"
    unfolding rgb_sum_def using byte_bound [of r] byte_bound [of g] byte_bound [of b] by linarith+
  then have "r = 0" "g = 0" "b = 0" by (simp_all add: word_uint_eq_iff)
  moreover have "rgb_sum 1 1 1 = 3" by (simp add: rgb_sum_def)
  ultimately show ?thesis
    using True backlight_factor [OF assms, of 3] by (simp add: backlight_coloured_def Let_def scale3_int)
qed

lemma tr_transform_total:
  assumes "tr_sumBrightnessLow tr \<le> 255 \<or> \<not> tr_backlightColored tr"
  obtains r' g' b' where "tr_transform tr r g b = Inr (r', g', b')"
proof -
  let ?s = "rgb_sum (tr_mappingR tr ! unat r) (tr_mappingR tr ! unat g) (tr_mappingR tr ! unat b)"
  let ?k = "dbl (tr_sumBrightnessHigh tr / of_int ?s)"
  have "\<exists>c. scale3 x y z ?k = Inr c"
    if "0 < tr_sumBrightnessHigh tr" "tr_sumBrightnessHigh tr < of_int ?s" for x y z
  proof -
    have "0 \<le> ?k" "?k \<le> 1" using that by (intro dbl.rnd_nonneg dbl.rnd_le_1; simp)+
    then show ?thesis by (metis scale3_le)
  qed
  then have "\<exists>c. tr_transform tr r g b = Inr c"
    using assms backlight_coloured_ok [of "tr_sumBrightnessLow tr"]
    by (auto simp: tr_transform_def Let_def)
  then show thesis using that by auto
qed

text \<open>
  The brightness transform is total (no undefined conversion) whenever the backlight sum
  is at most 255, that is for thresholds up to one half, or the backlight is not coloured.
\<close>

theorem transform_defined:
  assumes "tr_sumBrightnessLow tr \<le> 255 \<or> \<not> tr_backlightColored tr"
  shows "\<exists>c. tr_transform tr r g b = Inr c"
  using tr_transform_total [OF assms] by metis

theorem transform_defined_witness:
  "\<exists>c. tr_transform (tr_raw\<lparr>tr_sumBrightnessLow := 100, tr_backlightColored := True,
         tr_backLightEnabled := True, tr_mappingR := map u8 [0..255]\<rparr>) 3 0 7 = Inr c"
  by (rule transform_defined) simp

lemma sum_brightness_one: "pw 2 2 = 4 \<Longrightarrow> sum_brightness pw 1 = 765"
  using dbl.rnd_int [of 2] dbl.rnd_int [of 3] dbl.rnd_int [of 765] by (simp add: sum_brightness_def)

text \<open>
  Past that bound the coloured backlight overflows a byte: with threshold and brightness
  one (and \<open>std::pow(2, 2) = 4\<close>) the colour that maps to (2, 0, 0) is scaled to 510, whose
  conversion to \<open>uint8_t\<close> is undefined.
\<close>

theorem transform_backlight_overflow:
  assumes "pw 2 2 = 4"
    and "tr = tr_setBrightness pw (tr_setBacklightColored (tr_setBacklightThreshold pw tr0 1) True) 1"
    and "tr_backLightEnabled tr0" "tr_mappingR tr0 = map u8 [0..255]"
  shows "tr_transform tr 2 0 0 = Inl Undefined"
proof -
  have tr: "tr_sumBrightnessLow tr = 765" "tr_backlightColored tr" "tr_backLightEnabled tr"
    "tr_sumBrightnessHigh tr = 765" "tr_mappingR tr = map u8 [0..255]"
    using assms by (simp_all add: tr_setBrightness_def tr_setBacklightColored_def
        tr_setBacklightThreshold_def sum_brightness_one)
  have m: "map u8 [0..255] ! 2 = 2" "map u8 [0..255] ! 0 = 0"
    by (simp_all add: u8_def nth_upto)
  have low: "trunc_rat (dbl (765 / 2)) \<ge> 255"
  proof -
    have "of_int 255 \<le> dbl (765 / 2)" by (rule dbl.rnd_ge) simp_all
    then show ?thesis using trunc_rat_mono [of "of_int 255"] by (metis trunc_rat_of_int)
  qed
  have sum: "rgb_sum 2 0 0 = 2" by (simp add: rgb_sum_def)
  have big: "dbl 510 = of_int 510" using dbl.rnd_int [of 510] by simp
  have "scale_u8 2 255 = Inl Undefined"
    unfolding scale_u8_def rat_to_u8_def by (simp add: big trunc_rat_def)
  then have "scale3 2 0 0 255 = Inl Undefined" by (simp add: scale3_def)
  with low sum m tr show ?thesis
    by (simp add: tr_transform_def backlight_coloured_def Let_def min_absorb2)
qed

theorem transform_backlight_overflow_witness:
  "tr_transform
     (tr_setBrightness (\<lambda>x y. x * x) (tr_setBacklightColored (tr_setBacklightThreshold (\<lambda>x y. x * x)
        (tr_raw\<lparr>tr_backLightEnabled := True, tr_mappingR := map u8 [0..255]\<rparr>) 1) True) 1) 2 0 0
   = Inl Undefined"
  by (rule transform_backlight_overflow [where pw = "\<lambda>x y. x * x"]) (simp, rule refl, simp_all)

text \<open>
  The gamma of green and of blue never reaches the output: \<open>transform\<close> reads the red
  table for all three channels, so two settings that share the red gamma act alike.
\<close>

theorem transform_ignores_green_blue_gamma:
  "tr_transform (tr_setGamma pw tr gR gG gB) r g b = tr_transform (tr_setGamma pw tr gR gG' gB') r g b"
  by (simp add: tr_transform_def tr_setGamma_def tr_initializeMapping_def Let_def)

section \<open>MultiColorAdjustment\<close>

record ColorAdjustment =
  ca_id :: string
  ca_rgbBlackAdjustment :: RgbChannelAdjustment
  ca_rgbWhiteAdjustment :: RgbChannelAdjustment
  ca_rgbRedAdjustment :: RgbChannelAdjustment
  ca_rgbGreenAdjustment :: RgbChannelAdjustment
  ca_rgbBlueAdjustment :: RgbChannelAdjustment
  ca_rgbCyanAdjustment :: RgbChannelAdjustment
  ca_rgbMagentaAdjustment :: RgbChannelAdjustment
  ca_rgbYellowAdjustment :: RgbChannelAdjustment
  ca_rgbTransform :: RgbTransform

text \<open>
  The adjustments are a list of objects; a led points to one of them by its position, \<open>None\<close>
  for the null pointer, so that leds that share an adjustment see its updates.
\<close>

record MultiColorAdjustment =
  mca_adjustmentIds :: "string list"
  mca_adjustment :: "ColorAdjustment list"
  mca_ledAdjustments :: "nat option list"

definition mca_new :: "nat \<Rightarrow> MultiColorAdjustment" where
  "mca_new ledCnt =
     \<lparr>mca_adjustmentIds = [], mca_adjustment = [], mca_ledAdjustments = replicate ledCnt None\<rparr>"

definition mca_addAdjustment :: "MultiColorAdjustment \<Rightarrow> ColorAdjustment \<Rightarrow> MultiColorAdjustment" where
  "mca_addAdjustment m a =
     m\<lparr>mca_adjustmentIds := mca_adjustmentIds m @ [ca_id a],
       mca_adjustment := mca_adjustment m @ [a]\<rparr>"

fun find_adjustment :: "ColorAdjustment list \<Rightarrow> string \<Rightarrow> nat option" where
  "find_adjustment [] i = None"
| "find_adjustment (a # as) i =
     (if ca_id a = i then Some 0 else map_option Suc (find_adjustment as i))"

definition mca_getAdjustment :: "MultiColorAdjustment \<Rightarrow> string \<Rightarrow> nat option" where
  "mca_getAdjustment m i = find_adjustment (mca_adjustment m) i"

definition mca_setAdjustmentForLed ::
  "MultiColorAdjustment \<Rightarrow> string \<Rightarrow> nat \<Rightarrow> nat \<Rightarrow> MultiColorAdjustment res" where
  "mca_setAdjustmentForLed m i startLed endLed =
     (if \<not> startLed \<le> endLed \<or> \<not> endLed < length (mca_ledAdjustments m) then Inl AssertFail
      else Inr (m\<lparr>mca_ledAdjustments :=
        fold (\<lambda>iLed ls. ls[iLed := mca_getAdjustment m i]) [startLed ..< Suc endLed]
          (mca_ledAdjustments m)\<rparr>))"

text \<open>The loop of \<open>verifyAdjustments\<close>: it stops at the first led without an adjustment.\<close>

definition reset_brightness :: "pow_fun \<Rightarrow> ColorAdjustment \<Rightarrow> ColorAdjustment" where
  "reset_brightness pw a =
     (let tr = ca_rgbTransform a in
      if tr_brightnessHigh tr \<le> tr_backlightThreshold tr
      then a\<lparr>ca_rgbTransform := tr_setBrightness pw (tr_setBacklightThreshold pw tr 0) (1/2)\<rparr>
      else a)"

fun verify_loop ::
  "pow_fun \<Rightarrow> ColorAdjustment list \<Rightarrow> nat option list \<Rightarrow> bool \<times> ColorAdjustment list" where
  "verify_loop pw as [] = (True, as)"
| "verify_loop pw as (None # ls) = (False, as)"
| "verify_loop pw as (Some i # ls) = verify_loop pw (as[i := reset_brightness pw (as ! i)]) ls"

definition mca_verifyAdjustments ::
  "pow_fun \<Rightarrow> MultiColorAdjustment \<Rightarrow> bool \<times> MultiColorAdjustment" where
  "mca_verifyAdjustments pw m =
     (let (ok, as) = verify_loop pw (mca_adjustment m) (mca_ledAdjustments m)
      in (ok, m\<lparr>mca_adjustment := as\<rparr>))"

definition mca_setBacklightEnabled :: "MultiColorAdjustment \<Rightarrow> bool \<Rightarrow> MultiColorAdjustment" where
  "mca_setBacklightEnabled m enable =
     m\<lparr>mca_adjustment := map (\<lambda>a. a\<lparr>ca_rgbTransform :=
         tr_setBackLightEnabled (ca_rgbTransform a) enable\<rparr>) (mca_adjustment m)\<rparr>"

text \<open>
  The eight weights of a transformed colour: how much black, red, green, blue, cyan, magenta,
  yellow and white it is made of.  The products are at most \<open>255 ^ 3\<close>, so the 32-bit
  arithmetic of the source does not wrap.
\<close>

definition weight :: "int \<Rightarrow> int \<Rightarrow> int \<Rightarrow> byte" where
  "weight x y z = u8 ((x * y * z) div 65025)"

definition color_weights :: "byte \<Rightarrow> byte \<Rightarrow> byte \<Rightarrow> byte list" where
  "color_weights ored ogreen oblue =
     (let r = uint ored; g = uint ogreen; b = uint oblue in
      [weight (255 - r) (255 - g) (255 - b), weight r (255 - g) (255 - b),
       weight (255 - r) g (255 - b), weight (255 - r) (255 - g) b,
       weight (255 - r) g b, weight r (255 - g) b, weight r g (255 - b), weight r g b])"

definition ca_adjustments :: "ColorAdjustment \<Rightarrow> RgbChannelAdjustment list" where
  "ca_adjustments a =
     [ca_rgbBlackAdjustment a, ca_rgbRedAdjustment a, ca_rgbGreenAdjustment a, ca_rgbBlueAdjustment a,
      ca_rgbCyanAdjustment a, ca_rgbMagentaAdjustment a, ca_rgbYellowAdjustment a, ca_rgbWhiteAdjustment a]"

text \<open>
  The sum the source forms before it stores a channel (\<open>OR + RR + GR + BR + CR + MR + YR + WR\<close>
  for red), taken with the getter of that channel.
\<close>

definition channel_total ::
  "(RgbChannelAdjustment \<Rightarrow> byte \<Rightarrow> byte) \<Rightarrow> ColorAdjustment \<Rightarrow> byte list \<Rightarrow> int" where
  "channel_total get a ws = sum_list (map2 (\<lambda>adj w. uint (get adj w)) (ca_adjustments a) ws)"

definition adjust_color :: "ColorAdjustment \<Rightarrow> ColorRgb \<Rightarrow> ColorRgb res" where
  "adjust_color a c =
     res_bind (tr_transform (ca_rgbTransform a) (red c) (green c) (blue c)) (\<lambda>(ored, ogreen, oblue).
       let ws = color_weights ored ogreen oblue in
       Inr (rgb (u8 (channel_total chan_getAdjustmentR a ws))
                (u8 (channel_total chan_getAdjustmentG a ws))
                (u8 (channel_total chan_getAdjustmentB a ws))))"

text \<open>\<open>applyAdjustment\<close> walks the leds that have both a colour and a pointer.\<close>

fun apply_loop :: "ColorAdjustment list \<Rightarrow> nat option list \<Rightarrow> ColorRgb list \<Rightarrow> ColorRgb list res" where
  "apply_loop as [] cs = Inr cs"
| "apply_loop as ls [] = Inr []"
| "apply_loop as (None # ls) (c # cs) = res_bind (apply_loop as ls cs) (\<lambda>cs'. Inr (c # cs'))"
| "apply_loop as (Some i # ls) (c # cs) =
     res_bind (adjust_color (as ! i) c) (\<lambda>c'. res_bind (apply_loop as ls cs) (\<lambda>cs'. Inr (c' # cs')))"

definition mca_applyAdjustment :: "MultiColorAdjustment \<Rightarrow> ColorRgb list \<Rightarrow> ColorRgb list res" where
  "mca_applyAdjustment m cs = apply_loop (mca_adjustment m) (mca_ledAdjustments m) cs"

subsection \<open>The weights share out the colour\<close>

lemma weight_bounds:
  assumes "0 \<le> x" "x \<le> 255" "0 \<le> y" "y \<le> 255" "0 \<le> z" "z \<le> 255"
  shows "uint (weight x y z) = (x * y * z) div 65025"
    and "65025 * uint (weight x y z) \<le> x * y * z" "x * y * z < 65025 * uint (weight x y z) + 65025"
proof -
  have "x * y \<le> 255 * 255" using assms by (intro mult_mono) simp_all
  then have "x * y * z \<le> 255 * 255 * 255" using assms by (intro mult_mono) simp_all
  from zdiv_mono1 [OF this, of 65025] have "(x * y * z) div 65025 \<le> 255" by simp
  moreover have "0 \<le> (x * y * z) div 65025" using assms by (simp add: pos_imp_zdiv_nonneg_iff)
  ultimately show w: "uint (weight x y z) = (x * y * z) div 65025" by (simp add: weight_def u8_small)
  have "0 \<le> (x * y * z) mod 65025" "(x * y * z) mod 65025 < 65025" by simp_all
  then show "65025 * uint (weight x y z) \<le> x * y * z" "x * y * z < 65025 * uint (weight x y z) + 65025"
    using mult_div_mod_eq [of 65025 "x * y * z"] unfolding w by linarith+
qed

lemma color_weights_sum: "sum_list (map uint (color_weights r g b)) \<le> 255"
proof -
  define x y z where "x = uint r" "y = uint g" "z = uint b"
  have b: "0 \<le> x" "x \<le> 255" "0 \<le> y" "y \<le> 255" "0 \<le> z" "z \<le> 255"
    using byte_bound [of r] byte_bound [of g] byte_bound [of b] by (simp_all add: x_y_z_def)
  then have c: "0 \<le> 255 - x" "255 - x \<le> 255" "0 \<le> 255 - y" "255 - y \<le> 255" "0 \<le> 255 - z" "255 - z \<le> 255"
    by simp_all
  have "65025 * sum_list (map uint (color_weights r g b)) \<le>
      (255 - x) * (255 - y) * (255 - z) + x * (255 - y) * (255 - z) + (255 - x) * y * (255 - z) +
      (255 - x) * (255 - y) * z + (255 - x) * y * z + x * (255 - y) * z + x * y * (255 - z) + x * y * z"
    using weight_bounds(2) [OF c] weight_bounds(2) [OF b(1,2) c(3,4,5,6)]
      weight_bounds(2) [OF c(1,2) b(3,4) c(5,6)] weight_bounds(2) [OF c(1,2,3,4) b(5,6)]
      weight_bounds(2) [OF c(1,2) b(3,4,5,6)] weight_bounds(2) [OF b(1,2) c(3,4) b(5,6)]
      weight_bounds(2) [OF b(1,2,3,4) c(5,6)] weight_bounds(2) [OF b]
    by (simp add: color_weights_def Let_def x_y_z_def)
  also have "\<dots> = 65025 * 255" by (simp add: algebra_simps)
  finally show ?thesis by simp
qed

definition ca_wf :: "ColorAdjustment \<Rightarrow> bool" where
  "ca_wf a \<longleftrightarrow> list_all chan_wf (ca_adjustments a)"

lemma length_color_weights: "length (color_weights r g b) = 8"
  by (simp add: color_weights_def Let_def)

lemma length_ca_adjustments: "length (ca_adjustments a) = 8"
  by (simp add: ca_adjustments_def)

lemma sum_map2_le:
  assumes "length as = length ws" "\<And>a w. a \<in> set as \<Longrightarrow> f a w \<le> h w"
  shows "sum_list (map2 f as ws) \<le> sum_list (map (h :: 'b \<Rightarrow> int) ws)"
  using assms
proof (induction as ws rule: list_induct2)
  case (Cons a as w ws)
  then have "sum_list (map2 f as ws) \<le> sum_list (map h ws)" by simp
  moreover have "f a w \<le> h w" using Cons.prems by simp
  ultimately show ?case by simp
qed simp

lemma channel_total_bounds:
  assumes "ca_wf a" "get \<in> {chan_getAdjustmentR, chan_getAdjustmentG, chan_getAdjustmentB}"
  shows "0 \<le> channel_total get a (color_weights r g b)" "channel_total get a (color_weights r g b) \<le> 255"
proof -
  show "0 \<le> channel_total get a (color_weights r g b)"
    unfolding channel_total_def by (rule sum_list_nonneg) auto
  have "uint (get adj w) \<le> uint w" if "adj \<in> set (ca_adjustments a)" for adj w
    using assms that chan_get_le [of adj w] by (auto simp: ca_wf_def list_all_iff)
  then have "channel_total get a (color_weights r g b) \<le> sum_list (map uint (color_weights r g b))"
    unfolding channel_total_def
    by (intro sum_map2_le) (simp_all add: length_color_weights length_ca_adjustments)
  then show "channel_total get a (color_weights r g b) \<le> 255"
    using color_weights_sum [of r g b] by linarith
qed

lemma channel_total_mod:
  assumes "ca_wf a"
  shows "channel_total chan_getAdjustmentR a (color_weights r g b) mod 256 =
      channel_total chan_getAdjustmentR a (color_weights r g b)"
    "channel_total chan_getAdjustmentG a (color_weights r g b) mod 256 =
      channel_total chan_getAdjustmentG a (color_weights r g b)"
    "channel_total chan_getAdjustmentB a (color_weights r g b) mod 256 =
      channel_total chan_getAdjustmentB a (color_weights r g b)"
  using channel_total_bounds [OF assms, of chan_getAdjustmentR r g b]
    channel_total_bounds [OF assms, of chan_getAdjustmentG r g b]
    channel_total_bounds [OF assms, of chan_getAdjustmentB r g b] by simp_all

text \<open>
  C27.  The eight adjusted contributions of a channel never overflow their byte: for any
  adjustment built by \<open>setAdjustment\<close>, the stored channel is the exact sum.
\<close>

theorem adjust_color_exact:
  assumes "ca_wf a"
    and "tr_transform (ca_rgbTransform a) (red c) (green c) (blue c) = Inr (r, g, b)"
  shows "\<exists>c'. adjust_color a c = Inr c' \<and>
    uint (red c') = channel_total chan_getAdjustmentR a (color_weights r g b) \<and>
    uint (green c') = channel_total chan_getAdjustmentG a (color_weights r g b) \<and>
    uint (blue c') = channel_total chan_getAdjustmentB a (color_weights r g b)"
  using assms(2) channel_total_mod [OF assms(1), of r g b]
  by (simp add: adjust_color_def Let_def uint_u8)

text \<open>A transform that leaves every colour alone: identity table, no cap, no backlight.\<close>

definition tr_plain :: RgbTransform where
  "tr_plain = tr_raw\<lparr>tr_mappingR := map u8 [0..255]\<rparr>"

lemma tr_plain_transform: "tr_transform tr_plain r g b = Inr (r, g, b)"
proof -
  have "map u8 [0..255] ! unat x = x" for x :: byte
  proof -
    have "unat x < 256" "uint x \<le> 255" using byte_bound [of x] by simp_all
    then have "map u8 [0..255] ! unat x = u8 (int (unat x))" by (simp add: nth_upto)
    also have "\<dots> = x" by (simp add: u8_def)
    finally show ?thesis .
  qed
  then show ?thesis by (simp add: tr_transform_def tr_plain_def tr_raw_def Let_def)
qed

subsection \<open>The default adjustment\<close>

definition ca_default :: "string \<Rightarrow> RgbTransform \<Rightarrow> ColorAdjustment" where
  "ca_default i tr =
     \<lparr>ca_id = i,
      ca_rgbBlackAdjustment = chan_setAdjustment 0 0 0,
      ca_rgbWhiteAdjustment = chan_setAdjustment 255 255 255,
      ca_rgbRedAdjustment = chan_setAdjustment 255 0 0,
      ca_rgbGreenAdjustment = chan_setAdjustment 0 255 0,
      ca_rgbBlueAdjustment = chan_setAdjustment 0 0 255,
      ca_rgbCyanAdjustment = chan_setAdjustment 0 255 255,
      ca_rgbMagentaAdjustment = chan_setAdjustment 255 0 255,
      ca_rgbYellowAdjustment = chan_setAdjustment 255 255 0,
      ca_rgbTransform = tr\<rparr>"

lemma ca_wf_default [simp]: "ca_wf (ca_default i tr)"
  by (simp add: ca_wf_def ca_adjustments_def ca_default_def)

lemma four_weights:
  assumes x: "0 \<le> x" "x \<le> 255" and y: "0 \<le> y" "y \<le> 255" and z: "0 \<le> z" "z \<le> (255 :: int)"
  shows "uint (weight x (255 - y) (255 - z)) + uint (weight x (255 - y) z) + uint (weight x y (255 - z))
      + uint (weight x y z) \<in> {x - 3 .. x}"
proof -
  have y': "0 \<le> 255 - y" "255 - y \<le> 255" and z': "0 \<le> 255 - z" "255 - z \<le> 255" using y z by simp_all
  have "x * (255 - y) * (255 - z) + x * (255 - y) * z + x * y * (255 - z) + x * y * z = 65025 * x"
    by (simp add: algebra_simps)
  with weight_bounds(2,3) [OF x y' z'] weight_bounds(2,3) [OF x y' z] weight_bounds(2,3) [OF x y z']
    weight_bounds(2,3) [OF x y z]
  show ?thesis by simp
qed

lemma weight_comm: "weight x y z = weight y x z" "weight x y z = weight z x y"
  by (simp_all add: weight_def mult.commute mult.left_commute)

text \<open>
  With the default colours the adjustment reproduces the transformed colour up to the
  rounding of its weights: no channel grows and none loses more than three.
\<close>

theorem default_adjustment_near_identity:
  assumes "tr_transform tr (red c) (green c) (blue c) = Inr (r, g, b)"
  shows "\<exists>c'. adjust_color (ca_default i tr) c = Inr c' \<and>
    uint (red c') \<in> {uint r - 3 .. uint r} \<and> uint (green c') \<in> {uint g - 3 .. uint g} \<and>
    uint (blue c') \<in> {uint b - 3 .. uint b}"
proof -
  have bs: "0 \<le> uint v" "uint v \<le> 255" for v :: byte using byte_bound [of v] by simp_all
  have tr: "tr_transform (ca_rgbTransform (ca_default i tr)) (red c) (green c) (blue c) = Inr (r, g, b)"
    using assms by (simp add: ca_default_def)
  have R: "channel_total chan_getAdjustmentR (ca_default i tr) (color_weights r g b) \<in> {uint r - 3 .. uint r}"
    using four_weights [OF bs bs bs, of r g b]
    by (simp add: channel_total_def ca_adjustments_def ca_default_def color_weights_def Let_def chan_get)
  have G: "channel_total chan_getAdjustmentG (ca_default i tr) (color_weights r g b) \<in> {uint g - 3 .. uint g}"
    using four_weights [OF bs bs bs, of g r b] weight_comm(1) [of "uint g"]
    by (simp add: channel_total_def ca_adjustments_def ca_default_def color_weights_def Let_def chan_get)
  have B: "channel_total chan_getAdjustmentB (ca_default i tr) (color_weights r g b) \<in> {uint b - 3 .. uint b}"
    using four_weights [OF bs bs bs, of b r g] weight_comm(2) [of _ _ "uint b"]
    by (simp add: channel_total_def ca_adjustments_def ca_default_def color_weights_def Let_def chan_get)
  obtain c' where "adjust_color (ca_default i tr) c = Inr c'"
    "uint (red c') = channel_total chan_getAdjustmentR (ca_default i tr) (color_weights r g b)"
    "uint (green c') = channel_total chan_getAdjustmentG (ca_default i tr) (color_weights r g b)"
    "uint (blue c') = channel_total chan_getAdjustmentB (ca_default i tr) (color_weights r g b)"
    using tr channel_total_mod [OF ca_wf_default [of i tr], of r g b]
    by (simp add: adjust_color_def Let_def uint_u8)
  with R G B show ?thesis by auto
qed

theorem default_adjustment_near_identity_witness:
  "\<exists>c'. adjust_color (ca_default ''default'' tr_plain) (rgb 200 100 7) = Inr c' \<and>
     uint (red c') \<in> {197 .. 200} \<and> uint (green c') \<in> {97 .. 100} \<and> uint (blue c') \<in> {4 .. 7}"
  using default_adjustment_near_identity [of tr_plain "rgb 200 100 7" 200 100 7 "''default''"]
  by (simp add: tr_plain_transform)

theorem adjust_color_exact_witness:
  "\<exists>c'. adjust_color (ca_default ''d'' tr_plain) (rgb 9 8 7) = Inr c' \<and>
     uint (red c') = channel_total chan_getAdjustmentR (ca_default ''d'' tr_plain) (color_weights 9 8 7)"
  using adjust_color_exact [of "ca_default ''d'' tr_plain" "rgb 9 8 7" 9 8 7]
  by (auto simp: ca_default_def tr_plain_transform ca_wf_def ca_adjustments_def)

subsection \<open>Pointers and verification\<close>

text \<open>Every pointer is to an adjustment of the list and the ids are those of the list.\<close>

definition mca_wf :: "MultiColorAdjustment \<Rightarrow> bool" where
  "mca_wf m \<longleftrightarrow> (\<forall>i. Some i \<in> set (mca_ledAdjustments m) \<longrightarrow> i < length (mca_adjustment m)) \<and>
     mca_adjustmentIds m = map ca_id (mca_adjustment m)"

lemma find_adjustment_Some:
  "find_adjustment as i = Some k \<Longrightarrow> k < length as \<and> ca_id (as ! k) = i \<and> (\<forall>j<k. ca_id (as ! j) \<noteq> i)"
proof (induction as arbitrary: k)
  case (Cons a as)
  show ?case
  proof (cases "ca_id a = i")
    case True
    with Cons.prems show ?thesis by simp
  next
    case False
    with Cons.prems obtain z where z: "find_adjustment as i = Some z" "k = Suc z" by auto
    from Cons.IH [OF z(1)] have IH: "z < length as" "ca_id (as ! z) = i" "\<And>j. j < z \<Longrightarrow> ca_id (as ! j) \<noteq> i"
      by blast+
    have "ca_id ((a # as) ! j) \<noteq> i" if "j < Suc z" for j
      using that IH(3) False by (cases j) simp_all
    with IH(1,2) z(2) show ?thesis by simp
  qed
qed simp

lemma find_adjustment_None: "find_adjustment as i = None \<longleftrightarrow> i \<notin> ca_id ` set as"
  by (induction as) auto

lemma fold_list_update_upt:
  "length (fold (\<lambda>k ls. ls[k := x]) [a ..< b] ls) = length ls"
  "j < length ls \<Longrightarrow> fold (\<lambda>k ls. ls[k := x]) [a ..< b] ls ! j = (if a \<le> j \<and> j < b then x else ls ! j)"
proof -
  show len: "length (fold (\<lambda>k ls. ls[k := x]) [a ..< b] ls) = length ls" for b
    by (induction b) auto
  show "j < length ls \<Longrightarrow> fold (\<lambda>k ls. ls[k := x]) [a ..< b] ls ! j = (if a \<le> j \<and> j < b then x else ls ! j)"
    by (induction b) (auto simp: nth_list_update len less_Suc_eq)
qed

text \<open>
  \<open>setAdjustmentForLed\<close> on a valid range points exactly the leds of the range at the
  first adjustment with the given id (or at nothing when there is none).
\<close>

theorem setAdjustmentForLed_effect:
  assumes "startLed \<le> endLed" "endLed < length (mca_ledAdjustments m)"
  shows "\<exists>m'. mca_setAdjustmentForLed m i startLed endLed = Inr m' \<and>
    mca_adjustment m' = mca_adjustment m \<and>
    length (mca_ledAdjustments m') = length (mca_ledAdjustments m) \<and>
    (\<forall>j < length (mca_ledAdjustments m). mca_ledAdjustments m' ! j =
       (if startLed \<le> j \<and> j \<le> endLed then mca_getAdjustment m i else mca_ledAdjustments m ! j))"
  using assms fold_list_update_upt(1) [of "mca_getAdjustment m i" startLed "Suc endLed"]
    fold_list_update_upt(2) [of _ "mca_ledAdjustments m" "mca_getAdjustment m i" startLed "Suc endLed"]
  by (auto simp: mca_setAdjustmentForLed_def less_Suc_eq_le)

lemma mca_wf_new: "mca_wf (mca_new n)"
  by (simp add: mca_wf_def mca_new_def)

lemma mca_wf_addAdjustment: "mca_wf m \<Longrightarrow> mca_wf (mca_addAdjustment m a)"
  by (fastforce simp: mca_wf_def mca_addAdjustment_def)

lemma mca_wf_setAdjustmentForLed:
  "mca_wf m \<Longrightarrow> mca_setAdjustmentForLed m i s e = Inr m' \<Longrightarrow> mca_wf m'"
  using fold_list_update_upt(1) [of "mca_getAdjustment m i" s "Suc e" "mca_ledAdjustments m"]
    fold_list_update_upt(2) [of _ "mca_ledAdjustments m" "mca_getAdjustment m i" s "Suc e"]
    find_adjustment_Some [of "mca_adjustment m" i]
  by (fastforce simp: mca_wf_def mca_setAdjustmentForLed_def in_set_conv_nth mca_getAdjustment_def
      split: if_splits)

lemma mca_wf_setBacklightEnabled: "mca_wf m \<Longrightarrow> mca_wf (mca_setBacklightEnabled m e)"
  by (simp add: mca_wf_def mca_setBacklightEnabled_def comp_def)

definition bright_ok :: "ColorAdjustment \<Rightarrow> bool" where
  "bright_ok a \<longleftrightarrow> tr_backlightThreshold (ca_rgbTransform a) < tr_brightnessHigh (ca_rgbTransform a)"

lemma bright_ok_reset: "bright_ok (reset_brightness pw a)"
  by (simp add: bright_ok_def reset_brightness_def tr_setBrightness_def tr_setBacklightThreshold_def
      Let_def not_le)

lemma ca_id_reset: "ca_id (reset_brightness pw a) = ca_id a"
  by (simp add: reset_brightness_def Let_def)

lemma verify_loop_frame:
  "verify_loop pw as ls = (ok, as') \<Longrightarrow>
     length as' = length as \<and> map ca_id as' = map ca_id as \<and>
     (\<forall>i < length as. bright_ok (as ! i) \<longrightarrow> bright_ok (as' ! i))"
proof (induction pw as ls arbitrary: as' rule: verify_loop.induct)
  case (3 pw as i ls)
  have ids: "map ca_id (as[i := reset_brightness pw (as ! i)]) = map ca_id as"
    by (cases "i < length as") (metis ca_id_reset list_update_id map_update, simp add: list_update_beyond)
  have "verify_loop pw (as[i := reset_brightness pw (as ! i)]) ls = (ok, as')"
    using "3.prems" by simp
  from "3.IH" [OF this] ids have IH: "length as' = length as" "map ca_id as' = map ca_id as"
    "\<forall>k < length as. bright_ok (as[i := reset_brightness pw (as ! i)] ! k) \<longrightarrow> bright_ok (as' ! k)"
    by simp_all
  have "bright_ok (as[i := reset_brightness pw (as ! i)] ! k)" if "bright_ok (as ! k)" "k < length as" for k
    using that by (cases "k = i") (simp_all add: bright_ok_reset)
  with IH show ?case by blast
qed auto

lemma verify_loop_True:
  "verify_loop pw as ls = (True, as') \<Longrightarrow> \<forall>i. Some i \<in> set ls \<longrightarrow> i < length as \<Longrightarrow>
     \<forall>l \<in> set ls. \<exists>i < length as'. l = Some i \<and> bright_ok (as' ! i)"
proof (induction pw as ls arbitrary: as' rule: verify_loop.induct)
  case (3 pw as i ls)
  from "3.prems" verify_loop_frame [of pw "as[i := reset_brightness pw (as ! i)]" ls True as']
  have "i < length as' \<and> bright_ok (as' ! i)"
    by (auto simp: bright_ok_reset)
  moreover have "\<forall>l \<in> set ls. \<exists>i < length as'. l = Some i \<and> bright_ok (as' ! i)"
    using "3.IH" [of as'] "3.prems" by auto
  ultimately show ?case by auto
qed auto

lemma verify_loop_False: "fst (verify_loop pw as ls) \<longleftrightarrow> None \<notin> set ls"
  by (induction pw as ls rule: verify_loop.induct) auto

text \<open>
  \<open>verifyAdjustments\<close> succeeds exactly when every led has an adjustment, and then every
  led's adjustment has a brightness above its backlight threshold.
\<close>

theorem verifyAdjustments_correct:
  assumes "mca_wf m" "mca_verifyAdjustments pw m = (ok, m')"
  shows "(ok \<longleftrightarrow> None \<notin> set (mca_ledAdjustments m)) \<and>
    (ok \<longrightarrow> (\<forall>l \<in> set (mca_ledAdjustments m'). \<exists>i < length (mca_adjustment m').
           l = Some i \<and> bright_ok (mca_adjustment m' ! i)))"
proof -
  obtain as' where v: "verify_loop pw (mca_adjustment m) (mca_ledAdjustments m) = (ok, as')"
    "m' = m\<lparr>mca_adjustment := as'\<rparr>"
    using assms(2) by (auto simp: mca_verifyAdjustments_def split: prod.splits)
  then show ?thesis
    using verify_loop_False [of pw "mca_adjustment m" "mca_ledAdjustments m"] assms(1)
      verify_loop_True [of pw "mca_adjustment m" "mca_ledAdjustments m" as']
    by (auto simp: mca_wf_def)
qed

lemma mca_wf_verify:
  "mca_wf m \<Longrightarrow> mca_wf (snd (mca_verifyAdjustments pw m))"
  using verify_loop_frame [of pw "mca_adjustment m" "mca_ledAdjustments m"]
  by (auto simp: mca_wf_def mca_verifyAdjustments_def split: prod.splits)

end
