(* ===== verification/Smoothing.thy ===== *)
theory Smoothing
  imports Doubles
begin

text \<open>
  \<open>LinearColorSmoothing\<close> (\<open>libsrc/hyperion/LinearColorSmoothing.cpp\<close>): the device in front of
  the led device that moves the colours towards the requested ones on a timer and delays its
  output.  The clock \<open>QDateTime::currentMSecsSinceEpoch\<close> is an argument of the operations that
  read it; the frames handed to the led device are collected in \<open>sm_out\<close>.
\<close>

section \<open>State and operations\<close>

record smoothing =
  sm_settlingTime :: int
  sm_timer :: bool
  sm_targetTime :: int
  sm_targetValues :: "ColorRgb list"
  sm_previousTime :: int
  sm_previousValues :: "ColorRgb list"
  sm_outputDelay :: nat
  sm_outputQueue :: "ColorRgb list list"
  sm_writeToLedsEnable :: bool
  sm_continuousOutput :: bool
  sm_enabled :: bool
  sm_out :: "ColorRgb list list"

text \<open>The constructor; the two time stamps are uninitialised.\<close>

definition sm_new :: "int \<Rightarrow> nat \<Rightarrow> bool \<Rightarrow> int \<Rightarrow> int \<Rightarrow> smoothing" where
  "sm_new settlingTime updateDelay continuousOutput junk junk' =
     \<lparr>sm_settlingTime = settlingTime, sm_timer = False, sm_targetTime = junk, sm_targetValues = [],
      sm_previousTime = junk', sm_previousValues = [], sm_outputDelay = updateDelay,
      sm_outputQueue = [], sm_writeToLedsEnable = True, sm_continuousOutput = continuousOutput,
      sm_enabled = True, sm_out = []\<rparr>"

text \<open>\<open>now\<close> and \<open>now'\<close> are the two readings of the clock; the second is made on the first write only.\<close>

definition sm_write :: "int \<Rightarrow> int \<Rightarrow> ColorRgb list \<Rightarrow> smoothing \<Rightarrow> smoothing res" where
  "sm_write now now' ledValues s =
     (if sm_previousValues s = []
      then Inr (s\<lparr>sm_targetTime := now + sm_settlingTime s, sm_targetValues := ledValues,
                  sm_previousTime := now', sm_previousValues := ledValues, sm_timer := True\<rparr>)
      else res_bind (blit 0 ledValues (sm_targetValues s)) (\<lambda>t.
             Inr (s\<lparr>sm_targetTime := now + sm_settlingTime s, sm_targetValues := t\<rparr>)))"

text \<open>The loop pushes the black frame and pops the front once per entry of the queue.\<close>

fun flush_queue :: "nat \<Rightarrow> 'a \<Rightarrow> 'a list \<Rightarrow> 'a list" where
  "flush_queue 0 x q = q"
| "flush_queue (Suc n) x q = flush_queue n x (tl (q @ [x]))"

definition sm_switchOff :: "smoothing \<Rightarrow> smoothing" where
  "sm_switchOff s =
     (let black = map (\<lambda>_. BLACK) (sm_targetValues s)
      in s\<lparr>sm_targetValues := black, sm_targetTime := 0,
           sm_outputQueue := flush_queue (length (sm_outputQueue s)) black (sm_outputQueue s)\<rparr>)"

definition sm_queueColors :: "ColorRgb list \<Rightarrow> smoothing \<Rightarrow> smoothing" where
  "sm_queueColors ledColors s =
     (if sm_outputDelay s = 0
      then (if sm_writeToLedsEnable s then s\<lparr>sm_out := sm_out s @ [ledColors]\<rparr> else s)
      else
        (let s1 = (if sm_writeToLedsEnable s
                   then s\<lparr>sm_outputQueue := sm_outputQueue s @ [ledColors]\<rparr> else s)
         in case sm_outputQueue s1 of
              [] \<Rightarrow> s1
            | front # rest \<Rightarrow>
                if length (sm_outputQueue s1) > sm_outputDelay s1 \<or> \<not> sm_writeToLedsEnable s1
                then s1\<lparr>sm_out := sm_out s1 @ [front], sm_outputQueue := rest\<rparr> else s1))"

text \<open>One channel: \<open>prev += (dif < 0 ? -1 : 1) * std::ceil(k * std::abs(dif))\<close> in \<open>float\<close>.\<close>

definition step_channel :: "rat \<Rightarrow> byte \<Rightarrow> byte \<Rightarrow> byte res" where
  "step_channel k prev target =
     (let dif = uint target - uint prev
      in rat_to_u8 (flt (of_int (uint prev) +
           (if dif < 0 then -1 else 1) * of_int \<lceil>flt (k * of_int \<bar>dif\<bar>)\<rceil>)))"

definition step_color :: "rat \<Rightarrow> ColorRgb \<Rightarrow> ColorRgb \<Rightarrow> ColorRgb res" where
  "step_color k prev target =
     res_bind (step_channel k (red prev) (red target)) (\<lambda>r.
     res_bind (step_channel k (green prev) (green target)) (\<lambda>g.
     res_bind (step_channel k (blue prev) (blue target)) (\<lambda>b. Inr (rgb r g b))))"

fun step_colors :: "rat \<Rightarrow> ColorRgb list \<Rightarrow> ColorRgb list \<Rightarrow> ColorRgb list res" where
  "step_colors k [] ts = Inr []"
| "step_colors k (p # ps) [] = Inl Undefined"
| "step_colors k (p # ps) (t # ts) =
     res_bind (step_color k p t) (\<lambda>c. res_bind (step_colors k ps ts) (\<lambda>cs. Inr (c # cs)))"

text \<open>\<open>int deltaTime = _targetTime - now\<close> keeps 32 bits of the difference.\<close>

definition delta_time :: "int \<Rightarrow> int \<Rightarrow> int" where
  "delta_time targetTime now = sint (word_of_int (targetTime - now) :: 32 word)"

definition sm_factor :: "int \<Rightarrow> int \<Rightarrow> rat" where
  "sm_factor deltaTime timeSpan = flt (1 - flt (flt (of_int deltaTime) / flt (of_int timeSpan)))"

text \<open>
  A vanishing time span divides by zero; the infinite or undefined factor is converted to a
  byte as soon as there is a led.
\<close>

definition sm_updateLeds :: "int \<Rightarrow> smoothing \<Rightarrow> smoothing res" where
  "sm_updateLeds now s =
     (let deltaTime = delta_time (sm_targetTime s) now in
      if deltaTime < 0
      then res_bind (blit 0 (sm_targetValues s) (sm_previousValues s)) (\<lambda>p.
             let s1 = s\<lparr>sm_previousValues := p, sm_previousTime := now\<rparr>;
                 s2 = sm_queueColors (sm_previousValues s1) s1
             in Inr (s2\<lparr>sm_writeToLedsEnable := sm_continuousOutput s2\<rparr>))
      else
        (let s1 = s\<lparr>sm_writeToLedsEnable := True\<rparr>;
             timeSpan = sm_targetTime s - sm_previousTime s
         in if timeSpan = 0 \<and> sm_previousValues s \<noteq> [] then Inl Undefined
            else res_bind (step_colors (sm_factor deltaTime timeSpan) (sm_previousValues s) (sm_targetValues s))
                   (\<lambda>p. let s2 = s1\<lparr>sm_previousValues := p, sm_previousTime := now\<rparr>
                        in Inr (sm_queueColors (sm_previousValues s2) s2))))"

definition sm_setEnable :: "bool \<Rightarrow> smoothing \<Rightarrow> smoothing" where
  "sm_setEnable enable s =
     (if enable then s\<lparr>sm_enabled := enable\<rparr>
      else s\<lparr>sm_enabled := enable, sm_timer := False, sm_previousValues := []\<rparr>)"

section \<open>One step of a channel\<close>

text \<open>Between the old and the new value, in terms of the numbers.\<close>

definition between :: "byte \<Rightarrow> byte \<Rightarrow> byte \<Rightarrow> bool" where
  "between p t x \<longleftrightarrow> min (uint p) (uint t) \<le> uint x \<and> uint x \<le> max (uint p) (uint t)"

lemma flt_small_int: "\<bar>n\<bar> \<le> 65536 \<Longrightarrow> flt (of_int n) = of_int n"
  by (rule flt.rnd_int) simp

lemma step_amount:
  assumes "0 \<le> k" "k \<le> 1" "0 \<le> d" "d \<le> 255"
  shows "0 \<le> \<lceil>flt (k * of_int d)\<rceil>" "\<lceil>flt (k * of_int d)\<rceil> \<le> d"
proof -
  have "0 \<le> flt (of_int d * k)" "flt (of_int d * k) \<le> of_int d"
    using assms by (intro flt.rnd_scale; simp)+
  then show "0 \<le> \<lceil>flt (k * of_int d)\<rceil>" "\<lceil>flt (k * of_int d)\<rceil> \<le> d"
    by (simp_all add: mult.commute ceiling_le_iff)
qed

definition amount :: "rat \<Rightarrow> byte \<Rightarrow> byte \<Rightarrow> int" where
  "amount k prev target = \<lceil>flt (k * of_int \<bar>uint target - uint prev\<bar>)\<rceil>"

lemma byte_range: "0 \<le> uint (x :: byte) \<and> uint x \<le> 255"
  using byte_bound [of x] by simp

lemma amount_bounds:
  assumes "0 \<le> k" "k \<le> 1"
  shows "0 \<le> amount k prev target \<and> amount k prev target \<le> \<bar>uint target - uint prev\<bar>"
proof -
  have "\<bar>uint target - uint prev\<bar> \<le> 255" using byte_range [of prev] byte_range [of target] by linarith
  then show ?thesis unfolding amount_def by (intro conjI step_amount [OF assms]) linarith+
qed

lemma step_channel_eq:
  assumes "0 \<le> k" "k \<le> 1"
  shows "\<exists>x. step_channel k prev target = Inr x \<and> uint x = uint prev +
    (if uint target < uint prev then -1 else 1) * amount k prev target"
proof -
  let ?d = "uint target - uint prev"
  define n where "n = uint prev + (if uint target < uint prev then -1 else 1) * amount k prev target"
  have n: "0 \<le> n" "n \<le> 255"
    using amount_bounds [OF assms, of prev target] byte_range [of prev] byte_range [of target]
    unfolding n_def by (cases "uint target < uint prev"; simp only: if_True if_False; linarith)+
  have "of_int (uint prev) + (if ?d < 0 then -1 else 1) * of_int \<lceil>flt (k * of_int \<bar>?d\<bar>)\<rceil> = (of_int n :: rat)"
    unfolding n_def amount_def by (simp only: diff_less_0_iff_less of_int_add) simp
  then have "step_channel k prev target = Inr (u8 n)"
    using n by (simp only: step_channel_def Let_def flt_small_int rat_to_u8_def trunc_rat_of_int) simp
  moreover have "uint (u8 n) = n" using n by (intro u8_small) simp_all
  ultimately show ?thesis unfolding n_def by blast
qed

lemma step_channel_between:
  assumes "0 \<le> k" "k \<le> 1"
  shows "\<exists>x. step_channel k prev target = Inr x \<and> between prev target x"
proof -
  obtain x where x: "step_channel k prev target = Inr x"
      "uint x = uint prev + (if uint target < uint prev then -1 else 1) * amount k prev target"
    using step_channel_eq [OF assms] by blast
  have "between prev target x"
    using x(2) amount_bounds [OF assms, of prev target] unfolding between_def
    by (cases "uint target < uint prev"; simp only: if_True if_False; linarith)
  with x(1) show ?thesis by blast
qed


text \<open>A positive factor moves every channel that is not yet there.\<close>

lemma step_channel_moves:
  assumes "1 / 2 ^ 24 \<le> k" "k \<le> 1" "prev \<noteq> target"
  shows "\<exists>x. step_channel k prev target = Inr x \<and> \<bar>uint target - uint x\<bar> < \<bar>uint target - uint prev\<bar>"
proof -
  have k: "0 \<le> k" using assms(1) by (rule order_trans [rotated]) simp
  obtain x where x: "step_channel k prev target = Inr x"
      "uint x = uint prev + (if uint target < uint prev then -1 else 1) * amount k prev target"
    using step_channel_eq [OF k assms(2)] by blast
  have ne: "uint prev \<noteq> uint target" using assms(3) by (auto dest: word_uint_eqI)
  then have "1 \<le> \<bar>uint target - uint prev\<bar>" by linarith
  then have "(1 :: rat) \<le> of_int \<bar>uint target - uint prev\<bar>" by (simp only: of_int_1_le_iff)
  then have "1 / 2 ^ 24 * 1 \<le> k * of_int \<bar>uint target - uint prev\<bar>"
    using assms(1) k by (intro mult_mono) simp_all
  then have "flt (of_int 1 / 2 ^ 24) \<le> flt (k * of_int \<bar>uint target - uint prev\<bar>)"
    by (intro flt.rnd_mono) simp
  moreover have "flt (of_int 1 / 2 ^ 24) = of_int 1 / 2 ^ 24" by (rule flt.rnd_dyadic) simp
  ultimately have "0 < flt (k * of_int \<bar>uint target - uint prev\<bar>)"
    by (simp add: order_less_le_trans [of 0 "1 / 2 ^ 24"])
  then have "1 \<le> amount k prev target" by (simp add: amount_def)
  then have "\<bar>uint target - uint x\<bar> < \<bar>uint target - uint prev\<bar>"
    using x(2) amount_bounds [OF k assms(2), of prev target] ne
    by (cases "uint target < uint prev"; simp only: if_True if_False; linarith)
  with x(1) show ?thesis by blast
qed

section \<open>The factor\<close>

lemma sm_factor_bounds:
  assumes "0 \<le> d" "d \<le> D" "0 < D"
  shows "0 \<le> sm_factor d D \<and> sm_factor d D \<le> 1"
proof -
  have "0 \<le> flt (of_int d)" using assms by (intro flt.rnd_nonneg) simp
  moreover have "flt (of_int d) \<le> flt (of_int D)" using assms by (intro flt.rnd_mono) simp
  moreover have "1 \<le> flt (of_int D)" using assms flt.rnd_ge [of 1 "of_int D"] by simp
  ultimately have "0 \<le> flt (of_int d) / flt (of_int D)" "flt (of_int d) / flt (of_int D) \<le> 1" by simp_all
  then have "0 \<le> flt (flt (of_int d) / flt (of_int D))" "flt (flt (of_int d) / flt (of_int D)) \<le> 1"
    by (simp_all add: flt.rnd_nonneg flt.rnd_le_1)
  then show ?thesis by (simp add: sm_factor_def flt.rnd_nonneg flt.rnd_le_1)
qed


lemma sm_factor_positive:
  assumes "0 \<le> d" "d < D" "D \<le> 2 ^ 24"
  shows "1 / 2 ^ 24 \<le> sm_factor d D"
proof -
  have fD: "flt (of_int D) = of_int D" "flt (of_int d) = of_int d"
    using assms by (intro flt.rnd_int; simp)+
  have "(of_int d :: rat) / of_int D \<le> (of_int D - 1) / of_int D"
  proof (rule divide_right_mono)
    have "d \<le> D - 1" using assms(2) by simp
    then have "(of_int d :: rat) \<le> of_int (D - 1)" by (simp only: of_int_le_iff)
    then show "(of_int d :: rat) \<le> of_int D - 1" by simp
  qed (use assms in simp)
  also have "\<dots> = 1 - 1 / of_int D" using assms by (simp add: diff_divide_distrib)
  also have "\<dots> \<le> 1 - 1 / 2 ^ 24"
  proof -
    have "(of_int D :: rat) \<le> of_int (2 ^ 24)" using assms(3) by (simp only: of_int_le_iff)
    then have "(1 :: rat) / 2 ^ 24 \<le> 1 / of_int D" using assms by (intro divide_left_mono) simp_all
    then show ?thesis by simp
  qed
  also have "\<dots> = of_int (2 ^ 24 - 1) / 2 ^ 24" by simp
  finally have "flt (of_int d / of_int D) \<le> flt (of_int (2 ^ 24 - 1) / 2 ^ 24)" by (rule flt.rnd_mono)
  also have "\<dots> = of_int (2 ^ 24 - 1) / 2 ^ 24" by (rule flt.rnd_dyadic) simp
  finally have "of_int 1 / 2 ^ 24 \<le> 1 - flt (of_int d / of_int D)" by simp
  then have "flt (of_int 1 / 2 ^ 24) \<le> flt (1 - flt (of_int d / of_int D))" by (rule flt.rnd_mono)
  moreover have "flt (of_int 1 / 2 ^ 24) = of_int 1 / 2 ^ 24" by (rule flt.rnd_dyadic) simp
  ultimately show ?thesis by (simp add: sm_factor_def fD)
qed

section \<open>One update of the leds\<close>

definition color_between :: "ColorRgb \<Rightarrow> ColorRgb \<Rightarrow> ColorRgb \<Rightarrow> bool" where
  "color_between p t c \<longleftrightarrow> between (red p) (red t) (red c) \<and> between (green p) (green t) (green c)
     \<and> between (blue p) (blue t) (blue c)"

lemma step_color_between:
  assumes "0 \<le> k" "k \<le> 1"
  shows "\<exists>c. step_color k p t = Inr c \<and> color_between p t c"
proof -
  obtain r g b where "step_channel k (red p) (red t) = Inr r" "between (red p) (red t) r"
      "step_channel k (green p) (green t) = Inr g" "between (green p) (green t) g"
      "step_channel k (blue p) (blue t) = Inr b" "between (blue p) (blue t) b"
    using step_channel_between [OF assms] by meson
  then show ?thesis by (simp add: step_color_def color_between_def)
qed

lemma step_colors_between:
  assumes "0 \<le> k" "k \<le> 1" "length ps = length ts"
  shows "\<exists>cs. step_colors k ps ts = Inr cs \<and> length cs = length ps \<and>
    (\<forall>i < length ps. color_between (ps ! i) (ts ! i) (cs ! i))"
  using assms(3)
proof (induction ps ts rule: list_induct2)
  case (Cons p ps t ts)
  obtain c where "step_color k p t = Inr c" "color_between p t c"
    using step_color_between [OF assms(1,2)] by blast
  with Cons.IH show ?case by (auto simp: nth_Cons split: nat.split)
qed simp


lemma delta_time_small:
  assumes "- (2 ^ 31) \<le> T - now" "T - now < 2 ^ 31"
  shows "delta_time T now = T - now"
  using assms unfolding delta_time_def by (rule sint32_id)

lemma blit_all: "length xs = length ys \<Longrightarrow> blit 0 xs ys = Inr xs"
  by (simp add: blit_def)

lemma queueColors_sel [simp]:
  "sm_previousValues (sm_queueColors cs s) = sm_previousValues s"
  "sm_targetValues (sm_queueColors cs s) = sm_targetValues s"
  "sm_targetTime (sm_queueColors cs s) = sm_targetTime s"
  "sm_previousTime (sm_queueColors cs s) = sm_previousTime s"
  "sm_settlingTime (sm_queueColors cs s) = sm_settlingTime s"
  "sm_outputDelay (sm_queueColors cs s) = sm_outputDelay s"
  "sm_timer (sm_queueColors cs s) = sm_timer s"
  "sm_writeToLedsEnable (sm_queueColors cs s) = sm_writeToLedsEnable s"
  "sm_continuousOutput (sm_queueColors cs s) = sm_continuousOutput s"
  "sm_enabled (sm_queueColors cs s) = sm_enabled s"
  by (auto simp: sm_queueColors_def Let_def split: list.split)



section \<open>The delay queue\<close>

text \<open>
  The queue never holds more than \<open>updateDelay\<close> frames, and together with the frames already
  written it is the first-in-first-out record of the frames queued.
\<close>

lemma queueColors_bound:
  "length (sm_outputQueue s) \<le> sm_outputDelay s \<Longrightarrow>
     length (sm_outputQueue (sm_queueColors cs s)) \<le> sm_outputDelay (sm_queueColors cs s)"
  by (auto simp: sm_queueColors_def Let_def split: list.split)

lemma queueColors_fifo:
  assumes "sm_outputDelay s = 0 \<longrightarrow> sm_outputQueue s = []"
  shows "sm_out (sm_queueColors cs s) @ sm_outputQueue (sm_queueColors cs s) =
    sm_out s @ sm_outputQueue s @ (if sm_writeToLedsEnable s then [cs] else [])"
  using assms by (auto simp: sm_queueColors_def Let_def split: list.split)

lemma length_flush_queue [simp]: "length (flush_queue n x q) = length q"
  by (induction n arbitrary: q) simp_all

lemma flush_queue_drop: "n \<le> length q \<Longrightarrow> flush_queue n x q = drop n q @ replicate n x"
proof (induction n arbitrary: q)
  case (Suc n)
  then obtain y ys where q: "q = y # ys" by (cases q) auto
  with Suc show ?case by (simp add: replicate_append_same)
qed simp

lemma flush_queue_all: "flush_queue (length q) x q = replicate (length q) x"
  by (simp add: flush_queue_drop)

section \<open>Runs\<close>

datatype sm_op = SmSet int int "ColorRgb list" | SmTick int | SmEnable bool | SmOff

text \<open>The timer calls \<open>updateLeds\<close> only while it runs.\<close>

fun sm_step :: "sm_op \<Rightarrow> smoothing \<Rightarrow> smoothing res" where
  "sm_step (SmSet now now' cs) s = sm_write now now' cs s"
| "sm_step (SmTick now) s = (if sm_timer s then sm_updateLeds now s else Inr s)"
| "sm_step (SmEnable b) s = Inr (sm_setEnable b s)"
| "sm_step SmOff s = Inr (sm_switchOff s)"

fun sm_run :: "sm_op list \<Rightarrow> smoothing \<Rightarrow> smoothing res" where
  "sm_run [] s = Inr s"
| "sm_run (x # xs) s = res_bind (sm_step x s) (sm_run xs)"

text \<open>
  The clock of a run: it does not go back, advances between timer ticks, stays before \<open>hi\<close>,
  and the two readings of a first write are less than the settling time \<open>S\<close> apart.  All frames
  have \<open>n\<close> leds.
\<close>

fun sm_clocked :: "nat \<Rightarrow> int \<Rightarrow> int \<Rightarrow> int \<Rightarrow> sm_op list \<Rightarrow> bool" where
  "sm_clocked n S hi t [] = True"
| "sm_clocked n S hi t (SmSet a b cs # xs) \<longleftrightarrow>
     t \<le> a \<and> a \<le> b \<and> b < a + S \<and> b < hi \<and> length cs = n \<and> sm_clocked n S hi b xs"
| "sm_clocked n S hi t (SmTick a # xs) \<longleftrightarrow> t < a \<and> a < hi \<and> sm_clocked n S hi a xs"
| "sm_clocked n S hi t (SmEnable b # xs) \<longleftrightarrow> sm_clocked n S hi t xs"
| "sm_clocked n S hi t (SmOff # xs) \<longleftrightarrow> False"

definition sm_inv :: "nat \<Rightarrow> int \<Rightarrow> int \<Rightarrow> int \<Rightarrow> smoothing \<Rightarrow> bool" where
  "sm_inv n S lo t s \<longleftrightarrow> sm_settlingTime s = S \<and>
     (sm_timer s \<or> sm_previousValues s \<noteq> [] \<longrightarrow>
        length (sm_previousValues s) = n \<and> length (sm_targetValues s) = n \<and>
        sm_previousTime s \<le> t \<and> lo \<le> sm_targetTime s \<and> sm_targetTime s \<le> t + S) \<and>
     length (sm_outputQueue s) \<le> sm_outputDelay s \<and>
     (\<forall>f \<in> set (sm_out s @ sm_outputQueue s). length f = n)"

lemma queueColors_frames:
  assumes "\<forall>f \<in> set (sm_out s @ sm_outputQueue s). length f = n" "length cs = n"
  shows "\<forall>f \<in> set (sm_out (sm_queueColors cs s) @ sm_outputQueue (sm_queueColors cs s)). length f = n"
  using assms by (auto simp: sm_queueColors_def Let_def split: list.split)

lemma sm_write_inv:
  assumes "sm_inv n S lo t s" "t \<le> a" "a \<le> b" "lo \<le> t" "0 < S" "length cs = n"
  shows "\<exists>s'. sm_write a b cs s = Inr s' \<and> sm_inv n S lo b s'"
  using assms by (auto simp: sm_write_def sm_inv_def blit_all)

lemma sm_inv_queue:
  assumes "sm_inv n S lo t s" "t \<le> a" "length cs = n" "sm_timer s"
  shows "sm_inv n S lo a (sm_queueColors cs (s\<lparr>sm_writeToLedsEnable := w, sm_previousValues := cs, sm_previousTime := a\<rparr>))"
  using assms queueColors_bound [of "s\<lparr>sm_writeToLedsEnable := w, sm_previousValues := cs, sm_previousTime := a\<rparr>" cs]
    queueColors_frames [of "s\<lparr>sm_writeToLedsEnable := w, sm_previousValues := cs, sm_previousTime := a\<rparr>" n cs]
  by (simp add: sm_inv_def)

lemma sm_tick_inv:
  assumes inv: "sm_inv n S lo t s" and t: "t < a" "lo \<le> t" "a < lo + 2 ^ 31" and S: "0 < S" "S < 2 ^ 31"
    and run: "sm_timer s"
  shows "\<exists>s'. sm_updateLeds a s = Inr s' \<and> sm_inv n S lo a s'"
proof -
  let ?T = "sm_targetTime s" and ?P = "sm_previousTime s"
  have s: "length (sm_previousValues s) = n" "length (sm_targetValues s) = n" "?P \<le> t" "lo \<le> ?T" "?T \<le> t + S"
    using inv run by (simp_all add: sm_inv_def)
  have d: "delta_time ?T a = ?T - a" using s t S by (intro delta_time_small) simp_all
  show ?thesis
  proof (cases "?T < a")
    case True
    let ?s = "sm_queueColors (sm_targetValues s)
      (s\<lparr>sm_writeToLedsEnable := sm_writeToLedsEnable s, sm_previousValues := sm_targetValues s, sm_previousTime := a\<rparr>)"
    have "sm_inv n S lo a ?s" using t s run by (intro sm_inv_queue [OF inv]) simp_all
    then have "sm_inv n S lo a (?s\<lparr>sm_writeToLedsEnable := c\<rparr>)" for c by (simp add: sm_inv_def)
    moreover have "sm_updateLeds a s = Inr (?s\<lparr>sm_writeToLedsEnable := sm_continuousOutput s\<rparr>)"
      using True d s blit_all [of "sm_targetValues s" "sm_previousValues s"]
      by (simp add: sm_updateLeds_def Let_def)
    ultimately show ?thesis by blast
  next
    case False
    let ?k = "sm_factor (?T - a) (?T - ?P)"
    have k: "0 \<le> ?k" "?k \<le> 1" using sm_factor_bounds [of "?T - a" "?T - ?P"] False s t by auto
    obtain cs where cs: "step_colors ?k (sm_previousValues s) (sm_targetValues s) = Inr cs" "length cs = n"
      using step_colors_between [OF k, of "sm_previousValues s" "sm_targetValues s"] s by auto
    let ?s = "s\<lparr>sm_writeToLedsEnable := True, sm_previousValues := cs, sm_previousTime := a\<rparr>"
    have "sm_inv n S lo a (sm_queueColors cs ?s)" using t cs run by (intro sm_inv_queue [OF inv]) simp_all
    moreover have "sm_updateLeds a s = Inr (sm_queueColors cs ?s)"
      using False d cs s t by (simp add: sm_updateLeds_def Let_def)
    ultimately show ?thesis by blast
  qed
qed

lemma sm_run_inv:
  assumes "sm_inv n S lo t s" "sm_clocked n S (lo + 2 ^ 31) t xs" "lo \<le> t" "0 < S" "S < 2 ^ 31"
  shows "\<exists>s' t'. sm_run xs s = Inr s' \<and> sm_inv n S lo t' s'"
  using assms(1-3)
proof (induction xs arbitrary: s t)
  case Nil
  then show ?case by auto
next
  case (Cons x xs)
  show ?case
  proof (cases x)
    case (SmSet a b cs)
    then obtain s' where "sm_write a b cs s = Inr s'" "sm_inv n S lo b s'"
      using sm_write_inv [OF Cons.prems(1), of a b cs] Cons.prems assms(4) by auto
    with SmSet Cons.prems Cons.IH [of b s'] show ?thesis by simp
  next
    case (SmTick a)
    have a: "t < a" "a < lo + 2 ^ 31" "sm_clocked n S (lo + 2 ^ 31) a xs"
      using Cons.prems(2) by (simp_all add: SmTick)
    show ?thesis
    proof (cases "sm_timer s")
      case True
      then obtain s' where "sm_updateLeds a s = Inr s'" "sm_inv n S lo a s'"
        using sm_tick_inv [OF Cons.prems(1) a(1) Cons.prems(3) a(2) assms(4,5)] by blast
      with True SmTick a Cons.prems Cons.IH [of a s'] show ?thesis by simp
    next
      case False
      have "sm_inv n S lo a s" using Cons.prems(1) a(1) by (auto simp: sm_inv_def)
      with False SmTick a Cons.prems Cons.IH [of a s] show ?thesis by simp
    qed
  next
    case (SmEnable b)
    have "sm_inv n S lo t (sm_setEnable b s)"
      using Cons.prems(1) by (simp add: sm_setEnable_def sm_inv_def)
    with SmEnable Cons.prems Cons.IH [of t "sm_setEnable b s"] show ?thesis by simp
  next
    case SmOff
    with Cons.prems show ?thesis by simp
  qed
qed

text \<open>
  C32.  Smoothing runs while the device is on: for frames of one length, a settling time from one
  millisecond to \<open>2 ^ 31\<close>, and a clock that behaves (\<open>sm_clocked\<close>: it never goes back, moves on before
  every tick, by less than the settling time within a write, and stays within 24 days), no sequence
  of writes, timer ticks and switches of the component (\<open>setEnable\<close>; \<open>switchOff\<close> is excluded, as
  \<open>smoothing_switchOff_overflow\<close> shows it must be) reads or writes outside a vector or converts a
  number that does not fit; the delay queue never exceeds its configured length, and every frame
  written to the device has the length of the frames requested.
\<close>

theorem smoothing_run_safe:
  assumes "sm_clocked n S (t0 + 2 ^ 31) t0 xs" "0 < S" "S < 2 ^ 31"
  shows "\<exists>s. sm_run xs (sm_new S delay cont junk junk') = Inr s \<and>
    length (sm_outputQueue s) \<le> sm_outputDelay s \<and> list_all (\<lambda>f. length f = n) (sm_out s)"
proof -
  have "sm_inv n S t0 t0 (sm_new S delay cont junk junk')" by (simp add: sm_inv_def sm_new_def)
  from sm_run_inv [OF this assms(1) order_refl assms(2,3)] show ?thesis
    by (auto simp: sm_inv_def list_all_iff)
qed

theorem smoothing_run_safe_witness:
  "\<exists>s. sm_run [SmSet 0 0 [BLACK], SmTick 40, SmSet 50 51 [rgb 9 9 9], SmTick 80, SmEnable False, SmTick 120]
     (sm_new 200 2 True 0 0) = Inr s \<and> length (sm_outputQueue s) \<le> sm_outputDelay s"
  using smoothing_run_safe [of 1 200 0 "[SmSet 0 0 [BLACK], SmTick 40, SmSet 50 51 [rgb 9 9 9], SmTick 80,
    SmEnable False, SmTick 120]" 2 True 0 0] by auto

section \<open>Switching off\<close>

text \<open>
  Evaluation of \<open>float\<close> rounding at a given number: the binary exponent is supplied.
\<close>

lemma flt_eval:
  assumes "2 powi e \<le> x" "x < 2 powi (e + 1)"
  shows "flt x = of_int (rhe (x / 2 powi (e - 23))) * 2 powi (e - 23)"
proof -
  have "0 < x" using assms(1) by (rule order_less_le_trans [rotated]) simp
  moreover have "ilog2 x = e" using assms by (rule ilog2_unique)
  moreover have "e + 1 - 24 = e - 23" by simp
  ultimately show ?thesis by (simp add: flt_def fl_def fl_pos_def ulp_def Let_def)
qed

lemma flt_power: "flt (2 ^ n) = 2 ^ n"
proof -
  have "rhe ((2 :: rat) ^ n / 2 powi (int n - 23)) = 2 ^ 23"
  proof -
    have "(2 :: rat) ^ n / 2 powi (int n - 23) = of_int (2 ^ 23)"
      by (simp add: power_int_diff)
    then show ?thesis by (simp only: rhe_of_int)
  qed
  moreover have "(2 :: rat) powi int n = 2 ^ n" by simp
  moreover have "(2 :: rat) powi (int n + 1) = 2 * 2 ^ n" by (simp add: power_int_add)
  ultimately have "flt (2 ^ n) = of_int (2 ^ 23) * 2 powi (int n - 23)"
    using flt_eval [of "int n" "2 ^ n"] by simp
  also have "\<dots> = 2 ^ n" by (simp add: power_int_diff)
  finally show ?thesis .
qed

lemma flt_neg: "0 < x \<Longrightarrow> flt (- x) = - flt x"
  by (simp add: flt_def fl_def)

text \<open>After switching off, the factor exceeds one whenever the truncated difference is large.\<close>

lemma sm_factor_off:
  assumes "2 ^ 29 \<le> d" "1 \<le> P" "P < 2 ^ 41"
  shows "1 + 1 / 2 ^ 12 \<le> sm_factor d (- P)"
proof -
  have D: "flt (- of_int P) = - flt (of_int P)" using assms(2) flt_neg [of "of_int P"] by simp
  have "flt (of_int P) \<le> flt (2 ^ 41)"
  proof (rule flt.rnd_mono)
    have "P \<le> 2 ^ 41" using assms(3) by simp
    then have "(of_int P :: rat) \<le> of_int (2 ^ 41)" by (simp only: of_int_le_iff)
    then show "(of_int P :: rat) \<le> 2 ^ 41" by simp
  qed
  then have P: "flt (of_int P) \<le> 2 ^ 41" by (simp only: flt_power)
  have "(of_int (2 ^ 29) :: rat) \<le> of_int d" using assms(1) by (simp only: of_int_le_iff)
  then have "flt (2 ^ 29) \<le> flt (of_int d)" by (intro flt.rnd_mono) simp
  then have d: "2 ^ 29 \<le> flt (of_int d)" by (simp only: flt_power)
  have "1 \<le> flt (of_int P)" using assms(2) flt.rnd_ge [of 1 "of_int P"] by simp
  then have "1 / 2 ^ 12 \<le> flt (of_int d) / flt (of_int P)"
    using d P by (simp add: le_divide_eq)
  then have "flt (of_int d) / flt (of_int (- P)) \<le> of_int (- 1) / 2 ^ 12" by (simp add: D)
  then have "flt (flt (of_int d) / flt (of_int (- P))) \<le> flt (of_int (- 1) / 2 ^ 12)" by (rule flt.rnd_mono)
  also have "\<dots> = of_int (- 1) / 2 ^ 12" by (rule flt.rnd_dyadic) simp
  finally have "of_int (2 ^ 12 + 1) / 2 ^ 12 \<le> 1 - flt (flt (of_int d) / flt (of_int (- P)))" by simp
  then have "flt (of_int (2 ^ 12 + 1) / 2 ^ 12) \<le> sm_factor d (- P)"
    unfolding sm_factor_def by (rule flt.rnd_mono)
  moreover have "flt (of_int (2 ^ 12 + 1) / 2 ^ 12) = of_int (2 ^ 12 + 1) / 2 ^ 12"
    by (rule flt.rnd_dyadic) simp
  ultimately show ?thesis by simp
qed

lemma step_channel_overshoot:
  assumes "1 + 1 / 2 ^ 12 \<le> k"
  shows "step_channel k 255 0 = Inl Undefined"
proof -
  have "of_int ((2 ^ 12 + 1) * 255) / 2 ^ 12 \<le> k * 255" using assms by simp
  then have "flt (of_int ((2 ^ 12 + 1) * 255) / 2 ^ 12) \<le> flt (k * 255)" by (rule flt.rnd_mono)
  moreover have "flt (of_int ((2 ^ 12 + 1) * 255) / 2 ^ 12) = of_int ((2 ^ 12 + 1) * 255) / 2 ^ 12"
    by (rule flt.rnd_dyadic) simp
  ultimately have "255 < flt (k * 255)" by simp
  then have c: "256 \<le> \<lceil>flt (k * 255)\<rceil>" by (simp add: le_ceiling_iff)
  then have "(256 :: rat) \<le> of_int \<lceil>flt (k * 255)\<rceil>"
    using of_int_le_iff [of 256 "\<lceil>flt (k * 255)\<rceil>", where ?'a = rat] by simp
  then have "flt (255 - of_int \<lceil>flt (k * 255)\<rceil>) \<le> flt (of_int (- 1))" by (intro flt.rnd_mono) simp
  also have "\<dots> = - 1" by (subst flt_small_int) simp_all
  finally have "flt (255 - of_int \<lceil>flt (k * 255)\<rceil>) \<le> of_int (- 1)" by simp
  from trunc_rat_mono [OF this] have "trunc_rat (flt (255 - of_int \<lceil>flt (k * 255)\<rceil>)) \<le> - 1"
    by (simp only: trunc_rat_of_int)
  then show ?thesis by (simp add: step_channel_def Let_def rat_to_u8_def)
qed

text \<open>
  Switching off can misfire: \<open>switchOff\<close> sets the target time to zero, and the next tick
  truncates minus the time of day to 32 bits.  Between 1970 and 2039, whenever these bits read
  as a number above \<open>2 ^ 29\<close> (a quarter of the time), the tick takes the branch of a running
  transition with a factor above one; a led at full brightness then overshoots below zero and
  the conversion to \<open>uint8_t\<close> is undefined instead of black.
\<close>

theorem smoothing_switchOff_overflow:
  assumes "sm_previousValues s = c # cs" "red c = 255" "sm_targetValues s = d # ds"
    and "1 \<le> sm_previousTime s" "sm_previousTime s < 2 ^ 41" "2 ^ 29 \<le> delta_time 0 now"
  shows "sm_updateLeds now (sm_switchOff s) = Inl Undefined"
proof -
  have "step_channel (sm_factor (delta_time 0 now) (- sm_previousTime s)) 255 0 = Inl Undefined"
    using assms(4-6) by (intro step_channel_overshoot sm_factor_off)
  then show ?thesis
    using assms by (simp add: sm_updateLeds_def sm_switchOff_def Let_def step_color_def BLACK_def)
qed

theorem smoothing_switchOff_overflow_witness:
  "sm_updateLeds 1485000000000 (sm_switchOff ((sm_new 200 0 True 1484999999900 1484999999960)
     \<lparr>sm_previousValues := [rgb 255 0 0], sm_targetValues := [rgb 255 0 0]\<rparr>)) = Inl Undefined"
proof (rule smoothing_switchOff_overflow [where c = "rgb 255 0 0"])
  have "(word_of_int (0 - 1485000000000) :: 32 word) = word_of_int 1058684416"
    by (simp add: word_of_int_eq_iff take_bit_eq_mod)
  then have "delta_time 0 1485000000000 = sint (word_of_int 1058684416 :: 32 word)"
    by (simp only: delta_time_def)
  also have "\<dots> = 1058684416" by (rule sint32_id) simp_all
  finally show "2 ^ 29 \<le> delta_time 0 1485000000000" by simp
qed (simp_all add: sm_new_def)

text \<open>
  Otherwise switching off works: when the truncated difference is negative the next tick
  shows black on every led, and in delayed output every frame still queued is black.
\<close>

theorem smoothing_switchOff_black:
  assumes "length (sm_targetValues s) = length (sm_previousValues s)" "delta_time 0 now < 0"
    and "sm_outputDelay s = 0 \<longrightarrow> sm_outputQueue s = []"
  shows "\<exists>s'. sm_updateLeds now (sm_switchOff s) = Inr s' \<and>
    sm_previousValues s' = replicate (length (sm_previousValues s)) BLACK \<and>
    (\<exists>fs. sm_out s' @ sm_outputQueue s' = sm_out s @ fs \<and>
       set fs \<subseteq> {replicate (length (sm_previousValues s)) BLACK})"
proof -
  let ?black = "replicate (length (sm_previousValues s)) BLACK"
  have black: "map (\<lambda>_. BLACK) (sm_targetValues s) = ?black"
    using assms(1) by (simp add: map_replicate_const)
  let ?s = "sm_switchOff s\<lparr>sm_previousValues := ?black, sm_previousTime := now\<rparr>"
  have q: "sm_outputQueue ?s = replicate (length (sm_outputQueue s)) ?black"
      "sm_out ?s = sm_out s" "sm_outputDelay ?s = sm_outputDelay s"
    by (simp_all add: sm_switchOff_def Let_def flush_queue_all black)
  have "sm_updateLeds now (sm_switchOff s) =
      Inr ((sm_queueColors ?black ?s)\<lparr>sm_writeToLedsEnable := sm_continuousOutput s\<rparr>)"
    using assms(1,2) by (simp add: sm_updateLeds_def sm_switchOff_def Let_def black blit_all)
  moreover have "sm_out (sm_queueColors ?black ?s) @ sm_outputQueue (sm_queueColors ?black ?s) =
      sm_out s @ (sm_outputQueue ?s @ (if sm_writeToLedsEnable ?s then [?black] else []))"
    using queueColors_fifo [of ?s ?black] assms(3) q by simp
  moreover have "set (sm_outputQueue ?s @ (if sm_writeToLedsEnable ?s then [?black] else [])) \<subseteq> {?black}"
    using q(1) by (auto split: if_splits)
  ultimately show ?thesis 
    by (intro exI [where x = "(sm_queueColors ?black ?s)\<lparr>sm_writeToLedsEnable := sm_continuousOutput s\<rparr>"]
        exI [where x = "sm_outputQueue ?s @ (if sm_writeToLedsEnable ?s then [?black] else [])"] conjI) simp_all
qed

theorem smoothing_switchOff_black_witness:
  "\<exists>s'. sm_updateLeds 1500 (sm_switchOff ((sm_new 200 0 True 1000 900)
     \<lparr>sm_previousValues := [rgb 255 0 0], sm_targetValues := [rgb 255 0 0]\<rparr>)) = Inr s' \<and>
     sm_previousValues s' = [BLACK]"
proof -
  have "delta_time 0 1500 = - 1500" by (subst delta_time_small) simp_all
  then show ?thesis
    using smoothing_switchOff_black [of "(sm_new 200 0 True 1000 900)
     \<lparr>sm_previousValues := [rgb 255 0 0], sm_targetValues := [rgb 255 0 0]\<rparr>" 1500]
    by (simp add: sm_new_def) blast
qed

end
