(* ===== verification/LedOutput.thy ===== *)
theory LedOutput
  imports LedConfig
begin

text \<open>
  The last part of \<open>Hyperion::update\<close> (\<open>libsrc/hyperion/Hyperion.cpp\<close>): cloned leds are inserted
  into the colours of the led string, every colour is put into the byte order of its led, and
  the frame is padded to the number of hardware leds.
\<close>

section \<open>Definitions\<close>

text \<open>\<open>vector::insert(begin() + i, x)\<close>; an iterator past the end is undefined.\<close>

definition vec_insert :: "nat \<Rightarrow> 'a \<Rightarrow> 'a list \<Rightarrow> 'a list res" where
  "vec_insert i x xs = (if i \<le> length xs then Inr (take i xs @ x # drop i xs) else Inl Undefined)"

text \<open>
  One insertion per cloned led, at the index of the led; \<open>val\<close> is the inserted value, read from
  the vector as it is at that moment.
\<close>

fun insert_each :: "(Led \<Rightarrow> 'a list \<Rightarrow> 'a res) \<Rightarrow> Led list \<Rightarrow> 'a list \<Rightarrow> 'a list res" where
  "insert_each val [] buf = Inr buf"
| "insert_each val (l # ls) buf =
     res_bind (val l buf) (\<lambda>x. res_bind (vec_insert (led_index l) x buf) (insert_each val ls))"

text \<open>\<open>at(led.clone)\<close>: a negative number becomes a huge unsigned one.\<close>

definition clone_color :: "Led \<Rightarrow> ColorRgb list \<Rightarrow> ColorRgb res" where
  "clone_color l buf = (if led_clone l < 0 then Inl OutOfRange else vec_at buf (nat (led_clone l)))"

definition insert_clones :: "Led list \<Rightarrow> ColorRgb list \<Rightarrow> ColorRgb list res" where
  "insert_clones clones buf = insert_each clone_color clones buf"

definition init_colorOrder :: "Led list \<Rightarrow> Led list \<Rightarrow> ColorOrder list res" where
  "init_colorOrder leds clones = insert_each (\<lambda>l _. Inr (led_colorOrder l)) clones (map led_colorOrder leds)"

definition swap_rb :: "ColorRgb \<Rightarrow> ColorRgb" where
  "swap_rb c = rgb (blue c) (green c) (red c)"

definition swap_gb :: "ColorRgb \<Rightarrow> ColorRgb" where
  "swap_gb c = rgb (red c) (blue c) (green c)"

definition swap_rg :: "ColorRgb \<Rightarrow> ColorRgb" where
  "swap_rg c = rgb (green c) (red c) (blue c)"

fun reorder :: "ColorOrder \<Rightarrow> ColorRgb \<Rightarrow> ColorRgb" where
  "reorder ORDER_RGB c = c"
| "reorder ORDER_BGR c = swap_rb c"
| "reorder ORDER_RBG c = swap_gb c"
| "reorder ORDER_GRB c = swap_rg c"
| "reorder ORDER_GBR c = swap_gb (swap_rg c)"
| "reorder ORDER_BRG c = swap_gb (swap_rb c)"

fun reorder_loop :: "ColorOrder list \<Rightarrow> ColorRgb list \<Rightarrow> ColorRgb list res" where
  "reorder_loop os [] = Inr []"
| "reorder_loop [] (c # cs) = Inl OutOfRange"
| "reorder_loop (oo # os) (c # cs) = res_bind (reorder_loop os cs) (\<lambda>cs'. Inr (reorder oo c # cs'))"

definition pad_frame :: "nat \<Rightarrow> ColorRgb list \<Rightarrow> ColorRgb list" where
  "pad_frame hwLedCount buf = (if hwLedCount > length buf then vec_resize hwLedCount BLACK buf else buf)"

section \<open>Insertion at ascending indices\<close>

lemma ascending_room:
  assumes "sorted_wrt (<) (xs :: nat list)" "\<forall>x \<in> set xs. x < N" "j < length xs"
  shows "xs ! j + (length xs - j) \<le> N"
proof -
  have "card (set (drop j xs)) = length xs - j"
    using assms(1) by (simp add: distinct_card sorted_wrt_less_distinct sorted_wrt_drop)
  moreover have "set (drop j xs) \<subseteq> {xs ! j ..< N}"
  proof
    fix x assume x: "x \<in> set (drop j xs)"
    then obtain k where k: "k < length xs - j" "x = xs ! (j + k)" by (auto simp: in_set_conv_nth)
    then have "xs ! j \<le> x"
      using assms(1,3) sorted_wrt_nth_less [of "(<)" xs j "j + k"] by (cases k) (auto intro: less_imp_le)
    moreover have "x < N" using x assms(2) by (auto dest: in_set_dropD)
    ultimately show "x \<in> {xs ! j ..< N}" by simp
  qed
  ultimately have "length xs - j \<le> N - xs ! j" by (metis card_atLeastLessThan card_mono finite_atLeastLessThan)
  moreover have "xs ! j < N" using assms(2,3) by simp
  ultimately show ?thesis by linarith
qed

text \<open>\<open>others\<close>: the entries that were not inserted, in order.\<close>

definition others :: "Led list \<Rightarrow> 'a list \<Rightarrow> 'a list" where
  "others ls out = nths out (- led_index ` set ls)"

lemma nths_split:
  assumes "i < length xs"
  shows "nths xs A = nths (take i xs) A @ (if i \<in> A then [xs ! i] else []) @ nths (drop (Suc i) xs) {j. j + Suc i \<in> A}"
proof -
  have "nths xs A = nths (take i xs @ xs ! i # drop (Suc i) xs) A"
    using id_take_nth_drop [OF assms] by simp
  then show ?thesis using assms by (simp add: nths_append nths_Cons min_def)
qed

lemma nths_all_in: "(\<And>j. j < length xs \<Longrightarrow> j \<in> A) \<Longrightarrow> nths xs A = xs"
  by (rule nths_all) simp

lemma insert_each_ascending:
  assumes "sorted_wrt (<) (map led_index ls)"
    and "\<forall>j < length ls. led_index (ls ! j) \<le> length buf + j"
    and "\<And>l b. l \<in> set ls \<Longrightarrow> led_index l \<le> length b \<Longrightarrow> val l b = Inr (v l (take (led_index l) b))"
  shows "\<exists>out. insert_each val ls buf = Inr out \<and> length out = length buf + length ls \<and>
    (\<forall>l \<in> set ls. out ! led_index l = v l (take (led_index l) out)) \<and>
    others ls out = buf \<and> (\<forall>k. (\<forall>l \<in> set ls. k \<le> led_index l) \<longrightarrow> take k out = take k buf)"
  using assms
proof (induction ls arbitrary: buf)
  case Nil
  then show ?case by (simp add: others_def nths_all_in)
next
  case (Cons l ls)
  let ?i = "led_index l"
  let ?x = "v l (take ?i buf)"
  let ?buf = "take ?i buf @ ?x # drop ?i buf"
  have i: "?i \<le> length buf" using Cons.prems(2) by auto
  have above: "\<forall>l' \<in> set ls. Suc ?i \<le> led_index l'" using Cons.prems(1) by (simp add: Suc_le_eq)
  obtain out where out: "insert_each val ls ?buf = Inr out" "length out = length ?buf + length ls"
      "\<forall>l \<in> set ls. out ! led_index l = v l (take (led_index l) out)" "others ls out = ?buf"
      "\<And>k. (\<forall>l \<in> set ls. k \<le> led_index l) \<Longrightarrow> take k out = take k ?buf"
  proof -
    have "\<forall>j < length ls. led_index (ls ! j) \<le> length ?buf + j" using Cons.prems(2) i by fastforce
    then show ?thesis using Cons.IH [of ?buf] Cons.prems(1,3) that by auto
  qed
  have run: "insert_each val (l # ls) buf = Inr out"
    using Cons.prems(3) i out(1) by (simp add: vec_insert_def)
  have pre: "take (Suc ?i) out = take (Suc ?i) ?buf" using out(5) above by blast
  have buf_at: "?buf ! ?i = ?x" "take ?i ?buf = take ?i buf" using i by (simp_all add: nth_append)
  have "out ! ?i = take (Suc ?i) ?buf ! ?i" using nth_take [of ?i "Suc ?i" out] pre by simp
  also have "\<dots> = ?x" using nth_take [of ?i "Suc ?i" ?buf] buf_at(1) by simp
  finally have here1: "out ! ?i = ?x" .
  have "take ?i (take (Suc ?i) out) = take ?i (take (Suc ?i) ?buf)" using pre by simp
  then have here2: "take ?i out = take ?i buf" using buf_at(2) by (simp only: take_take) (simp add: min_def)
  note here = here1 here2
  have "others (l # ls) out = buf"
  proof -
    let ?A = "led_index ` set ls"
    have iout: "?i < length out" using i out(2) by simp
    have notin: "?i \<notin> ?A" using above by (auto simp: Suc_le_eq)
    have keep: "nths (take ?i buf) (- ?A) = take ?i buf" "nths (take ?i buf) (- insert ?i ?A) = take ?i buf"
      using above by (auto intro!: nths_all_in simp: Suc_le_eq)
    have "take ?i buf @ [?x] @ nths (drop (Suc ?i) out) {j. j + Suc ?i \<in> - ?A} = ?buf"
      using out(4) nths_split [OF iout, of "- ?A"] notin here keep(1) by (simp add: others_def)
    then have tail: "nths (drop (Suc ?i) out) {j. j + Suc ?i \<in> - ?A} = drop ?i buf" by simp
    have "nths (take ?i out) (- insert ?i ?A) = take ?i buf" using here keep(2) by simp
    moreover have "{j. j + Suc ?i \<in> - insert ?i ?A} = {j. j + Suc ?i \<in> - ?A}" by auto
    ultimately have "nths out (- insert ?i ?A) = take ?i buf @ drop ?i buf"
      using tail by (subst nths_split [OF iout]) simp
    then show ?thesis by (simp add: others_def)
  qed
  moreover have "take k out = take k buf" if "\<forall>l' \<in> set (l # ls). k \<le> led_index l'" for k
  proof -
    have "k \<le> ?i" using that by simp
    then have "take k out = take k (take ?i out)" by (simp add: min_def)
    then show ?thesis using here(2) \<open>k \<le> ?i\<close> by (simp add: min_def)
  qed
  ultimately show ?case using run out(2,3) here i by (auto simp: here)
qed

text \<open>The clones of a layout: distinct indices in order, inside the string with the clones.\<close>

definition clones_ok :: "nat \<Rightarrow> Led list \<Rightarrow> bool" where
  "clones_ok n clones \<longleftrightarrow> sorted_wrt (<) (map led_index clones) \<and>
     list_all (\<lambda>l. led_index l < n + length clones) clones"

definition backward :: "Led list \<Rightarrow> bool" where
  "backward clones \<longleftrightarrow> list_all (\<lambda>l. 0 \<le> led_clone l \<and> led_clone l < int (led_index l)) clones"

lemma clones_ok_room:
  "clones_ok n clones \<Longrightarrow> j < length clones \<Longrightarrow> led_index (clones ! j) \<le> n + j"
  using ascending_room [of "map led_index clones" "n + length clones" j]
  by (auto simp: clones_ok_def list_all_iff)

lemma insert_clones_backward:
  assumes "clones_ok (length buf) clones" "backward clones"
  shows "\<exists>out. insert_clones clones buf = Inr out \<and> length out = length buf + length clones \<and>
    (\<forall>l \<in> set clones. out ! led_index l = out ! nat (led_clone l)) \<and> others clones out = buf"
proof -
  have "\<exists>out. insert_clones clones buf = Inr out \<and> length out = length buf + length clones \<and>
    (\<forall>l \<in> set clones. out ! led_index l = take (led_index l) out ! nat (led_clone l)) \<and>
    others clones out = buf \<and> (\<forall>k. (\<forall>l \<in> set clones. k \<le> led_index l) \<longrightarrow> take k out = take k buf)"
    unfolding insert_clones_def
  proof (rule insert_each_ascending [where v = "\<lambda>l p. p ! nat (led_clone l)"])
    show "sorted_wrt (<) (map led_index clones)" using assms(1) by (simp add: clones_ok_def)
    show "\<forall>j < length clones. led_index (clones ! j) \<le> length buf + j" using clones_ok_room [OF assms(1)] by blast
    show "clone_color l b = Inr (take (led_index l) b ! nat (led_clone l))"
      if "l \<in> set clones" "led_index l \<le> length b" for l b
      using that assms(2) by (auto simp: backward_def list_all_iff clone_color_def vec_at_def)
  qed
  then show ?thesis using assms(2) by (fastforce simp: backward_def list_all_iff)
qed

lemma init_colorOrder_ok:
  assumes "clones_ok (length leds) clones"
  shows "\<exists>os. init_colorOrder leds clones = Inr os \<and> length os = length leds + length clones \<and>
    (\<forall>l \<in> set clones. os ! led_index l = led_colorOrder l) \<and> others clones os = map led_colorOrder leds"
proof -
  have "\<exists>os. init_colorOrder leds clones = Inr os \<and>
    length os = length (map led_colorOrder leds) + length clones \<and>
    (\<forall>l \<in> set clones. os ! led_index l = led_colorOrder l) \<and> others clones os = map led_colorOrder leds \<and>
    (\<forall>k. (\<forall>l \<in> set clones. k \<le> led_index l) \<longrightarrow> take k os = take k (map led_colorOrder leds))"
    unfolding init_colorOrder_def
    using assms clones_ok_room [OF assms]
    by (intro insert_each_ascending [where v = "\<lambda>l _. led_colorOrder l"]) (simp_all add: clones_ok_def)
  then show ?thesis by auto
qed

lemma reorder_loop_ok:
  "length cs \<le> length os \<Longrightarrow> reorder_loop os cs = Inr (map2 reorder os cs)"
proof (induction os cs rule: reorder_loop.induct)
  case (1 os)
  then show ?case by simp
qed simp_all

lemma reorder_loop_short: "length os < length cs \<Longrightarrow> reorder_loop os cs = Inl OutOfRange"
  by (induction os cs rule: reorder_loop.induct) simp_all

lemma length_pad_frame [simp]: "length (pad_frame n buf) = max n (length buf)"
  by (simp add: pad_frame_def)

section \<open>Properties\<close>

text \<open>The channel a letter of a colour order names.\<close>

definition channel_named :: "ColorRgb \<Rightarrow> char \<Rightarrow> byte" where
  "channel_named c ch = (if ch = CHR ''r'' then red c else if ch = CHR ''g'' then green c else blue c)"

lemma reorder_letters: "color_bytes (reorder oo c) = map (channel_named c) (colorOrderToString oo)"
  by (cases oo) (simp_all add: color_bytes_def channel_named_def swap_rb_def swap_gb_def swap_rg_def)

text \<open>
  The byte order of a led: the three bytes a driver finds in memory are the channels the
  letters of the configured order name, whatever the order was written like (an unknown one
  counts as rgb).
\<close>

theorem color_order_bytes:
  "color_bytes (reorder (stringToColorOrder s) c) =
     map (channel_named c) (if s \<in> {''rgb'', ''bgr'', ''rbg'', ''brg'', ''gbr'', ''grb''} then s else ''rgb'')"
  by (simp add: reorder_letters stringToColorOrder_def)

text \<open>
  C26.  Cloned leds: when the clones have distinct indices inside the string and each refers to
  a led before itself, the insertion loop succeeds, every clone shows the colour of the led it
  refers to (a clone of a clone included), and the other leds keep their colours in order.
\<close>

theorem clone_leds_follow:
  assumes "clones_ok (length buf) clones" "backward clones"
  shows "\<exists>out. insert_clones clones buf = Inr out \<and> length out = length buf + length clones \<and>
    (\<forall>l \<in> set clones. out ! led_index l = out ! nat (led_clone l)) \<and> others clones out = buf"
  using assms by (rule insert_clones_backward)

definition clone_led :: "nat \<Rightarrow> int \<Rightarrow> Led" where
  "clone_led i k = \<lparr>led_index = i, minX_frac = 0, maxX_frac = 0, minY_frac = 0, maxY_frac = 0,
     led_clone = k, led_colorOrder = ORDER_RGB\<rparr>"

theorem clone_leds_follow_witness:
  "\<exists>out. insert_clones [clone_led 1 0, clone_led 3 1] [rgb 1 1 1, rgb 2 2 2] = Inr out \<and>
     out ! 1 = out ! 0 \<and> out ! 3 = out ! 1"
  using clone_leds_follow [of "[rgb 1 1 1, rgb 2 2 2]" "[clone_led 1 0, clone_led 3 1]"]
  by (simp add: clones_ok_def backward_def clone_led_def) blast

text \<open>
  A clone that refers to a led after itself, which the configuration accepts, does not
  show that led: the loop reads the colour before the insertion has moved it, so the clone
  shows the neighbour's colour, or the access throws for the last led.
\<close>

theorem forward_clone_wrong:
  assumes "led_index l < nat (led_clone l)" "nat (led_clone l) \<le> length buf"
  shows "(nat (led_clone l) = length buf \<longrightarrow> insert_clones [l] buf = Inl OutOfRange) \<and>
    (nat (led_clone l) < length buf \<longrightarrow> (\<exists>out. insert_clones [l] buf = Inr out \<and>
       out ! led_index l = out ! Suc (nat (led_clone l)) \<and>
       out ! nat (led_clone l) = buf ! (nat (led_clone l) - 1)))"
proof -
  let ?k = "nat (led_clone l)"
  have pos: "\<not> led_clone l < 0" using assms(1) by simp
  have "(take (led_index l) buf @ buf ! ?k # drop (led_index l) buf) ! Suc ?k = buf ! ?k"
    if "?k < length buf" using that assms(1) by (simp add: nth_append nth_Cons' min_def)
  moreover have "(take (led_index l) buf @ buf ! ?k # drop (led_index l) buf) ! ?k = buf ! (?k - 1)"
    if "?k < length buf" using that assms(1) by (simp add: nth_append nth_Cons' min_def)
  moreover have "(take (led_index l) buf @ buf ! ?k # drop (led_index l) buf) ! led_index l = buf ! ?k"
    if "?k < length buf" using that assms(1) by (simp add: nth_append)
  ultimately show ?thesis
    using assms pos by (simp add: insert_clones_def clone_color_def vec_at_def vec_insert_def)
qed

theorem forward_clone_wrong_witness:
  "\<exists>out. insert_clones [clone_led 0 1] [rgb 1 1 1, rgb 2 2 2, rgb 3 3 3] = Inr out \<and>
     out ! 0 = out ! 2 \<and> out ! 1 = rgb 1 1 1"
  using forward_clone_wrong [of "clone_led 0 1" "[rgb 1 1 1, rgb 2 2 2, rgb 3 3 3]"]
  by (simp add: clone_led_def numeral_2_eq_2)

end
