(* ===== verification/Json.thy ===== *)
theory Json
  imports Complex_Main QMaps
begin

text \<open>
  JSON values as the code handles them (\<open>QJsonValue\<close>, \<open>QJsonObject\<close>, \<open>QJsonArray\<close>): an object
  is the ordered map of \<open>QMaps\<close>, which is the order Qt iterates over its keys.  A missing key
  reads as \<open>JUndefined\<close>.  The conversions return the default when the value has another type.
\<close>

datatype json =
    JNull | JUndefined | JBool bool | JDouble rat | JString string
  | JArray "json list" | JObject "(string \<times> json) list"

definition json_lookup :: "(string \<times> json) list \<Rightarrow> string \<Rightarrow> json" where
  "json_lookup obj key = (case map_of obj key of None \<Rightarrow> JUndefined | Some v \<Rightarrow> v)"

definition json_contains :: "(string \<times> json) list \<Rightarrow> string \<Rightarrow> bool" where
  "json_contains obj key \<longleftrightarrow> map_of obj key \<noteq> None"

fun json_object :: "json \<Rightarrow> (string \<times> json) list" where
  "json_object (JObject obj) = obj"
| "json_object _ = []"

fun json_array :: "json \<Rightarrow> json list" where
  "json_array (JArray xs) = xs"
| "json_array _ = []"

fun json_string :: "string \<Rightarrow> json \<Rightarrow> string" where
  "json_string d (JString s) = s"
| "json_string d _ = d"

fun json_bool :: "bool \<Rightarrow> json \<Rightarrow> bool" where
  "json_bool d (JBool b) = b"
| "json_bool d _ = d"

fun json_double :: "rat \<Rightarrow> json \<Rightarrow> rat" where
  "json_double d (JDouble x) = x"
| "json_double d _ = d"

text \<open>\<open>toInt\<close> also returns the default for a number that is not whole or leaves the range of \<open>int\<close>.\<close>

fun json_int :: "int \<Rightarrow> json \<Rightarrow> int" where
  "json_int d (JDouble x) =
     (if of_int \<lfloor>x\<rfloor> = x \<and> - (2 ^ 31) \<le> \<lfloor>x\<rfloor> \<and> \<lfloor>x\<rfloor> < 2 ^ 31 then \<lfloor>x\<rfloor> else d)"
| "json_int d _ = d"

fun is_JDouble :: "json \<Rightarrow> bool" where
  "is_JDouble (JDouble x) = True"
| "is_JDouble _ = False"

fun is_JArray :: "json \<Rightarrow> bool" where
  "is_JArray (JArray xs) = True"
| "is_JArray _ = False"

fun is_JObject :: "json \<Rightarrow> bool" where
  "is_JObject (JObject obj) = True"
| "is_JObject _ = False"

fun is_JString :: "json \<Rightarrow> bool" where
  "is_JString (JString s) = True"
| "is_JString _ = False"

fun is_JBool :: "json \<Rightarrow> bool" where
  "is_JBool (JBool b) = True"
| "is_JBool _ = False"

lemma json_int_range: "- (2 ^ 31) \<le> d \<Longrightarrow> d < 2 ^ 31 \<Longrightarrow> - (2 ^ 31) \<le> json_int d v \<and> json_int d v < 2 ^ 31"
  by (cases v) simp_all

lemma size_json_object [termination_simp]: "size_list (size_prod (\<lambda>_. 0) size) (json_object v) \<le> size v"
  by (cases v) simp_all

end
