(* ===== verification/Hyperion.thy ===== *)
theory Hyperion
  imports Muxer Adjustment Smoothing LedOutput Images Json "HOL-Library.List_Lexorder" "HOL-Library.Char_ord"
begin

text \<open>
  The core object (\<open>Hyperion\<close>, \<open>libsrc/hyperion/Hyperion.cpp\<close>) with the effect engine
  (\<open>EffectEngine\<close>, \<open>Effect\<close>, \<open>libsrc/effectengine\<close>): the operations of the clients, the update
  of the leds, the life of effects and the queue of the main event loop, through which the
  threads of the effects reach the core.

  The clock \<open>QDateTime::currentMSecsSinceEpoch\<close> is a parameter \<open>clk\<close>: the value of the \<open>n\<close>-th
  reading; the state counts the readings.  The led device receives its frames in \<open>sm_out\<close>, the
  log it shares with the smoothing; it is taken to be ready.
\<close>

section \<open>State\<close>

datatype thread_state = ThreadCreated | ThreadRunning | ThreadEnded

record effect =
  ef_id :: nat
  ef_name :: string
  ef_script :: string
  ef_args :: json
  ef_priority :: int
  ef_timeout :: int
  ef_endTime :: int
  ef_abortRequested :: bool
  ef_thread :: thread_state
  ef_colors :: "ColorRgb list"

record effect_definition =
  efd_name :: string
  efd_script :: string
  efd_args :: "(string \<times> json) list"

text \<open>What the threads of the effects post to the main event loop.\<close>

datatype event = EvSetColors int "ColorRgb list" int Components | EvFinished nat

datatype signal =
    SigComponentState Components bool
  | SigMapping int
  | SigImage int "ColorRgb image" int
  | SigClosing

record hyperion =
  h_ledString :: "Led list"
  h_ledStringClone :: "Led list"
  h_colorOrder :: "ColorOrder list"
  h_muxer :: muxer
  h_adjustment :: MultiColorAdjustment
  h_smooth :: smoothing
  h_timer :: "int option"
  h_hwLedCount :: nat
  h_autoSelect :: bool
  h_currentSource :: int
  h_prevCompId :: Components
  h_register :: "(string, int) qmap"
  h_components :: component_register
  h_available :: "effect_definition list"
  h_effects :: "effect list"
  h_nextEffect :: nat
  h_ledMappingType :: int
  h_events :: "event list"
  h_signals :: "signal list"
  h_clock :: nat

section \<open>The led update\<close>

definition read_clock :: "(nat \<Rightarrow> int) \<Rightarrow> hyperion \<Rightarrow> int \<times> hyperion" where
  "read_clock clk h = (clk (h_clock h), h\<lparr>h_clock := h_clock h + 1\<rparr>)"

definition getCurrentPriority :: "hyperion \<Rightarrow> int" where
  "getCurrentPriority h =
     (if h_autoSelect h \<or> \<not> mux_hasPriority (h_muxer h) (h_currentSource h)
      then mux_getCurrentPriority (h_muxer h) else h_currentSource h)"

definition backlight_for :: "Components \<Rightarrow> bool" where
  "backlight_for c \<longleftrightarrow> c \<noteq> COMP_COLOR \<and> c \<noteq> COMP_EFFECT"

text \<open>The part of \<open>update\<close> that applies the adjustments, for channels above the lowest one.\<close>

definition hyp_adjust :: "int \<Rightarrow> InputInfo \<Rightarrow> hyperion \<Rightarrow> (ColorRgb list \<times> hyperion) res" where
  "hyp_adjust prio info h =
     (if prio < LOWEST_PRIORITY
      then (let h = (if componentId info \<noteq> h_prevCompId h
                     then h\<lparr>h_adjustment := mca_setBacklightEnabled (h_adjustment h) (backlight_for (componentId info)),
                            h_prevCompId := componentId info\<rparr> else h)
            in res_bind (mca_applyAdjustment (h_adjustment h) (ledColors info)) (\<lambda>buf. Inr (buf, h)))
      else Inr (ledColors info, h))"

definition hyp_initOrder :: "hyperion \<Rightarrow> hyperion res" where
  "hyp_initOrder h =
     (if h_colorOrder h = []
      then res_bind (init_colorOrder (h_ledString h) (h_ledStringClone h)) (\<lambda>os. Inr (h\<lparr>h_colorOrder := os\<rparr>))
      else Inr h)"

text \<open>
  To the smoothing when it is enabled, which reads the clock once or, for its first frame,
  twice; otherwise to the device.
\<close>

definition hyp_output :: "(nat \<Rightarrow> int) \<Rightarrow> ColorRgb list \<Rightarrow> hyperion \<Rightarrow> hyperion res" where
  "hyp_output clk buf h =
     (if sm_enabled (h_smooth h)
      then (let (now, h1) = read_clock clk h;
                (now', h2) = (if sm_previousValues (h_smooth h1) = [] then read_clock clk h1 else (0, h1))
            in res_bind (sm_write now now' buf (h_smooth h2)) (\<lambda>s. Inr (h2\<lparr>h_smooth := s\<rparr>)))
      else Inr (h\<lparr>h_smooth := (h_smooth h)\<lparr>sm_out := sm_out (h_smooth h) @ [buf]\<rparr>\<rparr>))"

definition hyp_startTimer :: "(nat \<Rightarrow> int) \<Rightarrow> InputInfo \<Rightarrow> hyperion \<Rightarrow> hyperion" where
  "hyp_startTimer clk info h =
     (if timeoutTime_ms info = -1 then h\<lparr>h_timer := None\<rparr>
      else (let (now, h) = read_clock clk h
            in h\<lparr>h_timer := Some (max 0 (delta_time (timeoutTime_ms info) now))\<rparr>))"

definition hyp_update :: "(nat \<Rightarrow> int) \<Rightarrow> hyperion \<Rightarrow> hyperion res" where
  "hyp_update clk h =
     (let (now, h) = read_clock clk h;
          h = h\<lparr>h_muxer := mux_setCurrentTime (h_muxer h) now\<rparr>;
          prio = getCurrentPriority h
      in res_bind (mux_getInputInfo (h_muxer h) prio) (\<lambda>info.
         res_bind (hyp_adjust prio info h) (\<lambda>(buf, h).
         res_bind (hyp_initOrder h) (\<lambda>h.
         res_bind (insert_clones (h_ledStringClone h) buf) (\<lambda>buf.
         res_bind (reorder_loop (h_colorOrder h) buf) (\<lambda>buf.
         res_bind (hyp_output clk (pad_frame (h_hwLedCount h) buf) h) (\<lambda>h.
           Inr (hyp_startTimer clk info h))))))))"

section \<open>Channels\<close>

definition ee_abort :: "(effect \<Rightarrow> bool) \<Rightarrow> hyperion \<Rightarrow> hyperion" where
  "ee_abort P h = h\<lparr>h_effects := map (\<lambda>e. if P e then e\<lparr>ef_abortRequested := True\<rparr> else e) (h_effects h)\<rparr>"

definition ee_channelCleared :: "int \<Rightarrow> hyperion \<Rightarrow> hyperion" where
  "ee_channelCleared p h = ee_abort (\<lambda>e. ef_priority e = p) h"

definition ee_allChannelsCleared :: "hyperion \<Rightarrow> hyperion" where
  "ee_allChannelsCleared h = ee_abort (\<lambda>_. True) h"

definition hyp_setCurrentSourcePriority :: "int \<Rightarrow> hyperion \<Rightarrow> bool \<times> hyperion" where
  "hyp_setCurrentSourcePriority p h =
     (let priorityValid = mux_hasPriority (h_muxer h) p
      in (priorityValid, if priorityValid then h\<lparr>h_autoSelect := False, h_currentSource := p\<rparr> else h))"

definition hyp_setSourceAutoSelectEnabled :: "(nat \<Rightarrow> int) \<Rightarrow> bool \<Rightarrow> hyperion \<Rightarrow> hyperion res" where
  "hyp_setSourceAutoSelectEnabled clk enabled h =
     (let h = h\<lparr>h_autoSelect := enabled\<rparr>;
          h = (if \<not> h_autoSelect h
               then snd (hyp_setCurrentSourcePriority (mux_getCurrentPriority (h_muxer h)) h) else h)
      in hyp_update clk h)"

definition hyp_setColors ::
  "(nat \<Rightarrow> int) \<Rightarrow> int \<Rightarrow> ColorRgb list \<Rightarrow> int \<Rightarrow> bool \<Rightarrow> Components \<Rightarrow> hyperion \<Rightarrow> hyperion res" where
  "hyp_setColors clk prio cs timeout_ms clearEffects cmp h =
     (let h = (if clearEffects then ee_channelCleared prio h else h);
          (t, h) = (if timeout_ms > 0
                    then (let (now, h) = read_clock clk h in (now + timeout_ms, h)) else (-1, h));
          h = h\<lparr>h_muxer := mux_setInput (h_muxer h) prio cs t cmp\<rparr>
      in if \<not> h_autoSelect h \<or> prio = mux_getCurrentPriority (h_muxer h) then hyp_update clk h else Inr h)"

definition hyp_setColor :: "(nat \<Rightarrow> int) \<Rightarrow> int \<Rightarrow> ColorRgb \<Rightarrow> int \<Rightarrow> bool \<Rightarrow> hyperion \<Rightarrow> hyperion res" where
  "hyp_setColor clk prio color timeout_ms clearEffects h =
     hyp_setColors clk prio (replicate (length (h_ledString h)) color) timeout_ms clearEffects COMP_COLOR h"

definition hyp_clear :: "(nat \<Rightarrow> int) \<Rightarrow> int \<Rightarrow> hyperion \<Rightarrow> hyperion res" where
  "hyp_clear clk prio h =
     res_bind
       (if mux_hasPriority (h_muxer h) prio
        then res_bind (mux_clearInput (h_muxer h) prio) (\<lambda>m.
             res_bind (if \<not> h_autoSelect h \<and> h_currentSource h = prio
                       then hyp_setSourceAutoSelectEnabled clk True (h\<lparr>h_muxer := m\<rparr>)
                       else Inr (h\<lparr>h_muxer := m\<rparr>)) (\<lambda>h.
               if prio < mux_getCurrentPriority (h_muxer h) then hyp_update clk h else Inr h))
        else Inr h)
       (\<lambda>h. Inr (ee_channelCleared prio h))"

definition hyp_clearall :: "(nat \<Rightarrow> int) \<Rightarrow> hyperion \<Rightarrow> hyperion res" where
  "hyp_clearall clk h =
     res_bind (hyp_setSourceAutoSelectEnabled clk True (h\<lparr>h_muxer := mux_clearAll (h_muxer h)\<rparr>)) (\<lambda>h.
     res_bind (hyp_update clk h) (\<lambda>h. Inr (ee_allChannelsCleared h)))"

definition hyp_adjustmentsUpdated :: "(nat \<Rightarrow> int) \<Rightarrow> hyperion \<Rightarrow> hyperion res" where
  "hyp_adjustmentsUpdated clk h = hyp_update clk h"

definition hyp_setImage :: "int \<Rightarrow> ColorRgb image \<Rightarrow> int \<Rightarrow> hyperion \<Rightarrow> hyperion" where
  "hyp_setImage prio img duration_ms h =
     (if prio = getCurrentPriority h
      then h\<lparr>h_signals := h_signals h @ [SigImage prio img duration_ms]\<rparr> else h)"

definition hyp_setLedMappingType :: "int \<Rightarrow> hyperion \<Rightarrow> hyperion" where
  "hyp_setLedMappingType mappingType h =
     h\<lparr>h_ledMappingType := mappingType, h_signals := h_signals h @ [SigMapping mappingType]\<rparr>"

text \<open>The smoothing reports its enabled flag as its component state.\<close>

definition hyp_setComponentState :: "Components \<Rightarrow> bool \<Rightarrow> hyperion \<Rightarrow> hyperion" where
  "hyp_setComponentState cmp state h =
     (if cmp = COMP_SMOOTHING
      then (let s = sm_setEnable state (h_smooth h)
            in h\<lparr>h_smooth := s, h_components := creg_componentStateChanged (h_components h) COMP_SMOOTHING (sm_enabled s)\<rparr>)
      else h\<lparr>h_signals := h_signals h @ [SigComponentState cmp state]\<rparr>)"

text \<open>What a server reports of itself: \<open>getComponentRegister().componentStateChanged\<close>.\<close>

definition hyp_reportComponent :: "Components \<Rightarrow> bool \<Rightarrow> hyperion \<Rightarrow> hyperion" where
  "hyp_reportComponent cmp activated h =
     h\<lparr>h_components := creg_componentStateChanged (h_components h) cmp activated\<rparr>"

section \<open>The priority register\<close>

text \<open>\<open>emplace\<close> keeps an entry that is there.\<close>

definition hyp_registerPriority :: "string \<Rightarrow> int \<Rightarrow> hyperion \<Rightarrow> hyperion" where
  "hyp_registerPriority name prio h =
     (if qmap_contains (h_register h) name then h else h\<lparr>h_register := qmap_insert name prio (h_register h)\<rparr>)"

definition hyp_unRegisterPriority :: "string \<Rightarrow> hyperion \<Rightarrow> hyperion" where
  "hyp_unRegisterPriority name h = h\<lparr>h_register := qmap_remove name (h_register h)\<rparr>"

section \<open>Effects\<close>

definition ee_find :: "nat \<Rightarrow> hyperion \<Rightarrow> effect option" where
  "ee_find i h = find (\<lambda>e. ef_id e = i) (h_effects h)"

text \<open>What the thread of an effect changes of its own object.\<close>

definition ee_set :: "effect \<Rightarrow> hyperion \<Rightarrow> hyperion" where
  "ee_set e h = h\<lparr>h_effects := map (\<lambda>x. if ef_id x = ef_id e then e else x) (h_effects h)\<rparr>"

definition ee_runEffectScript ::
  "string \<Rightarrow> string \<Rightarrow> json \<Rightarrow> int \<Rightarrow> int \<Rightarrow> hyperion \<Rightarrow> int \<times> hyperion" where
  "ee_runEffectScript script name args prio timeout h =
     (let h = ee_channelCleared prio h;
          e = \<lparr>ef_id = h_nextEffect h, ef_name = name, ef_script = script, ef_args = args,
               ef_priority = prio, ef_timeout = timeout, ef_endTime = -1, ef_abortRequested = False,
               ef_thread = ThreadCreated, ef_colors = replicate (length (h_ledString h)) BLACK\<rparr>;
          h = h\<lparr>h_effects := h_effects h @ [e], h_nextEffect := h_nextEffect h + 1\<rparr>
      in (0, hyp_registerPriority name prio h))"

definition ee_runEffect ::
  "string \<Rightarrow> (string \<times> json) list \<Rightarrow> int \<Rightarrow> int \<Rightarrow> string \<Rightarrow> hyperion \<Rightarrow> int \<times> hyperion" where
  "ee_runEffect effectName args prio timeout pythonScript h =
     (if pythonScript = ''''
      then (case find (\<lambda>d. efd_name d = effectName) (h_available h) of
              None \<Rightarrow> (-1, h)
            | Some d \<Rightarrow> ee_runEffectScript (efd_script d) effectName
                 (JObject (if args = [] then efd_args d else args)) prio timeout h)
      else ee_runEffectScript pythonScript effectName (JObject args) prio timeout h)"

text \<open>\<open>effectFinished\<close>, in the main thread, once the thread of the effect has ended.\<close>

fun erase_effect :: "nat \<Rightarrow> effect list \<Rightarrow> effect list" where
  "erase_effect i [] = []"
| "erase_effect i (e # es) = (if ef_id e = i then es else e # erase_effect i es)"

definition ee_effectFinished :: "(nat \<Rightarrow> int) \<Rightarrow> nat \<Rightarrow> hyperion \<Rightarrow> hyperion res" where
  "ee_effectFinished clk i h =
     (case ee_find i h of
        None \<Rightarrow> Inl Undefined
      | Some e \<Rightarrow>
          res_bind (if \<not> ef_abortRequested e then hyp_clear clk (ef_priority e) h else Inr h) (\<lambda>h.
            Inr (hyp_unRegisterPriority (ef_name e) (h\<lparr>h_effects := erase_effect i (h_effects h)\<rparr>))))"

text \<open>
  The thread of an effect: \<open>run\<close> sets the end time and the script calls back.  A call of the
  script ends in \<open>None\<close> or raises a Python exception.
\<close>

datatype py_result = PyNone | PyRaise

datatype py_args = PyRgb byte byte byte | PyBytes "byte list" | PyOther

definition eff_run :: "(nat \<Rightarrow> int) \<Rightarrow> effect \<Rightarrow> hyperion \<Rightarrow> hyperion" where
  "eff_run clk e h =
     (if ef_timeout e > 0
      then (let (now, h) = read_clock clk h in ee_set (e\<lparr>ef_thread := ThreadRunning, ef_endTime := now + ef_timeout e\<rparr>) h)
      else ee_set (e\<lparr>ef_thread := ThreadRunning\<rparr>) h)"

text \<open>The remaining time: \<open>None\<close> when it is over.  The difference is stored in an \<open>int\<close>.\<close>

definition eff_timeLeft :: "(nat \<Rightarrow> int) \<Rightarrow> effect \<Rightarrow> hyperion \<Rightarrow> int option \<times> hyperion" where
  "eff_timeLeft clk e h =
     (if ef_timeout e > 0
      then (let (now, h) = read_clock clk h; timeout = delta_time (ef_endTime e) now
            in (if timeout \<le> 0 then None else Some timeout, h))
      else (Some (ef_timeout e), h))"

fun bytes_colors :: "byte list \<Rightarrow> ColorRgb list" where
  "bytes_colors (r # g # b # bs) = rgb r g b # bytes_colors bs"
| "bytes_colors bs = []"

text \<open>The signal \<open>setColors\<close>, connected to the core through the event queue.\<close>

definition eff_emit :: "effect \<Rightarrow> int \<Rightarrow> hyperion \<Rightarrow> hyperion" where
  "eff_emit e timeout h =
     (ee_set e h)\<lparr>h_events := h_events h @ [EvSetColors (ef_priority e) (ef_colors e) timeout COMP_EFFECT]\<rparr>"

definition eff_setColor :: "(nat \<Rightarrow> int) \<Rightarrow> effect \<Rightarrow> py_args \<Rightarrow> hyperion \<Rightarrow> py_result \<times> hyperion" where
  "eff_setColor clk e args h =
     (if ef_abortRequested e then (PyNone, h)
      else (case eff_timeLeft clk e h of
              (None, h) \<Rightarrow> (PyNone, h)
            | (Some timeout, h) \<Rightarrow>
                (case args of
                   PyRgb r g b \<Rightarrow>
                     (PyNone, eff_emit (e\<lparr>ef_colors := map (\<lambda>_. rgb r g b) (ef_colors e)\<rparr>) timeout h)
                 | PyBytes bs \<Rightarrow>
                     if length bs = 3 * length (h_ledString h)
                     then (PyNone, eff_emit (e\<lparr>ef_colors := bytes_colors bs\<rparr>) timeout h)
                     else (PyRaise, h)
                 | PyOther \<Rightarrow> (PyRaise, h))))"

definition eff_abort :: "(nat \<Rightarrow> int) \<Rightarrow> effect \<Rightarrow> hyperion \<Rightarrow> bool \<times> hyperion" where
  "eff_abort clk e h =
     (if ef_timeout e > 0
      then (let (now, h) = read_clock clk h;
                e = (if now > ef_endTime e then e\<lparr>ef_abortRequested := True\<rparr> else e)
            in (ef_abortRequested e, ee_set e h))
      else (ef_abortRequested e, h))"

text \<open>The thread ends: Qt posts \<open>finished\<close> behind whatever the effect emitted.\<close>

definition eff_end :: "effect \<Rightarrow> hyperion \<Rightarrow> hyperion" where
  "eff_end e h =
     (ee_set (e\<lparr>ef_thread := ThreadEnded\<rparr>) h)\<lparr>h_events := h_events h @ [EvFinished (ef_id e)]\<rparr>"

text \<open>The main event loop takes the oldest event.\<close>

definition hyp_deliver :: "(nat \<Rightarrow> int) \<Rightarrow> hyperion \<Rightarrow> hyperion res" where
  "hyp_deliver clk h =
     (case h_events h of
        [] \<Rightarrow> Inr h
      | EvSetColors p cs t c # evs \<Rightarrow> hyp_setColors clk p cs t False c (h\<lparr>h_events := evs\<rparr>)
      | EvFinished i # evs \<Rightarrow> ee_effectFinished clk i (h\<lparr>h_events := evs\<rparr>))"

section \<open>Construction and destruction\<close>

text \<open>
  The constructor, from the values it reads of the configuration.  \<open>sm\<close> is the smoothing,
  \<open>junk\<close> the uninitialised source priority.
\<close>

record hyperion_cfg =
  hc_leds :: "led_cfg list"
  hc_order :: ColorOrder
  hc_adjustment :: MultiColorAdjustment
  hc_smooth :: smoothing
  hc_mapping :: int
  hc_ledCount :: "int option"
  hc_effects :: "effect_definition list"
  hc_forwarding :: bool

definition hyp_new :: "pow_fun \<Rightarrow> (nat \<Rightarrow> int) \<Rightarrow> hyperion_cfg \<Rightarrow> int \<Rightarrow> hyperion res" where
  "hyp_new pw clk cfg junk =
     (let leds = createLedString (hc_leds cfg) (hc_order cfg);
          (ok, adj) = mca_verifyAdjustments pw (hc_adjustment cfg);
          n = length leds;
          hwLedCount = (case hc_ledCount cfg of None \<Rightarrow> int n | Some k \<Rightarrow> k mod 2 ^ 32);
          h = \<lparr>h_ledString = leds, h_ledStringClone = createLedStringClone (hc_leds cfg) (hc_order cfg),
               h_colorOrder = [], h_muxer = mux_new n, h_adjustment = adj, h_smooth = hc_smooth cfg,
               h_timer = None, h_hwLedCount = nat (max hwLedCount (int n)), h_autoSelect = True,
               h_currentSource = junk, h_prevCompId = COMP_INVALID, h_register = [],
               h_components = creg_componentStateChanged (creg_componentStateChanged (\<lambda>_. None)
                  COMP_FORWARDER (hc_forwarding cfg)) COMP_SMOOTHING (sm_enabled (hc_smooth cfg)),
               h_available = hc_effects cfg, h_effects = [], h_nextEffect = 0,
               h_ledMappingType = hc_mapping cfg, h_events = [], h_signals = [], h_clock = 0\<rparr>
      in if \<not> ok then Inl RuntimeError
         else hyp_update clk (hyp_registerPriority ''Off'' LOWEST_PRIORITY h))"

text \<open>\<open>switchOff\<close> of the device writes as many black leds as the device was built for.\<close>

definition hyp_freeObjects :: "(nat \<Rightarrow> int) \<Rightarrow> bool \<Rightarrow> hyperion \<Rightarrow> hyperion res" where
  "hyp_freeObjects clk emitCloseSignal h =
     (let h = (if emitCloseSignal then h\<lparr>h_signals := h_signals h @ [SigClosing]\<rparr> else h)
      in res_bind (hyp_clearall clk h) (\<lambda>h.
         Inr (h\<lparr>h_smooth := (h_smooth h)\<lparr>sm_out := sm_out (h_smooth h) @
                [replicate (length (h_ledString h)) BLACK]\<rparr>\<rparr>)))"

end
