(* ===== verification/UpdateProps.thy ===== *)
theory UpdateProps
  imports Hyperion
begin

text \<open>
  The invariant of the core and what a led update does: \<open>update\<close> never fails in a state that
  satisfies the invariant, keeps it, and shows the current channel.
\<close>

section \<open>The parts of the invariant\<close>

text \<open>Muxer: well formed, and every channel has one colour per led.\<close>

definition mux_ok :: "nat \<Rightarrow> muxer \<Rightarrow> bool" where
  "mux_ok n m \<longleftrightarrow> mux_wf m \<and> (\<forall>p i. mux_abs m p = Some i \<longrightarrow> length (ledColors i) = n) \<and>
     length (ledColors (mux_lowestPriorityInfo m)) = n"

fun op_ok :: "nat \<Rightarrow> mux_op \<Rightarrow> bool" where
  "op_ok n (MuxSet p cs t c) \<longleftrightarrow> length cs = n \<and> (p \<noteq> LOWEST_PRIORITY \<or> t = -1)"
| "op_ok n _ \<longleftrightarrow> True"

lemma mux_ok_step:
  assumes "mux_ok n m" "op_ok n oper"
  obtains m' where "mux_step m oper = Inr m'" "mux_ok n m'"
    "mux_abs m' = mux_spec_step (mux_lowestPriorityInfo m) (mux_abs m) oper"
proof -
  have "mux_admissible oper" using assms(2) by (cases oper) simp_all
  then obtain m' where m': "mux_step m oper = Inr m'" "mux_wf m'"
    "mux_abs m' = mux_spec_step (mux_lowestPriorityInfo m) (mux_abs m) oper"
    "mux_lowestPriorityInfo m' = mux_lowestPriorityInfo m"
    using assms(1) mux_step_refines [of m oper] unfolding mux_ok_def by blast
  moreover have "length (ledColors i) = n" if "mux_abs m' p = Some i" for p i
    using that assms m'(3) by (cases oper) (auto simp: mux_ok_def split: if_splits option.splits)
  ultimately show thesis using assms(1) that by (simp add: mux_ok_def)
qed

lemma mux_ok_new: "mux_ok n (mux_new n)"
proof -
  have "mux_lowestPriorityInfo (mux_new n) = lowest_info n" by (simp add: mux_new_def)
  then show ?thesis by (simp add: mux_ok_def mux_wf_new) (simp add: lowest_info_def)
qed

lemma mux_ok_setInput:
  "mux_ok n m \<Longrightarrow> length cs = n \<Longrightarrow> p \<noteq> LOWEST_PRIORITY \<or> t = -1 \<Longrightarrow>
     mux_ok n (mux_setInput m p cs t c) \<and>
     mux_abs (mux_setInput m p cs t c) =
       (mux_abs m)(p \<mapsto> \<lparr>priority = p, timeoutTime_ms = t, ledColors = cs, componentId = c\<rparr>)"
  by (rule mux_ok_step [of n m "MuxSet p cs t c"]) simp_all

lemma mux_ok_clearInput:
  assumes "mux_ok n m"
  obtains m' where "mux_clearInput m p = Inr m'" "mux_ok n m'"
    "mux_abs m' = (if p < LOWEST_PRIORITY then (mux_abs m)(p := None) else mux_abs m)"
  using mux_ok_step [OF assms, of "MuxClear p"] by auto

lemma mux_ok_clearAll:
  "mux_ok n m \<Longrightarrow> mux_ok n (mux_clearAll m) \<and>
     mux_abs (mux_clearAll m) = [LOWEST_PRIORITY \<mapsto> mux_lowestPriorityInfo m]"
  by (rule mux_ok_step [of n m MuxClearAll]) simp_all

lemma mux_ok_setCurrentTime:
  "mux_ok n m \<Longrightarrow> mux_ok n (mux_setCurrentTime m now) \<and>
     mux_abs (mux_setCurrentTime m now) =
       (\<lambda>p. case mux_abs m p of None \<Rightarrow> None | Some i \<Rightarrow> if expired now i then None else Some i)"
  by (rule mux_ok_step [of n m "MuxTime now"]) simp_all

lemma mux_hasPriority_abs:
  assumes "mux_wf m"
  shows "mux_hasPriority m p \<longleftrightarrow> mux_abs m p \<noteq> None"
proof -
  have "mux_abs m LOWEST_PRIORITY \<noteq> None" using assms by (auto simp: mux_wf_def mux_abs_def)
  moreover have "qmap_contains (mux_activeInputs m) p \<longleftrightarrow> mux_abs m p \<noteq> None"
    using qm.find_in_keys [OF mux_wf_sorted [OF assms], of p] by (auto simp: qmap_contains_def mux_abs_def)
  ultimately show ?thesis by (auto simp: mux_hasPriority_def)
qed

lemma mux_getInputInfo_abs: "mux_abs m p = Some i \<Longrightarrow> mux_getInputInfo m p = Inr i"
  by (simp add: mux_getInputInfo_def mux_abs_def)

lemma mux_current_active: "mux_wf m \<Longrightarrow> \<exists>i. mux_abs m (mux_getCurrentPriority m) = Some i"
  using mux_wf_current_mem [of m] mux_wf_sorted [of m]
  by (auto simp: mux_getCurrentPriority_def mux_abs_def mux_getPriorities_def qm.find_in_keys)

text \<open>Adjustments: the pointers are in range and no coloured backlight can overflow.\<close>

definition adjust_ok :: "MultiColorAdjustment \<Rightarrow> bool" where
  "adjust_ok m \<longleftrightarrow> (\<forall>i. Some i \<in> set (mca_ledAdjustments m) \<longrightarrow> i < length (mca_adjustment m)) \<and>
     (\<forall>a \<in> set (mca_adjustment m). tr_sumBrightnessLow (ca_rgbTransform a) \<le> 255 \<or>
        \<not> tr_backlightColored (ca_rgbTransform a))"

lemma adjust_ok_setBacklightEnabled: "adjust_ok m \<Longrightarrow> adjust_ok (mca_setBacklightEnabled m b)"
  by (auto simp: adjust_ok_def mca_setBacklightEnabled_def tr_setBackLightEnabled_def)

lemma apply_loop_total:
  assumes "\<forall>i. Some i \<in> set ls \<longrightarrow> i < length as"
    and "\<forall>a \<in> set as. tr_sumBrightnessLow (ca_rgbTransform a) \<le> 255 \<or> \<not> tr_backlightColored (ca_rgbTransform a)"
  shows "\<exists>cs'. apply_loop as ls cs = Inr cs' \<and> length cs' = length cs"
  using assms
proof (induction as ls cs rule: apply_loop.induct)
  case (4 as i ls c cs)
  have "i < length as" using 4(2) by simp
  then have low: "tr_sumBrightnessLow (ca_rgbTransform (as ! i)) \<le> 255 \<or>
      \<not> tr_backlightColored (ca_rgbTransform (as ! i))"
    using 4(3) by simp
  obtain r g b where "tr_transform (ca_rgbTransform (as ! i)) (red c) (green c) (blue c) = Inr (r, g, b)"
    using tr_transform_total [OF low] by blast
  then obtain c' where c': "adjust_color (as ! i) c = Inr c'" by (simp add: adjust_color_def Let_def)
  then show ?case using 4 by auto
qed auto

lemma mca_applyAdjustment_total:
  "adjust_ok m \<Longrightarrow> \<exists>cs'. mca_applyAdjustment m cs = Inr cs' \<and> length cs' = length cs"
  by (simp add: adjust_ok_def mca_applyAdjustment_def apply_loop_total)

text \<open>Smoothing: once it has a frame, its target has the size of the frames.\<close>

definition smooth_ok :: "nat \<Rightarrow> smoothing \<Rightarrow> bool" where
  "smooth_ok w s \<longleftrightarrow> sm_previousValues s \<noteq> [] \<longrightarrow> length (sm_targetValues s) = w"

lemma sm_write_ok:
  "smooth_ok w s \<Longrightarrow> length cs = w \<Longrightarrow>
     \<exists>s'. sm_write a b cs s = Inr s' \<and> smooth_ok w s' \<and> sm_targetValues s' = cs \<and> sm_out s' = sm_out s \<and>
       sm_enabled s' = sm_enabled s"
  by (simp add: sm_write_def smooth_ok_def blit_all)

lemma smooth_ok_setEnable: "smooth_ok w s \<Longrightarrow> smooth_ok w (sm_setEnable b s)"
  by (simp add: smooth_ok_def sm_setEnable_def)

lemma smooth_ok_updateLeds:
  assumes "smooth_ok w s" "sm_updateLeds now s = Inr s'"
  shows "smooth_ok w s'"
proof -
  have q: "sm_targetValues (sm_queueColors cs s) = sm_targetValues s"
    "sm_previousValues (sm_queueColors cs s) = sm_previousValues s" for cs s by simp_all
  have st: "step_colors k [] ts = Inr []" for k ts by simp
  show ?thesis
    using assms by (auto simp: sm_updateLeds_def smooth_ok_def Let_def res_bind_Inr_iff blit_def split: if_splits)
qed

section \<open>The invariant\<close>

text \<open>
  \<open>w\<close> is the size of the frames: \<open>max\<close> of the hardware leds and of all configured leds.  The
  layout (\<open>L\<close>, its clones \<open>C\<close>, the number \<open>W\<close> of hardware leds) does not change.
\<close>

definition frame_size :: "Led list \<Rightarrow> Led list \<Rightarrow> nat \<Rightarrow> nat" where
  "frame_size L C W = max W (length L + length C)"

definition layout_ok :: "Led list \<Rightarrow> Led list \<Rightarrow> bool" where
  "layout_ok L C \<longleftrightarrow> clones_ok (length L) C \<and> backward C"

definition hyp_ok :: "Led list \<Rightarrow> Led list \<Rightarrow> nat \<Rightarrow> hyperion \<Rightarrow> bool" where
  "hyp_ok L C W h \<longleftrightarrow> h_ledString h = L \<and> h_ledStringClone h = C \<and> h_hwLedCount h = W \<and>
     mux_ok (length L) (h_muxer h) \<and> adjust_ok (h_adjustment h) \<and>
     (h_colorOrder h = [] \<or> init_colorOrder L C = Inr (h_colorOrder h)) \<and>
     smooth_ok (frame_size L C W) (h_smooth h)"

text \<open>What an operation on the leds leaves alone.\<close>

definition same_control :: "hyperion \<Rightarrow> hyperion \<Rightarrow> bool" where
  "same_control h h' \<longleftrightarrow> h_autoSelect h' = h_autoSelect h \<and> h_currentSource h' = h_currentSource h \<and>
     h_effects h' = h_effects h \<and> h_events h' = h_events h \<and> h_nextEffect h' = h_nextEffect h \<and>
     h_register h' = h_register h \<and> h_available h' = h_available h"

text \<open>The frame reaches the smoothing or the device.\<close>

definition delivered :: "ColorRgb list \<Rightarrow> smoothing \<Rightarrow> smoothing \<Rightarrow> bool" where
  "delivered f s s' \<longleftrightarrow> sm_enabled s' = sm_enabled s \<and>
     (if sm_enabled s then sm_targetValues s' = f \<and> sm_out s' = sm_out s
      else sm_out s' = sm_out s @ [f])"

text \<open>The frame that shows \<open>info\<close>: adjusted, with clones, in byte order, padded.\<close>

definition frame_for ::
  "Led list \<Rightarrow> Led list \<Rightarrow> nat \<Rightarrow> MultiColorAdjustment \<Rightarrow> int \<Rightarrow> InputInfo \<Rightarrow> ColorRgb list \<Rightarrow> bool" where
  "frame_for L C W adj p info f \<longleftrightarrow>
     (\<exists>colors cloned os.
        (if p < LOWEST_PRIORITY then mca_applyAdjustment adj (ledColors info) else Inr (ledColors info)) = Inr colors \<and>
        insert_clones C colors = Inr cloned \<and> init_colorOrder L C = Inr os \<and>
        f = pad_frame W (map2 reorder os cloned))"

lemma read_clock_ok [simp]: "hyp_ok L C W (h\<lparr>h_clock := k\<rparr>) = hyp_ok L C W h"
  by (simp add: hyp_ok_def)

lemma getCurrentPriority_active:
  assumes "mux_wf (h_muxer h)"
  obtains i where "mux_abs (h_muxer h) (getCurrentPriority h) = Some i"
  using mux_current_active [OF assms] mux_hasPriority_abs [OF assms, of "h_currentSource h"]
  by (cases "h_autoSelect h \<or> \<not> mux_hasPriority (h_muxer h) (h_currentSource h)")
    (auto simp: getCurrentPriority_def)

lemma hyp_adjust_ok:
  assumes "hyp_ok L C W h" "length (ledColors info) = length L"
  shows "\<exists>colors h'. hyp_adjust p info h = Inr (colors, h') \<and> hyp_ok L C W h' \<and> same_control h h' \<and>
    length colors = length L \<and> h_muxer h' = h_muxer h \<and> h_smooth h' = h_smooth h \<and>
    (if p < LOWEST_PRIORITY then mca_applyAdjustment (h_adjustment h') (ledColors info)
     else Inr (ledColors info)) = Inr colors \<and>
    (p < LOWEST_PRIORITY \<longrightarrow> h_prevCompId h' = componentId info)"
proof (cases "p < LOWEST_PRIORITY")
  case True
  let ?h = "if componentId info \<noteq> h_prevCompId h
     then h\<lparr>h_adjustment := mca_setBacklightEnabled (h_adjustment h) (backlight_for (componentId info)),
            h_prevCompId := componentId info\<rparr> else h"
  have ok: "hyp_ok L C W ?h" "same_control h ?h" "h_muxer ?h = h_muxer h" "h_smooth ?h = h_smooth h"
    "h_prevCompId ?h = componentId info" "adjust_ok (h_adjustment ?h)"
    using assms(1) by (auto simp: hyp_ok_def same_control_def adjust_ok_setBacklightEnabled)
  obtain colors where "mca_applyAdjustment (h_adjustment ?h) (ledColors info) = Inr colors"
      "length colors = length (ledColors info)"
    using mca_applyAdjustment_total [OF ok(6)] by blast
  then have "hyp_adjust p info h = Inr (colors, ?h) \<and> hyp_ok L C W ?h \<and> same_control h ?h \<and>
    length colors = length L \<and> h_muxer ?h = h_muxer h \<and> h_smooth ?h = h_smooth h \<and>
    (if p < LOWEST_PRIORITY then mca_applyAdjustment (h_adjustment ?h) (ledColors info)
     else Inr (ledColors info)) = Inr colors \<and> (p < LOWEST_PRIORITY \<longrightarrow> h_prevCompId ?h = componentId info)"
    using ok(1-5) assms(2) True unfolding hyp_adjust_def Let_def by simp
  then show ?thesis by blast
next
  case False
  with assms show ?thesis by (simp add: hyp_adjust_def same_control_def)
qed

lemma hyp_initOrder_ok:
  assumes "hyp_ok L C W h" "layout_ok L C"
  shows "\<exists>os. hyp_initOrder h = Inr (h\<lparr>h_colorOrder := os\<rparr>) \<and> init_colorOrder L C = Inr os \<and>
    length os = length L + length C \<and> hyp_ok L C W (h\<lparr>h_colorOrder := os\<rparr>)"
proof -
  obtain os where os: "init_colorOrder L C = Inr os" "length os = length L + length C"
    using assms(2) init_colorOrder_ok [of L C] by (auto simp: layout_ok_def)
  have "hyp_initOrder h = Inr (h\<lparr>h_colorOrder := os\<rparr>)"
    using assms(1) os(1) by (auto simp: hyp_initOrder_def hyp_ok_def)
  with os assms(1) show ?thesis by (simp add: hyp_ok_def)
qed

lemma hyp_output_ok:
  assumes "hyp_ok L C W h" "length f = frame_size L C W"
  shows "\<exists>h'. hyp_output clk f h = Inr h' \<and> hyp_ok L C W h' \<and> same_control h h' \<and>
    h_muxer h' = h_muxer h \<and> h_adjustment h' = h_adjustment h \<and> h_prevCompId h' = h_prevCompId h \<and>
    delivered f (h_smooth h) (h_smooth h')"
proof (cases "sm_enabled (h_smooth h)")
  case True
  have sm: "smooth_ok (frame_size L C W) (h_smooth h)" using assms(1) by (simp add: hyp_ok_def)
  let ?b = "if sm_previousValues (h_smooth h) = [] then clk (Suc (h_clock h)) else 0"
  obtain s where s: "sm_write (clk (h_clock h)) ?b f (h_smooth h) = Inr s" "smooth_ok (frame_size L C W) s"
      "delivered f (h_smooth h) s"
    using sm_write_ok [OF sm assms(2), of "clk (h_clock h)" ?b] True by (auto simp: delivered_def)
  then obtain k where "hyp_output clk f h = Inr (h\<lparr>h_clock := k, h_smooth := s\<rparr>)"
    using True by (cases "sm_previousValues (h_smooth h) = []") (auto simp: hyp_output_def read_clock_def)
  with s assms(1) show ?thesis by (simp add: hyp_ok_def same_control_def)
next
  case False
  with assms show ?thesis
    by (simp add: hyp_output_def delivered_def hyp_ok_def same_control_def smooth_ok_def)
qed

lemma hyp_startTimer_ok:
  "hyp_ok L C W (hyp_startTimer clk info h) = hyp_ok L C W h"
  "same_control h (hyp_startTimer clk info h)" "h_muxer (hyp_startTimer clk info h) = h_muxer h"
  "h_adjustment (hyp_startTimer clk info h) = h_adjustment h"
  "h_prevCompId (hyp_startTimer clk info h) = h_prevCompId h"
  "h_smooth (hyp_startTimer clk info h) = h_smooth h"
  by (simp_all add: hyp_startTimer_def read_clock_def hyp_ok_def same_control_def)

section \<open>The update\<close>

lemma getCurrentPriority_cong:
  "same_control h h' \<Longrightarrow> h_muxer h' = h_muxer h \<Longrightarrow> getCurrentPriority h' = getCurrentPriority h"
  by (simp add: getCurrentPriority_def same_control_def)

lemma same_control_trans [trans]: "same_control a b \<Longrightarrow> same_control b c \<Longrightarrow> same_control a c"
  by (simp add: same_control_def)

lemma same_control_refl [simp]: "same_control h h"
  by (simp add: same_control_def)

lemma hyp_update_ok:
  assumes ok: "hyp_ok L C W h" and lay: "layout_ok L C"
  obtains h' info f where "hyp_update clk h = Inr h'" "hyp_ok L C W h'" "same_control h h'"
    "h_muxer h' = mux_setCurrentTime (h_muxer h) (clk (h_clock h))"
    "mux_abs (h_muxer h') (getCurrentPriority h') = Some info"
    "frame_for L C W (h_adjustment h') (getCurrentPriority h') info f"
    "delivered f (h_smooth h) (h_smooth h')"
proof -
  define h1 where "h1 = h\<lparr>h_clock := h_clock h + 1,
    h_muxer := mux_setCurrentTime (h_muxer h) (clk (h_clock h))\<rparr>"
  have m: "mux_ok (length L) (h_muxer h1)"
    using ok mux_ok_setCurrentTime by (simp add: hyp_ok_def h1_def)
  have ok1: "hyp_ok L C W h1" "same_control h h1" "h_smooth h1 = h_smooth h"
    using ok m by (simp_all add: hyp_ok_def h1_def same_control_def)
  let ?p = "getCurrentPriority h1"
  have wf: "mux_wf (h_muxer h1)" using m by (simp add: mux_ok_def)
  obtain info where info: "mux_abs (h_muxer h1) ?p = Some info"
    using getCurrentPriority_active [OF wf] by blast
  have len: "length (ledColors info) = length L" using info m unfolding mux_ok_def by blast
  obtain colors h2 where h2: "hyp_adjust ?p info h1 = Inr (colors, h2)" "hyp_ok L C W h2" "same_control h1 h2"
      "length colors = length L" "h_muxer h2 = h_muxer h1" "h_smooth h2 = h_smooth h1"
      "(if ?p < LOWEST_PRIORITY then mca_applyAdjustment (h_adjustment h2) (ledColors info)
        else Inr (ledColors info)) = Inr colors"
    using hyp_adjust_ok [OF ok1(1) len] by blast
  obtain os where os: "hyp_initOrder h2 = Inr (h2\<lparr>h_colorOrder := os\<rparr>)" "init_colorOrder L C = Inr os"
      "length os = length L + length C" "hyp_ok L C W (h2\<lparr>h_colorOrder := os\<rparr>)"
    using hyp_initOrder_ok [OF h2(2) lay] by blast
  let ?h3 = "h2\<lparr>h_colorOrder := os\<rparr>"
  obtain cloned where cloned: "insert_clones C colors = Inr cloned" "length cloned = length L + length C"
    using insert_clones_backward [of colors C] lay h2(4) by (auto simp: layout_ok_def)
  have ro: "reorder_loop os cloned = Inr (map2 reorder os cloned)"
    using reorder_loop_ok [of cloned os] os(3) cloned(2) by simp
  let ?f = "pad_frame W (map2 reorder os cloned)"
  have flen: "length ?f = frame_size L C W" using os(3) cloned(2) by (simp add: frame_size_def)
  obtain h4 where h4: "hyp_output clk ?f ?h3 = Inr h4" "hyp_ok L C W h4" "same_control ?h3 h4"
      "h_muxer h4 = h_muxer ?h3" "h_adjustment h4 = h_adjustment ?h3" "delivered ?f (h_smooth ?h3) (h_smooth h4)"
    using hyp_output_ok [OF os(4) flen] by blast
  let ?h5 = "hyp_startTimer clk info h4"
  have fixed: "h_ledStringClone ?h3 = C" "h_hwLedCount ?h3 = W" using os(4) by (simp_all add: hyp_ok_def)
  have run: "hyp_update clk h = Inr ?h5"
  proof -
    have "hyp_update clk h = res_bind (mux_getInputInfo (h_muxer h1) ?p) (\<lambda>info.
         res_bind (hyp_adjust ?p info h1) (\<lambda>(buf, h).
         res_bind (hyp_initOrder h) (\<lambda>h.
         res_bind (insert_clones (h_ledStringClone h) buf) (\<lambda>buf.
         res_bind (reorder_loop (h_colorOrder h) buf) (\<lambda>buf.
         res_bind (hyp_output clk (pad_frame (h_hwLedCount h) buf) h) (\<lambda>h.
           Inr (hyp_startTimer clk info h)))))))"
      by (simp add: hyp_update_def read_clock_def Let_def h1_def)
    then show ?thesis
      using h2(1) os(1) cloned(1) ro h4(1) fixed mux_getInputInfo_abs [OF info] by simp
  qed
  have sc: "same_control h ?h5" "same_control h1 ?h5"
    using ok1(2) h2(3) h4(3) hyp_startTimer_ok(2) [of h4 clk info] by (simp_all add: same_control_def)
  have mx: "h_muxer ?h5 = h_muxer h1" using h4(4) h2(5) hyp_startTimer_ok(3) [of clk info h4] by simp
  have p: "getCurrentPriority ?h5 = ?p" using getCurrentPriority_cong [OF sc(2) mx] .
  show thesis
  proof (rule that [OF run])
    show "hyp_ok L C W ?h5" using h4(2) hyp_startTimer_ok(1) by simp
    show "same_control h ?h5" by (rule sc)
    show "h_muxer ?h5 = mux_setCurrentTime (h_muxer h) (clk (h_clock h))" using mx by (simp add: h1_def)
    show "mux_abs (h_muxer ?h5) (getCurrentPriority ?h5) = Some info" using info mx p by simp
    show "frame_for L C W (h_adjustment ?h5) (getCurrentPriority ?h5) info ?f"
      using h2(7) cloned(1) os(2) p h4(5) hyp_startTimer_ok(4) [of clk info h4]
      unfolding frame_for_def by auto
    show "delivered ?f (h_smooth h) (h_smooth ?h5)"
      using h4(6) h2(6) ok1(3) hyp_startTimer_ok(6) [of clk info h4] by simp
  qed
qed

text \<open>The size of the frames.\<close>

lemma frame_for_length:
  assumes "frame_for L C W (h_adjustment h) p info f" "hyp_ok L C W h" "layout_ok L C"
    and "mux_abs (h_muxer h) p = Some info"
  shows "length f = frame_size L C W"
proof -
  have "length (ledColors info) = length L" using assms(2,4) by (simp add: hyp_ok_def mux_ok_def)
  moreover have "adjust_ok (h_adjustment h)" using assms(2) by (simp add: hyp_ok_def)
  ultimately obtain colors cloned os where f: "length colors = length L" "insert_clones C colors = Inr cloned"
      "init_colorOrder L C = Inr os" "f = pad_frame W (map2 reorder os cloned)"
    using assms(1) mca_applyAdjustment_total [of "h_adjustment h" "ledColors info"]
    by (auto simp: frame_for_def split: if_splits)
  have "length cloned = length L + length C"
    using insert_clones_backward [of colors C] assms(3) f(1,2) by (auto simp: layout_ok_def)
  moreover have "length os = length L + length C"
    using init_colorOrder_ok [of L C] assms(3) f(3) by (auto simp: layout_ok_def)
  ultimately show ?thesis using f(4) by (simp add: frame_size_def)
qed

end
