(* ===== verification/CoreRuns.thy ===== *)
theory CoreRuns
  imports UpdateProps
begin

text \<open>
  Runs of the core: the requests of the clients, the two timers, the threads of the effects and
  the event queue, in any order.  The invariant holds in every reachable state and no request
  fails there.
\<close>

section \<open>Requests\<close>

datatype request =
    ReqSetColor int ColorRgb int bool
  | ReqSetColors int "ColorRgb list" int bool Components
  | ReqClear int
  | ReqClearAll
  | ReqAutoSelect bool
  | ReqSource int
  | ReqEffect string "(string \<times> json) list" int int string
  | ReqComponent Components bool
  | ReqAdjustmentsUpdated
  | ReqMapping int
  | ReqTimeout
  | ReqDeliver
  | ReqRegister string int
  | ReqUnregister string
  | ReqReport Components bool
  | ReqImage int "ColorRgb image" int
  | EffRun nat
  | EffSetColor nat py_args
  | EffAbort nat
  | EffEnd nat

definition on_running :: "nat \<Rightarrow> (effect \<Rightarrow> hyperion) \<Rightarrow> hyperion \<Rightarrow> hyperion" where
  "on_running i f h =
     (case ee_find i h of None \<Rightarrow> h | Some e \<Rightarrow> if ef_thread e = ThreadRunning then f e else h)"

fun perform :: "(nat \<Rightarrow> int) \<Rightarrow> request \<Rightarrow> hyperion \<Rightarrow> hyperion res" where
  "perform clk (ReqSetColor p c t clr) h = hyp_setColor clk p c t clr h"
| "perform clk (ReqSetColors p cs t clr cmp) h = hyp_setColors clk p cs t clr cmp h"
| "perform clk (ReqClear p) h = hyp_clear clk p h"
| "perform clk ReqClearAll h = hyp_clearall clk h"
| "perform clk (ReqAutoSelect b) h = hyp_setSourceAutoSelectEnabled clk b h"
| "perform clk (ReqSource p) h = Inr (snd (hyp_setCurrentSourcePriority p h))"
| "perform clk (ReqEffect name args p t script) h = Inr (snd (ee_runEffect name args p t script h))"
| "perform clk (ReqComponent c b) h = Inr (hyp_setComponentState c b h)"
| "perform clk ReqAdjustmentsUpdated h = hyp_adjustmentsUpdated clk h"
| "perform clk (ReqMapping k) h = Inr (hyp_setLedMappingType k h)"
| "perform clk ReqTimeout h = hyp_update clk h"
| "perform clk ReqDeliver h = hyp_deliver clk h"
| "perform clk (ReqRegister name p) h = Inr (hyp_registerPriority name p h)"
| "perform clk (ReqUnregister name) h = Inr (hyp_unRegisterPriority name h)"
| "perform clk (ReqReport c b) h = Inr (hyp_reportComponent c b h)"
| "perform clk (ReqImage p im t) h = Inr (hyp_setImage p im t h)"
| "perform clk (EffRun i) h =
     Inr (case ee_find i h of None \<Rightarrow> h | Some e \<Rightarrow> if ef_thread e = ThreadCreated then eff_run clk e h else h)"
| "perform clk (EffSetColor i args) h = Inr (on_running i (\<lambda>e. snd (eff_setColor clk e args h)) h)"
| "perform clk (EffAbort i) h = Inr (on_running i (\<lambda>e. snd (eff_abort clk e h)) h)"
| "perform clk (EffEnd i) h = Inr (on_running i (\<lambda>e. eff_end e h) h)"

text \<open>
  What the clients keep to: one colour per led, and no timeout on the lowest channel (\<open>Muxer\<close> shows
  what happens otherwise).
\<close>

fun request_ok :: "nat \<Rightarrow> request \<Rightarrow> bool" where
  "request_ok n (ReqSetColor p c t clr) \<longleftrightarrow> p \<noteq> LOWEST_PRIORITY \<or> t \<le> 0"
| "request_ok n (ReqSetColors p cs t clr cmp) \<longleftrightarrow> length cs = n \<and> (p \<noteq> LOWEST_PRIORITY \<or> t \<le> 0)"
| "request_ok n (ReqEffect name args p t script) \<longleftrightarrow> p \<noteq> LOWEST_PRIORITY \<or> t \<le> 0"
| "request_ok n _ \<longleftrightarrow> True"

inductive reachable :: "pow_fun \<Rightarrow> (nat \<Rightarrow> int) \<Rightarrow> hyperion_cfg \<Rightarrow> int \<Rightarrow> hyperion \<Rightarrow> bool"
  for pw clk cfg junk where
  Start: "hyp_new pw clk cfg junk = Inr h \<Longrightarrow> reachable pw clk cfg junk h"
| Request: "reachable pw clk cfg junk h \<Longrightarrow> request_ok (length (h_ledString h)) req \<Longrightarrow>
    perform clk req h = Inr h' \<Longrightarrow> reachable pw clk cfg junk h'"
| Tick: "reachable pw clk cfg junk h \<Longrightarrow> sm_timer (h_smooth h) \<Longrightarrow>
    sm_updateLeds now (h_smooth h) = Inr s \<Longrightarrow> reachable pw clk cfg junk (h\<lparr>h_smooth := s\<rparr>)"
| Adjust: "reachable pw clk cfg junk h \<Longrightarrow> adjust_ok a \<Longrightarrow> reachable pw clk cfg junk (h\<lparr>h_adjustment := a\<rparr>)"

section \<open>The invariant of the effects\<close>

definition effect_ok :: "nat \<Rightarrow> effect \<Rightarrow> bool" where
  "effect_ok n e \<longleftrightarrow> length (ef_colors e) = n \<and> (ef_priority e \<noteq> LOWEST_PRIORITY \<or> ef_timeout e \<le> 0)"

text \<open>On every channel at most one effect has not been asked to abort.\<close>

definition exclusive :: "effect list \<Rightarrow> bool" where
  "exclusive es \<longleftrightarrow> (\<forall>p. length (filter (\<lambda>e. ef_priority e = p \<and> \<not> ef_abortRequested e) es) \<le> 1)"

fun event_ok :: "nat \<Rightarrow> event \<Rightarrow> bool" where
  "event_ok n (EvSetColors p cs t c) \<longleftrightarrow> length cs = n \<and> (p \<noteq> LOWEST_PRIORITY \<or> t \<le> 0)"
| "event_ok n (EvFinished i) \<longleftrightarrow> True"

fun finished_ids :: "event list \<Rightarrow> nat list" where
  "finished_ids [] = []"
| "finished_ids (EvFinished i # evs) = i # finished_ids evs"
| "finished_ids (EvSetColors p cs t c # evs) = finished_ids evs"

definition effects_ok :: "nat \<Rightarrow> nat \<Rightarrow> effect list \<Rightarrow> event list \<Rightarrow> bool" where
  "effects_ok n k es evs \<longleftrightarrow> distinct (map ef_id es) \<and> (\<forall>e \<in> set es. ef_id e < k \<and> effect_ok n e) \<and>
     exclusive es \<and> (\<forall>ev \<in> set evs. event_ok n ev) \<and> distinct (finished_ids evs) \<and>
     (\<forall>i \<in> set (finished_ids evs). \<exists>e \<in> set es. ef_id e = i \<and> ef_thread e = ThreadEnded)"

definition core_ok :: "Led list \<Rightarrow> Led list \<Rightarrow> nat \<Rightarrow> hyperion \<Rightarrow> bool" where
  "core_ok L C W h \<longleftrightarrow> hyp_ok L C W h \<and> effects_ok (length L) (h_nextEffect h) (h_effects h) (h_events h)"

lemma finished_ids_append [simp]: "finished_ids (xs @ ys) = finished_ids xs @ finished_ids ys"
  by (induction xs rule: finished_ids.induct) simp_all

text \<open>Changing effects in place without touching their identity, never taking back an abort.\<close>

lemma length_filter_mono: "(\<And>x. x \<in> set xs \<Longrightarrow> P x \<Longrightarrow> Q x) \<Longrightarrow> length (filter P xs) \<le> length (filter Q xs)"
  by (induction xs) (auto intro: le_SucI)

lemma exclusive_map:
  assumes "\<And>e. e \<in> set es \<Longrightarrow> ef_priority (f e) = ef_priority e"
    and "\<And>e. e \<in> set es \<Longrightarrow> ef_abortRequested e \<Longrightarrow> ef_abortRequested (f e)"
    and "exclusive es"
  shows "exclusive (map f es)"
  unfolding exclusive_def
proof
  fix p
  have "length (filter (\<lambda>e. ef_priority e = p \<and> \<not> ef_abortRequested e) (map f es)) =
      length (filter (\<lambda>e. ef_priority (f e) = p \<and> \<not> ef_abortRequested (f e)) es)"
    by (simp add: filter_map comp_def)
  also have "\<dots> \<le> length (filter (\<lambda>e. ef_priority e = p \<and> \<not> ef_abortRequested e) es)"
    using assms(1,2) by (intro length_filter_mono) auto
  also have "\<dots> \<le> 1" using assms(3) by (simp add: exclusive_def)
  finally show "length (filter (\<lambda>e. ef_priority e = p \<and> \<not> ef_abortRequested e) (map f es)) \<le> 1" .
qed

lemma effects_ok_map:
  assumes ok: "effects_ok n k es evs"
    and f: "\<And>e. e \<in> set es \<Longrightarrow> ef_id (f e) = ef_id e \<and> ef_priority (f e) = ef_priority e \<and>
      (ef_abortRequested e \<longrightarrow> ef_abortRequested (f e)) \<and> effect_ok n (f e) \<and>
      (ef_thread e = ThreadEnded \<longrightarrow> ef_thread (f e) = ThreadEnded)"
  shows "effects_ok n k (map f es) evs"
proof -
  have ids: "map ef_id (map f es) = map ef_id es" using f by simp
  have ex: "exclusive (map f es)" using ok f by (intro exclusive_map) (auto simp: effects_ok_def)
  have fin: "\<exists>e \<in> set (map f es). ef_id e = i \<and> ef_thread e = ThreadEnded" if "i \<in> set (finished_ids evs)" for i
    using that ok f unfolding effects_ok_def by fastforce
  show ?thesis using ok f ex fin unfolding effects_ok_def ids by auto
qed

lemma effects_ok_abort:
  "effects_ok n k es evs \<Longrightarrow>
     effects_ok n k (map (\<lambda>e. if P e then e\<lparr>ef_abortRequested := True\<rparr> else e) es) evs"
  by (rule effects_ok_map) (auto simp: effects_ok_def effect_ok_def)

section \<open>Every operation succeeds and keeps the invariant\<close>

lemma core_ok_control [simp]:
  "core_ok L C W (h\<lparr>h_autoSelect := a\<rparr>) = core_ok L C W h"
  "core_ok L C W (h\<lparr>h_currentSource := p\<rparr>) = core_ok L C W h"
  "core_ok L C W (h\<lparr>h_clock := k\<rparr>) = core_ok L C W h"
  "core_ok L C W (h\<lparr>h_register := r\<rparr>) = core_ok L C W h"
  "core_ok L C W (h\<lparr>h_signals := s\<rparr>) = core_ok L C W h"
  "core_ok L C W (h\<lparr>h_components := c\<rparr>) = core_ok L C W h"
  "core_ok L C W (h\<lparr>h_ledMappingType := m\<rparr>) = core_ok L C W h"
  by (simp_all add: core_ok_def hyp_ok_def)

lemma core_ok_muxer: "core_ok L C W h \<Longrightarrow> mux_ok (length L) m \<Longrightarrow> core_ok L C W (h\<lparr>h_muxer := m\<rparr>)"
  by (simp add: core_ok_def hyp_ok_def)

lemma core_ok_smooth:
  "core_ok L C W h \<Longrightarrow> smooth_ok (frame_size L C W) s \<Longrightarrow> core_ok L C W (h\<lparr>h_smooth := s\<rparr>)"
  by (simp add: core_ok_def hyp_ok_def)

lemma core_ok_effects:
  "core_ok L C W h \<Longrightarrow> effects_ok (length L) k es evs \<Longrightarrow>
     core_ok L C W (h\<lparr>h_effects := es, h_nextEffect := k, h_events := evs\<rparr>)"
  by (simp add: core_ok_def hyp_ok_def)

lemma core_okD:
  assumes "core_ok L C W h"
  shows "mux_ok (length L) (h_muxer h)" "effects_ok (length L) (h_nextEffect h) (h_effects h) (h_events h)"
    "smooth_ok (frame_size L C W) (h_smooth h)" "h_ledString h = L" "hyp_ok L C W h"
  using assms by (simp_all add: core_ok_def hyp_ok_def)

lemma core_ok_abort: "core_ok L C W h \<Longrightarrow> core_ok L C W (ee_abort P h)"
  using effects_ok_abort by (simp add: core_ok_def hyp_ok_def ee_abort_def)

lemma update_core_ok:
  assumes "core_ok L C W h" "layout_ok L C"
  shows "\<exists>h'. hyp_update clk h = Inr h' \<and> core_ok L C W h' \<and> same_control h h' \<and>
    h_muxer h' = mux_setCurrentTime (h_muxer h) (clk (h_clock h))"
proof -
  have "hyp_ok L C W h" using assms(1) by (rule core_okD)
  then obtain h' info f where "hyp_update clk h = Inr h'" "hyp_ok L C W h'" "same_control h h'"
      "h_muxer h' = mux_setCurrentTime (h_muxer h) (clk (h_clock h))"
    using hyp_update_ok [OF _ assms(2)] by metis
  with assms(1) show ?thesis by (auto simp: core_ok_def same_control_def)
qed

lemma autoSelect_core_ok:
  assumes "core_ok L C W h" "layout_ok L C"
  shows "\<exists>h'. hyp_setSourceAutoSelectEnabled clk b h = Inr h' \<and> core_ok L C W h' \<and>
    h_effects h' = h_effects h \<and> h_events h' = h_events h \<and> h_autoSelect h' = b \<and>
    h_muxer h' = mux_setCurrentTime (h_muxer h) (clk (h_clock h)) \<and>
    h_register h' = h_register h \<and> h_nextEffect h' = h_nextEffect h"
proof -
  let ?h = "h\<lparr>h_autoSelect := b\<rparr>"
  let ?h1 = "if b then ?h else snd (hyp_setCurrentSourcePriority (mux_getCurrentPriority (h_muxer ?h)) ?h)"
  have "core_ok L C W ?h1" using assms(1) by (simp add: hyp_setCurrentSourcePriority_def Let_def)
  moreover have "h_effects ?h1 = h_effects h" "h_events ?h1 = h_events h" "h_autoSelect ?h1 = b"
    "h_muxer ?h1 = h_muxer h" "h_clock ?h1 = h_clock h" "h_register ?h1 = h_register h"
    "h_nextEffect ?h1 = h_nextEffect h"
    by (auto simp: hyp_setCurrentSourcePriority_def Let_def)
  moreover have "hyp_setSourceAutoSelectEnabled clk b h = hyp_update clk ?h1"
    by (simp add: hyp_setSourceAutoSelectEnabled_def Let_def)
  ultimately show ?thesis using update_core_ok [OF _ assms(2), of W ?h1 clk] by (auto simp: same_control_def)
qed

lemma setColors_core_ok:
  assumes ok: "core_ok L C W h" "layout_ok L C" and cs: "length cs = length L" "p \<noteq> LOWEST_PRIORITY \<or> t \<le> 0"
  shows "\<exists>h'. hyp_setColors clk p cs t clr cmp h = Inr h' \<and> core_ok L C W h' \<and> h_events h' = h_events h \<and>
    h_effects h' = h_effects (if clr then ee_channelCleared p h else h) \<and>
    (t \<le> 0 \<longrightarrow> mux_abs (h_muxer h') p =
       Some \<lparr>priority = p, timeoutTime_ms = -1, ledColors = cs, componentId = cmp\<rparr>)"
proof -
  let ?h1 = "if clr then ee_channelCleared p h else h"
  let ?i = "\<lambda>T. \<lparr>priority = p, timeoutTime_ms = T, ledColors = cs, componentId = cmp\<rparr>"
  have ok1: "core_ok L C W ?h1" "h_events ?h1 = h_events h"
    using ok(1) by (simp_all add: ee_channelCleared_def core_ok_abort) (simp add: ee_abort_def)
  define T where "T = (if t > 0 then clk (h_clock ?h1) + t else - 1)"
  define h2 where "h2 = (if t > 0 then ?h1\<lparr>h_clock := h_clock ?h1 + 1\<rparr> else ?h1)"
  have ok2: "core_ok L C W h2" "h_events h2 = h_events ?h1" "h_effects h2 = h_effects ?h1"
    using ok1 by (simp_all add: h2_def)
  let ?m = "mux_setInput (h_muxer h2) p cs T cmp"
  let ?h3 = "h2\<lparr>h_muxer := ?m\<rparr>"
  have "p \<noteq> LOWEST_PRIORITY \<or> T = - 1" using cs(2) by (auto simp: T_def)
  then have m: "mux_ok (length L) ?m" "mux_abs ?m = (mux_abs (h_muxer h2))(p \<mapsto> ?i T)"
    using core_okD(1) [OF ok2(1)] cs(1) mux_ok_setInput by blast+
  have ok3: "core_ok L C W ?h3" using ok2(1) m(1) by (rule core_ok_muxer)
  have run: "hyp_setColors clk p cs t clr cmp h =
      (if \<not> h_autoSelect ?h3 \<or> p = mux_getCurrentPriority (h_muxer ?h3) then hyp_update clk ?h3 else Inr ?h3)"
    by (simp add: hyp_setColors_def Let_def read_clock_def T_def h2_def)
  have stays: "t \<le> 0 \<longrightarrow> mux_abs (mux_setCurrentTime ?m now) p = Some (?i (- 1))" for now
    using conjunct2 [OF mux_ok_setCurrentTime [OF m(1), of now]] m(2)
    by (cases "t \<le> 0") (simp_all add: T_def expired_def)
  show ?thesis
    using run ok2 ok3 m(2) stays update_core_ok [OF ok3 ok(2), of clk] ok1(2)
    by (cases "\<not> h_autoSelect ?h3 \<or> p = mux_getCurrentPriority (h_muxer ?h3)")
      (auto simp: same_control_def T_def)
qed

lemma clear_core_ok:
  assumes ok: "core_ok L C W h" "layout_ok L C"
  shows "\<exists>h'. hyp_clear clk p h = Inr h' \<and> core_ok L C W h' \<and> h_events h' = h_events h \<and>
    h_nextEffect h' = h_nextEffect h \<and> h_effects h' = h_effects (ee_channelCleared p h) \<and>
    h_register h' = h_register h \<and>
    (p < LOWEST_PRIORITY \<longrightarrow> mux_abs (h_muxer h') p = None)"
proof (cases "mux_hasPriority (h_muxer h) p")
  case False
  moreover have "mux_wf (h_muxer h)" using core_okD(1) [OF ok(1)] by (simp add: mux_ok_def)
  ultimately show ?thesis
    using ok(1) by (simp add: hyp_clear_def mux_hasPriority_abs ee_channelCleared_def core_ok_abort)
      (simp add: ee_abort_def)
next
  case True
  obtain m where m: "mux_clearInput (h_muxer h) p = Inr m" "mux_ok (length L) m"
      "mux_abs m = (if p < LOWEST_PRIORITY then (mux_abs (h_muxer h))(p := None) else mux_abs (h_muxer h))"
    using mux_ok_clearInput [OF core_okD(1) [OF ok(1)]] by blast
  let ?h1 = "h\<lparr>h_muxer := m\<rparr>"
  have ok1: "core_ok L C W ?h1" using ok(1) m(2) by (rule core_ok_muxer)
  have gone: "mux_abs (mux_setCurrentTime m' now) p = None"
    if "mux_ok (length L) m'" "mux_abs m' p = None" for m' now
    using that mux_ok_setCurrentTime by simp
  obtain h2 where h2: "(if \<not> h_autoSelect h \<and> h_currentSource h = p
      then hyp_setSourceAutoSelectEnabled clk True ?h1 else Inr ?h1) = Inr h2" "core_ok L C W h2"
      "h_effects h2 = h_effects h" "h_events h2 = h_events h" "h_nextEffect h2 = h_nextEffect h"
      "h_register h2 = h_register h"
      "p < LOWEST_PRIORITY \<longrightarrow> mux_abs (h_muxer h2) p = None"
  proof (cases "\<not> h_autoSelect h \<and> h_currentSource h = p")
    case True
    obtain h' where "hyp_setSourceAutoSelectEnabled clk True ?h1 = Inr h'" "core_ok L C W h'"
        "h_effects h' = h_effects ?h1 \<and> h_events h' = h_events ?h1 \<and> h_nextEffect h' = h_nextEffect ?h1 \<and>
         h_register h' = h_register ?h1" "h_muxer h' = mux_setCurrentTime m (clk (h_clock ?h1))"
      using autoSelect_core_ok [OF ok1 ok(2), of clk True] by auto
    with True show thesis using m(2,3) gone [of m] by (intro that [of h']) simp_all
  next
    case False
    then show thesis using ok1 m(3) by (intro that [of ?h1]) auto
  qed
  obtain h3 where h3: "(if p < mux_getCurrentPriority (h_muxer h2) then hyp_update clk h2 else Inr h2) = Inr h3"
      "core_ok L C W h3" "h_effects h3 = h_effects h" "h_events h3 = h_events h" "h_nextEffect h3 = h_nextEffect h"
      "h_register h3 = h_register h"
      "p < LOWEST_PRIORITY \<longrightarrow> mux_abs (h_muxer h3) p = None"
    using update_core_ok [OF h2(2) ok(2), of clk] h2 gone core_okD(1) [OF h2(2)]
    by (cases "p < mux_getCurrentPriority (h_muxer h2)") (auto simp: same_control_def)
  have "hyp_clear clk p h = Inr (ee_channelCleared p h3)"
    using True m(1) h2(1) h3(1) by (simp add: hyp_clear_def)
  with h3 show ?thesis by (simp add: ee_channelCleared_def core_ok_abort) (simp add: ee_abort_def)
qed

lemma clearall_core_ok:
  assumes ok: "core_ok L C W h" "layout_ok L C"
  shows "\<exists>h'. hyp_clearall clk h = Inr h' \<and> core_ok L C W h' \<and>
    h_effects h' = h_effects (ee_allChannelsCleared h) \<and> h_events h' = h_events h \<and> h_autoSelect h' \<and>
    dom (mux_abs (h_muxer h')) \<subseteq> {LOWEST_PRIORITY}"
proof -
  let ?h1 = "h\<lparr>h_muxer := mux_clearAll (h_muxer h)\<rparr>"
  have m: "mux_ok (length L) (mux_clearAll (h_muxer h))" "dom (mux_abs (mux_clearAll (h_muxer h))) = {LOWEST_PRIORITY}"
    using mux_ok_clearAll [OF core_okD(1) [OF ok(1)]] by simp_all
  have ok1: "core_ok L C W ?h1" using ok(1) m(1) by (rule core_ok_muxer)
  have sub: "dom (mux_abs (mux_setCurrentTime m' now)) \<subseteq> dom (mux_abs m')" if "mux_ok (length L) m'" for m' now
    using mux_ok_setCurrentTime [OF that] by (auto split: option.splits if_splits)
  obtain h2 where h2: "hyp_setSourceAutoSelectEnabled clk True ?h1 = Inr h2" "core_ok L C W h2"
      "h_effects h2 = h_effects h" "h_events h2 = h_events h" "h_autoSelect h2"
      "dom (mux_abs (h_muxer h2)) \<subseteq> {LOWEST_PRIORITY}"
    using autoSelect_core_ok [OF ok1 ok(2), of clk True] m sub by fastforce
  obtain h3 where h3: "hyp_update clk h2 = Inr h3" "core_ok L C W h3" "same_control h2 h3"
      "h_muxer h3 = mux_setCurrentTime (h_muxer h2) (clk (h_clock h2))"
    using update_core_ok [OF h2(2) ok(2), of clk] by blast
  have "dom (mux_abs (h_muxer h3)) \<subseteq> {LOWEST_PRIORITY}"
    using h2(6) h3(4) sub [OF core_okD(1) [OF h2(2)]] by force
  with h2 h3 show ?thesis
    by (simp add: hyp_clearall_def ee_allChannelsCleared_def core_ok_abort)
      (simp add: ee_abort_def same_control_def)
qed

subsection \<open>Effects\<close>

lemma ee_find_mem: "ee_find i h = Some e \<Longrightarrow> e \<in> set (h_effects h) \<and> ef_id e = i"
  by (auto simp: ee_find_def find_Some_iff)

lemma filter_none: "(\<And>x. x \<in> set xs \<Longrightarrow> \<not> P x) \<Longrightarrow> filter P xs = []"
  by (simp add: filter_empty_conv)

lemma exclusive_snoc:
  assumes "exclusive es" "\<And>x. x \<in> set es \<Longrightarrow> ef_priority x = ef_priority e \<Longrightarrow> ef_abortRequested x"
  shows "exclusive (es @ [e])"
  unfolding exclusive_def
proof
  fix p
  show "length (filter (\<lambda>e. ef_priority e = p \<and> \<not> ef_abortRequested e) (es @ [e])) \<le> 1"
  proof (cases "p = ef_priority e")
    case True
    then have "filter (\<lambda>e. ef_priority e = p \<and> \<not> ef_abortRequested e) es = []"
      using assms(2) by (intro filter_none) auto
    then show ?thesis by simp
  next
    case False
    with assms(1) show ?thesis by (simp add: exclusive_def)
  qed
qed

lemma effects_ok_snoc:
  assumes "effects_ok n k es evs" "exclusive (es @ [e])" "ef_id e = k" "effect_ok n e"
  shows "effects_ok n (k + 1) (es @ [e]) evs"
proof -
  have "ef_id x < k + 1 \<and> effect_ok n x" if "x \<in> set (es @ [e])" for x
    using that assms(1,3,4) by (cases "x = e") (auto simp: effects_ok_def less_Suc_eq)
  moreover have "distinct (map ef_id (es @ [e]))" using assms(1,3) by (auto simp: effects_ok_def)
  moreover have "\<exists>e' \<in> set (es @ [e]). ef_id e' = i \<and> ef_thread e' = ThreadEnded" if "i \<in> set (finished_ids evs)" for i
    using that assms(1) by (auto simp: effects_ok_def)
  ultimately show ?thesis using assms(1,2) by (simp add: effects_ok_def)
qed

lemma channelCleared_aborts:
  "\<forall>x \<in> set (h_effects (ee_channelCleared p h)). ef_priority x = p \<longrightarrow> ef_abortRequested x"
  by (simp add: ee_channelCleared_def ee_abort_def ball_Un)

lemma runEffectScript_ok:
  assumes ok: "core_ok L C W h" and t: "p \<noteq> LOWEST_PRIORITY \<or> t \<le> 0"
  shows "core_ok L C W (snd (ee_runEffectScript script name args p t h))"
proof -
  define h1 where "h1 = ee_channelCleared p h"
  define e where "e = \<lparr>ef_id = h_nextEffect h1, ef_name = name, ef_script = script, ef_args = args,
     ef_priority = p, ef_timeout = t, ef_endTime = -1, ef_abortRequested = False,
     ef_thread = ThreadCreated, ef_colors = replicate (length (h_ledString h1)) BLACK\<rparr>"
  have ok1: "core_ok L C W h1" using ok by (simp add: h1_def ee_channelCleared_def core_ok_abort)
  note eo = core_okD(2) [OF ok1]
  have e: "ef_id e = h_nextEffect h1" "ef_priority e = p" "effect_ok (length L) e"
    using core_okD(4) [OF ok1] t by (auto simp: e_def effect_ok_def)
  have "exclusive (h_effects h1)" using eo by (simp add: effects_ok_def)
  then have "exclusive (h_effects h1 @ [e])"
    using e(2) channelCleared_aborts [of p h] unfolding h1_def by (intro exclusive_snoc) simp_all
  then have "effects_ok (length L) (h_nextEffect h1 + 1) (h_effects h1 @ [e]) (h_events h1)"
    using eo e by (intro effects_ok_snoc) simp_all
  then have "core_ok L C W (h1\<lparr>h_effects := h_effects h1 @ [e], h_nextEffect := h_nextEffect h1 + 1\<rparr>)"
    using ok1 by (simp add: core_ok_def hyp_ok_def)
  then have "core_ok L C W (hyp_registerPriority name p
      (h1\<lparr>h_effects := h_effects h1 @ [e], h_nextEffect := h_nextEffect h1 + 1\<rparr>))"
    by (simp add: hyp_registerPriority_def)
  then show ?thesis by (simp only: ee_runEffectScript_def Let_def snd_conv e_def h1_def)
qed

lemma runEffect_ok:
  assumes "core_ok L C W h" "p \<noteq> LOWEST_PRIORITY \<or> t \<le> 0"
  shows "core_ok L C W (snd (ee_runEffect name args p t script h))"
  using assms runEffectScript_ok by (simp add: ee_runEffect_def split: option.split)

lemma erase_effect_filter: "distinct (map ef_id es) \<Longrightarrow> erase_effect i es = filter (\<lambda>e. ef_id e \<noteq> i) es"
proof (induction es)
  case (Cons e es)
  have "filter (\<lambda>x. ef_id x \<noteq> ef_id e) es = es" using Cons.prems by (intro filter_True) (force simp: image_iff)
  with Cons show ?case by (cases "ef_id e = i") auto
qed simp

lemma effects_ok_erase:
  assumes "effects_ok n k es evs" "i \<notin> set (finished_ids evs)"
  shows "effects_ok n k (erase_effect i es) evs"
proof -
  let ?es = "filter (\<lambda>e. ef_id e \<noteq> i) es"
  have "erase_effect i es = ?es" using assms(1) by (simp add: erase_effect_filter effects_ok_def)
  moreover have "exclusive ?es"
    unfolding exclusive_def
  proof
    fix p
    have "length (filter (\<lambda>e. ef_priority e = p \<and> \<not> ef_abortRequested e) ?es) \<le>
        length (filter (\<lambda>e. ef_priority e = p \<and> \<not> ef_abortRequested e) es)"
      unfolding filter_filter by (intro length_filter_mono) simp
    also have "\<dots> \<le> 1" using assms(1) by (simp add: effects_ok_def exclusive_def)
    finally show "length (filter (\<lambda>e. ef_priority e = p \<and> \<not> ef_abortRequested e) ?es) \<le> 1" .
  qed
  moreover have "distinct (map ef_id ?es)" using assms(1) by (simp add: effects_ok_def distinct_map_filter)
  ultimately show ?thesis using assms by (fastforce simp: effects_ok_def)
qed

lemma effectFinished_ok:
  assumes ok: "core_ok L C W h" "layout_ok L C"
    and e: "\<exists>e \<in> set (h_effects h). ef_id e = i" "i \<notin> set (finished_ids (h_events h))"
  shows "\<exists>h'. ee_effectFinished clk i h = Inr h' \<and> core_ok L C W h'"
proof -
  obtain x where x: "ee_find i h = Some x"
    using e(1) by (cases "ee_find i h") (auto simp: ee_find_def find_None_iff)
  obtain h1 where h1: "(if \<not> ef_abortRequested x then hyp_clear clk (ef_priority x) h else Inr h) = Inr h1"
      "core_ok L C W h1" "h_events h1 = h_events h"
    using clear_core_ok [OF ok, of clk "ef_priority x"] ok(1) by (cases "ef_abortRequested x") auto
  have "effects_ok (length L) (h_nextEffect h1) (erase_effect i (h_effects h1)) (h_events h1)"
    using core_okD(2) [OF h1(2)] e(2) h1(3) by (simp add: effects_ok_erase)
  then have "core_ok L C W (h1\<lparr>h_effects := erase_effect i (h_effects h1)\<rparr>)"
    using h1(2) by (simp add: core_ok_def hyp_ok_def)
  then show ?thesis using x h1(1) by (simp add: ee_effectFinished_def hyp_unRegisterPriority_def)
qed

lemma deliver_ok:
  assumes ok: "core_ok L C W h" "layout_ok L C"
  shows "\<exists>h'. hyp_deliver clk h = Inr h' \<and> core_ok L C W h'"
proof (cases "h_events h")
  case Nil
  with ok show ?thesis by (simp add: hyp_deliver_def)
next
  case (Cons ev evs)
  note eo = core_okD(2) [OF ok(1), unfolded Cons]
  show ?thesis
  proof (cases ev)
    case (EvSetColors p cs t c)
    have "core_ok L C W (h\<lparr>h_events := evs\<rparr>)"
      using ok(1) eo EvSetColors by (simp add: core_ok_def hyp_ok_def effects_ok_def)
    moreover have "length cs = length L \<and> (p \<noteq> LOWEST_PRIORITY \<or> t \<le> 0)"
      using eo EvSetColors by (simp add: effects_ok_def)
    ultimately show ?thesis
      using Cons EvSetColors setColors_core_ok [OF _ ok(2), of W "h\<lparr>h_events := evs\<rparr>" cs p t clk False c]
      by (auto simp: hyp_deliver_def)
  next
    case (EvFinished i)
    have "core_ok L C W (h\<lparr>h_events := evs\<rparr>)"
      using ok(1) eo EvFinished by (simp add: core_ok_def hyp_ok_def effects_ok_def)
    moreover have "\<exists>e \<in> set (h_effects h). ef_id e = i" "i \<notin> set (finished_ids evs)"
      using eo EvFinished by (auto simp: effects_ok_def)
    ultimately show ?thesis
      using Cons EvFinished effectFinished_ok [OF _ ok(2), of W "h\<lparr>h_events := evs\<rparr>" i clk]
      by (simp add: hyp_deliver_def)
  qed
qed

subsection \<open>The threads of the effects\<close>

lemma effects_ok_set:
  assumes "effects_ok n k es evs" "e \<in> set es" "ef_id e' = ef_id e" "ef_priority e' = ef_priority e"
    "ef_abortRequested e \<longrightarrow> ef_abortRequested e'" "effect_ok n e'"
    "ef_thread e = ThreadEnded \<longrightarrow> ef_thread e' = ThreadEnded"
  shows "effects_ok n k (map (\<lambda>x. if ef_id x = ef_id e' then e' else x) es) evs"
proof (rule effects_ok_map [OF assms(1)])
  fix x assume x: "x \<in> set es"
  have "ef_id x = ef_id e \<Longrightarrow> x = e"
    using x assms(1,2) by (metis (mono_tags, lifting) effects_ok_def distinct_map inj_onD)
  then show "ef_id (if ef_id x = ef_id e' then e' else x) = ef_id x \<and>
      ef_priority (if ef_id x = ef_id e' then e' else x) = ef_priority x \<and>
      (ef_abortRequested x \<longrightarrow> ef_abortRequested (if ef_id x = ef_id e' then e' else x)) \<and>
      effect_ok n (if ef_id x = ef_id e' then e' else x) \<and>
      (ef_thread x = ThreadEnded \<longrightarrow> ef_thread (if ef_id x = ef_id e' then e' else x) = ThreadEnded)"
    using x assms by (auto simp: effects_ok_def)
qed

lemma ee_set_ok:
  assumes "core_ok L C W h" "e \<in> set (h_effects h)" "ef_id e' = ef_id e" "ef_priority e' = ef_priority e"
    "ef_abortRequested e \<longrightarrow> ef_abortRequested e'" "effect_ok (length L) e'"
    "ef_thread e = ThreadEnded \<longrightarrow> ef_thread e' = ThreadEnded"
  shows "core_ok L C W (ee_set e' h)"
  using assms(1) effects_ok_set [OF core_okD(2) [OF assms(1)] assms(2-7)]
  by (simp add: core_ok_def hyp_ok_def ee_set_def)

lemma three_more:
  assumes "length bs = 3 * Suc n"
  obtains r g b rest where "bs = r # g # b # rest" "length rest = 3 * n"
  using assms by (cases bs; cases "tl bs"; cases "tl (tl bs)") auto

lemma bytes_colors_of_raw [simp]: "bytes_colors (raw_bytes cs) = cs"
  by (induction cs) (simp_all add: color_bytes_def)

lemma bytes_colors_length: "length bs = 3 * n \<Longrightarrow> length (bytes_colors bs) = n"
proof (induction n arbitrary: bs)
  case (Suc n)
  from three_more [OF Suc.prems] Suc.IH show ?case by (metis bytes_colors.simps(1) length_Cons)
qed simp

lemma bytes_colors_raw: "length bs = 3 * n \<Longrightarrow> raw_bytes (bytes_colors bs) = bs"
proof (induction n arbitrary: bs)
  case (Suc n)
  obtain r g b rest where bs: "bs = r # g # b # rest" "length rest = 3 * n" using three_more [OF Suc.prems] .
  with Suc.IH [OF bs(2)] show ?case by (simp add: color_bytes_def)
qed simp

lemma core_ok_post:
  "core_ok L C W h \<Longrightarrow> event_ok (length L) (EvSetColors p cs t c) \<Longrightarrow>
     core_ok L C W (h\<lparr>h_events := h_events h @ [EvSetColors p cs t c]\<rparr>)"
  by (auto simp: core_ok_def hyp_ok_def effects_ok_def)

lemma eff_emit_ok:
  assumes "core_ok L C W h" "e \<in> set (h_effects h)" "length cs = length L" "ef_timeout e \<le> 0 \<longrightarrow> t \<le> 0"
  shows "core_ok L C W (eff_emit (e\<lparr>ef_colors := cs\<rparr>) t h)"
proof -
  have eo: "effect_ok (length L) e" using core_okD(2) [OF assms(1)] assms(2) by (simp add: effects_ok_def)
  then have "core_ok L C W (ee_set (e\<lparr>ef_colors := cs\<rparr>) h)"
    using assms by (intro ee_set_ok [where e = e]) (simp_all add: effect_ok_def)
  moreover have "event_ok (length L) (EvSetColors (ef_priority e) cs t COMP_EFFECT)"
    using eo assms(3,4) by (auto simp: effect_ok_def)
  ultimately have "core_ok L C W ((ee_set (e\<lparr>ef_colors := cs\<rparr>) h)\<lparr>h_events :=
      h_events (ee_set (e\<lparr>ef_colors := cs\<rparr>) h) @ [EvSetColors (ef_priority e) cs t COMP_EFFECT]\<rparr>)"
    by (rule core_ok_post)
  then show ?thesis by (simp add: eff_emit_def ee_set_def)
qed

lemma eff_timeLeft_ok:
  obtains k where "snd (eff_timeLeft clk e h) = h\<lparr>h_clock := k\<rparr>"
    "\<And>t. fst (eff_timeLeft clk e h) = Some t \<Longrightarrow> ef_timeout e \<le> 0 \<longrightarrow> t \<le> 0"
proof (cases "ef_timeout e > 0")
  case True
  then show thesis by (intro that [of "h_clock h + 1"]) (auto simp: eff_timeLeft_def read_clock_def Let_def)
next
  case False
  then show thesis by (intro that [of "h_clock h"]) (auto simp: eff_timeLeft_def)
qed

lemma eff_setColor_ok:
  assumes ok: "core_ok L C W h" "e \<in> set (h_effects h)"
  shows "core_ok L C W (snd (eff_setColor clk e args h))"
proof -
  obtain k where k: "snd (eff_timeLeft clk e h) = h\<lparr>h_clock := k\<rparr>"
    "\<And>t. fst (eff_timeLeft clk e h) = Some t \<Longrightarrow> ef_timeout e \<le> 0 \<longrightarrow> t \<le> 0"
    using eff_timeLeft_ok [of clk e h] by blast
  have n: "length (ef_colors e) = length L" "h_ledString h = L"
    using core_okD(2,4) [OF ok(1)] ok(2) by (simp_all add: effects_ok_def effect_ok_def)
  have e: "core_ok L C W (h\<lparr>h_clock := k\<rparr>)" "e \<in> set (h_effects (h\<lparr>h_clock := k\<rparr>))" using ok by simp_all
  show ?thesis
  proof (cases "ef_abortRequested e \<or> fst (eff_timeLeft clk e h) = None")
    case True
    with ok k(1) e(1) show ?thesis by (auto simp: eff_setColor_def split: prod.split)
  next
    case False
    then obtain t where t: "eff_timeLeft clk e h = (Some t, h\<lparr>h_clock := k\<rparr>)" "ef_timeout e \<le> 0 \<longrightarrow> t \<le> 0"
      using k by (cases "eff_timeLeft clk e h") auto
    show ?thesis
      using False t n e(1) eff_emit_ok [OF e _ t(2)] bytes_colors_length
      by (auto simp: eff_setColor_def split: py_args.split)
  qed
qed

lemma core_ok_post_finished:
  assumes "core_ok L C W h" "e \<in> set (h_effects h)" "ef_id e = i" "ef_thread e = ThreadEnded"
    "i \<notin> set (finished_ids (h_events h))"
  shows "core_ok L C W (h\<lparr>h_events := h_events h @ [EvFinished i]\<rparr>)"
proof -
  have "effects_ok (length L) (h_nextEffect h) (h_effects h) (h_events h @ [EvFinished i])"
    using core_okD(2) [OF assms(1)] assms(2-5) unfolding effects_ok_def by auto
  with assms(1) show ?thesis by (simp add: core_ok_def hyp_ok_def)
qed

lemma eff_end_ok:
  assumes ok: "core_ok L C W h" "e \<in> set (h_effects h)" and run: "ef_thread e = ThreadRunning"
  shows "core_ok L C W (eff_end e h)"
proof -
  let ?e = "e\<lparr>ef_thread := ThreadEnded\<rparr>" and ?h = "ee_set (e\<lparr>ef_thread := ThreadEnded\<rparr>) h"
  have eo: "effect_ok (length L) e" using core_okD(2) [OF ok(1)] ok(2) by (simp add: effects_ok_def)
  have ok1: "core_ok L C W ?h" using ok eo by (intro ee_set_ok [where e = e]) (simp_all add: effect_ok_def)
  have mem: "?e \<in> set (h_effects ?h)" using ok(2) by (force simp: ee_set_def)
  have "ef_id e \<notin> set (finished_ids (h_events h))"
  proof
    assume "ef_id e \<in> set (finished_ids (h_events h))"
    then obtain x where "x \<in> set (h_effects h)" "ef_id x = ef_id e" "ef_thread x = ThreadEnded"
      using core_okD(2) [OF ok(1)] by (auto simp: effects_ok_def)
    moreover have "inj_on ef_id (set (h_effects h))"
      using core_okD(2) [OF ok(1)] by (simp add: effects_ok_def distinct_map)
    ultimately show False using ok(2) run by (metis inj_onD thread_state.distinct(5))
  qed
  moreover have "h_events ?h = h_events h" by (simp add: ee_set_def)
  ultimately have "core_ok L C W (?h\<lparr>h_events := h_events ?h @ [EvFinished (ef_id e)]\<rparr>)"
    using mem by (intro core_ok_post_finished [OF ok1, of ?e]) simp_all
  then show ?thesis by (simp add: eff_end_def ee_set_def)
qed

lemma eff_run_ok:
  assumes ok: "core_ok L C W h" "e \<in> set (h_effects h)" and c: "ef_thread e = ThreadCreated"
  shows "core_ok L C W (eff_run clk e h)"
proof -
  have eo: "effect_ok (length L) e" using core_okD(2) [OF ok(1)] ok(2) by (simp add: effects_ok_def)
  then have "core_ok L C W (ee_set (e\<lparr>ef_thread := ThreadRunning, ef_endTime := t\<rparr>) (h\<lparr>h_clock := k\<rparr>))"
    "core_ok L C W (ee_set (e\<lparr>ef_thread := ThreadRunning\<rparr>) h)" for t k
    using ok c by (intro ee_set_ok [where e = e]; simp add: effect_ok_def)+
  then show ?thesis by (simp add: eff_run_def read_clock_def)
qed

lemma eff_abort_ok:
  assumes ok: "core_ok L C W h" "e \<in> set (h_effects h)"
  shows "core_ok L C W (snd (eff_abort clk e h))"
proof -
  have eo: "effect_ok (length L) e" using core_okD(2) [OF ok(1)] ok(2) by (simp add: effects_ok_def)
  then have "core_ok L C W (ee_set (e\<lparr>ef_abortRequested := True\<rparr>) (h\<lparr>h_clock := k\<rparr>))"
    "core_ok L C W (ee_set e (h\<lparr>h_clock := k\<rparr>))" for k
    using ok by (intro ee_set_ok [where e = e]; simp add: effect_ok_def)+
  then show ?thesis using ok(1) by (simp add: eff_abort_def read_clock_def Let_def)
qed

lemma on_running_ok:
  assumes "core_ok L C W h"
    and "\<And>e. e \<in> set (h_effects h) \<Longrightarrow> ef_thread e = ThreadRunning \<Longrightarrow> core_ok L C W (f e)"
  shows "core_ok L C W (on_running i f h)"
  using assms ee_find_mem [of i h] by (auto simp: on_running_def split: option.split)

section \<open>Reachable states\<close>

lemma perform_ok:
  assumes ok: "core_ok L C W h" "layout_ok L C" and req: "request_ok (length L) req"
  shows "\<exists>h'. perform clk req h = Inr h' \<and> core_ok L C W h'"
proof (cases req)
  case (ReqSetColor p c t clr)
  then show ?thesis
    using req core_okD(4) [OF ok(1)] setColors_core_ok [OF ok, of "replicate (length L) c" p t clk clr COMP_COLOR]
    by (auto simp: hyp_setColor_def)
next
  case (ReqSetColors p cs t clr cmp)
  then show ?thesis using req setColors_core_ok [OF ok, of cs p t clk clr cmp] by auto
next
  case (ReqClear p)
  then show ?thesis using clear_core_ok [OF ok, of clk p] by auto
next
  case ReqClearAll
  then show ?thesis using clearall_core_ok [OF ok, of clk] by auto
next
  case (ReqAutoSelect b)
  then show ?thesis using autoSelect_core_ok [OF ok, of clk b] by auto
next
  case (ReqSource p)
  then show ?thesis using ok(1) by (simp add: hyp_setCurrentSourcePriority_def Let_def)
next
  case (ReqEffect name args p t script)
  then show ?thesis using ok(1) req by (simp add: runEffect_ok)
next
  case (ReqComponent c b)
  then show ?thesis
    using ok(1) core_ok_smooth [OF ok(1) smooth_ok_setEnable [OF core_okD(3) [OF ok(1)]]]
    by (simp add: hyp_setComponentState_def Let_def)
next
  case ReqAdjustmentsUpdated
  then show ?thesis using update_core_ok [OF ok, of clk] by (auto simp: hyp_adjustmentsUpdated_def)
next
  case (ReqMapping k)
  then show ?thesis using ok(1) by (simp add: hyp_setLedMappingType_def)
next
  case ReqTimeout
  then show ?thesis using update_core_ok [OF ok, of clk] by auto
next
  case ReqDeliver
  then show ?thesis using deliver_ok [OF ok, of clk] by auto
next
  case (ReqImage p im t)
  then show ?thesis using ok(1) by (simp add: hyp_setImage_def)
next
  case (EffRun i)
  then show ?thesis using ok(1) eff_run_ok [OF ok(1)] ee_find_mem [of i h] by (auto split: option.split)
next
  case (EffSetColor i args)
  then show ?thesis using ok(1) eff_setColor_ok [OF ok(1)] by (auto intro: on_running_ok)
next
  case (EffAbort i)
  then show ?thesis using ok(1) eff_abort_ok [OF ok(1)] by (auto intro: on_running_ok)
next
  case (EffEnd i)
  then show ?thesis using ok(1) eff_end_ok [OF ok(1)] by (auto intro: on_running_ok)
qed (use ok(1) in \<open>simp_all add: hyp_registerPriority_def hyp_unRegisterPriority_def hyp_reportComponent_def\<close>)

text \<open>
  The configurations considered: cloned leds have distinct indices inside the string and follow
  a led before them, every led has an adjustment, no coloured backlight above one half.
\<close>

definition cfg_ok :: "pow_fun \<Rightarrow> hyperion_cfg \<Rightarrow> bool" where
  "cfg_ok pw cfg \<longleftrightarrow>
     layout_ok (createLedString (hc_leds cfg) (hc_order cfg)) (createLedStringClone (hc_leds cfg) (hc_order cfg)) \<and>
     fst (mca_verifyAdjustments pw (hc_adjustment cfg)) \<and>
     adjust_ok (snd (mca_verifyAdjustments pw (hc_adjustment cfg))) \<and>
     sm_previousValues (hc_smooth cfg) = []"

abbreviation cfg_leds :: "hyperion_cfg \<Rightarrow> Led list" where
  "cfg_leds cfg \<equiv> createLedString (hc_leds cfg) (hc_order cfg)"

abbreviation cfg_clones :: "hyperion_cfg \<Rightarrow> Led list" where
  "cfg_clones cfg \<equiv> createLedStringClone (hc_leds cfg) (hc_order cfg)"

definition cfg_hwLeds :: "hyperion_cfg \<Rightarrow> nat" where
  "cfg_hwLeds cfg = nat (max (case hc_ledCount cfg of None \<Rightarrow> int (length (cfg_leds cfg)) | Some k \<Rightarrow> k mod 2 ^ 32)
     (int (length (cfg_leds cfg))))"

lemma hyp_new_starts:
  assumes "cfg_ok pw cfg"
  shows "\<exists>g. hyp_new pw clk cfg junk = hyp_update clk g \<and> h_effects g = [] \<and> h_events g = [] \<and> h_autoSelect g \<and>
    core_ok (cfg_leds cfg) (cfg_clones cfg) (cfg_hwLeds cfg) g"
proof -
  obtain adj where adj: "mca_verifyAdjustments pw (hc_adjustment cfg) = (True, adj)" "adjust_ok adj"
    using assms by (cases "mca_verifyAdjustments pw (hc_adjustment cfg)") (simp add: cfg_ok_def)
  define h0 where "h0 = \<lparr>h_ledString = cfg_leds cfg, h_ledStringClone = cfg_clones cfg,
               h_colorOrder = [], h_muxer = mux_new (length (cfg_leds cfg)), h_adjustment = adj,
               h_smooth = hc_smooth cfg, h_timer = None, h_hwLedCount = cfg_hwLeds cfg, h_autoSelect = True,
               h_currentSource = junk, h_prevCompId = COMP_INVALID, h_register = [],
               h_components = creg_componentStateChanged (creg_componentStateChanged (\<lambda>_. None)
                  COMP_FORWARDER (hc_forwarding cfg)) COMP_SMOOTHING (sm_enabled (hc_smooth cfg)),
               h_available = hc_effects cfg, h_effects = [], h_nextEffect = 0,
               h_ledMappingType = hc_mapping cfg, h_events = [], h_signals = [], h_clock = 0\<rparr>"
  have "core_ok (cfg_leds cfg) (cfg_clones cfg) (cfg_hwLeds cfg) h0"
    using adj(2) assms
    by (simp add: h0_def core_ok_def hyp_ok_def mux_ok_new smooth_ok_def cfg_ok_def effects_ok_def exclusive_def)
  then have "core_ok (cfg_leds cfg) (cfg_clones cfg) (cfg_hwLeds cfg) (hyp_registerPriority ''Off'' LOWEST_PRIORITY h0)"
    by (simp add: hyp_registerPriority_def)
  moreover have "hyp_new pw clk cfg junk = hyp_update clk (hyp_registerPriority ''Off'' LOWEST_PRIORITY h0)"
    using adj(1) by (simp add: hyp_new_def Let_def h0_def cfg_hwLeds_def)
  moreover have "h_effects (hyp_registerPriority ''Off'' LOWEST_PRIORITY h0) = []"
    "h_events (hyp_registerPriority ''Off'' LOWEST_PRIORITY h0) = []"
    "h_autoSelect (hyp_registerPriority ''Off'' LOWEST_PRIORITY h0)"
    by (simp_all add: hyp_registerPriority_def h0_def)
  ultimately show ?thesis by blast
qed

lemma hyp_new_ok:
  assumes "cfg_ok pw cfg"
  shows "\<exists>h. hyp_new pw clk cfg junk = Inr h \<and> core_ok (cfg_leds cfg) (cfg_clones cfg) (cfg_hwLeds cfg) h \<and>
    h_effects h = [] \<and> h_events h = []"
proof -
  obtain g where g: "hyp_new pw clk cfg junk = hyp_update clk g" "h_effects g = []" "h_events g = []"
      "core_ok (cfg_leds cfg) (cfg_clones cfg) (cfg_hwLeds cfg) g"
    using hyp_new_starts [OF assms] by blast
  moreover have "layout_ok (cfg_leds cfg) (cfg_clones cfg)" using assms by (simp add: cfg_ok_def)
  ultimately show ?thesis using update_core_ok [OF g(4), of clk] by (auto simp: same_control_def)
qed

lemma hyp_new_auto:
  assumes "hyp_new pw clk cfg junk = Inr h" "cfg_ok pw cfg"
  shows "h_autoSelect h"
proof -
  obtain g where "hyp_new pw clk cfg junk = hyp_update clk g" "h_autoSelect g"
      "core_ok (cfg_leds cfg) (cfg_clones cfg) (cfg_hwLeds cfg) g"
    using hyp_new_starts [OF assms(2)] by blast
  moreover have "layout_ok (cfg_leds cfg) (cfg_clones cfg)" using assms(2) by (simp add: cfg_ok_def)
  ultimately obtain h' where "hyp_update clk g = Inr h'" "same_control g h'" using update_core_ok by blast
  then show ?thesis using \<open>hyp_new pw clk cfg junk = hyp_update clk g\<close> \<open>h_autoSelect g\<close> assms(1)
    by (simp add: same_control_def)
qed

inductive_cases reachableE: "reachable pw clk cfg junk h"

lemma reachable_core_ok:
  assumes "reachable pw clk cfg junk h" "cfg_ok pw cfg"
  shows "core_ok (cfg_leds cfg) (cfg_clones cfg) (cfg_hwLeds cfg) h \<and> layout_ok (cfg_leds cfg) (cfg_clones cfg)"
  using assms(1)
proof (induction rule: reachable.induct)
  case (Start h)
  with hyp_new_ok [OF assms(2), of clk junk] assms(2) show ?case by (auto simp: cfg_ok_def)
next
  case (Request h req h')
  then have "core_ok (cfg_leds cfg) (cfg_clones cfg) (cfg_hwLeds cfg) h" by simp
  with Request perform_ok [OF _ _ , of "cfg_leds cfg" "cfg_clones cfg" "cfg_hwLeds cfg" h req clk]
    core_okD(4) show ?case by auto
next
  case (Tick h now s)
  then show ?case
    using smooth_ok_updateLeds [OF core_okD(3) Tick(3)] core_ok_smooth by blast
next
  case (Adjust h a)
  then show ?case by (simp add: core_ok_def hyp_ok_def)
qed

text \<open>A small configuration, for the witnesses: two leds and a clone of the first one.\<close>

definition demo_entry :: "int \<Rightarrow> int option \<Rightarrow> led_cfg" where
  "demo_entry i k = \<lparr>cfg_index = i, cfg_clone = k, cfg_hmin = 0, cfg_hmax = 1, cfg_vmin = 0, cfg_vmax = 1,
     cfg_order = Some ''bgr''\<rparr>"

definition demo_cfg :: hyperion_cfg where
  "demo_cfg =
     \<lparr>hc_leds = [demo_entry 0 None, demo_entry 1 (Some 0), demo_entry 2 None], hc_order = ORDER_RGB,
      hc_adjustment = (mca_addAdjustment (mca_new 2) (ca_default ''a'' tr_plain))
         \<lparr>mca_ledAdjustments := [Some 0, Some 0]\<rparr>,
      hc_smooth = (sm_new 200 0 True 0 0)\<lparr>sm_enabled := False\<rparr>, hc_mapping = 0, hc_ledCount = Some 5,
      hc_effects = [], hc_forwarding = False\<rparr>"

lemma demo_cfg_ok: "cfg_ok (\<lambda>x y. 1) demo_cfg"
proof -
  have low: "tr_sumBrightnessLow tr_plain \<le> 255" "\<not> tr_backlightColored tr_plain"
    by (simp_all add: tr_plain_def tr_raw_def)
  have "snd (mca_verifyAdjustments (\<lambda>x y. 1) (hc_adjustment demo_cfg)) =
      (hc_adjustment demo_cfg)\<lparr>mca_adjustment := [(ca_default ''a'' tr_plain)\<lparr>ca_rgbTransform :=
        tr_setBrightness (\<lambda>x y. 1) (tr_setBacklightThreshold (\<lambda>x y. 1) tr_plain 0) (1/2)\<rparr>]\<rparr>"
    by (simp add: demo_cfg_def mca_verifyAdjustments_def mca_addAdjustment_def mca_new_def
        reset_brightness_def ca_default_def tr_plain_def tr_raw_def Let_def tr_setBrightness_def
        tr_setBacklightThreshold_def)
  then have "adjust_ok (snd (mca_verifyAdjustments (\<lambda>x y. 1) (hc_adjustment demo_cfg)))"
    by (simp add: adjust_ok_def demo_cfg_def tr_setBrightness_def tr_setBacklightThreshold_def
        tr_plain_def tr_raw_def)
  moreover have "fst (mca_verifyAdjustments (\<lambda>x y. 1) (hc_adjustment demo_cfg))"
    by (simp add: demo_cfg_def mca_verifyAdjustments_def mca_addAdjustment_def mca_new_def Let_def split_beta)
  moreover have "layout_ok (createLedString (hc_leds demo_cfg) (hc_order demo_cfg))
      (createLedStringClone (hc_leds demo_cfg) (hc_order demo_cfg))"
    by (simp add: layout_ok_def clones_ok_def backward_def demo_cfg_def demo_entry_def createLedString_def
        createLedStringClone_def clone_of_def make_led_def make_clone_def Let_def split_beta)
  ultimately show ?thesis by (simp add: cfg_ok_def) (simp add: demo_cfg_def sm_new_def)
qed

end
