(* ===== verification/CoreTheorems.thy ===== *)
theory CoreTheorems
  imports CoreRuns
begin

text \<open>
  The properties of the core: what holds in every reachable state, what an update shows, what
  clearing a channel does, and the race between an effect and the request that clears it.
\<close>

text \<open>
  C1.  No request fails: from any reachable state, whatever clients, timers, effect threads and
  the event queue did before and in whatever order, every admissible request runs to its end
  without exception and without undefined behaviour.
\<close>

theorem core_never_fails:
  assumes "cfg_ok pw cfg" "reachable pw clk cfg junk h" "request_ok (length (h_ledString h)) req"
  shows "\<exists>h'. perform clk req h = Inr h'"
proof -
  have ok: "core_ok (cfg_leds cfg) (cfg_clones cfg) (cfg_hwLeds cfg) h" "layout_ok (cfg_leds cfg) (cfg_clones cfg)"
    using reachable_core_ok [OF assms(2,1)] by simp_all
  then have "h_ledString h = cfg_leds cfg" by (auto dest: core_okD(4))
  with assms(3) perform_ok [OF ok, of req clk] show ?thesis by auto
qed

theorem core_never_fails_witness:
  "\<exists>h h'. hyp_new (\<lambda>x y. 1) (\<lambda>n. int n) demo_cfg 7 = Inr h \<and>
     perform (\<lambda>n. int n) (ReqSetColor 10 (rgb 1 2 3) 500 True) h = Inr h'"
proof -
  obtain h where h: "hyp_new (\<lambda>x y. 1) (\<lambda>n. int n) demo_cfg 7 = Inr h"
    using hyp_new_ok [OF demo_cfg_ok, of "\<lambda>n. int n" 7] by blast
  then have "reachable (\<lambda>x y. 1) (\<lambda>n. int n) demo_cfg 7 h" by (rule reachable.Start)
  then show ?thesis
    using core_never_fails [OF demo_cfg_ok, of "\<lambda>n. int n" 7 h "ReqSetColor 10 (rgb 1 2 3) 500 True"] h
    by (auto simp: LOWEST_PRIORITY_def)
qed

text \<open>
  C2.  What the leds show: in a reachable state an update shows the current channel, which is
  active and not expired; its colours go through the adjustments (unless it is the lowest
  channel), the clones, the byte orders and the padding, and the frame is handed to the device,
  or to the smoothing as its new target.  With automatic selection the channel is the one with
  the least number; otherwise the selected one as long as it is active.
\<close>

theorem update_shows_current:
  assumes "cfg_ok pw cfg" "reachable pw clk cfg junk h"
  shows "\<exists>h' p info f. hyp_update clk h = Inr h' \<and>
    mux_abs (h_muxer h') p = Some info \<and> \<not> expired (clk (h_clock h)) info \<and>
    p = (if h_autoSelect h \<or> mux_abs (h_muxer h') (h_currentSource h) = None
         then Min (dom (mux_abs (h_muxer h'))) else h_currentSource h) \<and>
    frame_for (cfg_leds cfg) (cfg_clones cfg) (cfg_hwLeds cfg) (h_adjustment h') p info f \<and>
    delivered f (h_smooth h) (h_smooth h')"
proof -
  have ok: "core_ok (cfg_leds cfg) (cfg_clones cfg) (cfg_hwLeds cfg) h" "layout_ok (cfg_leds cfg) (cfg_clones cfg)"
    using reachable_core_ok [OF assms(2,1)] by simp_all
  obtain h' info f where h': "hyp_update clk h = Inr h'" "hyp_ok (cfg_leds cfg) (cfg_clones cfg) (cfg_hwLeds cfg) h'"
      "same_control h h'" "h_muxer h' = mux_setCurrentTime (h_muxer h) (clk (h_clock h))"
      "mux_abs (h_muxer h') (getCurrentPriority h') = Some info"
      "frame_for (cfg_leds cfg) (cfg_clones cfg) (cfg_hwLeds cfg) (h_adjustment h') (getCurrentPriority h') info f"
      "delivered f (h_smooth h) (h_smooth h')"
    using hyp_update_ok [OF core_okD(5) [OF ok(1)] ok(2)] by metis
  have wf: "mux_wf (h_muxer h')" using h'(2) by (simp add: hyp_ok_def mux_ok_def)
  have p: "getCurrentPriority h' = (if h_autoSelect h \<or> mux_abs (h_muxer h') (h_currentSource h) = None
         then Min (dom (mux_abs (h_muxer h'))) else h_currentSource h)"
    using h'(3) wf by (simp add: getCurrentPriority_def same_control_def mux_hasPriority_abs mux_wf_current_abs)
  have "\<not> expired (clk (h_clock h)) info"
    using h'(4,5) conjunct2 [OF mux_ok_setCurrentTime [OF core_okD(1) [OF ok(1)], of "clk (h_clock h)"]]
    by (auto split: option.splits if_splits)
  with h' p show ?thesis by metis
qed

theorem update_shows_current_witness:
  "\<exists>h h' p info f. hyp_new (\<lambda>x y. 1) (\<lambda>n. int n) demo_cfg 7 = Inr h \<and> hyp_update (\<lambda>n. int n) h = Inr h' \<and>
     mux_abs (h_muxer h') p = Some info \<and>
     frame_for (cfg_leds demo_cfg) (cfg_clones demo_cfg) (cfg_hwLeds demo_cfg) (h_adjustment h') p info f \<and>
     delivered f (h_smooth h) (h_smooth h')"
proof -
  obtain h where h: "hyp_new (\<lambda>x y. 1) (\<lambda>n. int n) demo_cfg 7 = Inr h"
    using hyp_new_ok [OF demo_cfg_ok, of "\<lambda>n. int n" 7] by blast
  then have "reachable (\<lambda>x y. 1) (\<lambda>n. int n) demo_cfg 7 h" by (rule reachable.Start)
  from update_shows_current [OF demo_cfg_ok this] h show ?thesis by metis
qed

text \<open>
  C6.  One effect per channel: in every reachable state at most one effect of a channel has not
  been asked to abort, the effects have distinct identities, and every pending end of a thread
  belongs to exactly one effect that is still listed, so finishing never misses its effect.
\<close>

theorem effects_exclusive:
  assumes "cfg_ok pw cfg" "reachable pw clk cfg junk h"
  shows "length (filter (\<lambda>e. ef_priority e = p \<and> \<not> ef_abortRequested e) (h_effects h)) \<le> 1 \<and>
    distinct (map ef_id (h_effects h)) \<and> distinct (finished_ids (h_events h)) \<and>
    set (finished_ids (h_events h)) \<subseteq> ef_id ` set (h_effects h)"
proof -
  have "core_ok (cfg_leds cfg) (cfg_clones cfg) (cfg_hwLeds cfg) h"
    using reachable_core_ok [OF assms(2,1)] by simp
  then have eo: "effects_ok (length (cfg_leds cfg)) (h_nextEffect h) (h_effects h) (h_events h)" by (rule core_okD)
  then have "set (finished_ids (h_events h)) \<subseteq> ef_id ` set (h_effects h)" by (force simp: effects_ok_def)
  with eo show ?thesis by (simp add: effects_ok_def exclusive_def)
qed

theorem effects_exclusive_witness:
  "\<exists>h. hyp_new (\<lambda>x y. 1) (\<lambda>n. int n) demo_cfg 7 = Inr h \<and>
     length (filter (\<lambda>e. ef_priority e = 5 \<and> \<not> ef_abortRequested e)
       (h_effects (snd (ee_runEffect ''b'' [] 5 0 ''s.py'' (snd (ee_runEffect ''a'' [] 5 0 ''s.py'' h)))))) \<le> 1"
proof -
  obtain h where h: "hyp_new (\<lambda>x y. 1) (\<lambda>n. int n) demo_cfg 7 = Inr h"
    using hyp_new_ok [OF demo_cfg_ok, of "\<lambda>n. int n" 7] by blast
  then have "reachable (\<lambda>x y. 1) (\<lambda>n. int n) demo_cfg 7 h" by (rule reachable.Start)
  then have "reachable (\<lambda>x y. 1) (\<lambda>n. int n) demo_cfg 7 (snd (ee_runEffect ''a'' [] 5 0 ''s.py'' h))"
    by (rule reachable.Request [where req = "ReqEffect ''a'' [] 5 0 ''s.py''"]) simp_all
  then have "reachable (\<lambda>x y. 1) (\<lambda>n. int n) demo_cfg 7
      (snd (ee_runEffect ''b'' [] 5 0 ''s.py'' (snd (ee_runEffect ''a'' [] 5 0 ''s.py'' h))))"
    by (rule reachable.Request [where req = "ReqEffect ''b'' [] 5 0 ''s.py''"]) simp_all
  from effects_exclusive [OF demo_cfg_ok this, of 5] h show ?thesis by blast
qed

text \<open>
  Clearing a channel below the lowest one: afterwards the channel is not active, every
  effect on it is asked to abort, the other effects are as they were, and the channel is not
  the current one, even when it was the selected source.
\<close>

theorem clear_channel:
  assumes "cfg_ok pw cfg" "reachable pw clk cfg junk h" "p < LOWEST_PRIORITY"
  shows "\<exists>h'. hyp_clear clk p h = Inr h' \<and> mux_abs (h_muxer h') p = None \<and>
    (\<forall>e \<in> set (h_effects h'). ef_priority e = p \<longrightarrow> ef_abortRequested e) \<and>
    filter (\<lambda>e. ef_priority e \<noteq> p) (h_effects h') = filter (\<lambda>e. ef_priority e \<noteq> p) (h_effects h) \<and>
    getCurrentPriority h' \<noteq> p"
proof -
  have ok: "core_ok (cfg_leds cfg) (cfg_clones cfg) (cfg_hwLeds cfg) h" "layout_ok (cfg_leds cfg) (cfg_clones cfg)"
    using reachable_core_ok [OF assms(2,1)] by simp_all
  obtain h' where h': "hyp_clear clk p h = Inr h'" "core_ok (cfg_leds cfg) (cfg_clones cfg) (cfg_hwLeds cfg) h'"
      "h_effects h' = h_effects (ee_channelCleared p h)" "mux_abs (h_muxer h') p = None"
    using clear_core_ok [OF ok, of clk p] assms(3) by blast
  have others: "filter (\<lambda>e. ef_priority e \<noteq> p) (h_effects (ee_channelCleared p h)) =
      filter (\<lambda>e. ef_priority e \<noteq> p) (h_effects h)"
  proof -
    have "filter (\<lambda>e. ef_priority e \<noteq> p) (map (\<lambda>e. if ef_priority e = p then e\<lparr>ef_abortRequested := True\<rparr> else e) es)
        = filter (\<lambda>e. ef_priority e \<noteq> p) es" for es
      by (induction es) simp_all
    then show ?thesis by (simp add: ee_channelCleared_def ee_abort_def)
  qed
  have wf: "mux_wf (h_muxer h')" using core_okD(1) [OF h'(2)] by (simp add: mux_ok_def)
  have "getCurrentPriority h' \<noteq> p" using getCurrentPriority_active [OF wf] h'(4) by (metis option.distinct(1))
  with h' others channelCleared_aborts [of p h] show ?thesis by auto
qed

theorem clear_channel_witness:
  "\<exists>h h'. hyp_new (\<lambda>x y. 1) (\<lambda>n. int n) demo_cfg 7 = Inr h \<and> hyp_clear (\<lambda>n. int n) 3 h = Inr h' \<and>
     mux_abs (h_muxer h') 3 = None"
proof -
  obtain h where h: "hyp_new (\<lambda>x y. 1) (\<lambda>n. int n) demo_cfg 7 = Inr h"
    using hyp_new_ok [OF demo_cfg_ok, of "\<lambda>n. int n" 7] by blast
  then have "reachable (\<lambda>x y. 1) (\<lambda>n. int n) demo_cfg 7 h" by (rule reachable.Start)
  from clear_channel [OF demo_cfg_ok this, of 3] h show ?thesis by (auto simp: LOWEST_PRIORITY_def)
qed

fun perform_all :: "(nat \<Rightarrow> int) \<Rightarrow> request list \<Rightarrow> hyperion \<Rightarrow> hyperion res" where
  "perform_all clk [] h = Inr h"
| "perform_all clk (r # rs) h = res_bind (perform clk r h) (perform_all clk rs)"

text \<open>
  C38.  The race of \<open>clear\<close> with the event queue: an effect posts its colours through the queue,
  so colours posted before a \<open>clear\<close> of its channel are delivered after it.  They bring the
  channel back without a timeout; the effect ends, and because it was asked to abort nobody
  clears the channel again: it stays active although no effect is left.
\<close>

theorem clear_races_with_queue:
  assumes "cfg_ok pw cfg" "reachable pw clk cfg junk h"
    and "h_effects h = [e]" "h_events h = []" "ef_thread e = ThreadRunning" "\<not> ef_abortRequested e"
    and "ef_timeout e \<le> 0" "ef_priority e < LOWEST_PRIORITY"
  shows "\<exists>h'. perform_all clk [EffSetColor (ef_id e) (PyRgb r g b), ReqClear (ef_priority e), EffEnd (ef_id e),
      ReqDeliver, ReqDeliver] h = Inr h' \<and> h_effects h' = [] \<and> h_events h' = [] \<and>
    (\<exists>info. mux_abs (h_muxer h') (ef_priority e) = Some info \<and> timeoutTime_ms info = -1 \<and>
       ledColors info = replicate (length (h_ledString h)) (rgb r g b))"
proof -
  let ?L = "cfg_leds cfg" and ?C = "cfg_clones cfg" and ?W = "cfg_hwLeds cfg"
  let ?i = "ef_id e" and ?p = "ef_priority e"
  have ok: "core_ok ?L ?C ?W h" "layout_ok ?L ?C" using reachable_core_ok [OF assms(2,1)] by simp_all
  have L: "h_ledString h = ?L" using core_okD(4) [OF ok(1)] .
  have len: "length (ef_colors e) = length ?L"
    using core_okD(2) [OF ok(1)] assms(3) by (simp add: effects_ok_def effect_ok_def)
  let ?cs = "replicate (length ?L) (rgb r g b)"
  let ?e1 = "e\<lparr>ef_colors := ?cs\<rparr>"
  let ?ev = "EvSetColors ?p ?cs (ef_timeout e) COMP_EFFECT"
  define h1 where "h1 = h\<lparr>h_effects := [?e1], h_events := [?ev]\<rparr>"
  have "map (\<lambda>_. rgb r g b) (ef_colors e) = ?cs" using len by (simp add: map_replicate_const)
  then have s1: "perform clk (EffSetColor ?i (PyRgb r g b)) h = Inr h1"
    using assms(3-7) by (simp add: h1_def on_running_def ee_find_def eff_setColor_def eff_timeLeft_def
        eff_emit_def ee_set_def)
  have ok1: "core_ok ?L ?C ?W h1"
    using perform_ok [OF ok, of "EffSetColor ?i (PyRgb r g b)" clk] s1 by auto
  obtain h2 where h2: "hyp_clear clk ?p h1 = Inr h2" "core_ok ?L ?C ?W h2" "h_events h2 = [?ev]"
      "h_effects h2 = [?e1\<lparr>ef_abortRequested := True\<rparr>]"
    using clear_core_ok [OF ok1 ok(2), of clk ?p] by (auto simp: ee_channelCleared_def ee_abort_def h1_def)
  let ?e3 = "?e1\<lparr>ef_abortRequested := True, ef_thread := ThreadEnded\<rparr>"
  define h3 where "h3 = h2\<lparr>h_effects := [?e3], h_events := [?ev, EvFinished ?i]\<rparr>"
  have s3: "perform clk (EffEnd ?i) h2 = Inr h3"
    using h2(3,4) assms(5) by (simp add: h3_def on_running_def ee_find_def eff_end_def ee_set_def)
  have ok3: "core_ok ?L ?C ?W h3" using perform_ok [OF h2(2) ok(2), of "EffEnd ?i" clk] s3 by auto
  let ?h3 = "h3\<lparr>h_events := [EvFinished ?i]\<rparr>"
  have "effects_ok (length ?L) (h_nextEffect h3) (h_effects h3) [EvFinished ?i]"
    using core_okD(2) [OF ok3] by (simp add: h3_def effects_ok_def)
  then have ok3': "core_ok ?L ?C ?W ?h3" using ok3 by (simp add: core_ok_def hyp_ok_def)
  obtain h4 where h4: "hyp_setColors clk ?p ?cs (ef_timeout e) False COMP_EFFECT ?h3 = Inr h4"
      "core_ok ?L ?C ?W h4" "h_events h4 = [EvFinished ?i]" "h_effects h4 = [?e3]"
      "mux_abs (h_muxer h4) ?p = Some \<lparr>priority = ?p, timeoutTime_ms = -1, ledColors = ?cs, componentId = COMP_EFFECT\<rparr>"
    using setColors_core_ok [OF ok3' ok(2), of ?cs ?p "ef_timeout e" clk False COMP_EFFECT] assms(7)
    by (auto simp: h3_def)
  have s4: "perform clk ReqDeliver h3 = Inr h4" using h4(1) by (simp add: h3_def hyp_deliver_def)
  have s5: "perform clk ReqDeliver h4 =
      Inr (hyp_unRegisterPriority (ef_name e) (h4\<lparr>h_events := [], h_effects := []\<rparr>))"
    using h4(3,4) by (simp add: hyp_deliver_def ee_effectFinished_def ee_find_def)
  show ?thesis
    using s1 h2(1) s3 s4 s5 h4(5) L by (simp add: hyp_unRegisterPriority_def)
qed

text \<open>The state of the witness: one effect started and running.\<close>

lemma demo_running:
  obtains h e where "reachable (\<lambda>x y. 1) (\<lambda>n. int n) demo_cfg 7 h" "h_effects h = [e]" "h_events h = []"
    "ef_thread e = ThreadRunning" "\<not> ef_abortRequested e" "ef_timeout e = 0" "ef_priority e = 5"
proof -
  let ?clk = "\<lambda>n. int n"
  obtain h0 where h0: "hyp_new (\<lambda>x y. 1) ?clk demo_cfg 7 = Inr h0" and empty: "h_effects h0 = []" "h_events h0 = []"
    using hyp_new_ok [OF demo_cfg_ok, of ?clk 7] by blast
  let ?h1 = "snd (ee_runEffect ''a'' [] 5 0 ''s.py'' h0)"
  obtain e where e: "h_effects ?h1 = [e]" "h_events ?h1 = []" "ef_thread e = ThreadCreated" "\<not> ef_abortRequested e"
      "ef_timeout e = 0" "ef_priority e = 5"
    using empty by (simp add: ee_runEffect_def ee_runEffectScript_def Let_def ee_channelCleared_def ee_abort_def
        hyp_registerPriority_def)
  let ?h2 = "eff_run ?clk e ?h1"
  have h2: "h_effects ?h2 = [e\<lparr>ef_thread := ThreadRunning\<rparr>]" "h_events ?h2 = []"
    using e by (simp_all add: eff_run_def ee_set_def)
  have "reachable (\<lambda>x y. 1) ?clk demo_cfg 7 h0" using h0 by (rule reachable.Start)
  then have "reachable (\<lambda>x y. 1) ?clk demo_cfg 7 ?h1"
    by (rule reachable.Request [where req = "ReqEffect ''a'' [] 5 0 ''s.py''"]) simp_all
  then have "reachable (\<lambda>x y. 1) ?clk demo_cfg 7 ?h2"
    by (rule reachable.Request [where req = "EffRun (ef_id e)"]) (simp_all add: ee_find_def e)
  with h2 e show thesis by (intro that [of ?h2 "e\<lparr>ef_thread := ThreadRunning\<rparr>"]) simp_all
qed

theorem clear_races_with_queue_witness:
  "\<exists>h e h' info. h_effects h = [e] \<and>
     perform_all (\<lambda>n. int n) [EffSetColor (ef_id e) (PyRgb 9 8 7), ReqClear 5, EffEnd (ef_id e), ReqDeliver, ReqDeliver] h
       = Inr h' \<and> h_effects h' = [] \<and> mux_abs (h_muxer h') 5 = Some info \<and> timeoutTime_ms info = -1"
proof -
  obtain h e where h: "reachable (\<lambda>x y. 1) (\<lambda>n. int n) demo_cfg 7 h" "h_effects h = [e]" "h_events h = []"
    "ef_thread e = ThreadRunning" "\<not> ef_abortRequested e" "ef_timeout e = 0" "ef_priority e = 5"
    by (rule demo_running)
  from clear_races_with_queue [OF demo_cfg_ok h(1-5), of 9 8 7] h(2,6,7) show ?thesis
    by (auto simp: LOWEST_PRIORITY_def)
qed

end
