(* ===== verification/LedDevices.thy ===== *)
theory LedDevices
  imports Prelude "HOL-Library.Word"
begin

text \<open>
  The led devices that pack colours into a buffer and hand it to a transport
  (\<open>libsrc/leddevice/LedDevice*.cpp\<close>).  The contract of such a device is the locale
  \<open>frame_device\<close>: what \<open>init\<close> leaves in the buffer and what a \<open>write\<close> makes of it; its facts say
  that a sequence of writes sends exactly the protocol frames.  Every driver below interprets
  it.  A driver is its \<open>init\<close> (the buffer it allocates), its \<open>put\<close> (the part of \<open>write\<close> that
  fills the buffer) and the frame of its protocol.  \<open>_ledCount\<close> is a natural number.
\<close>

section \<open>The contract\<close>

fun send_all :: "(ColorRgb list \<Rightarrow> byte list \<Rightarrow> byte list res) \<Rightarrow> byte list \<Rightarrow> ColorRgb list list \<Rightarrow> byte list list res" where
  "send_all put buf [] = Inr []"
| "send_all put buf (cs # css) =
     res_bind (put cs buf) (\<lambda>buf'. res_bind (send_all put buf' css) (\<lambda>fs. Inr (buf' # fs)))"

text \<open>
  \<open>fits n\<close>: the driver supports \<open>n\<close> leds; \<open>good n b\<close>: what lies between header and trailer is
  something the driver left there.
\<close>

locale frame_device =
  fixes init :: "nat \<Rightarrow> byte list"
    and put :: "nat \<Rightarrow> ColorRgb list \<Rightarrow> byte list \<Rightarrow> byte list res"
    and hdr :: "nat \<Rightarrow> byte list" and body :: "ColorRgb list \<Rightarrow> byte list" and trl :: "nat \<Rightarrow> byte list"
    and good :: "nat \<Rightarrow> byte list \<Rightarrow> bool" and fits :: "nat \<Rightarrow> bool"
  assumes init_good: "fits n \<Longrightarrow> \<exists>b. good n b \<and> init n = hdr n @ b @ trl n"
    and body_good: "fits n \<Longrightarrow> length cs = n \<Longrightarrow> good n (body cs)"
    and put_body: "fits n \<Longrightarrow> length cs = n \<Longrightarrow> good n b \<Longrightarrow>
      put n cs (hdr n @ b @ trl n) = Inr (hdr n @ body cs @ trl n)"
begin

definition frame :: "ColorRgb list \<Rightarrow> byte list" where
  "frame cs = hdr (length cs) @ body cs @ trl (length cs)"

lemma send_all_frames_from:
  assumes "fits n" "good n b" "\<forall>cs \<in> set css. length cs = n"
  shows "send_all (put n) (hdr n @ b @ trl n) css = Inr (map frame css)"
  using assms(2,3)
proof (induction css arbitrary: b)
  case (Cons cs css)
  have "put n cs (hdr n @ b @ trl n) = Inr (frame cs)"
    using Cons.prems assms(1) put_body by (simp add: frame_def)
  moreover have "send_all (put n) (hdr n @ body cs @ trl n) css = Inr (map frame css)"
    using Cons.prems assms(1) by (intro Cons.IH) (simp_all add: body_good)
  ultimately show ?case using Cons.prems by (simp add: frame_def)
qed simp

lemma send_all_frames:
  assumes "fits n" "\<forall>cs \<in> set css. length cs = n"
  shows "send_all (put n) (init n) css =
    Inr (map (\<lambda>cs. hdr (length cs) @ body cs @ trl (length cs)) css)"
proof -
  obtain b where "good n b" "init n = hdr n @ b @ trl n" using init_good [OF assms(1)] by blast
  then show ?thesis using send_all_frames_from [OF assms(1) _ assms(2)] by (simp add: frame_def)
qed

end

text \<open>
  A device whose frames determine what it was given, up to the view of a colour the protocol
  can carry.
\<close>

locale decodable_device = frame_device +
  fixes dec :: "nat \<Rightarrow> byte list \<Rightarrow> 'v list" and view :: "ColorRgb \<Rightarrow> 'v"
  assumes dec_frame: "fits n \<Longrightarrow> length cs = n \<Longrightarrow> dec n (hdr n @ body cs @ trl n) = map view cs"
begin

lemma frame_determines:
  assumes "fits n" "length cs = n" "length ds = n" "frame cs = frame ds"
  shows "map view cs = map view ds"
  using dec_frame [OF assms(1,2)] dec_frame [OF assms(1,3)] assms(2-4) by (simp add: frame_def)

lemma sent_decodes:
  assumes "fits n" "\<forall>cs \<in> set css. length cs = n"
  shows "\<exists>fs. send_all (put n) (init n) css = Inr fs \<and> map (dec n) fs = map (map view) css"
proof (intro exI conjI)
  show "send_all (put n) (init n) css = Inr (map (\<lambda>cs. hdr (length cs) @ body cs @ trl (length cs)) css)"
    by (rule send_all_frames [OF assms])
  show "map (dec n) (map (\<lambda>cs. hdr (length cs) @ body cs @ trl (length cs)) css) = map (map view) css"
    using assms dec_frame by simp
qed

end

section \<open>Buffers of a given length\<close>

definition sized :: "(nat \<Rightarrow> nat) \<Rightarrow> nat \<Rightarrow> byte list \<Rightarrow> bool" where
  "sized sz n b \<longleftrightarrow> length b = sz n"

lemma length_concat_const:
  "(\<And>x. x \<in> set xs \<Longrightarrow> length (g x) = k) \<Longrightarrow> length (concat (map g xs)) = k * length xs"
  by (induction xs) simp_all

lemma map_nth_upt: "length cs = n \<Longrightarrow> map (\<lambda>i. g (cs ! i)) [0 ..< n] = map g cs"
  by (intro nth_equalityI) simp_all

text \<open>
  The loop of most drivers: for each led its bytes, one chunk behind the other.
\<close>

lemma led_loop_chunks:
  assumes n: "length cs = n" and g: "\<And>c. length (g c) = k" and mid: "length mid = k * n"
    and f: "\<And>i s. i < n \<Longrightarrow> length s = length pre + k * n + length post \<Longrightarrow>
      f i s = blit (length pre + k * i) (g (cs ! i)) s"
  shows "index_loop f [0 ..< n] (pre @ mid @ post) = Inr (pre @ concat (map g cs) @ post)"
proof -
  have "index_loop f [0 ..< n] (pre @ mid @ post)
      = Inr (pre @ concat (map (\<lambda>i. g (cs ! i)) [0 ..< n]) @ post)"
    using f g mid by (intro index_loop_chunks [where k = k]) simp_all
  then show ?thesis by (simp add: map_nth_upt [OF n])
qed

text \<open>One copy of the raw colours behind the header.\<close>

lemma blit_between:
  "length src = length mid \<Longrightarrow> off = length pre \<Longrightarrow> blit off src (pre @ mid @ post) = Inr (pre @ src @ post)"
  by (simp add: blit_def)

lemma memcpy_between:
  "k = length src \<Longrightarrow> length src = length mid \<Longrightarrow> off = length pre \<Longrightarrow>
     memcpy off src k (pre @ mid @ post) = Inr (pre @ src @ post)"
  by (simp add: memcpy_def blit_def)

end
