(* ===== verification/SerialDrivers.thy ===== *)
theory SerialDrivers
  imports LedDevices
begin

text \<open>
  Drivers that copy the colours behind a header: Adalight (both modes), Atmo, DMX (both
  devices), Sedu, Tpm2, Paintpack, RawHID, Ws2801 and raw UDP, with their frames.
\<close>

section \<open>Adalight\<close>

text \<open>The total led count is \<open>unsigned\<close>: one less than the count wraps for an empty string.\<close>

definition ada_header :: "int \<Rightarrow> byte list" where
  "ada_header ledTotal =
     (let hi = u8 (ledTotal div 256); lo = u8 ledTotal
      in [0x41, 0x64, 0x61, hi, lo, (hi XOR lo) XOR 0x55])"

definition adalight_init :: "nat \<Rightarrow> byte list" where
  "adalight_init n =
     (let buf = vec_resize (6 + 3 * n) 0 [] in
      ada_header ((int n - 1) mod 2 ^ 32) @ drop 6 buf)"

definition adalight_put :: "nat \<Rightarrow> ColorRgb list \<Rightarrow> byte list \<Rightarrow> byte list res" where
  "adalight_put n ledValues buf = memcpy 6 (raw_bytes ledValues) (length ledValues * 3) buf"

definition lightberry_end :: "nat \<Rightarrow> nat" where
  "lightberry_end n = max ((n + 15) div 16) 4"

definition lightberry_init :: "nat \<Rightarrow> byte list res" where
  "lightberry_init n =
     (let buf = vec_resize (6 + n * 4 + 4 + lightberry_end n) 0 [] in
      res_bind (index_loop (\<lambda>iLed. poke (iLed * 4 + 6) 0xFF) [1 ..< n + 1] buf) (\<lambda>buf.
        Inr (ada_header (int n) @ drop 6 buf)))"

definition lightberry_put :: "nat \<Rightarrow> ColorRgb list \<Rightarrow> byte list \<Rightarrow> byte list res" where
  "lightberry_put n ledValues buf =
     index_loop (\<lambda>iLed buf. res_bind (peek ledValues (iLed - 1)) (\<lambda>c.
        pokes (iLed * 4 + 7) [red c, green c, blue c] buf)) [1 ..< n + 1] buf"

lemma length_ada_header [simp]: "length (ada_header t) = 6"
  by (simp add: ada_header_def Let_def)

interpretation adalight: frame_device adalight_init adalight_put
  "\<lambda>n. ada_header ((int n - 1) mod 2 ^ 32)" raw_bytes "\<lambda>_. []" "sized (\<lambda>n. 3 * n)" "\<lambda>_. True"
proof
  show "\<exists>b. sized (\<lambda>n. 3 * n) n b \<and> adalight_init n = ada_header ((int n - 1) mod 2 ^ 32) @ b @ []" for n
    by (simp add: adalight_init_def sized_def)
  show "sized (\<lambda>n. 3 * n) n (raw_bytes cs)" if "length cs = n" for n and cs :: "ColorRgb list"
    using that by (simp add: sized_def)
  show "adalight_put n cs (ada_header ((int n - 1) mod 2 ^ 32) @ b @ []) =
      Inr (ada_header ((int n - 1) mod 2 ^ 32) @ raw_bytes cs @ [])"
    if "length cs = n" "sized (\<lambda>n. 3 * n) n b" for n cs b
    using that memcpy_between [of "length cs * 3" "raw_bytes cs" b 6 "ada_header ((int n - 1) mod 2 ^ 32)" "[]"]
    by (simp add: adalight_put_def sized_def)
qed

text \<open>
  In the other mode every led has a marker byte, written once by \<open>init\<close>: the body of a buffer
  is good when the markers are there.
\<close>

definition berry_bytes :: "ColorRgb \<Rightarrow> byte list" where
  "berry_bytes c = [0xFF, red c, green c, blue c]"

definition marked :: "nat \<Rightarrow> byte list \<Rightarrow> bool" where
  "marked n b \<longleftrightarrow> (\<exists>cs. length cs = n \<and> b = concat (map berry_bytes cs))"

lemma length_berry_bytes [simp]: "length (berry_bytes c) = 4"
  by (simp add: berry_bytes_def)

lemma concat_map_nth: "length cs = n \<Longrightarrow> concat (map (\<lambda>i. g (cs ! i)) [0 ..< n]) = concat (map g cs)"
  by (simp add: map_nth_upt)

lemma concat_map_const: "concat (map (\<lambda>i. replicate k x) [0 ..< n]) = replicate (k * n) x"
proof (induction n)
  case (Suc n)
  then have "concat (map (\<lambda>i. replicate k x) [0 ..< Suc n]) = replicate (k * n + k) x"
    by (simp add: replicate_add)
  then show ?case by (simp add: add.commute)
qed simp

lemma lightberry_init_ok:
  "lightberry_init n = Inr ((ada_header (int n) @ [0, 0, 0, 0]) @
     concat (map berry_bytes (replicate n BLACK)) @ replicate (lightberry_end n) 0)"
proof -
  let ?pre = "replicate 10 (0 :: byte)" and ?post = "replicate (lightberry_end n) (0 :: byte)"
  have "index_loop (\<lambda>i. poke (Suc i * 4 + 6) 0xFF) [0 ..< n]
      (?pre @ concat (map (\<lambda>_. replicate 4 0) [0 ..< n]) @ ?post)
      = Inr (?pre @ concat (map (\<lambda>_. [0xFF, 0, 0, 0]) [0 ..< n]) @ ?post)"
  proof (rule index_loop_blocks)
    fix i left right assume "i < n" "length (left :: byte list) = 4 * i"
    then show "poke (Suc i * 4 + 6) 0xFF (?pre @ left @ replicate 4 0 @ right @ ?post)
        = Inr (?pre @ left @ [0xFF, 0, 0, 0] @ right @ ?post)"
      using poke_between [of "?pre @ left" "0xFF" 0 "replicate 3 0 @ right @ ?post"]
      by (simp add: numeral_eq_Suc add.commute mult.commute)
  qed simp
  moreover have "concat (map (\<lambda>_. [0xFF, 0, 0, 0]) [0 ..< n]) = concat (map berry_bytes (replicate n BLACK))"
    by (induction n) (simp_all add: berry_bytes_def BLACK_def replicate_append_same [symmetric])
  moreover have "vec_resize (6 + n * 4 + 4 + lightberry_end n) 0 [] =
      ?pre @ concat (map (\<lambda>_. replicate 4 0) [0 ..< n]) @ ?post"
    by (simp only: concat_map_const vec_resize_Nil replicate_add [symmetric]) (simp add: algebra_simps)
  ultimately show ?thesis
    by (simp only: lightberry_init_def Let_def index_loop_Suc res_bind_simps) (simp add: numeral_eq_Suc)
qed

interpretation lightberry: frame_device "\<lambda>n. projr (lightberry_init n)" lightberry_put
  "\<lambda>n. ada_header (int n) @ [0, 0, 0, 0]" "\<lambda>cs. concat (map berry_bytes cs)"
  "\<lambda>n. replicate (lightberry_end n) 0" marked "\<lambda>_. True"
proof
  show "\<exists>b. marked n b \<and> projr (lightberry_init n) =
      (ada_header (int n) @ [0, 0, 0, 0]) @ b @ replicate (lightberry_end n) 0" for n
    by (intro exI [of _ "concat (map berry_bytes (replicate n BLACK))"])
      (auto simp: lightberry_init_ok marked_def intro: exI [of _ "replicate n BLACK"])
  show "marked n (concat (map berry_bytes cs))" if "length cs = n" for n cs
    using that by (auto simp: marked_def)
  show "lightberry_put n cs ((ada_header (int n) @ [0, 0, 0, 0]) @ b @ replicate (lightberry_end n) 0)
      = Inr ((ada_header (int n) @ [0, 0, 0, 0]) @ concat (map berry_bytes cs) @ replicate (lightberry_end n) 0)"
    if cs: "length cs = n" and b: "marked n b" for n cs b
  proof -
    obtain ds where ds: "length ds = n" "b = concat (map berry_bytes ds)" using b by (auto simp: marked_def)
    let ?pre = "ada_header (int n) @ [0, 0, 0, 0]" and ?post = "replicate (lightberry_end n) (0 :: byte)"
    have "index_loop (\<lambda>i buf. res_bind (peek cs i) (\<lambda>c. pokes (i * 4 + 11) [red c, green c, blue c] buf)) [0 ..< n]
        (?pre @ concat (map (\<lambda>i. berry_bytes (ds ! i)) [0 ..< n]) @ ?post)
        = Inr (?pre @ concat (map (\<lambda>i. berry_bytes (cs ! i)) [0 ..< n]) @ ?post)"
    proof (rule index_loop_blocks)
      fix i left right assume i: "i < n" "length (left :: byte list) = 4 * i"
      show "res_bind (peek cs i) (\<lambda>c. pokes (i * 4 + 11) [red c, green c, blue c]
          (?pre @ left @ berry_bytes (ds ! i) @ right @ ?post))
          = Inr (?pre @ left @ berry_bytes (cs ! i) @ right @ ?post)"
        using pokes_between [of "[red (cs ! i), green (cs ! i), blue (cs ! i)]"
            "[red (ds ! i), green (ds ! i), blue (ds ! i)]" "?pre @ left @ [0xFF]" "right @ ?post"] i cs
        by (simp add: peek_ok berry_bytes_def add.commute mult.commute del: pokes.simps)
    qed simp
    then show ?thesis
      unfolding lightberry_put_def index_loop_Suc ds(2) concat_map_nth [OF cs] concat_map_nth [OF ds(1)]
      by (simp add: algebra_simps del: upt_Suc pokes.simps)
  qed
qed

section \<open>Atmo, RawHID, Tpm2, Ws2801 and raw UDP\<close>

text \<open>Atmo refuses every count but five; its buffer stays empty then.\<close>

definition atmo_init :: "nat \<Rightarrow> byte list" where
  "atmo_init n =
     (if n \<noteq> 5 then []
      else [0xFF, 0x00, 0x00, 0x0F] @ drop 4 (vec_resize (4 + 5 * 3) 0 []))"

definition atmo_put :: "nat \<Rightarrow> ColorRgb list \<Rightarrow> byte list \<Rightarrow> byte list res" where
  "atmo_put n ledValues buf = memcpy 4 (raw_bytes ledValues) (n * 3) buf"

interpretation atmo: frame_device atmo_init atmo_put
  "\<lambda>_. [0xFF, 0x00, 0x00, 0x0F]" raw_bytes "\<lambda>_. []" "sized (\<lambda>n. 3 * n)" "\<lambda>n. n = 5"
proof
  show "\<exists>b. sized (\<lambda>n. 3 * n) n b \<and> atmo_init n = [0xFF, 0x00, 0x00, 0x0F] @ b @ []" if "n = 5" for n
    using that by (simp add: atmo_init_def sized_def)
  show "sized (\<lambda>n. 3 * n) n (raw_bytes cs)" if "length cs = n" for n cs
    using that by (simp add: sized_def)
  show "atmo_put n cs ([0xFF, 0x00, 0x00, 0x0F] @ b @ []) = Inr ([0xFF, 0x00, 0x00, 0x0F] @ raw_bytes cs @ [])"
    if "length cs = n" "sized (\<lambda>n. 3 * n) n b" for n cs b
    using that memcpy_between [of "n * 3" "raw_bytes cs" b 4 "[0xFF, 0x00, 0x00, 0x0F]" "[]"]
    by (simp add: atmo_put_def sized_def)
qed

definition rawhid_init :: "nat \<Rightarrow> byte list" where
  "rawhid_init n = vec_resize (3 * n) 0 []"

definition rawhid_put :: "nat \<Rightarrow> ColorRgb list \<Rightarrow> byte list \<Rightarrow> byte list res" where
  "rawhid_put n ledValues buf = memcpy 0 (raw_bytes ledValues) (3 * n) buf"

interpretation rawhid: frame_device rawhid_init rawhid_put "\<lambda>_. []" raw_bytes "\<lambda>_. []"
  "sized (\<lambda>n. 3 * n)" "\<lambda>_. True"
  by unfold_locales (simp_all add: rawhid_init_def rawhid_put_def sized_def memcpy_def blit_def)

text \<open>Ws2801 and raw UDP send the colours as they lie in memory, without a buffer.\<close>

definition ws2801_put :: "nat \<Rightarrow> ColorRgb list \<Rightarrow> byte list \<Rightarrow> byte list res" where
  "ws2801_put n ledValues buf =
     (let dataLen = n * 3; raw = raw_bytes ledValues
      in if dataLen \<le> length raw then Inr (take dataLen raw) else Inl Undefined)"

definition udpraw_put :: "nat \<Rightarrow> ColorRgb list \<Rightarrow> byte list \<Rightarrow> byte list res" where
  "udpraw_put n ledValues buf =
     (if 3 * n \<le> length (raw_bytes ledValues) then Inr (take (3 * n) (raw_bytes ledValues))
      else Inl Undefined)"

interpretation ws2801: frame_device "\<lambda>_. []" ws2801_put "\<lambda>_. []" raw_bytes "\<lambda>_. []" "\<lambda>_ _. True" "\<lambda>_. True"
  by unfold_locales (simp_all add: ws2801_put_def Let_def)

interpretation udpraw: frame_device "\<lambda>_. []" udpraw_put "\<lambda>_. []" raw_bytes "\<lambda>_. []" "\<lambda>_ _. True" "\<lambda>_. True"
  by unfold_locales (simp_all add: udpraw_put_def)

definition tpm2_header :: "nat \<Rightarrow> byte list" where
  "tpm2_header n = [0xC9, 0xDA, u8 (int (3 * n) div 256), u8 (int (3 * n))]"

definition tpm2_init :: "nat \<Rightarrow> byte list" where
  "tpm2_init n =
     (let buf = vec_resize (5 + 3 * n) 0 []
      in tpm2_header n @ drop 4 (buf[length buf - 1 := 0x36]))"

definition tpm2_put :: "nat \<Rightarrow> ColorRgb list \<Rightarrow> byte list \<Rightarrow> byte list res" where
  "tpm2_put n ledValues buf = memcpy 4 (raw_bytes ledValues) (3 * n) buf"

lemma replicate_update_last: "(replicate (Suc k) x)[k := y] = replicate k x @ [y]"
  by (induction k) simp_all

interpretation tpm2: frame_device tpm2_init tpm2_put tpm2_header raw_bytes "\<lambda>_. [0x36]"
  "sized (\<lambda>n. 3 * n)" "\<lambda>_. True"
proof
  have "drop 4 ((replicate (Suc (4 + 3 * n)) 0)[4 + 3 * n := 0x36]) = replicate (3 * n) 0 @ [0x36 :: byte]" for n
    by (simp only: replicate_update_last) simp
  then show "\<exists>b. sized (\<lambda>n. 3 * n) n b \<and> tpm2_init n = tpm2_header n @ b @ [0x36]" for n
    by (intro exI [of _ "replicate (3 * n) 0"]) (simp add: tpm2_init_def sized_def Let_def)
  show "sized (\<lambda>n. 3 * n) n (raw_bytes cs)" if "length cs = n" for n cs
    using that by (simp add: sized_def)
  show "tpm2_put n cs (tpm2_header n @ b @ [0x36]) = Inr (tpm2_header n @ raw_bytes cs @ [0x36])"
    if "length cs = n" "sized (\<lambda>n. 3 * n) n b" for n cs b
    using that memcpy_between [of "3 * n" "raw_bytes cs" b 4 "tpm2_header n" "[0x36]"]
    by (simp add: tpm2_put_def sized_def tpm2_header_def)
qed

section \<open>Paintpack\<close>

definition paintpack_init :: "nat \<Rightarrow> byte list" where
  "paintpack_init n = [3, 0] @ drop 2 (vec_resize (3 * n + 2) 0 [])"

text \<open>The iterator moves through the buffer without a check of its end.\<close>

definition paintpack_put :: "nat \<Rightarrow> ColorRgb list \<Rightarrow> byte list \<Rightarrow> byte list res" where
  "paintpack_put n ledValues buf =
     index_loop (\<lambda>i. pokes (2 + 3 * i) (color_bytes (ledValues ! i))) [0 ..< length ledValues] buf"

interpretation paintpack: frame_device paintpack_init paintpack_put "\<lambda>_. [3, 0]" raw_bytes "\<lambda>_. []"
  "sized (\<lambda>n. 3 * n)" "\<lambda>_. True"
proof
  show "\<exists>b. sized (\<lambda>n. 3 * n) n b \<and> paintpack_init n = [3, 0] @ b @ []" for n
    by (simp add: paintpack_init_def sized_def)
  show "sized (\<lambda>n. 3 * n) n (raw_bytes cs)" if "length cs = n" for n cs
    using that by (simp add: sized_def)
  show "paintpack_put n cs ([3, 0] @ b @ []) = Inr ([3, 0] @ raw_bytes cs @ [])"
    if "length cs = n" "sized (\<lambda>n. 3 * n) n b" for n cs b
    using that led_loop_chunks [of cs n color_bytes 3 b "[3, 0]" "[]"
        "\<lambda>i. pokes (2 + 3 * i) (color_bytes (cs ! i))"]
    by (simp add: paintpack_put_def sized_def raw_bytes_def pokes_blit add.commute)
qed

section \<open>Sedu\<close>

definition sedu_frames :: "(byte \<times> nat) list" where
  "sedu_frames = [(0xA1, 256), (0xA2, 512), (0xB0, 768), (0xB1, 1536), (0xB2, 3072)]"

text \<open>The first frame type that is large enough; without one the buffer stays empty.\<close>

definition sedu_spec :: "nat \<Rightarrow> (byte \<times> nat) option" where
  "sedu_spec n = List.find (\<lambda>(_, sz). 3 * n \<le> sz) sedu_frames"

definition sedu_init :: "nat \<Rightarrow> byte list" where
  "sedu_init n =
     (case sedu_spec n of
        None \<Rightarrow> []
      | Some (fid, sz) \<Rightarrow>
          (let buf = vec_resize (sz + 3) 0 []
           in [0x5A, fid] @ drop 2 (buf[length buf - 1 := 0xA5])))"

definition sedu_put :: "nat \<Rightarrow> ColorRgb list \<Rightarrow> byte list \<Rightarrow> byte list res" where
  "sedu_put n ledValues buf = blit 2 (raw_bytes ledValues) buf"

definition sedu_hdr :: "nat \<Rightarrow> byte list" where
  "sedu_hdr n = [0x5A, fst (the (sedu_spec n))]"

definition sedu_trl :: "nat \<Rightarrow> byte list" where
  "sedu_trl n = replicate (snd (the (sedu_spec n)) - 3 * n) 0 @ [0xA5]"

lemma sedu_spec_fits: "3 * n \<le> 3072 \<Longrightarrow> \<exists>fid sz. sedu_spec n = Some (fid, sz) \<and> 3 * n \<le> sz"
  by (simp add: sedu_spec_def sedu_frames_def)

interpretation sedu: frame_device sedu_init sedu_put sedu_hdr raw_bytes sedu_trl
  "sized (\<lambda>n. 3 * n)" "\<lambda>n. 3 * n \<le> 3072"
proof
  show "\<exists>b. sized (\<lambda>n. 3 * n) n b \<and> sedu_init n = sedu_hdr n @ b @ sedu_trl n" if n: "3 * n \<le> 3072" for n
  proof -
    obtain fid sz where f: "sedu_spec n = Some (fid, sz)" "3 * n \<le> sz" using sedu_spec_fits [OF n] by blast
    have "drop 2 ((replicate (Suc (2 + sz)) 0)[2 + sz := 0xA5]) = replicate sz 0 @ [0xA5 :: byte]"
      by (simp only: replicate_update_last) simp
    then have "sedu_init n = [0x5A, fid] @ replicate sz 0 @ [0xA5]"
      using f by (simp add: sedu_init_def Let_def numeral_3_eq_3)
    moreover have "replicate sz (0 :: byte) = replicate (3 * n) 0 @ replicate (sz - 3 * n) 0"
      using f(2) by (simp flip: replicate_add)
    ultimately show ?thesis
      using f by (intro exI [of _ "replicate (3 * n) 0"]) (simp add: sized_def sedu_hdr_def sedu_trl_def)
  qed
  show "sized (\<lambda>n. 3 * n) n (raw_bytes cs)" if "length cs = n" for n cs
    using that by (simp add: sized_def)
  show "sedu_put n cs (sedu_hdr n @ b @ sedu_trl n) = Inr (sedu_hdr n @ raw_bytes cs @ sedu_trl n)"
    if "length cs = n" "sized (\<lambda>n. 3 * n) n b" for n cs b
    using that blit_between [of "raw_bytes cs" b 2 "sedu_hdr n" "sedu_trl n"]
    by (simp add: sedu_put_def sized_def sedu_hdr_def)
qed

section \<open>DMX\<close>

datatype dmx_type = DmxRaw | DmxMcCrypt

definition dmx_of :: "string \<Rightarrow> dmx_type" where
  "dmx_of s = (if s = ''raw'' then DmxRaw else if s = ''McCrypt'' then DmxMcCrypt else DmxRaw)"

fun dmx_slots :: "dmx_type \<Rightarrow> nat" where
  "dmx_slots DmxRaw = 3"
| "dmx_slots DmxMcCrypt = 4"

definition dmx_leds :: "dmx_type \<Rightarrow> nat \<Rightarrow> nat" where
  "dmx_leds t n = min n (512 div dmx_slots t)"

definition dmx_channels :: "dmx_type \<Rightarrow> nat \<Rightarrow> nat" where
  "dmx_channels t n = 1 + dmx_slots t * dmx_leds t n"

definition dmx_init :: "dmx_type \<Rightarrow> nat \<Rightarrow> byte list" where
  "dmx_init t n = [0] @ drop 1 (vec_resize (dmx_channels t n) 0 [])"

fun dmx_put :: "dmx_type \<Rightarrow> nat \<Rightarrow> ColorRgb list \<Rightarrow> byte list \<Rightarrow> byte list res" where
  "dmx_put DmxRaw n ledValues buf = memcpy 1 (raw_bytes ledValues) (dmx_channels DmxRaw n - 1) buf"
| "dmx_put DmxMcCrypt n ledValues buf =
     index_loop (\<lambda>d buf. res_bind (peek ledValues d) (\<lambda>c.
        pokes (1 + 4 * d) [red c, green c, blue c, 255] buf)) [0 ..< dmx_leds DmxMcCrypt n] buf"

fun dmx_bytes :: "dmx_type \<Rightarrow> ColorRgb \<Rightarrow> byte list" where
  "dmx_bytes DmxRaw c = color_bytes c"
| "dmx_bytes DmxMcCrypt c = [red c, green c, blue c, 255]"

definition dmx_body :: "dmx_type \<Rightarrow> ColorRgb list \<Rightarrow> byte list" where
  "dmx_body t cs = concat (map (dmx_bytes t) (take (512 div dmx_slots t) cs))"

lemma length_dmx_bytes [simp]: "length (dmx_bytes t c) = dmx_slots t"
  by (cases t) simp_all

lemma length_dmx_body: "length (dmx_body t cs) = dmx_slots t * dmx_leds t (length cs)"
  unfolding dmx_body_def by (subst length_concat_const [where k = "dmx_slots t"]) (simp_all add: dmx_leds_def min.commute)

lemma take_raw_bytes: "take (3 * k) (raw_bytes cs) = raw_bytes (take k cs)"
proof (induction cs arbitrary: k)
  case (Cons c cs)
  then show ?case by (cases k) simp_all
qed simp

lemma dmx_put_body:
  assumes "length cs = n" "length b = dmx_slots t * dmx_leds t n"
  shows "dmx_put t n cs ([0] @ b @ []) = Inr ([0] @ dmx_body t cs @ [])"
proof (cases t)
  case DmxRaw
  have "take (3 * dmx_leds DmxRaw n) (raw_bytes cs) = dmx_body DmxRaw cs"
    unfolding take_raw_bytes using assms(1)
    by (simp add: dmx_body_def dmx_leds_def raw_bytes_def min_def cong: map_cong)
  moreover have "dmx_leds DmxRaw n \<le> length cs" using assms(1) by (simp add: dmx_leds_def)
  ultimately show ?thesis
    using assms DmxRaw length_dmx_body [of DmxRaw cs] by (simp add: dmx_channels_def memcpy_def blit_def)
next
  case DmxMcCrypt
  let ?k = "dmx_leds DmxMcCrypt n"
  have k: "?k \<le> length cs" "take ?k cs = take 128 cs" using assms(1) by (simp_all add: dmx_leds_def min_def)
  have "index_loop (\<lambda>d buf. res_bind (peek cs d) (\<lambda>c. pokes (1 + 4 * d) [red c, green c, blue c, 255] buf))
      [0 ..< ?k] ([0] @ b @ []) = Inr ([0] @ concat (map (dmx_bytes DmxMcCrypt) (take ?k cs)) @ [])"
  proof (rule led_loop_chunks [where k = 4])
    fix i s assume "i < ?k" "length (s :: byte list) = length [0 :: byte] + 4 * ?k + length ([] :: byte list)"
    then show "res_bind (peek cs i) (\<lambda>c. pokes (1 + 4 * i) [red c, green c, blue c, 255] s) =
        blit (length [0 :: byte] + 4 * i) (dmx_bytes DmxMcCrypt (take ?k cs ! i)) s"
      using k(1) by (simp add: peek_ok pokes_blit del: pokes.simps)
  qed (use assms DmxMcCrypt k(1) in simp_all)
  then show ?thesis using DmxMcCrypt k by (simp add: dmx_body_def)
qed

interpretation dmx_raw: frame_device "dmx_init DmxRaw" "dmx_put DmxRaw" "\<lambda>_. [0]" "dmx_body DmxRaw" "\<lambda>_. []"
  "sized (\<lambda>n. dmx_slots DmxRaw * dmx_leds DmxRaw n)" "\<lambda>_. True"
  using dmx_put_body [where t = DmxRaw]
  by unfold_locales (auto simp: dmx_init_def sized_def dmx_channels_def length_dmx_body)

interpretation dmx_mccrypt: frame_device "dmx_init DmxMcCrypt" "dmx_put DmxMcCrypt" "\<lambda>_. [0]" "dmx_body DmxMcCrypt" "\<lambda>_. []"
  "sized (\<lambda>n. dmx_slots DmxMcCrypt * dmx_leds DmxMcCrypt n)" "\<lambda>_. True"
  using dmx_put_body [where t = DmxMcCrypt]
  by unfold_locales (auto simp: dmx_init_def sized_def dmx_channels_def length_dmx_body)

end
