(* ===== verification/SpiDrivers.thy ===== *)
theory SpiDrivers
  imports LedDevices
begin

text \<open>
  Drivers of clocked led strips: APA102, Lpd6803, Lpd8806, P9813, and the strips whose bits are
  stretched to SPI pulses (Ws2812SPI, Sk6812SPI, Sk6822SPI), with the conversion to RGBW
  (\<open>libsrc/utils/RgbToRgbw.cpp\<close>).  Besides the frames: what a strip can recover from them.
\<close>

section \<open>APA102\<close>

definition apa102_end :: "nat \<Rightarrow> nat" where
  "apa102_end n = max ((n + 15) div 16) 4"

definition apa102_init :: "nat \<Rightarrow> byte list" where
  "apa102_init n = [0, 0, 0, 0] @ drop 4 (vec_resize (n * 4 + 4 + apa102_end n) 0xFF [])"

definition apa102_bytes :: "ColorRgb \<Rightarrow> byte list" where
  "apa102_bytes c = [0xFF, red c, green c, blue c]"

definition apa102_put :: "nat \<Rightarrow> ColorRgb list \<Rightarrow> byte list \<Rightarrow> byte list res" where
  "apa102_put n ledValues buf =
     index_loop (\<lambda>iLed buf. res_bind (peek ledValues iLed) (\<lambda>c.
        pokes (4 + iLed * 4) (apa102_bytes c) buf)) [0 ..< n] buf"

text \<open>The general form of these loops: for led \<open>i\<close> the bytes \<open>g\<close> of its colour.\<close>

lemma peek_loop:
  fixes g :: "ColorRgb \<Rightarrow> byte list"
  assumes "length cs = n" "\<And>c. length (g c) = k" "length b = k * n" "length pre = off"
  shows "index_loop (\<lambda>i buf. res_bind (peek cs i) (\<lambda>c. pokes (off + i * k) (g c) buf)) [0 ..< n] (pre @ b @ post)
    = Inr (pre @ concat (map g cs) @ post)"
proof (rule led_loop_chunks)
  fix i s assume i: "i < n" and s: "length (s :: byte list) = length pre + k * n + length post"
  have "k * Suc i \<le> k * n" using i by (intro mult_le_mono2) simp
  then show "res_bind (peek cs i) (\<lambda>c. pokes (off + i * k) (g c) s) = blit (length pre + k * i) (g (cs ! i)) s"
    using assms i s by (simp add: peek_ok pokes_blit mult.commute)
qed (use assms in simp_all)

interpretation apa102: frame_device apa102_init apa102_put "\<lambda>_. [0, 0, 0, 0]"
  "\<lambda>cs. concat (map apa102_bytes cs)" "\<lambda>n. replicate (apa102_end n) 0xFF" "sized (\<lambda>n. 4 * n)" "\<lambda>_. True"
proof
  show "\<exists>b. sized (\<lambda>n. 4 * n) n b \<and> apa102_init n = [0, 0, 0, 0] @ b @ replicate (apa102_end n) 0xFF" for n
    by (intro exI [of _ "replicate (4 * n) 0xFF"])
      (simp add: apa102_init_def sized_def algebra_simps flip: replicate_add)
  show "sized (\<lambda>n. 4 * n) n (concat (map apa102_bytes cs))" if "length cs = n" for n cs
    using that by (simp add: sized_def length_concat_const [where k = 4] apa102_bytes_def)
  show "apa102_put n cs ([0, 0, 0, 0] @ b @ replicate (apa102_end n) 0xFF)
      = Inr ([0, 0, 0, 0] @ concat (map apa102_bytes cs) @ replicate (apa102_end n) 0xFF)"
    if "length cs = n" "sized (\<lambda>n. 4 * n) n b" for n cs b
    unfolding apa102_put_def using that
    by (intro peek_loop) (simp_all add: sized_def apa102_bytes_def)
qed

section \<open>Lpd6803 and Lpd8806\<close>

definition lpd6803_init :: "nat \<Rightarrow> byte list" where
  "lpd6803_init n = vec_resize (4 + 2 * n + n div 8 + 1) 0 []"

definition lpd6803_bytes :: "ColorRgb \<Rightarrow> byte list" where
  "lpd6803_bytes c =
     [0x80 OR drop_bit 1 (red c AND 0xf8) OR drop_bit 6 (green c),
      push_bit 2 (green c AND 0x38) OR drop_bit 3 (blue c)]"

definition lpd6803_put :: "nat \<Rightarrow> ColorRgb list \<Rightarrow> byte list \<Rightarrow> byte list res" where
  "lpd6803_put n ledValues buf =
     index_loop (\<lambda>iLed buf. res_bind (peek ledValues iLed) (\<lambda>c.
        pokes (4 + iLed * 2) (lpd6803_bytes c) buf)) [0 ..< n] buf"

definition lpd8806_init :: "nat \<Rightarrow> byte list" where
  "lpd8806_init n = vec_resize (3 * n + (n div 32 + 1)) 0 []"

definition lpd8806_bytes :: "ColorRgb \<Rightarrow> byte list" where
  "lpd8806_bytes c = [0x80 OR drop_bit 1 (red c), 0x80 OR drop_bit 1 (green c), 0x80 OR drop_bit 1 (blue c)]"

definition lpd8806_put :: "nat \<Rightarrow> ColorRgb list \<Rightarrow> byte list \<Rightarrow> byte list res" where
  "lpd8806_put n ledValues buf =
     index_loop (\<lambda>iLed buf. res_bind (peek ledValues iLed) (\<lambda>c.
        pokes (0 + iLed * 3) (lpd8806_bytes c) buf)) [0 ..< n] buf"

interpretation lpd6803: frame_device lpd6803_init lpd6803_put "\<lambda>_. [0, 0, 0, 0]"
  "\<lambda>cs. concat (map lpd6803_bytes cs)" "\<lambda>n. replicate (n div 8 + 1) 0" "sized (\<lambda>n. 2 * n)" "\<lambda>_. True"
proof
  show "\<exists>b. sized (\<lambda>n. 2 * n) n b \<and> lpd6803_init n = [0, 0, 0, 0] @ b @ replicate (n div 8 + 1) 0" for n
  proof -
    have "[0, 0, 0, 0 :: byte] = replicate 4 0" by (simp add: numeral_eq_Suc)
    then show ?thesis
      by (intro exI [of _ "replicate (2 * n) 0"])
        (simp add: lpd6803_init_def sized_def algebra_simps del: replicate.simps flip: replicate_add)
  qed
  show "sized (\<lambda>n. 2 * n) n (concat (map lpd6803_bytes cs))" if "length cs = n" for n cs
    using that by (simp add: sized_def length_concat_const [where k = 2] lpd6803_bytes_def)
  show "lpd6803_put n cs ([0, 0, 0, 0] @ b @ replicate (n div 8 + 1) 0)
      = Inr ([0, 0, 0, 0] @ concat (map lpd6803_bytes cs) @ replicate (n div 8 + 1) 0)"
    if "length cs = n" "sized (\<lambda>n. 2 * n) n b" for n cs b
    unfolding lpd6803_put_def using that
    by (intro peek_loop) (simp_all add: sized_def lpd6803_bytes_def)
qed

interpretation lpd8806: frame_device lpd8806_init lpd8806_put "\<lambda>_. []"
  "\<lambda>cs. concat (map lpd8806_bytes cs)" "\<lambda>n. replicate (n div 32 + 1) 0" "sized (\<lambda>n. 3 * n)" "\<lambda>_. True"
proof
  show "\<exists>b. sized (\<lambda>n. 3 * n) n b \<and> lpd8806_init n = [] @ b @ replicate (n div 32 + 1) 0" for n
    by (intro exI [of _ "replicate (3 * n) 0"])
      (simp add: lpd8806_init_def sized_def del: replicate.simps flip: replicate_add)
  show "sized (\<lambda>n. 3 * n) n (concat (map lpd8806_bytes cs))" if "length cs = n" for n cs
    using that by (simp add: sized_def length_concat_const [where k = 3] lpd8806_bytes_def)
  show "lpd8806_put n cs ([] @ b @ replicate (n div 32 + 1) 0)
      = Inr ([] @ concat (map lpd8806_bytes cs) @ replicate (n div 32 + 1) 0)"
    if "length cs = n" "sized (\<lambda>n. 3 * n) n b" for n cs b
    unfolding lpd8806_put_def using that
    by (intro peek_loop) (simp_all add: sized_def lpd8806_bytes_def)
qed

section \<open>P9813\<close>

definition p9813_init :: "nat \<Rightarrow> byte list" where
  "p9813_init n = vec_resize (n * 4 + 8) 0 []"

text \<open>The complements are taken in \<open>int\<close>, whose low two bits are kept.\<close>

definition calculateChecksum :: "ColorRgb \<Rightarrow> byte" where
  "calculateChecksum c =
     push_bit 6 0x03 OR push_bit 4 (NOT (drop_bit 6 (blue c)) AND 0x03)
       OR push_bit 2 (NOT (drop_bit 6 (green c)) AND 0x03) OR (NOT (drop_bit 6 (red c)) AND 0x03)"

definition p9813_bytes :: "ColorRgb \<Rightarrow> byte list" where
  "p9813_bytes c = [calculateChecksum c, blue c, green c, red c]"

text \<open>The data pointer moves over all given colours.\<close>

definition p9813_put :: "nat \<Rightarrow> ColorRgb list \<Rightarrow> byte list \<Rightarrow> byte list res" where
  "p9813_put n ledValues buf =
     index_loop (\<lambda>i. pokes (i * 4) (p9813_bytes (ledValues ! i))) [0 ..< length ledValues] buf"

text \<open>The loop over all colours, when they are as many as the buffer was made for.\<close>

lemma nth_loop:
  fixes g :: "ColorRgb \<Rightarrow> byte list"
  assumes "length cs = n" "\<And>c. length (g c) = k" "length b = k * n"
  shows "index_loop (\<lambda>i. pokes (i * k) (g (cs ! i))) [0 ..< length cs] (b @ post)
    = Inr (concat (map g cs) @ post)"
proof -
  have "index_loop (\<lambda>i. pokes (i * k) (g (cs ! i))) [0 ..< n] ([] @ b @ post) = Inr ([] @ concat (map g cs) @ post)"
  proof (rule led_loop_chunks)
    fix i s assume i: "i < n" and s: "length (s :: byte list) = length ([] :: byte list) + k * n + length post"
    have "k * Suc i \<le> k * n" using i by (intro mult_le_mono2) simp
    then show "pokes (i * k) (g (cs ! i)) s = blit (length ([] :: byte list) + k * i) (g (cs ! i)) s"
      using assms i s by (simp add: pokes_blit mult.commute)
  qed (use assms in simp_all)
  then show ?thesis using assms(1) by simp
qed

interpretation p9813: frame_device p9813_init p9813_put "\<lambda>_. []"
  "\<lambda>cs. concat (map p9813_bytes cs)" "\<lambda>_. replicate 8 0" "sized (\<lambda>n. 4 * n)" "\<lambda>_. True"
proof
  show "\<exists>b. sized (\<lambda>n. 4 * n) n b \<and> p9813_init n = [] @ b @ replicate 8 0" for n
    by (intro exI [of _ "replicate (4 * n) 0"])
      (simp add: p9813_init_def sized_def algebra_simps del: replicate.simps flip: replicate_add)
  show "sized (\<lambda>n. 4 * n) n (concat (map p9813_bytes cs))" if "length cs = n" for n cs
    using that by (simp add: sized_def length_concat_const [where k = 4] p9813_bytes_def)
  show "p9813_put n cs ([] @ b @ replicate 8 0) = Inr ([] @ concat (map p9813_bytes cs) @ replicate 8 0)"
    if "length cs = n" "sized (\<lambda>n. 4 * n) n b" for n cs b
    unfolding p9813_put_def append_Nil using that
    by (intro nth_loop) (simp_all add: sized_def p9813_bytes_def)
qed

section \<open>Bits as SPI pulses\<close>

definition ws2812_table :: "byte list" where
  "ws2812_table = [0x88, 0x8C, 0xC8, 0xCC]"

definition sk6822_table :: "byte list" where
  "sk6822_table = [0x88, 0x8E, 0xE8, 0xEE]"

text \<open>The inner loop: from the last byte of the led to the first, two bits each.\<close>

fun spi_loop :: "byte list \<Rightarrow> nat \<Rightarrow> nat \<Rightarrow> 32 word \<Rightarrow> byte list \<Rightarrow> byte list res" where
  "spi_loop tab ptr 0 colorBits buf = Inr buf"
| "spi_loop tab ptr (Suc j) colorBits buf =
     res_bind (poke (ptr + j) (tab ! unat (colorBits AND 0x3)) buf)
       (spi_loop tab ptr j (drop_bit 2 colorBits))"

definition color_bits :: "ColorRgb \<Rightarrow> 32 word" where
  "color_bits c = push_bit 16 (ucast (red c)) OR push_bit 8 (ucast (green c)) OR ucast (blue c)"

text \<open>The bytes the loop produces, in the order they are sent.\<close>

fun bitpairs :: "byte list \<Rightarrow> nat \<Rightarrow> 32 word \<Rightarrow> byte list" where
  "bitpairs tab 0 w = []"
| "bitpairs tab (Suc j) w = bitpairs tab j (drop_bit 2 w) @ [tab ! unat (w AND 0x3)]"

lemma length_bitpairs [simp]: "length (bitpairs tab j w) = j"
  by (induction j arbitrary: w) simp_all

lemma spi_loop_blit:
  "ptr + j \<le> length buf \<Longrightarrow> spi_loop tab ptr j w buf = blit ptr (bitpairs tab j w) buf"
proof (induction j arbitrary: w buf)
  case (Suc j)
  let ?x = "tab ! unat (w AND 0x3)"
  have "drop (ptr + j) (buf[ptr + j := ?x]) = ?x # drop (Suc (ptr + j)) buf"
    using Suc.prems Cons_nth_drop_Suc [of "ptr + j" "buf[ptr + j := ?x]"] by (simp add: drop_update_cancel)
  then show ?case using Suc by (simp add: poke_ok blit_def)
qed (simp add: blit_def)

definition ws2812_init :: "nat \<Rightarrow> byte list" where
  "ws2812_init n = vec_resize (3 * n * 4 + 3) 0 []"

definition ws2812_put :: "nat \<Rightarrow> ColorRgb list \<Rightarrow> byte list \<Rightarrow> byte list res" where
  "ws2812_put n ledValues buf =
     res_bind (index_loop (\<lambda>i. spi_loop ws2812_table (i * 12) 12 (color_bits (ledValues ! i)))
                 [0 ..< length ledValues] buf)
       (pokes (length ledValues * 12) [0, 0, 0])"

section \<open>RGBW\<close>

datatype WhiteAlgorithm = INVALID | SUBTRACT_MINIMUM | SUB_MIN_WARM_ADJUST | WHITE_OFF

definition stringToWhiteAlgorithm :: "string \<Rightarrow> WhiteAlgorithm" where
  "stringToWhiteAlgorithm str =
     (if str = ''subtract_minimum'' then SUBTRACT_MINIMUM
      else if str = ''sub_min_warm_adjust'' then SUB_MIN_WARM_ADJUST
      else if str = [] \<or> str = ''white_off'' then WHITE_OFF
      else INVALID)"

record ColorRgbw =
  w_red :: byte
  w_green :: byte
  w_blue :: byte
  w_white :: byte

text \<open>Two algorithms leave the output variable as it is.\<close>

fun Rgb_to_Rgbw :: "ColorRgb \<Rightarrow> ColorRgbw \<Rightarrow> WhiteAlgorithm \<Rightarrow> ColorRgbw" where
  "Rgb_to_Rgbw c out SUBTRACT_MINIMUM =
     (let w = min (min (red c) (green c)) (blue c)
      in \<lparr>w_red = red c - w, w_green = green c - w, w_blue = blue c - w, w_white = w\<rparr>)"
| "Rgb_to_Rgbw c out SUB_MIN_WARM_ADJUST = out"
| "Rgb_to_Rgbw c out WHITE_OFF = \<lparr>w_red = red c, w_green = green c, w_blue = blue c, w_white = 0\<rparr>"
| "Rgb_to_Rgbw c out INVALID = out"

definition rgbw_bits :: "ColorRgbw \<Rightarrow> 32 word" where
  "rgbw_bits c = push_bit 24 (ucast (w_red c)) + push_bit 16 (ucast (w_green c))
     + push_bit 8 (ucast (w_blue c)) + ucast (w_white c)"

text \<open>\<open>temp\<close> is the value of the member \<open>_temp_rgbw\<close> before the first conversion.\<close>

definition sk6812_init :: "nat \<Rightarrow> byte list" where
  "sk6812_init n = vec_resize (4 * n * 4 + 3) 0 []"

definition sk6812_put :: "WhiteAlgorithm \<Rightarrow> ColorRgbw \<Rightarrow> nat \<Rightarrow> ColorRgb list \<Rightarrow> byte list \<Rightarrow> byte list res" where
  "sk6812_put alg temp n ledValues buf =
     res_bind (index_loop (\<lambda>i. spi_loop ws2812_table (i * 16) 16 (rgbw_bits (Rgb_to_Rgbw (ledValues ! i) temp alg)))
                 [0 ..< length ledValues] buf)
       (pokes (length ledValues * 16) [0, 0, 0])"

definition sk6822_init :: "nat \<Rightarrow> byte list" where
  "sk6822_init n = vec_resize (3 * n * 4 + n * 3 + 13) 0 []"

definition sk6822_put :: "nat \<Rightarrow> ColorRgb list \<Rightarrow> byte list \<Rightarrow> byte list res" where
  "sk6822_put n ledValues buf =
     index_loop (\<lambda>i. spi_loop sk6822_table (i * 15) 12 (color_bits (ledValues ! i)))
       [0 ..< length ledValues] buf"

section \<open>Frames of the pulse drivers\<close>

lemma spi_chunks:
  fixes bits :: "ColorRgb \<Rightarrow> 32 word"
  assumes "length cs = n" "length b = k * n"
  shows "index_loop (\<lambda>i. spi_loop tab (i * k) k (bits (cs ! i))) [0 ..< length cs] (b @ post)
    = Inr (concat (map (\<lambda>c. bitpairs tab k (bits c)) cs) @ post)"
proof -
  have "index_loop (\<lambda>i. spi_loop tab (i * k) k (bits (cs ! i))) [0 ..< n] ([] @ b @ post)
      = Inr ([] @ concat (map (\<lambda>c. bitpairs tab k (bits c)) cs) @ post)"
  proof (rule led_loop_chunks)
    fix i s assume i: "i < n" and s: "length (s :: byte list) = length ([] :: byte list) + k * n + length post"
    have "k * Suc i \<le> k * n" using i by (intro mult_le_mono2) simp
    then show "spi_loop tab (i * k) k (bits (cs ! i)) s
        = blit (length ([] :: byte list) + k * i) (bitpairs tab k (bits (cs ! i))) s"
      using s by (simp add: spi_loop_blit mult.commute)
  qed (use assms in simp_all)
  then show ?thesis using assms(1) by simp
qed

lemma latch_zero:
  assumes "length body = m"
  shows "pokes m [0, 0, 0] (body @ [0, 0, 0 :: byte]) = Inr (body @ [0, 0, 0])"
  using pokes_between [of "[0, 0, 0]" "[0, 0, 0]" body "[]"] assms by (simp del: pokes.simps)

lemma pulse_length: "length (concat (map (\<lambda>c. bitpairs tab k (bits c)) cs)) = k * length cs"
  by (rule length_concat_const) simp

lemma zeros_split: "replicate (m + 3) (0 :: byte) = replicate m 0 @ [0, 0, 0]"
proof -
  have "[0, 0, 0 :: byte] = replicate 3 0" by (simp add: numeral_3_eq_3)
  then show ?thesis by (simp only: replicate_add)
qed

interpretation ws2812: frame_device ws2812_init ws2812_put "\<lambda>_. []"
  "\<lambda>cs. concat (map (\<lambda>c. bitpairs ws2812_table 12 (color_bits c)) cs)" "\<lambda>_. [0, 0, 0]"
  "sized (\<lambda>n. 12 * n)" "\<lambda>_. True"
proof
  show "\<exists>b. sized (\<lambda>n. 12 * n) n b \<and> ws2812_init n = [] @ b @ [0, 0, 0]" for n
    using zeros_split [of "12 * n"]
    by (intro exI [of _ "replicate (12 * n) 0"]) (simp add: ws2812_init_def sized_def algebra_simps)
  show "sized (\<lambda>n. 12 * n) n (concat (map (\<lambda>c. bitpairs ws2812_table 12 (color_bits c)) cs))"
    if "length cs = n" for n cs using that by (simp add: sized_def pulse_length)
  show "ws2812_put n cs ([] @ b @ [0, 0, 0])
      = Inr ([] @ concat (map (\<lambda>c. bitpairs ws2812_table 12 (color_bits c)) cs) @ [0, 0, 0])"
    if "length cs = n" "sized (\<lambda>n. 12 * n) n b" for n cs b
    using that spi_chunks [of cs n b 12 ws2812_table color_bits "[0, 0, 0]"] latch_zero [OF pulse_length [of ws2812_table 12 color_bits cs]]
    by (simp add: ws2812_put_def sized_def mult.commute [of _ 12] del: pokes.simps)
qed

definition sk6812_bytes :: "WhiteAlgorithm \<Rightarrow> ColorRgbw \<Rightarrow> ColorRgb \<Rightarrow> byte list" where
  "sk6812_bytes alg temp c = bitpairs ws2812_table 16 (rgbw_bits (Rgb_to_Rgbw c temp alg))"

interpretation sk6812: frame_device sk6812_init "sk6812_put alg temp" "\<lambda>_. []"
  "\<lambda>cs. concat (map (sk6812_bytes alg temp) cs)" "\<lambda>_. [0, 0, 0]" "sized (\<lambda>n. 16 * n)" "\<lambda>_. True"
  for alg temp
proof
  show "\<exists>b. sized (\<lambda>n. 16 * n) n b \<and> sk6812_init n = [] @ b @ [0, 0, 0]" for n
    using zeros_split [of "16 * n"]
    by (intro exI [of _ "replicate (16 * n) 0"]) (simp add: sk6812_init_def sized_def algebra_simps)
  show "sized (\<lambda>n. 16 * n) n (concat (map (sk6812_bytes alg temp) cs))"
    if "length cs = n" for n cs
    using that pulse_length [of ws2812_table 16 "\<lambda>c. rgbw_bits (Rgb_to_Rgbw c temp alg)" cs]
    by (simp add: sized_def sk6812_bytes_def [abs_def])
  show "sk6812_put alg temp n cs ([] @ b @ [0, 0, 0])
      = Inr ([] @ concat (map (sk6812_bytes alg temp) cs) @ [0, 0, 0])"
    if "length cs = n" "sized (\<lambda>n. 16 * n) n b" for n cs b
    using that spi_chunks [of cs n b 16 ws2812_table "\<lambda>c. rgbw_bits (Rgb_to_Rgbw c temp alg)" "[0, 0, 0]"]
      latch_zero [OF pulse_length [of ws2812_table 16 "\<lambda>c. rgbw_bits (Rgb_to_Rgbw c temp alg)" cs]]
    by (simp add: sk6812_put_def sk6812_bytes_def [abs_def] sized_def mult.commute [of _ 16] del: pokes.simps)
qed

definition sk6822_bytes :: "ColorRgb \<Rightarrow> byte list" where
  "sk6822_bytes c = bitpairs sk6822_table 12 (color_bits c) @ [0, 0, 0]"

text \<open>The wait bytes behind every led are zero from the start and stay so.\<close>

definition waits :: "nat \<Rightarrow> byte list \<Rightarrow> bool" where
  "waits n b \<longleftrightarrow> (\<exists>h. (\<forall>i < n. length (h i) = 12) \<and> b = concat (map (\<lambda>i. h i @ [0, 0, 0]) [0 ..< n]))"

lemma spi_loop_between:
  "length ys = j \<Longrightarrow> ptr = length l \<Longrightarrow> spi_loop tab ptr j w (l @ ys @ r) = Inr (l @ bitpairs tab j w @ r)"
  by (subst spi_loop_blit) (simp_all add: blit_def)

interpretation sk6822: frame_device sk6822_init sk6822_put "\<lambda>_. []"
  "\<lambda>cs. concat (map sk6822_bytes cs)" "\<lambda>_. replicate 13 0" waits "\<lambda>_. True"
proof
  show "\<exists>b. waits n b \<and> sk6822_init n = [] @ b @ replicate 13 0" for n
  proof (intro exI conjI)
    show "waits n (concat (map (\<lambda>i. replicate 12 0 @ [0, 0, 0]) [0 ..< n]))"
      unfolding waits_def by (intro exI [of _ "\<lambda>_. replicate 12 0"]) simp
    have "concat (map (\<lambda>i. replicate 12 (0 :: byte) @ [0, 0, 0]) [0 ..< n]) = replicate (15 * n) 0"
    proof (induction n)
      case (Suc n)
      have "replicate 12 (0 :: byte) @ [0, 0, 0] = replicate 15 0" by (simp add: numeral_eq_Suc)
      with Suc have "concat (map (\<lambda>i. replicate 12 (0 :: byte) @ [0, 0, 0]) [0 ..< Suc n]) = replicate (15 * n + 15) 0"
        by (simp add: replicate_add)
      then show ?case by (simp add: add.commute)
    qed simp
    then show "sk6822_init n = [] @ concat (map (\<lambda>i. replicate 12 0 @ [0, 0, 0]) [0 ..< n]) @ replicate 13 0"
      by (simp add: sk6822_init_def algebra_simps del: replicate.simps flip: replicate_add)
  qed
  show "waits n (concat (map sk6822_bytes cs))" if "length cs = n" for n cs
  proof -
    have "concat (map sk6822_bytes cs) = concat (map (\<lambda>i. bitpairs sk6822_table 12 (color_bits (cs ! i)) @ [0, 0, 0]) [0 ..< n])"
      using map_nth_upt [OF that, of sk6822_bytes] by (simp add: sk6822_bytes_def)
    then show ?thesis
      unfolding waits_def by (intro exI [of _ "\<lambda>i. bitpairs sk6822_table 12 (color_bits (cs ! i))"]) simp
  qed
  show "sk6822_put n cs ([] @ b @ replicate 13 0) = Inr ([] @ concat (map sk6822_bytes cs) @ replicate 13 0)"
    if cs: "length cs = n" and b: "waits n b" for n cs b
  proof -
    obtain h where h: "\<And>i. i < n \<Longrightarrow> length (h i) = 12" "b = concat (map (\<lambda>i. h i @ [0, 0, 0]) [0 ..< n])"
      using b by (auto simp: waits_def)
    have "index_loop (\<lambda>i. spi_loop sk6822_table (i * 15) 12 (color_bits (cs ! i))) [0 ..< n]
        ([] @ concat (map (\<lambda>i. h i @ [0, 0, 0]) [0 ..< n]) @ replicate 13 0)
        = Inr ([] @ concat (map (\<lambda>i. sk6822_bytes (cs ! i)) [0 ..< n]) @ replicate 13 0)"
    proof (rule index_loop_blocks)
      fix i left right assume i: "i < n" "length (left :: byte list) = 15 * i"
      show "spi_loop sk6822_table (i * 15) 12 (color_bits (cs ! i)) ([] @ left @ (h i @ [0, 0, 0]) @ right @ replicate 13 0)
          = Inr ([] @ left @ sk6822_bytes (cs ! i) @ right @ replicate 13 0)"
        using spi_loop_between [of "h i" 12 "i * 15" left sk6822_table "color_bits (cs ! i)" "[0, 0, 0] @ right @ replicate 13 0"] i h(1)
        by (simp add: sk6822_bytes_def mult.commute)
    qed (simp add: sk6822_bytes_def)
    then show ?thesis by (simp add: sk6822_put_def cs h(2) map_nth_upt [OF cs])
  qed
qed

section \<open>What the strips recover\<close>

definition chunks :: "nat \<Rightarrow> nat \<Rightarrow> 'a list \<Rightarrow> 'a list list" where
  "chunks k n xs = map (\<lambda>i. take k (drop (k * i) xs)) [0 ..< n]"

lemma chunks_concat:
  assumes "\<And>c. length (g c) = k" "length cs = n"
  shows "chunks k n (concat (map g cs) @ post) = map g cs"
  using assms(2)
proof (induction cs arbitrary: n)
  case (Cons c cs)
  then obtain m where n: "n = Suc m" "length cs = m" by (cases n) auto
  have "chunks k (Suc m) (g c @ xs) = take k (g c @ xs) # chunks k m xs" for xs
    using assms(1) [of c] by (simp add: chunks_def upt_conv_Cons map_Suc_upt [symmetric] comp_def add.commute del: upt_Suc)
  then show ?case using Cons n assms(1) [of c] by simp
qed (simp add: chunks_def)

lemma decode_chunks:
  assumes "\<And>c. length (g c) = k" "length cs = n" "\<And>c. undo (g c) = view c"
  shows "map undo (chunks k n (concat (map g cs) @ post)) = map view cs"
  using assms(3) by (simp add: chunks_concat [OF assms(1,2)])

text \<open>
  A strip reads a bit from the length of a pulse: of the four SPI bits, \<open>1000\<close> is a zero and the longer pulse
  \<open>one\<close> a one; anything else is no bit.  The first bit is the most significant one.
\<close>

definition pulse_bit :: "byte \<Rightarrow> byte \<Rightarrow> 32 word option" where
  "pulse_bit one x = (if x = 0x8 then Some 0 else if x = one then Some 1 else None)"

definition pulse_pair :: "byte \<Rightarrow> byte \<Rightarrow> 32 word option" where
  "pulse_pair one b =
     (case (pulse_bit one (drop_bit 4 b), pulse_bit one (b AND 0xF)) of
        (Some x, Some y) \<Rightarrow> Some (push_bit 1 x OR y) | _ \<Rightarrow> None)"

definition unpulse :: "byte \<Rightarrow> byte list \<Rightarrow> 32 word option" where
  "unpulse one bs =
     foldl (\<lambda>acc b. case (acc, pulse_pair one b) of (Some a, Some v) \<Rightarrow> Some (push_bit 2 a OR v) | _ \<Rightarrow> None) (Some 0) bs"

lemma and_3_cases: "(w :: 32 word) AND 3 \<in> {0, 1, 2, 3}"
proof -
  have "w AND 3 = take_bit 2 w" using take_bit_eq_mask [of 2 w] by (simp add: mask_eq_exp_minus_1)
  then have "unat (w AND 3) < 4" using take_bit_nat_less_exp [of 2 "unat w"] by (simp add: unsigned_take_bit_eq)
  then have "unat (w AND 3) = 0 \<or> unat (w AND 3) = 1 \<or> unat (w AND 3) = 2 \<or> unat (w AND 3) = 3" by linarith
  then show ?thesis by (auto simp: word_unat_eq_iff)
qed

text \<open>The tables of the drivers hold the pulses for two bits: \<open>1100\<close> is a one for the Ws2812, \<open>1110\<close> for the Sk6822.\<close>

lemma table_pulses:
  "pulse_pair 0xC (ws2812_table ! unat (w AND 3)) = Some (w AND 3)"
  "pulse_pair 0xE (sk6822_table ! unat (w AND 3)) = Some (w AND 3)"
  using and_3_cases [of w] by (auto simp: pulse_pair_def pulse_bit_def ws2812_table_def sk6822_table_def)

lemma push_take_drop: "push_bit 2 (take_bit m (drop_bit 2 w)) OR (w AND 3) = take_bit (m + 2) (w :: 32 word)"
proof -
  have "w AND 3 = take_bit 2 w" by (simp add: take_bit_eq_mask mask_eq_exp_minus_1)
  moreover have "push_bit 2 (take_bit m (drop_bit 2 w)) OR take_bit 2 w = take_bit (m + 2) w"
  proof (rule bit_word_eqI)
    fix n assume "n < LENGTH(32)"
    show "bit (push_bit 2 (take_bit m (drop_bit 2 w)) OR take_bit 2 w) n = bit (take_bit (m + 2) w) n"
    proof (cases "n < 2")
      case False
      then obtain k where "n = k + 2" by (metis add.commute le_Suc_ex not_less)
      then show ?thesis using \<open>n < LENGTH(32)\<close> by (simp add: bit_simps add.commute)
    qed (simp add: bit_simps)
  qed
  ultimately show ?thesis by simp
qed

lemma unpulse_bitpairs:
  assumes "\<And>w. pulse_pair one (tab ! unat (w AND 3)) = Some (w AND 3)"
  shows "unpulse one (bitpairs tab j w) = Some (take_bit (2 * j) w)"
proof (induction j arbitrary: w)
  case (Suc j)
  have "unpulse one (bitpairs tab (Suc j) w) = Some (push_bit 2 (take_bit (2 * j) (drop_bit 2 w)) OR (w AND 3))"
    using assms [of w] Suc [of "drop_bit 2 w"] by (simp add: unpulse_def)
  also have "\<dots> = Some (take_bit (2 * j + 2) w)" by (simp only: push_take_drop)
  finally show ?case by (simp add: add.commute)
qed (simp add: unpulse_def)

definition rgb_of_bits :: "32 word \<Rightarrow> ColorRgb" where
  "rgb_of_bits w = rgb (ucast (drop_bit 16 w)) (ucast (drop_bit 8 w)) (ucast w)"

lemma rgb_of_color_bits: "rgb_of_bits (take_bit 24 (color_bits c)) = c"
proof -
  have "(ucast (drop_bit 16 (take_bit 24 (color_bits c))) :: byte) = red c"
    "(ucast (drop_bit 8 (take_bit 24 (color_bits c))) :: byte) = green c"
    "(ucast (take_bit 24 (color_bits c)) :: byte) = blue c"
    unfolding color_bits_def
    by (intro bit_word_eqI; force simp: bit_simps dest: bit_imp_le_length)+
  then show ?thesis by (simp add: rgb_of_bits_def)
qed

text \<open>The white of an RGBW strip adds to the three colours.\<close>

definition rgbw_of_bits :: "32 word \<Rightarrow> ColorRgbw" where
  "rgbw_of_bits w = \<lparr>w_red = ucast (drop_bit 24 w), w_green = ucast (drop_bit 16 w), w_blue = ucast (drop_bit 8 w), w_white = ucast w\<rparr>"

definition rgbw_shown :: "ColorRgbw \<Rightarrow> ColorRgb" where
  "rgbw_shown c = rgb (w_red c + w_white c) (w_green c + w_white c) (w_blue c + w_white c)"

lemma rgbw_of_rgbw_bits: "rgbw_of_bits (rgbw_bits c) = c"
proof -
  have low: "x AND y = 0 \<Longrightarrow> x + y = x OR y" for x y :: "32 word" by (rule disjunctive_add_eq_or)
  have "rgbw_bits c = push_bit 24 (ucast (w_red c)) OR push_bit 16 (ucast (w_green c))
      OR push_bit 8 (ucast (w_blue c)) OR ucast (w_white c)"
    unfolding rgbw_bits_def
    by (subst low, (intro bit_word_eqI; force simp: bit_simps dest: bit_imp_le_length)?)+ (simp add: or.assoc)
  then have "(ucast (drop_bit 24 (rgbw_bits c)) :: byte) = w_red c" "(ucast (drop_bit 16 (rgbw_bits c)) :: byte) = w_green c"
    "(ucast (drop_bit 8 (rgbw_bits c)) :: byte) = w_blue c" "(ucast (rgbw_bits c) :: byte) = w_white c"
    by (simp only:, intro bit_word_eqI; force simp: bit_simps dest: bit_imp_le_length)+
  then show ?thesis by (simp add: rgbw_of_bits_def)
qed

lemma rgbw_shown_white:
  "rgbw_shown (Rgb_to_Rgbw c temp SUBTRACT_MINIMUM) = c" "rgbw_shown (Rgb_to_Rgbw c temp WHITE_OFF) = c"
  by (simp_all add: rgbw_shown_def Let_def)

definition ws2812_decode :: "nat \<Rightarrow> byte list \<Rightarrow> ColorRgb option list" where
  "ws2812_decode n frm = map (\<lambda>bs. map_option rgb_of_bits (unpulse 0xC bs)) (chunks 12 n frm)"

definition sk6812_decode :: "nat \<Rightarrow> byte list \<Rightarrow> ColorRgb option list" where
  "sk6812_decode n frm = map (\<lambda>bs. map_option (\<lambda>w. rgbw_shown (rgbw_of_bits w)) (unpulse 0xC bs)) (chunks 16 n frm)"

definition sk6822_decode :: "nat \<Rightarrow> byte list \<Rightarrow> ColorRgb option list" where
  "sk6822_decode n frm = map (\<lambda>bs. map_option rgb_of_bits (unpulse 0xE (take 12 bs))) (chunks 15 n frm)"

definition apa102_decode :: "nat \<Rightarrow> byte list \<Rightarrow> ColorRgb list" where
  "apa102_decode n frm = map (\<lambda>bs. rgb (bs ! 1) (bs ! 2) (bs ! 3)) (chunks 4 n (drop 4 frm))"

definition p9813_decode :: "nat \<Rightarrow> byte list \<Rightarrow> ColorRgb list" where
  "p9813_decode n frm = map (\<lambda>bs. rgb (bs ! 3) (bs ! 2) (bs ! 1)) (chunks 4 n frm)"

text \<open>The Lpd8806 carries the upper seven bits of a channel, the Lpd6803 the upper five.\<close>

definition lpd8806_view :: "ColorRgb \<Rightarrow> byte list" where
  "lpd8806_view c = [drop_bit 1 (red c), drop_bit 1 (green c), drop_bit 1 (blue c)]"

definition lpd8806_decode :: "nat \<Rightarrow> byte list \<Rightarrow> byte list list" where
  "lpd8806_decode n frm = map (map (\<lambda>b. b AND 0x7F)) (chunks 3 n frm)"

definition lpd6803_view :: "ColorRgb \<Rightarrow> byte list" where
  "lpd6803_view c = [drop_bit 3 (red c), drop_bit 3 (green c), drop_bit 3 (blue c)]"

definition lpd6803_undo :: "byte list \<Rightarrow> byte list" where
  "lpd6803_undo bs =
     [drop_bit 2 (bs ! 0) AND 0x1F, push_bit 3 (bs ! 0 AND 0x03) OR drop_bit 5 (bs ! 1), bs ! 1 AND 0x1F]"

definition lpd6803_decode :: "nat \<Rightarrow> byte list \<Rightarrow> byte list list" where
  "lpd6803_decode n frm = map lpd6803_undo (chunks 2 n (drop 4 frm))"

lemma or_128: "0x80 OR x = set_bit 7 (x :: byte)"
  by (simp add: set_bit_eq_or or.commute)

lemma byte_masks: "(0x7F :: byte) = mask 7" "(0xf8 :: byte) = push_bit 3 (mask 5)"
    "(0x38 :: byte) = push_bit 3 (mask 3)" "(0x1F :: byte) = mask 5" "(0x03 :: byte) = mask 2"
  by (simp_all add: mask_eq_exp_minus_1)

lemma seven_bits: "(0x80 OR drop_bit 1 b) AND 0x7F = drop_bit 1 (b :: byte)"
  unfolding or_128 byte_masks by (intro bit_word_eqI) (auto simp: bit_simps dest: bit_imp_le_length)

lemma lpd6803_undo_bytes: "lpd6803_undo (lpd6803_bytes c) = lpd6803_view c"
proof -
  have three: "3 + n = Suc (Suc (Suc n))" for n :: nat by simp
  have "drop_bit 2 ((0x80 OR drop_bit 1 (r AND 0xf8)) OR drop_bit 6 g) AND 0x1F = drop_bit 3 r"
    for r g :: byte
    unfolding or_128 byte_masks by (intro bit_word_eqI) (auto simp: bit_simps three dest: bit_imp_le_length)
  moreover have "push_bit 3 (((0x80 OR drop_bit 1 (r AND 0xf8)) OR drop_bit 6 g) AND 0x03)
      OR drop_bit 5 (push_bit 2 (g AND 0x38) OR drop_bit 3 b) = drop_bit 3 g"
    for r g b :: byte
    unfolding or_128 byte_masks by (intro bit_word_eqI) (auto simp: bit_simps three dest: bit_imp_le_length)
  moreover have "(push_bit 2 (g AND 0x38) OR drop_bit 3 b) AND 0x1F = drop_bit 3 b"
    for g b :: byte
    unfolding byte_masks by (intro bit_word_eqI) (auto simp: bit_simps three dest: bit_imp_le_length)
  ultimately show ?thesis
    by (simp only: lpd6803_undo_def lpd6803_bytes_def lpd6803_view_def nth_Cons_0 nth_Cons_Suc One_nat_def or.assoc)
qed

interpretation ws2812_dec: decodable_device ws2812_init ws2812_put "\<lambda>_. []"
  "\<lambda>cs. concat (map (\<lambda>c. bitpairs ws2812_table 12 (color_bits c)) cs)" "\<lambda>_. [0, 0, 0]"
  "sized (\<lambda>n. 12 * n)" "\<lambda>_. True" ws2812_decode Some
proof
  show "ws2812_decode n ([] @ concat (map (\<lambda>c. bitpairs ws2812_table 12 (color_bits c)) cs) @ [0, 0, 0]) = map Some cs"
    if "length cs = n" for n cs
    unfolding ws2812_decode_def append_Nil
    by (rule decode_chunks) (simp_all add: that unpulse_bitpairs [OF table_pulses(1)] rgb_of_color_bits)
qed

interpretation sk6812_dec: decodable_device sk6812_init "sk6812_put alg temp" "\<lambda>_. []"
  "\<lambda>cs. concat (map (sk6812_bytes alg temp) cs)" "\<lambda>_. [0, 0, 0]" "sized (\<lambda>n. 16 * n)" "\<lambda>_. True"
  sk6812_decode "\<lambda>c. Some (rgbw_shown (Rgb_to_Rgbw c temp alg))" for alg temp
proof
  show "sk6812_decode n ([] @ concat (map (sk6812_bytes alg temp) cs) @ [0, 0, 0]) =
      map (\<lambda>c. Some (rgbw_shown (Rgb_to_Rgbw c temp alg))) cs"
    if "length cs = n" for n cs
    unfolding sk6812_decode_def append_Nil
    by (rule decode_chunks) (simp_all add: that sk6812_bytes_def unpulse_bitpairs [OF table_pulses(1)]
        take_bit_word_eq_self [of 32] rgbw_of_rgbw_bits)
qed

interpretation sk6822_dec: decodable_device sk6822_init sk6822_put "\<lambda>_. []"
  "\<lambda>cs. concat (map sk6822_bytes cs)" "\<lambda>_. replicate 13 0" waits "\<lambda>_. True" sk6822_decode Some
proof
  show "sk6822_decode n ([] @ concat (map sk6822_bytes cs) @ replicate 13 0) = map Some cs"
    if "length cs = n" for n cs
    unfolding sk6822_decode_def append_Nil
    by (rule decode_chunks) (simp_all add: that sk6822_bytes_def unpulse_bitpairs [OF table_pulses(2)] rgb_of_color_bits)
qed

interpretation apa102_dec: decodable_device apa102_init apa102_put "\<lambda>_. [0, 0, 0, 0]"
  "\<lambda>cs. concat (map apa102_bytes cs)" "\<lambda>n. replicate (apa102_end n) 0xFF" "sized (\<lambda>n. 4 * n)" "\<lambda>_. True"
  apa102_decode "\<lambda>c. c"
proof
  show "apa102_decode n ([0, 0, 0, 0] @ concat (map apa102_bytes cs) @ replicate (apa102_end n) 0xFF) = map (\<lambda>c. c) cs"
    if "length cs = n" for n cs
    using decode_chunks [of apa102_bytes 4 cs n "\<lambda>bs. rgb (bs ! 1) (bs ! 2) (bs ! 3)" "\<lambda>c. c"
        "replicate (apa102_end n) 0xFF"] that
    by (simp add: apa102_decode_def apa102_bytes_def)
qed

interpretation p9813_dec: decodable_device p9813_init p9813_put "\<lambda>_. []"
  "\<lambda>cs. concat (map p9813_bytes cs)" "\<lambda>_. replicate 8 0" "sized (\<lambda>n. 4 * n)" "\<lambda>_. True" p9813_decode "\<lambda>c. c"
proof
  show "p9813_decode n ([] @ concat (map p9813_bytes cs) @ replicate 8 0) = map (\<lambda>c. c) cs"
    if "length cs = n" for n cs
    unfolding p9813_decode_def append_Nil
    by (rule decode_chunks) (simp_all add: that p9813_bytes_def)
qed

interpretation lpd8806_dec: decodable_device lpd8806_init lpd8806_put "\<lambda>_. []"
  "\<lambda>cs. concat (map lpd8806_bytes cs)" "\<lambda>n. replicate (n div 32 + 1) 0" "sized (\<lambda>n. 3 * n)" "\<lambda>_. True"
  lpd8806_decode lpd8806_view
proof
  show "lpd8806_decode n ([] @ concat (map lpd8806_bytes cs) @ replicate (n div 32 + 1) 0) = map lpd8806_view cs"
    if "length cs = n" for n cs
    unfolding lpd8806_decode_def append_Nil
    by (rule decode_chunks) (simp_all add: that lpd8806_bytes_def lpd8806_view_def seven_bits [simplified])
qed

interpretation lpd6803_dec: decodable_device lpd6803_init lpd6803_put "\<lambda>_. [0, 0, 0, 0]"
  "\<lambda>cs. concat (map lpd6803_bytes cs)" "\<lambda>n. replicate (n div 8 + 1) 0" "sized (\<lambda>n. 2 * n)" "\<lambda>_. True"
  lpd6803_decode lpd6803_view
proof
  show "lpd6803_decode n ([0, 0, 0, 0] @ concat (map lpd6803_bytes cs) @ replicate (n div 8 + 1) 0) = map lpd6803_view cs"
    if "length cs = n" for n cs
    using decode_chunks [of lpd6803_bytes 2 cs n lpd6803_undo lpd6803_view "replicate (n div 8 + 1) 0"] that lpd6803_undo_bytes
    by (simp add: lpd6803_decode_def) (simp add: lpd6803_bytes_def)
qed

end
