(* ===== verification/Devices.thy ===== *)
theory Devices
  imports SerialDrivers SpiDrivers Components
begin

text \<open>
  The base class of the led devices (\<open>LedDevice\<close>, \<open>libsrc/leddevice/LedDevice.cpp\<close>) over the
  drivers that pack frames into a buffer, and the factory (\<open>LedDeviceFactory.cpp\<close>).  A frame
  written successfully is collected in \<open>ld_sent\<close>; the transport is taken to succeed.
\<close>

section \<open>The drivers behind one interface\<close>

datatype driver =
    Adalight | Lightberry | Atmo | RawHID | Ws2801 | UdpRaw | Tpm2 | Paintpack | Sedu | DMX dmx_type
  | APA102 | Lpd6803 | Lpd8806 | P9813 | Ws2812SPI | Sk6812SPI WhiteAlgorithm ColorRgbw | Sk6822SPI

fun drv_init :: "driver \<Rightarrow> nat \<Rightarrow> byte list" where
  "drv_init Adalight n = adalight_init n"
| "drv_init Lightberry n = projr (lightberry_init n)"
| "drv_init Atmo n = atmo_init n"
| "drv_init RawHID n = rawhid_init n"
| "drv_init Ws2801 n = []"
| "drv_init UdpRaw n = []"
| "drv_init Tpm2 n = tpm2_init n"
| "drv_init Paintpack n = paintpack_init n"
| "drv_init Sedu n = sedu_init n"
| "drv_init (DMX t) n = dmx_init t n"
| "drv_init APA102 n = apa102_init n"
| "drv_init Lpd6803 n = lpd6803_init n"
| "drv_init Lpd8806 n = lpd8806_init n"
| "drv_init P9813 n = p9813_init n"
| "drv_init Ws2812SPI n = ws2812_init n"
| "drv_init (Sk6812SPI alg temp) n = sk6812_init n"
| "drv_init Sk6822SPI n = sk6822_init n"

fun drv_put :: "driver \<Rightarrow> nat \<Rightarrow> ColorRgb list \<Rightarrow> byte list \<Rightarrow> byte list res" where
  "drv_put Adalight = adalight_put"
| "drv_put Lightberry = lightberry_put"
| "drv_put Atmo = atmo_put"
| "drv_put RawHID = rawhid_put"
| "drv_put Ws2801 = ws2801_put"
| "drv_put UdpRaw = udpraw_put"
| "drv_put Tpm2 = tpm2_put"
| "drv_put Paintpack = paintpack_put"
| "drv_put Sedu = sedu_put"
| "drv_put (DMX t) = dmx_put t"
| "drv_put APA102 = apa102_put"
| "drv_put Lpd6803 = lpd6803_put"
| "drv_put Lpd8806 = lpd8806_put"
| "drv_put P9813 = p9813_put"
| "drv_put Ws2812SPI = ws2812_put"
| "drv_put (Sk6812SPI alg temp) = sk6812_put alg temp"
| "drv_put Sk6822SPI = sk6822_put"

text \<open>What \<open>init\<close> returns, the member \<open>_deviceReady\<close>, when the transport can be set up.\<close>

fun drv_ready :: "driver \<Rightarrow> nat \<Rightarrow> bool" where
  "drv_ready Atmo n \<longleftrightarrow> n = 5"
| "drv_ready Sedu n \<longleftrightarrow> sedu_spec n \<noteq> None"
| "drv_ready (Sk6812SPI alg temp) n \<longleftrightarrow> alg \<noteq> INVALID"
| "drv_ready _ n \<longleftrightarrow> True"

text \<open>The frame of the protocol.\<close>

fun drv_frame :: "driver \<Rightarrow> ColorRgb list \<Rightarrow> byte list" where
  "drv_frame Adalight cs = ada_header ((int (length cs) - 1) mod 2 ^ 32) @ raw_bytes cs"
| "drv_frame Lightberry cs = (ada_header (int (length cs)) @ [0, 0, 0, 0]) @ concat (map berry_bytes cs) @
     replicate (lightberry_end (length cs)) 0"
| "drv_frame Atmo cs = [0xFF, 0x00, 0x00, 0x0F] @ raw_bytes cs"
| "drv_frame RawHID cs = raw_bytes cs"
| "drv_frame Ws2801 cs = raw_bytes cs"
| "drv_frame UdpRaw cs = raw_bytes cs"
| "drv_frame Tpm2 cs = tpm2_header (length cs) @ raw_bytes cs @ [0x36]"
| "drv_frame Paintpack cs = [3, 0] @ raw_bytes cs"
| "drv_frame Sedu cs = sedu_hdr (length cs) @ raw_bytes cs @ sedu_trl (length cs)"
| "drv_frame (DMX t) cs = [0] @ dmx_body t cs"
| "drv_frame APA102 cs = [0, 0, 0, 0] @ concat (map apa102_bytes cs) @ replicate (apa102_end (length cs)) 0xFF"
| "drv_frame Lpd6803 cs = [0, 0, 0, 0] @ concat (map lpd6803_bytes cs) @ replicate (length cs div 8 + 1) 0"
| "drv_frame Lpd8806 cs = concat (map lpd8806_bytes cs) @ replicate (length cs div 32 + 1) 0"
| "drv_frame P9813 cs = concat (map p9813_bytes cs) @ replicate 8 0"
| "drv_frame Ws2812SPI cs = concat (map (\<lambda>c. bitpairs ws2812_table 12 (color_bits c)) cs) @ [0, 0, 0]"
| "drv_frame (Sk6812SPI alg temp) cs = concat (map (sk6812_bytes alg temp) cs) @ [0, 0, 0]"
| "drv_frame Sk6822SPI cs = concat (map sk6822_bytes cs) @ replicate 13 0"

text \<open>Every driver keeps its contract, so a sequence of writes yields the frames.\<close>

lemma drv_send_all_frames:
  assumes "drv_ready d n" "\<forall>cs \<in> set css. length cs = n"
  shows "send_all (drv_put d n) (drv_init d n) css = Inr (map (drv_frame d) css)"
proof -
  note facts = adalight.send_all_frames lightberry.send_all_frames rawhid.send_all_frames
    ws2801.send_all_frames udpraw.send_all_frames tpm2.send_all_frames paintpack.send_all_frames
    apa102.send_all_frames lpd6803.send_all_frames lpd8806.send_all_frames p9813.send_all_frames
    ws2812.send_all_frames sk6812.send_all_frames sk6822.send_all_frames
  show ?thesis
  proof (cases d)
    case (DMX t)
    then show ?thesis using assms dmx_raw.send_all_frames dmx_mccrypt.send_all_frames by (cases t) simp_all
  next
    case Sedu
    have "3 * n \<le> 3072"
      using assms(1) Sedu by (auto simp: sedu_spec_def sedu_frames_def split: if_splits)
    then show ?thesis using assms Sedu sedu.send_all_frames by simp
  next
    case Atmo
    then show ?thesis using assms atmo.send_all_frames by simp
  qed (use assms facts in simp_all)
qed

section \<open>The base class\<close>

record led_device =
  ld_driver :: driver
  ld_ledCount :: nat
  ld_ledBuffer :: "byte list"
  ld_deviceReady :: bool
  ld_ledValues :: "ColorRgb list"
  ld_interval :: nat
  ld_timer :: bool
  ld_sent :: "byte list list"

definition ld_new :: "driver \<Rightarrow> nat \<Rightarrow> nat \<Rightarrow> led_device" where
  "ld_new d ledCount rewriteTime =
     \<lparr>ld_driver = d, ld_ledCount = ledCount, ld_ledBuffer = drv_init d ledCount,
      ld_deviceReady = drv_ready d ledCount, ld_ledValues = [], ld_interval = rewriteTime,
      ld_timer = False, ld_sent = []\<rparr>"

definition ld_write :: "ColorRgb list \<Rightarrow> led_device \<Rightarrow> led_device res" where
  "ld_write cs d =
     res_bind (drv_put (ld_driver d) (ld_ledCount d) cs (ld_ledBuffer d)) (\<lambda>b.
       Inr (d\<lparr>ld_ledBuffer := b, ld_sent := ld_sent d @ [b]\<rparr>))"

definition ld_setLedValues :: "ColorRgb list \<Rightarrow> led_device \<Rightarrow> led_device res" where
  "ld_setLedValues cs d =
     (if \<not> ld_deviceReady d then Inr d
      else (let d = d\<lparr>ld_ledValues := cs\<rparr>;
                d = (if ld_interval d > 0 then d\<lparr>ld_timer := True\<rparr> else d)
            in ld_write cs d))"

definition ld_switchOff :: "led_device \<Rightarrow> led_device res" where
  "ld_switchOff d = (if ld_deviceReady d then ld_write (replicate (ld_ledCount d) BLACK) d else Inr d)"

definition ld_rewriteLeds :: "led_device \<Rightarrow> led_device res" where
  "ld_rewriteLeds d = ld_write (ld_ledValues d) d"

datatype ld_op = LdSet "ColorRgb list" | LdOff | LdTimeout

text \<open>The refresh timer fires only when it runs.\<close>

fun ld_step :: "ld_op \<Rightarrow> led_device \<Rightarrow> led_device res" where
  "ld_step (LdSet cs) d = ld_setLedValues cs d"
| "ld_step LdOff d = ld_switchOff d"
| "ld_step LdTimeout d = (if ld_timer d then ld_rewriteLeds d else Inr d)"

fun ld_run :: "ld_op list \<Rightarrow> led_device \<Rightarrow> led_device res" where
  "ld_run [] d = Inr d"
| "ld_run (oper # ops) d = res_bind (ld_step oper d) (ld_run ops)"

text \<open>The colours a sequence of operations writes; \<open>lst\<close> is the last frame set, which the code's refresh repeats.\<close>

fun shown :: "nat \<Rightarrow> bool \<Rightarrow> ColorRgb list option \<Rightarrow> ld_op list \<Rightarrow> ColorRgb list list" where
  "shown n refresh lst [] = []"
| "shown n refresh lst (LdSet cs # ops) = cs # shown n refresh (Some cs) ops"
| "shown n refresh lst (LdOff # ops) = replicate n BLACK # shown n refresh lst ops"
| "shown n refresh lst (LdTimeout # ops) =
     (case lst of Some cs \<Rightarrow> if refresh then cs # shown n refresh lst ops else shown n refresh lst ops
      | None \<Rightarrow> shown n refresh lst ops)"

fun ld_op_ok :: "nat \<Rightarrow> ld_op \<Rightarrow> bool" where
  "ld_op_ok n (LdSet cs) \<longleftrightarrow> length cs = n"
| "ld_op_ok n _ \<longleftrightarrow> True"

text \<open>A run of the device is a sequence of writes of its driver.\<close>

lemma send_all_snoc:
  "send_all put buf (css @ [cs]) = res_bind (send_all put buf css) (\<lambda>fs.
     res_bind (put cs (last (buf # fs))) (\<lambda>b. Inr (fs @ [b])))"
proof (induction css arbitrary: buf)
  case Nil
  show ?case by (cases "put cs buf") simp_all
next
  case (Cons x css)
  show ?case
  proof (cases "put x buf")
    case (Inr b)
    then show ?thesis
      by (cases "send_all put b css"; cases "put cs (last (b # projr (send_all put b css)))")
        (simp_all add: Cons)
  qed simp
qed

text \<open>The state of a device that has written the colours \<open>css\<close>.\<close>

definition ld_at :: "driver \<Rightarrow> nat \<Rightarrow> nat \<Rightarrow> ColorRgb list list \<Rightarrow> ColorRgb list option \<Rightarrow> led_device \<Rightarrow> bool" where
  "ld_at drv n iv css lst d \<longleftrightarrow> ld_driver d = drv \<and> ld_ledCount d = n \<and> ld_deviceReady d \<and> ld_interval d = iv \<and>
     send_all (drv_put drv n) (drv_init drv n) css = Inr (ld_sent d) \<and>
     ld_ledBuffer d = last (drv_init drv n # ld_sent d) \<and> (\<forall>cs \<in> set css. length cs = n) \<and>
     (ld_timer d \<longleftrightarrow> iv > 0 \<and> lst \<noteq> None) \<and> (\<forall>cs. lst = Some cs \<longrightarrow> ld_ledValues d = cs \<and> length cs = n)"

lemma ld_write_at:
  assumes "ld_at drv n iv css lst d" "drv_ready drv n" "length cs = n"
  shows "\<exists>d'. ld_write cs d = Inr d' \<and> ld_at drv n iv (css @ [cs]) lst d'"
proof -
  have all: "\<forall>x \<in> set (css @ [cs]). length x = n" using assms(1,3) by (auto simp: ld_at_def)
  have sent: "send_all (drv_put drv n) (drv_init drv n) css = Inr (ld_sent d)"
      "ld_ledBuffer d = last (drv_init drv n # ld_sent d)"
    using assms(1) by (simp_all add: ld_at_def)
  have snoc: "send_all (drv_put drv n) (drv_init drv n) (css @ [cs]) =
      res_bind (drv_put drv n cs (ld_ledBuffer d)) (\<lambda>b. Inr (ld_sent d @ [b]))"
    by (simp only: send_all_snoc sent res_bind_simps)
  obtain b where b: "drv_put drv n cs (ld_ledBuffer d) = Inr b"
    using drv_send_all_frames [OF assms(2) all] unfolding snoc by (auto simp only: res_bind_Inr_iff)
  let ?d = "d\<lparr>ld_ledBuffer := b, ld_sent := ld_sent d @ [b]\<rparr>"
  have dn: "ld_driver d = drv" "ld_ledCount d = n" using assms(1) by (simp_all add: ld_at_def)
  have "ld_write cs d = Inr ?d" using b dn by (simp add: ld_write_def)
  moreover have "ld_at drv n iv (css @ [cs]) lst ?d"
    using assms(1) all b snoc by (simp add: ld_at_def)
  ultimately show ?thesis by blast
qed

lemma ld_run_shown:
  assumes "ld_at drv n iv css lst d" "drv_ready drv n" "list_all (ld_op_ok n) ops"
  shows "\<exists>d' lst'. ld_run ops d = Inr d' \<and> ld_at drv n iv (css @ shown n (iv > 0) lst ops) lst' d'"
  using assms(1,3)
proof (induction ops arbitrary: d css lst)
  case Nil
  then show ?case by auto
next
  case (Cons oper ops)
  note at = Cons.prems(1)
  show ?case
  proof (cases oper)
    case (LdSet cs)
    then have len: "length cs = n" using Cons.prems(2) by simp
    let ?d = "if ld_interval d > 0 then d\<lparr>ld_ledValues := cs, ld_timer := True\<rparr> else d\<lparr>ld_ledValues := cs\<rparr>"
    have "ld_at drv n iv css (Some cs) ?d" using at len by (auto simp: ld_at_def)
    then obtain d' where "ld_write cs ?d = Inr d'" "ld_at drv n iv (css @ [cs]) (Some cs) d'"
      using ld_write_at [OF _ assms(2) len] by blast
    moreover have "ld_setLedValues cs d = ld_write cs ?d"
      using at by (simp add: ld_setLedValues_def ld_at_def)
    ultimately show ?thesis using Cons.IH [of "css @ [cs]" "Some cs" d'] Cons.prems(2) LdSet by simp
  next
    case LdOff
    obtain d' where "ld_write (replicate n BLACK) d = Inr d'" "ld_at drv n iv (css @ [replicate n BLACK]) lst d'"
      using ld_write_at [OF at assms(2)] by force
    moreover have "ld_switchOff d = ld_write (replicate n BLACK) d" using at by (simp add: ld_switchOff_def ld_at_def)
    ultimately show ?thesis using Cons.IH [of "css @ [replicate n BLACK]" lst d'] Cons.prems(2) LdOff by simp
  next
    case LdTimeout
    show ?thesis
    proof (cases "ld_timer d")
      case True
      then obtain cs where cs: "lst = Some cs" "ld_ledValues d = cs" "length cs = n" "iv > 0"
        using at by (auto simp: ld_at_def)
      obtain d' where "ld_write cs d = Inr d'" "ld_at drv n iv (css @ [cs]) lst d'"
        using ld_write_at [OF at assms(2) cs(3)] by blast
      then show ?thesis
        using Cons.IH [of "css @ [cs]" lst d'] Cons.prems(2) LdTimeout True cs by (simp add: ld_rewriteLeds_def)
    next
      case False
      then have "lst = None \<or> iv = 0" using at by (auto simp: ld_at_def)
      then show ?thesis
        using Cons.IH [of css lst d] Cons.prems LdTimeout False by (auto split: option.split)
    qed
  qed
qed

text \<open>
  What a device is to send: a refresh writes the last data again (\<open>rewriteLeds\<close> in \<open>LedDevice.h\<close>), so after
  a switch-off it repeats the black frame.  \<open>lst\<close> is the data last written, none before the first frame,
  \<open>started\<close> whether a frame has been set since the construction, which starts the timer.
\<close>

fun last_data :: "nat \<Rightarrow> bool \<Rightarrow> bool \<Rightarrow> ColorRgb list \<Rightarrow> ld_op list \<Rightarrow> ColorRgb list list" where
  "last_data n refresh started lst [] = []"
| "last_data n refresh started lst (LdSet cs # ops) = cs # last_data n refresh True cs ops"
| "last_data n refresh started lst (LdOff # ops) = replicate n BLACK # last_data n refresh started (replicate n BLACK) ops"
| "last_data n refresh started lst (LdTimeout # ops) =
     (if refresh \<and> started then lst # last_data n refresh started lst ops else last_data n refresh started lst ops)"

text \<open>No refresh comes between a switch-off and the next frame; \<open>off\<close>: the device is switched off.\<close>

fun quiet :: "bool \<Rightarrow> ld_op list \<Rightarrow> bool" where
  "quiet off [] \<longleftrightarrow> True"
| "quiet off (LdSet cs # ops) \<longleftrightarrow> quiet False ops"
| "quiet off (LdOff # ops) \<longleftrightarrow> quiet True ops"
| "quiet off (LdTimeout # ops) \<longleftrightarrow> \<not> off \<and> quiet off ops"

lemma shown_without_refresh: "shown n False lst ops = last_data n False started x ops"
proof (induction ops arbitrary: lst started x)
  case (Cons oper ops)
  then show ?case by (cases oper) (simp_all split: option.split)
qed simp

lemma shown_with_refresh:
  assumes "quiet off ops" "\<not> off \<and> started \<longrightarrow> lst = Some x" "started \<longleftrightarrow> lst \<noteq> None"
  shows "shown n True lst ops = last_data n True started x ops"
  using assms
proof (induction ops arbitrary: off lst started x)
  case (Cons oper ops)
  show ?case
  proof (cases oper)
    case (LdSet cs)
    then show ?thesis using Cons.prems Cons.IH [of False True "Some cs" cs] by simp
  next
    case LdOff
    then show ?thesis using Cons.prems Cons.IH [of True started lst "replicate n BLACK"] by simp
  next
    case LdTimeout
    with Cons.prems(1) have "quiet off (LdTimeout # ops)" by (simp only:)
    then have off: "\<not> off" "quiet off ops" unfolding quiet.simps by (rule conjunct1, rule conjunct2)
    have "shown n True lst ops = last_data n True started x ops" by (rule Cons.IH [OF off(2) Cons.prems(2,3)])
    then show ?thesis using LdTimeout Cons.prems off(1) by (cases lst) auto
  qed
qed simp

text \<open>
  C12.  Every driver hands to its transport exactly the frames of its protocol: for any of the
  seventeen drivers, any supported number of leds and any sequence of frames of one colour per led,
  switch-offs and timeouts of the refresh timer, each write succeeds and what goes out is, write by
  write, the frame of the data to show, whatever was in the buffer before -- where a refresh repeats
  the last data.  With a refresh time set, no refresh may come between a switch-off and the next
  frame: there \<open>rewriteLeds\<close> shows the colours from before (\<open>switchOff_undone_by_refresh\<close>).  The transport
  itself, and with it the frames \<open>ProviderRs232\<close> drops while it is busy, is not part of the model.
\<close>

theorem device_sends_frames:
  assumes "drv_ready drv n" "list_all (ld_op_ok n) ops" "iv = 0 \<or> quiet False ops"
  shows "\<exists>d. ld_run ops (ld_new drv n iv) = Inr d \<and>
    ld_sent d = map (drv_frame drv) (last_data n (iv > 0) False [] ops)"
proof -
  have "ld_at drv n iv [] None (ld_new drv n iv)" using assms(1) by (simp add: ld_at_def ld_new_def)
  from ld_run_shown [OF this assms(1,2)] obtain d lst where
    d: "ld_run ops (ld_new drv n iv) = Inr d" "ld_at drv n iv (shown n (iv > 0) None ops) lst d" by auto
  have "\<forall>cs \<in> set (shown n (iv > 0) None ops). length cs = n" using d(2) by (simp add: ld_at_def)
  moreover have "shown n (iv > 0) None ops = last_data n (iv > 0) False [] ops"
    using assms(3) shown_with_refresh [of False ops False None "[]" n] shown_without_refresh [of n None ops False "[]"]
    by (cases "iv > 0") auto
  ultimately show ?thesis using drv_send_all_frames [OF assms(1)] d by (simp add: ld_at_def)
qed

theorem device_sends_frames_witness:
  "\<exists>d. ld_run [LdSet [rgb 1 2 3], LdTimeout, LdOff] (ld_new Tpm2 1 100) = Inr d \<and>
     ld_sent d = [[0xC9, 0xDA, 0, 3, 1, 2, 3, 0x36], [0xC9, 0xDA, 0, 3, 1, 2, 3, 0x36], [0xC9, 0xDA, 0, 3, 0, 0, 0, 0x36]]"
  using device_sends_frames [of Tpm2 1 "[LdSet [rgb 1 2 3], LdTimeout, LdOff]" 100]
  by (simp add: tpm2_header_def raw_bytes_def color_bytes_def BLACK_def u8_def)

text \<open>What can be read back from the frames a driver sends for the frames \<open>css\<close>.\<close>

definition reads_back ::
  "driver \<Rightarrow> nat \<Rightarrow> ColorRgb list list \<Rightarrow> (nat \<Rightarrow> byte list \<Rightarrow> 'v list) \<Rightarrow> (ColorRgb \<Rightarrow> 'v) \<Rightarrow> bool" where
  "reads_back drv n css dec view \<longleftrightarrow>
     (\<exists>fs. send_all (drv_put drv n) (drv_init drv n) css = Inr fs \<and> map (dec n) fs = map (map view) css)"

text \<open>The Ws2801 takes the raw colours.\<close>

definition ws2801_decode :: "nat \<Rightarrow> byte list \<Rightarrow> ColorRgb list" where
  "ws2801_decode n frm = map (\<lambda>bs. rgb (bs ! 0) (bs ! 1) (bs ! 2)) (chunks 3 n frm)"

interpretation ws2801_dec: decodable_device "\<lambda>_. []" ws2801_put "\<lambda>_. []" raw_bytes "\<lambda>_. []" "\<lambda>_ _. True" "\<lambda>_. True"
  ws2801_decode "\<lambda>c. c"
proof
  show "ws2801_decode n ([] @ raw_bytes cs @ []) = map (\<lambda>c. c) cs" if "length cs = n" for n cs
    using decode_chunks [of color_bytes 3 cs n "\<lambda>bs. rgb (bs ! 0) (bs ! 1) (bs ! 2)" "\<lambda>c. c" "[]"] that
    by (simp add: ws2801_decode_def raw_bytes_def color_bytes_def)
qed

text \<open>
  C34.  The SPI drivers lose nothing their protocol can carry: whatever frames of one colour per led
  are written, every write succeeds, and from the bytes each \<open>write\<close> leaves in the buffer -- for the
  pulse protocols read pulse by pulse -- the colours can be recovered: all of them for the Ws2801,
  Ws2812, Sk6822, APA102, P9813 and for the Sk6812 whose white is \<open>subtract_minimum\<close> or \<open>white_off\<close>
  (white adding to the three colours); the upper seven bits for the Lpd8806 and the upper five for
  the Lpd6803.  With \<open>sub_min_warm_adjust\<close> the Sk6812 shows one and the same colour, whatever is written.
\<close>

theorem spi_frames_decode:
  assumes "\<forall>cs \<in> set css. length cs = n"
  shows "reads_back Ws2801 n css ws2801_decode (\<lambda>c. c) \<and>
    reads_back Ws2812SPI n css ws2812_decode Some \<and>
    reads_back Sk6822SPI n css sk6822_decode Some \<and>
    reads_back APA102 n css apa102_decode (\<lambda>c. c) \<and>
    reads_back P9813 n css p9813_decode (\<lambda>c. c) \<and>
    reads_back (Sk6812SPI SUBTRACT_MINIMUM temp) n css sk6812_decode Some \<and>
    reads_back (Sk6812SPI WHITE_OFF temp) n css sk6812_decode Some \<and>
    reads_back (Sk6812SPI SUB_MIN_WARM_ADJUST temp) n css sk6812_decode (\<lambda>c. Some (rgbw_shown temp)) \<and>
    reads_back Lpd8806 n css lpd8806_decode lpd8806_view \<and>
    reads_back Lpd6803 n css lpd6803_decode lpd6803_view"
  using ws2801_dec.sent_decodes [OF TrueI assms] ws2812_dec.sent_decodes [OF TrueI assms]
    sk6822_dec.sent_decodes [OF TrueI assms] apa102_dec.sent_decodes [OF TrueI assms]
    p9813_dec.sent_decodes [OF TrueI assms] sk6812_dec.sent_decodes [OF TrueI assms, of SUBTRACT_MINIMUM temp]
    sk6812_dec.sent_decodes [OF TrueI assms, of WHITE_OFF temp]
    sk6812_dec.sent_decodes [OF TrueI assms, of SUB_MIN_WARM_ADJUST temp]
    lpd8806_dec.sent_decodes [OF TrueI assms] lpd6803_dec.sent_decodes [OF TrueI assms]
  unfolding reads_back_def drv_put.simps drv_init.simps rgbw_shown_white Rgb_to_Rgbw.simps(2)
  by (intro conjI)

theorem spi_frames_decode_witness:
  "(\<exists>fs. send_all (ws2812_put 2) (ws2812_init 2) [[rgb 255 0 0, rgb 1 2 3], [rgb 0 0 0, rgb 9 9 9]] = Inr fs \<and>
      map (ws2812_decode 2) fs = [[Some (rgb 255 0 0), Some (rgb 1 2 3)], [Some (rgb 0 0 0), Some (rgb 9 9 9)]]) \<and>
   (\<exists>fs. send_all (lpd8806_put 2) (lpd8806_init 2) [[rgb 255 0 0, rgb 1 2 3], [rgb 0 0 0, rgb 9 9 9]] = Inr fs \<and>
      map (lpd8806_decode 2) fs = [[[127, 0, 0], [0, 1, 1]], [[0, 0, 0], [4, 4, 4]]])"
proof -
  have n: "\<forall>cs \<in> set [[rgb 255 0 0, rgb 1 2 3], [rgb 0 0 0, rgb 9 9 9]]. length cs = 2" by simp
  show ?thesis
    using spi_frames_decode [OF n] by (simp add: reads_back_def lpd8806_view_def)
qed

text \<open>
  Switching off does not last on a device with a refresh time: \<open>switchOff\<close> leaves the
  stored colours and the timer as they are, so the next timeout shows the old colours again.
\<close>

theorem switchOff_undone_by_refresh:
  assumes "drv_ready drv n" "length cs = n" "0 < iv"
  shows "\<exists>d. ld_run [LdSet cs, LdOff, LdTimeout] (ld_new drv n iv) = Inr d \<and>
    ld_sent d = [drv_frame drv cs, drv_frame drv (replicate n BLACK), drv_frame drv cs]"
proof -
  let ?ops = "[LdSet cs, LdOff, LdTimeout]"
  have "ld_at drv n iv [] None (ld_new drv n iv)" using assms(1) by (simp add: ld_at_def ld_new_def)
  from ld_run_shown [OF this assms(1), of ?ops] assms(2,3) obtain d lst where
    d: "ld_run ?ops (ld_new drv n iv) = Inr d" "ld_at drv n iv [cs, replicate n BLACK, cs] lst d" by auto
  have "\<forall>x \<in> set [cs, replicate n BLACK, cs]. length x = n" using assms(2) by simp
  from drv_send_all_frames [OF assms(1) this] d show ?thesis by (simp add: ld_at_def)
qed

section \<open>Frames of another size\<close>

text \<open>Adalight copies all the colours it is given into the buffer of its configured size.\<close>

lemma adalight_oversized:
  "n < length cs \<Longrightarrow> drv_put Adalight n cs (drv_init Adalight n) = Inl Undefined"
  by (simp add: adalight_put_def adalight_init_def memcpy_def blit_def)

section \<open>The factory\<close>

datatype dev_class =
    ClsAdalight | ClsSedu | ClsDMX | ClsTpm2 | ClsAtmo | ClsAPA102 | ClsLpd6803 | ClsLpd8806 | ClsP9813
  | ClsWs2801 | ClsWs2812SPI | ClsSk6812SPI | ClsSk6822SPI | ClsWS281x | ClsFadeCandy | ClsTpm2net
  | ClsUdpRaw | ClsUdpE131 | ClsUdpH801 | ClsPhilipsHue | ClsAtmoOrb | ClsTinkerforge
  | ClsHyperionUsbasp | ClsRawHID | ClsPaintpack | ClsLightpack | ClsMultiLightpack | ClsFile | ClsPiBlaster

text \<open>The registry: the class names in lower case, as the macro \<open>REGISTER\<close> enters them.\<close>

definition device_registry :: "(string \<times> dev_class) list" where
  "device_registry =
     [(''adalight'', ClsAdalight), (''sedu'', ClsSedu), (''dmx'', ClsDMX), (''tpm2'', ClsTpm2), (''atmo'', ClsAtmo),
      (''apa102'', ClsAPA102), (''lpd6803'', ClsLpd6803), (''lpd8806'', ClsLpd8806), (''p9813'', ClsP9813),
      (''ws2801'', ClsWs2801), (''ws2812spi'', ClsWs2812SPI), (''sk6812spi'', ClsSk6812SPI),
      (''sk6822spi'', ClsSk6822SPI), (''ws281x'', ClsWS281x), (''fadecandy'', ClsFadeCandy),
      (''tpm2net'', ClsTpm2net), (''udpraw'', ClsUdpRaw), (''udpe131'', ClsUdpE131), (''udph801'', ClsUdpH801),
      (''philipshue'', ClsPhilipsHue), (''atmoorb'', ClsAtmoOrb), (''tinkerforge'', ClsTinkerforge),
      (''hyperionusbasp'', ClsHyperionUsbasp), (''rawhid'', ClsRawHID), (''paintpack'', ClsPaintpack),
      (''lightpack'', ClsLightpack), (''multilightpack'', ClsMultiLightpack), (''file'', ClsFile),
      (''piblaster'', ClsPiBlaster)]"

definition char_lower :: "char \<Rightarrow> char" where
  "char_lower c = (let n = (of_char c :: nat) in if 65 \<le> n \<and> n \<le> 90 then char_of (n + 32) else c)"

text \<open>
  \<open>construct\<close>: the class of the configured type; an unknown type, or a constructor that throws
  (\<open>fails\<close>), gives the file device.
\<close>

definition factory_class :: "(dev_class \<Rightarrow> bool) \<Rightarrow> string option \<Rightarrow> dev_class" where
  "factory_class fails type =
     (let t = map char_lower (case type of None \<Rightarrow> ''UNSPECIFIED'' | Some t \<Rightarrow> t)
      in case map_of device_registry t of
           None \<Rightarrow> ClsFile
         | Some c \<Rightarrow> if fails c then ClsFile else c)"

lemma device_registry_distinct: "distinct (map fst device_registry)"
  by (simp add: device_registry_def)

lemma factory_class_registered:
  "(map char_lower s, c) \<in> set device_registry \<Longrightarrow> \<not> fails c \<Longrightarrow> factory_class fails (Some s) = c"
  using map_of_is_SomeI [OF device_registry_distinct] by (simp add: factory_class_def)

text \<open>\<open>ProviderSpi::writeBytes\<close> with the option \<open>invert\<close>: the bytes on the wire.\<close>

definition spi_wire :: "bool \<Rightarrow> byte list \<Rightarrow> byte list" where
  "spi_wire invert frm = (if invert then map (\<lambda>b. b XOR 0xff) frm else frm)"

lemma spi_wire_undo: "map (\<lambda>b. b XOR 0xff) (spi_wire True frm) = frm"
  by (simp add: spi_wire_def comp_def xor.assoc)

end
