(* ===== verification/Packets.thy ===== *)
theory Packets
  imports LedDevices
begin

text \<open>
  Drivers that split the colours of one write over several UDP packets:
  \<open>LedDeviceTpm2net\<close> and \<open>LedDeviceUdpE131\<close>.  Their loops over the raw bytes have the same
  form, \<open>packet_step\<close>; the locale \<open>packetiser\<close> states what the protocol's packet start and
  end must do and concludes that the packets carry the raw bytes in order, each of the
  right size.
\<close>

section \<open>The loop\<close>

text \<open>
  The variables of the loop: the packet buffer, the payload size of the packet being filled,
  the running packet number and the packets sent.
\<close>

record pkstate =
  pk_buf :: "byte list"
  pk_size :: nat
  pk_number :: nat
  pk_sent :: "byte list list"

text \<open>
  One round, for the raw byte at \<open>idx\<close> of \<open>cnt\<close>, with at most \<open>m\<close> bytes per packet.  \<open>start\<close>
  fills in the header of the packet (given its index, its number and its payload size), \<open>fin\<close>
  what follows the payload, \<open>extra\<close> is the number of bytes of a packet beside the payload.
\<close>

definition packet_step ::
  "(nat \<Rightarrow> nat \<Rightarrow> nat \<Rightarrow> byte list \<Rightarrow> byte list res) \<Rightarrow> (nat \<Rightarrow> byte list \<Rightarrow> byte list res) \<Rightarrow>
   nat \<Rightarrow> nat \<Rightarrow> nat \<Rightarrow> nat \<Rightarrow> byte list \<Rightarrow> nat \<Rightarrow> pkstate \<Rightarrow> pkstate res" where
  "packet_step start fin off extra m cnt raw idx s =
     res_bind
       (if idx mod m = 0
        then (let sz = (if cnt - idx < m then cnt mod m else m)
              in res_bind (start (idx div m) (pk_number s) sz (pk_buf s)) (\<lambda>b.
                   Inr (s\<lparr>pk_buf := b, pk_size := sz, pk_number := pk_number s + 1\<rparr>)))
        else Inr s)
       (\<lambda>s. res_bind (peek raw idx) (\<lambda>x.
            res_bind (poke (off + idx mod m) x (pk_buf s)) (\<lambda>b.
              if idx = cnt - 1 \<or> idx mod m = m - 1
              then res_bind (fin (off + idx mod m + 1) b) (\<lambda>b'.
                     Inr (s\<lparr>pk_buf := b', pk_sent := pk_sent s @ [take (pk_size s + extra) b']\<rparr>))
              else Inr (s\<lparr>pk_buf := b\<rparr>))))"

definition packet_run ::
  "(nat \<Rightarrow> nat \<Rightarrow> nat \<Rightarrow> byte list \<Rightarrow> byte list res) \<Rightarrow> (nat \<Rightarrow> byte list \<Rightarrow> byte list res) \<Rightarrow>
   nat \<Rightarrow> nat \<Rightarrow> nat \<Rightarrow> nat \<Rightarrow> byte list \<Rightarrow> nat \<Rightarrow> byte list \<Rightarrow> byte list list res" where
  "packet_run start fin off extra m cnt raw n0 buf =
     res_bind (index_loop (packet_step start fin off extra m cnt raw) [0 ..< cnt]
                \<lparr>pk_buf = buf, pk_size = 0, pk_number = n0, pk_sent = []\<rparr>)
       (\<lambda>s. Inr (pk_sent s))"

text \<open>The specification: the raw bytes in slices of \<open>m\<close>, the last one possibly shorter.\<close>

definition slice :: "nat \<Rightarrow> nat \<Rightarrow> byte list \<Rightarrow> byte list" where
  "slice m q raw = take m (drop (q * m) raw)"

definition slice_count :: "nat \<Rightarrow> nat \<Rightarrow> nat" where
  "slice_count m cnt = (cnt + m - 1) div m"

locale packetiser =
  fixes start :: "nat \<Rightarrow> nat \<Rightarrow> nat \<Rightarrow> byte list \<Rightarrow> byte list res"
    and fin :: "nat \<Rightarrow> byte list \<Rightarrow> byte list res"
    and off extra m bufsize :: nat
    and hdr :: "nat \<Rightarrow> nat \<Rightarrow> nat \<Rightarrow> byte list" and trl :: "byte list"
  assumes m_pos: "0 < m" and bufsize: "bufsize = off + m + length trl" and extra: "extra = off + length trl"
    and start_header: "length b = bufsize \<Longrightarrow>
      \<exists>rest. start q k sz b = Inr (hdr q k sz @ rest) \<and> length (hdr q k sz @ rest) = bufsize"
    and hdr_length: "length (hdr q k sz) = off"
    and fin_trailer: "length b = bufsize \<Longrightarrow> i + length trl \<le> bufsize \<Longrightarrow> fin i b = blit i trl b"
begin

definition packet :: "nat \<Rightarrow> nat \<Rightarrow> byte list \<Rightarrow> byte list" where
  "packet n0 q raw = hdr q (n0 + q) (length (slice m q raw)) @ slice m q raw @ trl"

text \<open>In the middle of packet \<open>q\<close>, with \<open>r\<close> of its bytes in place.\<close>

definition filling :: "nat \<Rightarrow> byte list \<Rightarrow> nat \<Rightarrow> nat \<Rightarrow> pkstate \<Rightarrow> bool" where
  "filling n0 raw q r s \<longleftrightarrow>
     pk_number s = n0 + q + 1 \<and> pk_size s = length (slice m q raw) \<and>
     pk_sent s = map (\<lambda>q. packet n0 q raw) [0 ..< q] \<and>
     (\<exists>rest. pk_buf s = hdr q (n0 + q) (length (slice m q raw)) @ take r (slice m q raw) @ rest \<and>
        length (pk_buf s) = bufsize)"

definition between_packets :: "nat \<Rightarrow> byte list \<Rightarrow> nat \<Rightarrow> pkstate \<Rightarrow> bool" where
  "between_packets n0 raw q s \<longleftrightarrow>
     pk_number s = n0 + q \<and> pk_sent s = map (\<lambda>q. packet n0 q raw) [0 ..< q] \<and> length (pk_buf s) = bufsize"

lemma slice_length: "length (slice m q raw) = min m (length raw - q * m)"
  by (simp add: slice_def)

lemma slice_nth:
  assumes "r < length (slice m q raw)"
  shows "slice m q raw ! r = raw ! (q * m + r)"
proof -
  have "r < m" "q * m + r < length raw" using assms by (simp_all add: slice_length less_diff_conv add.commute)
  then show ?thesis by (simp add: slice_def)
qed

lemma slice_size:
  assumes "q * m < length raw"
  shows "(if length raw - q * m < m then length raw mod m else m) = length (slice m q raw)"
proof (cases "length raw - q * m < m")
  case True
  then have "(length raw - q * m) mod m = length raw - q * m" by simp
  moreover have "(q * m + (length raw - q * m)) mod m = (length raw - q * m) mod m" by simp
  ultimately have "length raw mod m = length raw - q * m" using assms by simp
  with True show ?thesis by (simp add: slice_length)
qed (simp add: slice_length)

text \<open>The second half of a round, once the packet is started.\<close>

lemma step_store:
  assumes f: "filling n0 raw q r s" and r: "r < length (slice m q raw)"
    and idx: "idx = q * m + r"
  shows "\<exists>s'. res_bind (peek raw idx) (\<lambda>x. res_bind (poke (off + idx mod m) x (pk_buf s)) (\<lambda>b.
              if idx = length raw - 1 \<or> idx mod m = m - 1
              then res_bind (fin (off + idx mod m + 1) b) (\<lambda>b'.
                     Inr (s\<lparr>pk_buf := b', pk_sent := pk_sent s @ [take (pk_size s + extra) b']\<rparr>))
              else Inr (s\<lparr>pk_buf := b\<rparr>))) = Inr s' \<and>
     (if Suc r = length (slice m q raw) then between_packets n0 raw (Suc q) s' else filling n0 raw q (Suc r) s')"
proof -
  let ?sl = "slice m q raw" and ?H = "hdr q (n0 + q) (length (slice m q raw))"
  obtain rest where buf: "pk_buf s = ?H @ take r ?sl @ rest" "length (pk_buf s) = bufsize"
    using f by (auto simp: filling_def)
  have rm: "r < m" "idx mod m = r" using r idx by (simp_all add: slice_length)
  have lraw: "idx < length raw" using r idx by (simp add: slice_length less_diff_conv add.commute)
  have len: "length (take r ?sl) = r" "length ?H = off" using r by (simp_all add: hdr_length)
  have "length rest = bufsize - off - r" using buf len by simp
  then have "rest \<noteq> []" using bufsize rm(1) by auto
  then obtain y rest' where rest: "rest = y # rest'" by (cases rest) auto
  let ?b = "?H @ take (Suc r) ?sl @ rest'"
  have tk: "take (Suc r) ?sl = take r ?sl @ [raw ! idx]"
    using r idx slice_nth [OF r] by (simp add: take_Suc_conv_app_nth)
  have poke: "poke (off + idx mod m) (raw ! idx) (pk_buf s) = Inr ?b"
    using poke_between [of "?H @ take r ?sl" "raw ! idx" y rest'] len rm(2) by (simp add: buf rest tk)
  have lb: "length ?b = bufsize" using buf rest r by (simp add: min_def)
  have last: "idx = length raw - 1 \<or> idx mod m = m - 1 \<longleftrightarrow> Suc r = length ?sl"
    using lraw idx rm r m_pos by (auto simp: slice_length min_def)
  show ?thesis
  proof (cases "Suc r = length ?sl")
    case True
    then have full: "take (Suc r) ?sl = ?sl" by simp
    have room: "off + r + 1 + length trl \<le> bufsize" using bufsize rm(1) by simp
    have sl: "length ?sl \<le> m" by (simp add: slice_length)
    have "off + Suc r + length rest' = bufsize" using lb len(2) full True by simp
    then have lrest: "length rest' = m - Suc r + length trl" using bufsize rm(1) by linarith
    let ?b' = "?H @ ?sl @ trl @ drop (length trl) rest'"
    have "fin (off + r + 1) ?b = blit (off + r + 1) trl ?b" using lb room by (rule fin_trailer)
    also have "\<dots> = Inr ?b'"
      using lrest True [symmetric] len(2) sl by (subst blit_ok) (simp_all add: full)
    finally have "fin (off + idx mod m + 1) ?b = Inr ?b'" using rm(2) by simp
    moreover have "take (pk_size s + extra) ?b' = packet n0 q raw"
      using f len(2) extra by (simp add: filling_def packet_def)
    moreover have "between_packets n0 raw (Suc q) (s\<lparr>pk_buf := ?b', pk_sent := pk_sent s @ [packet n0 q raw]\<rparr>)"
      using f unfolding between_packets_def filling_def using lrest True len(2) bufsize sl by simp
    ultimately show ?thesis
      using True last poke lraw by (simp add: peek_ok del: take_append)
  next
    case False
    with last f poke lraw lb show ?thesis by (simp add: peek_ok filling_def)
  qed
qed

text \<open>A whole round, and the loop.\<close>

definition progress :: "nat \<Rightarrow> byte list \<Rightarrow> nat \<Rightarrow> pkstate \<Rightarrow> bool" where
  "progress n0 raw k s \<longleftrightarrow>
     (if k mod m = 0 \<or> k = length raw then between_packets n0 raw (slice_count m k) s
      else filling n0 raw (k div m) (k mod m) s)"

lemma slice_count_mult: "slice_count m (q * m) = q"
proof -
  have "(q * m + m - 1) div m = (q * m + (m - 1)) div m" using m_pos by simp
  also have "\<dots> = q + (m - 1) div m" using m_pos by (subst div_mult_self3) simp_all
  finally show ?thesis using m_pos unfolding slice_count_def by simp
qed

lemma slice_count_within: "r < m \<Longrightarrow> slice_count m (q * m + Suc r) = Suc q"
proof -
  assume r: "r < m"
  have "(q * m + Suc r + m - 1) div m = ((q + 1) * m + r) div m" using m_pos by (simp add: algebra_simps)
  also have "\<dots> = Suc q" using r by (subst div_mult_self3) simp_all
  finally show ?thesis by (simp add: slice_count_def)
qed

lemma packet_step_progress:
  assumes k: "k < length raw" and p: "progress n0 raw k s"
  shows "\<exists>s'. packet_step start fin off extra m (length raw) raw k s = Inr s' \<and> progress n0 raw (Suc k) s'"
proof -
  let ?q = "k div m" and ?r = "k mod m"
  have k_eq: "k = ?q * m + ?r" by simp
  have r: "?r < m" using m_pos by simp
  have r_slice: "?r < length (slice m ?q raw)"
    using k r k_eq by (simp only: slice_length min_less_iff_conj) (simp add: less_diff_conv add.commute)
  have started: "\<exists>s1. filling n0 raw ?q ?r s1 \<and>
      (if k mod m = 0
       then (let sz = (if length raw - k < m then length raw mod m else m)
              in res_bind (start (k div m) (pk_number s) sz (pk_buf s)) (\<lambda>b.
                   Inr (s\<lparr>pk_buf := b, pk_size := sz, pk_number := pk_number s + 1\<rparr>)))
       else Inr s) = Inr s1"
  proof (cases "?r = 0")
    case True
    then have k': "k = ?q * m" using k_eq by simp
    have sz: "(if length raw - k < m then length raw mod m else m) = length (slice m ?q raw)"
      using slice_size [of ?q raw] k k' by simp
    have "slice_count m k = ?q" using slice_count_mult [of ?q] k' by simp
    then have b: "between_packets n0 raw ?q s" using p True by (simp add: progress_def)
    obtain rest where "start ?q (pk_number s) (length (slice m ?q raw)) (pk_buf s)
          = Inr (hdr ?q (pk_number s) (length (slice m ?q raw)) @ rest)"
        "length (hdr ?q (pk_number s) (length (slice m ?q raw)) @ rest) = bufsize"
      using start_header [of "pk_buf s" ?q "pk_number s" "length (slice m ?q raw)"] b
      unfolding between_packets_def by blast
    with b sz True show ?thesis by (auto simp: Let_def between_packets_def filling_def)
  next
    case False
    with p k show ?thesis by (simp add: progress_def)
  qed
  then obtain s1 where s1: "filling n0 raw ?q ?r s1" and
    head: "(if k mod m = 0
       then (let sz = (if length raw - k < m then length raw mod m else m)
              in res_bind (start (k div m) (pk_number s) sz (pk_buf s)) (\<lambda>b.
                   Inr (s\<lparr>pk_buf := b, pk_size := sz, pk_number := pk_number s + 1\<rparr>)))
       else Inr s) = Inr s1" by blast
  have len: "length (slice m ?q raw) = min m (length raw - ?q * m)" by (rule slice_length)
  have full: "Suc ?r = length (slice m ?q raw) \<longleftrightarrow> Suc k mod m = 0 \<or> Suc k = length raw"
  proof -
    have "Suc k = length raw \<longleftrightarrow> Suc ?r = length raw - ?q * m" using k k_eq by linarith
    moreover have "Suc k mod m = 0 \<longleftrightarrow> Suc ?r = m" using r by (simp add: mod_Suc)
    ultimately show ?thesis using len r r_slice by (auto simp: min_def)
  qed
  have cnt: "slice_count m (Suc k) = Suc ?q"
    using slice_count_within [OF r, of ?q] k_eq by simp
  have within: "Suc k mod m \<noteq> 0 \<Longrightarrow> Suc k div m = ?q \<and> Suc k mod m = Suc ?r"
    by (metis div_Suc mod_Suc)
  from step_store [OF s1 r_slice k_eq] show ?thesis
    unfolding packet_step_def head res_bind_simps progress_def full cnt using within by (auto split: if_splits)
qed

lemma packet_run_slices:
  assumes "length buf = bufsize"
  shows "packet_run start fin off extra m (length raw) raw n0 buf =
    Inr (map (\<lambda>q. hdr q (n0 + q) (length (slice m q raw)) @ slice m q raw @ trl)
          [0 ..< slice_count m (length raw)])"
proof -
  let ?s0 = "\<lparr>pk_buf = buf, pk_size = 0, pk_number = n0, pk_sent = []\<rparr>"
  have "\<exists>s. index_loop (packet_step start fin off extra m (length raw) raw) [0 ..< k] ?s0 = Inr s \<and>
      progress n0 raw k s" if "k \<le> length raw" for k
    using that
  proof (induction k)
    case 0
    show ?case using slice_count_mult [of 0] assms by (simp add: progress_def between_packets_def)
  next
    case (Suc k)
    then obtain s where s: "index_loop (packet_step start fin off extra m (length raw) raw) [0 ..< k] ?s0 = Inr s"
        "progress n0 raw k s" by auto
    with packet_step_progress [OF _ s(2)] Suc.prems show ?case by (simp add: index_loop_append res_bind_Inr_iff)
  qed
  from this [of "length raw"] show ?thesis
    by (auto simp: packet_run_def progress_def between_packets_def packet_def)
qed

end

text \<open>The slices, put together again.\<close>

lemma concat_slices: "concat (map (\<lambda>q. slice m q raw) [0 ..< k]) = take (k * m) raw"
proof (induction k)
  case (Suc k)
  then show ?case by (simp add: slice_def take_add [symmetric] add.commute)
qed simp

lemma slices_cover: "0 < m \<Longrightarrow> cnt \<le> slice_count m cnt * m"
proof -
  assume m: "0 < m"
  have "cnt + m - 1 = (cnt + m - 1) div m * m + (cnt + m - 1) mod m" by simp
  moreover have "(cnt + m - 1) mod m < m" using m by simp
  ultimately show ?thesis unfolding slice_count_def by linarith
qed

lemma all_slices: "0 < m \<Longrightarrow> concat (map (\<lambda>q. slice m q raw) [0 ..< slice_count m (length raw)]) = raw"
  by (simp add: concat_slices slices_cover)

section \<open>Tpm2net\<close>

text \<open>
  \<open>LedDeviceTpm2net::write\<close>.  \<open>junk\<close> is what \<open>malloc\<close> returned; the payload size \<open>mx\<close> is
  configured and must be positive.
\<close>

definition tpm2net_total :: "nat \<Rightarrow> nat \<Rightarrow> nat" where
  "tpm2net_total mx n = 1 + 3 * n div mx"

definition tpm2net_start :: "nat \<Rightarrow> nat \<Rightarrow> nat \<Rightarrow> nat \<Rightarrow> byte list \<Rightarrow> byte list res" where
  "tpm2net_start tot q number sz =
     pokes 0 [0x9c, 0xda, u8 (int sz div 256), u8 (int sz), u8 (int number), u8 (int tot)]"

definition tpm2net_fin :: "nat \<Rightarrow> byte list \<Rightarrow> byte list res" where
  "tpm2net_fin i = poke i 0x36"

definition tpm2net_write :: "nat \<Rightarrow> nat \<Rightarrow> byte list \<Rightarrow> ColorRgb list \<Rightarrow> byte list list res" where
  "tpm2net_write mx n junk ledValues =
     packet_run (tpm2net_start (tpm2net_total mx n)) tpm2net_fin 6 7 mx (3 * n)
       (raw_bytes ledValues) 1 (vec_resize (mx + 7) 0 junk)"

definition tpm2net_header :: "nat \<Rightarrow> nat \<Rightarrow> nat \<Rightarrow> byte list" where
  "tpm2net_header tot number sz =
     [0x9c, 0xda, u8 (int sz div 256), u8 (int sz), u8 (int number), u8 (int tot)]"

lemma pokes_header:
  assumes "length xs \<le> length b"
  shows "\<exists>rest. pokes 0 xs b = Inr (xs @ rest) \<and> length (xs @ rest) = length b"
  using assms by (subst pokes_blit) (simp_all add: blit_def)

interpretation tpm2net: packetiser "tpm2net_start tot" tpm2net_fin 6 7 "Suc mx" "Suc mx + 7"
  "\<lambda>q. tpm2net_header tot" "[0x36]"
proof
  show "\<exists>rest. tpm2net_start tot q k sz b = Inr (tpm2net_header tot k sz @ rest) \<and>
      length (tpm2net_header tot k sz @ rest) = Suc mx + 7" if "length b = Suc mx + 7" for q k sz b
    using that pokes_header [of "tpm2net_header tot k sz" b]
    by (simp add: tpm2net_start_def tpm2net_header_def del: pokes.simps)
  show "tpm2net_fin i b = blit i [0x36] b" if "length b = Suc mx + 7" "i + length [0x36 :: byte] \<le> Suc mx + 7" for i b
    using that pokes_blit [of i "[0x36]" b] by (simp add: tpm2net_fin_def poke_def)
qed (simp_all add: tpm2net_header_def)

lemma tpm2net_packets:
  assumes "0 < mx" "length cs = n"
  shows "tpm2net_write mx n junk cs = Inr (map (\<lambda>q.
      tpm2net_header (tpm2net_total mx n) (1 + q) (length (slice mx q (raw_bytes cs))) @
      slice mx q (raw_bytes cs) @ [0x36]) [0 ..< slice_count mx (3 * n)])"
  using assms tpm2net.packet_run_slices [of "vec_resize (mx + 7) 0 junk" "mx - 1" _ "raw_bytes cs" 1]
  by (simp add: tpm2net_write_def)

section \<open>E1.31\<close>

text \<open>
  \<open>LedDeviceUdpE131\<close>: the device keeps the sequence number (one byte), the first
  universe (one byte), the source name and its id.  The packet itself, 638 bytes, is a member
  of the device too, but \<open>prepare\<close> clears it before every use.
\<close>

record e131 =
  e131_seq :: byte
  e131_universe :: byte
  e131_source_name :: "byte list"
  e131_cid :: "128 word"

definition htons :: "int \<Rightarrow> byte list" where
  "htons n = [u8 (n div 256), u8 n]"

definition htonl :: "int \<Rightarrow> byte list" where
  "htonl n = [u8 (n div 16777216), u8 (n div 65536), u8 (n div 256), u8 n]"

definition flength :: "int \<Rightarrow> byte list" where
  "flength k = htons (0x7000 OR k)"

definition acn_id :: "byte list" where
  "acn_id = [0x41, 0x53, 0x43, 0x2d, 0x45, 0x31, 0x2e, 0x31, 0x37, 0, 0, 0]"

definition rfc4122 :: "128 word \<Rightarrow> byte list" where
  "rfc4122 c = map (\<lambda>i. ucast (drop_bit (8 * (15 - i)) c)) [0 ..< 16]"

text \<open>\<open>snprintf\<close> into a zeroed field of 64 bytes: at most 63 characters and a zero.\<close>

definition cstring :: "nat \<Rightarrow> byte list \<Rightarrow> byte list" where
  "cstring w s = (let t = take (w - 1) (takeWhile (\<lambda>c. c \<noteq> 0) s) in t @ replicate (w - length t) 0)"

text \<open>\<open>prepare\<close>, which overwrites the whole packet, up to the sequence number set after it.\<close>

definition e131_prepare :: "e131 \<Rightarrow> int \<Rightarrow> nat \<Rightarrow> byte list \<Rightarrow> byte list res" where
  "e131_prepare d universe channels _ =
     pokes 0 (
       htons 16 @ [0, 0] @ acn_id @ flength (110 + int channels) @ htonl 4 @ rfc4122 (e131_cid d) @
       flength (88 + int channels) @ htonl 2 @ cstring 64 (e131_source_name d) @ [100] @ htons 0 @
       [0] @ [0] @ htons universe @
       flength (11 + int channels) @ [0x02, 0xa1] @ htons 0 @ htons 1 @ htons (1 + int channels) @ [0])
      (replicate 638 0)"

definition e131_start :: "e131 \<Rightarrow> nat \<Rightarrow> nat \<Rightarrow> nat \<Rightarrow> byte list \<Rightarrow> byte list res" where
  "e131_start d q number sz raw =
     res_bind (e131_prepare d (uint (e131_universe d) + int q) sz raw) (poke 111 (e131_seq d))"

definition e131_write :: "nat \<Rightarrow> ColorRgb list \<Rightarrow> e131 \<Rightarrow> (e131 \<times> byte list list) res" where
  "e131_write n ledValues d =
     (let d = d\<lparr>e131_seq := e131_seq d + 1\<rparr> in
      res_bind (packet_run (e131_start d) (\<lambda>_. Inr) 126 126 512 (3 * n) (raw_bytes ledValues) 0 (replicate 638 0))
        (\<lambda>fs. Inr (d, fs)))"

definition e131_header :: "e131 \<Rightarrow> nat \<Rightarrow> nat \<Rightarrow> byte list" where
  "e131_header d q sz =
     htons 16 @ [0, 0] @ acn_id @ flength (110 + int sz) @ htonl 4 @ rfc4122 (e131_cid d) @
     flength (88 + int sz) @ htonl 2 @ cstring 64 (e131_source_name d) @ [100] @ htons 0 @
     [e131_seq d] @ [0] @ htons (uint (e131_universe d) + int q) @
     flength (11 + int sz) @ [0x02, 0xa1] @ htons 0 @ htons 1 @ htons (1 + int sz) @ [0]"

lemma length_cstring: "0 < w \<Longrightarrow> length (cstring w s) = w"
  by (simp add: cstring_def Let_def)

lemma length_e131_fields [simp]:
  "length (htons k) = 2" "length (htonl k) = 4" "length (flength k) = 2" "length acn_id = 12"
  "length (rfc4122 c) = 16"
  by (simp_all add: htons_def htonl_def flength_def acn_id_def rfc4122_def)

lemma length_e131_header [simp]: "length (e131_header d q sz) = 126"
  by (simp add: e131_header_def length_cstring)

lemma e131_start_eq:
  "e131_start d q number sz raw = Inr (e131_header d q sz @ replicate 512 0)"
proof -
  let ?a = "htons 16 @ [0, 0] @ acn_id @ flength (110 + int sz) @ htonl 4 @ rfc4122 (e131_cid d) @
     flength (88 + int sz) @ htonl 2 @ cstring 64 (e131_source_name d) @ [100] @ htons 0"
  let ?u = "uint (e131_universe d) + int q"
  let ?z = "[0] @ htons ?u @
     flength (11 + int sz) @ [0x02, 0xa1] @ htons 0 @ htons 1 @ htons (1 + int sz) @ [0 :: byte]"
  have la: "length ?a = 111" and lz: "length ([0] @ ?z) = 15" by (simp_all add: length_cstring)
  have "e131_prepare d ?u sz raw = pokes 0 (?a @ [0] @ ?z) (replicate 638 0)"
    by (simp add: e131_prepare_def del: pokes.simps)
  also have "\<dots> = Inr (?a @ 0 # ?z @ replicate 512 0)"
    using la lz by (subst pokes_blit) (simp_all add: blit_def del: pokes.simps)
  finally have "e131_prepare d ?u sz raw = Inr (?a @ 0 # ?z @ replicate 512 0)" .
  moreover have "poke 111 (e131_seq d) (?a @ 0 # ?z @ replicate 512 0)
      = Inr (?a @ e131_seq d # ?z @ replicate 512 0)"
    using poke_between [of ?a "e131_seq d" 0 "?z @ replicate 512 0"] la by (simp only:)
  ultimately show ?thesis by (simp add: e131_start_def e131_header_def)
qed

interpretation e131: packetiser "e131_start d" "\<lambda>_. Inr" 126 126 512 638 "\<lambda>q _. e131_header d q" "[]"
  by unfold_locales (simp_all add: e131_start_eq blit_def)

lemma e131_packets:
  assumes "length cs = n"
  shows "e131_write n cs d = (let d = d\<lparr>e131_seq := e131_seq d + 1\<rparr> in
    Inr (d, map (\<lambda>q. e131_header d q (length (slice 512 q (raw_bytes cs))) @ slice 512 q (raw_bytes cs))
              [0 ..< slice_count 512 (3 * n)]))"
  using assms e131.packet_run_slices [of "replicate 638 0" _ "raw_bytes cs" 0]
  by (simp add: e131_write_def Let_def)

section \<open>Properties\<close>

text \<open>What a receiver takes from a packet: the bytes between \<open>a\<close> of header and \<open>z\<close> of trailer.\<close>

definition payload :: "nat \<Rightarrow> nat \<Rightarrow> byte list \<Rightarrow> byte list" where
  "payload a z p = take (length p - (a + z)) (drop a p)"

lemma payload_packet: "length h = a \<Longrightarrow> length t = z \<Longrightarrow> payload a z (h @ s @ t) = s"
  by (simp add: payload_def)

text \<open>
  C35.  Tpm2net: for every configured packet size and number of leds the packets, received one
  after the other, carry the raw colours completely and in order; they are as many as the size
  demands, none is larger than the size, and they are numbered from one.
\<close>

theorem tpm2net_packets_exact:
  assumes "0 < mx" "length cs = n"
  shows "\<exists>ps. tpm2net_write mx n junk cs = Inr ps \<and> length ps = (3 * n + mx - 1) div mx \<and>
    concat (map (payload 6 1) ps) = raw_bytes cs \<and>
    (\<forall>q < length ps. length (ps ! q) \<le> mx + 7 \<and> ps ! q ! 4 = u8 (int (1 + q)))"
proof -
  let ?raw = "raw_bytes cs"
  let ?p = "\<lambda>q. tpm2net_header (tpm2net_total mx n) (1 + q) (length (slice mx q ?raw)) @ slice mx q ?raw @ [0x36]"
  let ?ps = "map ?p [0 ..< slice_count mx (3 * n)]"
  have "payload 6 1 (?p q) = slice mx q ?raw" for q
    by (rule payload_packet) (simp_all add: tpm2net_header_def)
  then have "concat (map (payload 6 1) ?ps) = ?raw"
    using all_slices [OF assms(1), of ?raw] assms(2) by (simp add: comp_def)
  moreover have "length (?p q) \<le> mx + 7" "?p q ! 4 = u8 (int (1 + q))" for q
    by (simp_all add: tpm2net_header_def slice_def)
  ultimately have "length ?ps = (3 * n + mx - 1) div mx \<and> concat (map (payload 6 1) ?ps) = ?raw \<and>
      (\<forall>q < length ?ps. length (?ps ! q) \<le> mx + 7 \<and> ?ps ! q ! 4 = u8 (int (1 + q)))"
    by (simp add: slice_count_def)
  then show ?thesis using tpm2net_packets [OF assms, of junk] by blast
qed

theorem tpm2net_packets_exact_witness:
  "\<exists>ps. tpm2net_write 4 2 [] [rgb 1 2 3, rgb 4 5 6] = Inr ps \<and> length ps = 2 \<and>
     concat (map (payload 6 1) ps) = [1, 2, 3, 4, 5, 6]"
  using tpm2net_packets_exact [of 4 "[rgb 1 2 3, rgb 4 5 6]" 2 "[]"] by (auto simp: color_bytes_def)

text \<open>
  The number of packets Tpm2net announces in every header is one too many exactly when the
  packet size divides the number of bytes: \<open>1 + bytes / size\<close> is not the rounded up quotient.
\<close>

theorem tpm2net_total_off_by_one:
  assumes "0 < mx"
  shows "tpm2net_total mx n = (3 * n + mx - 1) div mx + (if mx dvd 3 * n then 1 else 0)"
proof (cases "mx dvd 3 * n")
  case True
  then obtain k where k: "3 * n = k * mx" by (auto simp: dvd_def mult.commute)
  have "(k * mx + mx - 1) div mx = (mx - 1 + k * mx) div mx" using assms by (simp add: algebra_simps)
  also have "\<dots> = k" using assms by (subst div_mult_self1) simp_all
  finally show ?thesis using True k assms by (simp add: tpm2net_total_def)
next
  case False
  then have r: "0 < 3 * n mod mx" by (simp add: dvd_eq_mod_eq_0)
  define q r where "q = 3 * n div mx" and "r = 3 * n mod mx"
  have n: "3 * n = q * mx + r" "0 < r" "r < mx" using assms r by (simp_all add: q_def r_def)
  have "3 * n + mx - 1 = (r - 1) + (q + 1) * mx" using n by (simp add: algebra_simps)
  then have "(3 * n + mx - 1) div mx = ((r - 1) + (q + 1) * mx) div mx" by (simp only:)
  also have "\<dots> = (q + 1) + (r - 1) div mx" using assms by (subst div_mult_self1) simp_all
  also have "\<dots> = q + 1" using n by simp
  finally show ?thesis using False by (simp add: tpm2net_total_def q_def)
qed

text \<open>
  E1.31: a write raises the sequence number by one (modulo 256) and sends one packet per
  started group of 512 channels, for consecutive universes from the configured one; together the
  packets carry the raw colours completely and in order.
\<close>

theorem e131_packets_exact:
  assumes "length cs = n"
  shows "\<exists>d' ps. e131_write n cs d = Inr (d', ps) \<and> e131_seq d' = e131_seq d + 1 \<and>
    length ps = (3 * n + 511) div 512 \<and> concat (map (drop 126) ps) = raw_bytes cs \<and>
    (\<forall>q < length ps. ps ! q ! 111 = e131_seq d + 1 \<and>
       take 2 (drop 113 (ps ! q)) = htons (uint (e131_universe d) + int q))"
proof -
  let ?d = "d\<lparr>e131_seq := e131_seq d + 1\<rparr>" and ?raw = "raw_bytes cs"
  let ?p = "\<lambda>q. e131_header ?d q (length (slice 512 q ?raw)) @ slice 512 q ?raw"
  let ?ps = "map ?p [0 ..< slice_count 512 (3 * n)]"
  have "drop 126 (?p q) = slice 512 q ?raw" for q by simp
  then have "concat (map (drop 126) ?ps) = ?raw"
    using all_slices [of 512 ?raw] assms by (simp add: comp_def del: drop_append)
  moreover have "?p q ! 111 = e131_seq d + 1 \<and> take 2 (drop 113 (?p q)) = htons (uint (e131_universe d) + int q)" for q
  proof -
    let ?sz = "length (slice 512 q ?raw)"
    let ?a = "htons 16 @ [0, 0] @ acn_id @ flength (110 + int ?sz) @ htonl 4 @ rfc4122 (e131_cid ?d) @
      flength (88 + int ?sz) @ htonl 2 @ cstring 64 (e131_source_name ?d) @ [100] @ htons 0"
    let ?z = "flength (11 + int ?sz) @ [0x02, 0xa1] @ htons 0 @ htons 1 @ htons (1 + int ?sz) @ [0] @ slice 512 q ?raw"
    have la: "length ?a = 111" by (simp add: length_cstring)
    have p: "?p q = ?a @ [e131_seq d + 1] @ [0] @ htons (uint (e131_universe d) + int q) @ ?z"
      by (simp add: e131_header_def)
    have "(?a @ [e131_seq d + 1] @ [0] @ htons (uint (e131_universe d) + int q) @ ?z) ! 111 = e131_seq d + 1"
      using la by (simp only: nth_append) simp
    moreover have "drop 113 (?a @ [e131_seq d + 1] @ [0] @ htons (uint (e131_universe d) + int q) @ ?z) =
        htons (uint (e131_universe d) + int q) @ ?z"
      using la by (simp only: drop_append) simp
    ultimately show ?thesis unfolding p by simp
  qed
  ultimately have "length ?ps = (3 * n + 511) div 512 \<and> concat (map (drop 126) ?ps) = ?raw \<and>
      (\<forall>q < length ?ps. ?ps ! q ! 111 = e131_seq d + 1 \<and>
         take 2 (drop 113 (?ps ! q)) = htons (uint (e131_universe d) + int q))"
    by (simp add: slice_count_def)
  moreover have "e131_write n cs d = Inr (?d, ?ps)" using e131_packets [OF assms, of d] by (simp add: Let_def)
  ultimately show ?thesis by fastforce
qed

theorem e131_packets_exact_witness:
  "\<exists>d' ps. e131_write 1 [rgb 1 2 3] \<lparr>e131_seq = 255, e131_universe = 1, e131_source_name = [], e131_cid = 0\<rparr> = Inr (d', ps) \<and>
     e131_seq d' = 0 \<and> concat (map (drop 126) ps) = [1, 2, 3]"
  using e131_packets_exact [of "[rgb 1 2 3]" 1 "\<lparr>e131_seq = 255, e131_universe = 1, e131_source_name = [], e131_cid = 0\<rparr>"]
  by (auto simp: color_bytes_def)

end
