(* ===== verification/JsonSchema.thy ===== *)
theory JsonSchema
  imports Json
begin

text \<open>
  \<open>QJsonSchemaChecker\<close> (\<open>libsrc/utils/jsonschema/QJsonSchemaChecker.cpp\<close>): validation of a JSON
  value against a schema, which walks through both and collects messages with the path at which
  they arose.  The texts of the messages are the constructors of \<open>schema_msg\<close>.
\<close>

section \<open>The state of the checker\<close>

datatype path_item = Root | Member string | Index nat

datatype schema_msg =
    MsgExpected string | MsgMissing | MsgNoSchema | MsgOnly string | MsgNumeric string
  | MsgMinimum rat | MsgMaximum rat | MsgMinItems int | MsgMaxItems int | MsgUnique
  | MsgEnum json | MsgAttribute string

record checker =
  ck_error :: bool
  ck_messages :: "(path_item list \<times> schema_msg) list"
  ck_path :: "path_item list"

definition ck_fail :: "schema_msg \<Rightarrow> checker \<Rightarrow> checker" where
  "ck_fail m s = s\<lparr>ck_error := True, ck_messages := ck_messages s @ [(ck_path s, m)]\<rparr>"

definition ck_push :: "path_item \<Rightarrow> checker \<Rightarrow> checker" where
  "ck_push p s = s\<lparr>ck_path := ck_path s @ [p]\<rparr>"

definition ck_pop :: "checker \<Rightarrow> checker" where
  "ck_pop s = s\<lparr>ck_path := butlast (ck_path s)\<rparr>"

section \<open>The checks of single attributes\<close>

text \<open>A value that is no number counts as 0, so the type \<open>integer\<close> admits it; unknown types admit everything.\<close>

definition wrong_type :: "string \<Rightarrow> json \<Rightarrow> bool" where
  "wrong_type ty v =
     (if ty = ''string'' then \<not> is_JString v
      else if ty = ''number'' then \<not> is_JDouble v
      else if ty = ''integer'' then of_int \<lfloor>json_double 0 v\<rfloor> \<noteq> json_double 0 v
      else if ty = ''double'' then \<not> is_JDouble v
      else if ty = ''boolean'' then \<not> is_JBool v
      else if ty = ''object'' then \<not> is_JObject v
      else if ty = ''array'' then \<not> is_JArray v
      else if ty = ''null'' then v \<noteq> JNull
      else if ty = ''enum'' then \<not> is_JString v
      else False)"

definition checkType :: "json \<Rightarrow> json \<Rightarrow> checker \<Rightarrow> checker" where
  "checkType v sch s =
     (let ty = json_string [] sch in if wrong_type ty v then ck_fail (MsgExpected ty) s else s)"

definition checkMinimum :: "json \<Rightarrow> json \<Rightarrow> checker \<Rightarrow> checker" where
  "checkMinimum v sch s =
     (if \<not> is_JDouble v then ck_fail (MsgNumeric ''minimum'') s
      else if json_double 0 v < json_double 0 sch then ck_fail (MsgMinimum (json_double 0 sch)) s
      else s)"

definition checkMaximum :: "json \<Rightarrow> json \<Rightarrow> checker \<Rightarrow> checker" where
  "checkMaximum v sch s =
     (if \<not> is_JDouble v then ck_fail (MsgNumeric ''maximum'') s
      else if json_double 0 v > json_double 0 sch then ck_fail (MsgMaximum (json_double 0 sch)) s
      else s)"

definition checkMinItems :: "json \<Rightarrow> json \<Rightarrow> checker \<Rightarrow> checker" where
  "checkMinItems v sch s =
     (if \<not> is_JArray v then ck_fail (MsgOnly ''minItems'') s
      else (let minimum = json_int 0 sch in
            if int (length (json_array v)) < minimum then ck_fail (MsgMinItems minimum) s else s))"

definition checkMaxItems :: "json \<Rightarrow> json \<Rightarrow> checker \<Rightarrow> checker" where
  "checkMaxItems v sch s =
     (if \<not> is_JArray v then ck_fail (MsgOnly ''maxItems'') s
      else (let maximum = json_int 0 sch in
            if int (length (json_array v)) > maximum then ck_fail (MsgMaxItems maximum) s else s))"

text \<open>The two nested loops of \<open>checkUniqueItems\<close>: a message per equal pair.\<close>

fun unique_against :: "json \<Rightarrow> json list \<Rightarrow> checker \<Rightarrow> checker" where
  "unique_against x [] s = s"
| "unique_against x (y # ys) s = unique_against x ys (if x = y then ck_fail MsgUnique s else s)"

fun unique_items :: "json list \<Rightarrow> checker \<Rightarrow> checker" where
  "unique_items [] s = s"
| "unique_items (x # xs) s = unique_items xs (unique_against x xs s)"

definition checkUniqueItems :: "json \<Rightarrow> json \<Rightarrow> checker \<Rightarrow> checker" where
  "checkUniqueItems v sch s =
     (if \<not> is_JArray v then ck_fail (MsgOnly ''uniqueItems'') s
      else if json_bool False sch then unique_items (json_array v) s else s)"

definition checkEnum :: "json \<Rightarrow> json \<Rightarrow> checker \<Rightarrow> checker" where
  "checkEnum v sch s = (if v \<in> set (json_array sch) then s else ck_fail (MsgEnum sch) s)"

text \<open>The attributes the chain of comparisons tells apart; the plain ones carry no check.\<close>

datatype attribute =
    AType | AProperties | AAdditional | AMinimum | AMaximum | AItems | AMinItems | AMaxItems
  | AUnique | AEnum | APlain | AUnknown

definition plain_attributes :: "string list" where
  "plain_attributes =
     [''required'', ''id'', ''title'', ''description'', ''default'', ''format'', ''defaultProperties'',
      ''propertyOrder'', ''append'', ''step'', ''access'', ''options'', ''script'']"

definition attribute_of :: "string \<Rightarrow> attribute" where
  "attribute_of a =
     (if a = ''type'' then AType else if a = ''properties'' then AProperties
      else if a = ''additionalProperties'' then AAdditional else if a = ''minimum'' then AMinimum
      else if a = ''maximum'' then AMaximum else if a = ''items'' then AItems
      else if a = ''minItems'' then AMinItems else if a = ''maxItems'' then AMaxItems
      else if a = ''uniqueItems'' then AUnique else if a = ''enum'' then AEnum
      else if a \<in> set plain_attributes then APlain else AUnknown)"

section \<open>Validation\<close>

text \<open>
  \<open>ck_validate\<close> is the loop over the attributes of a schema, \<open>ck_attribute\<close> its body; the others are
  the loops over members and items.  \<open>full\<close> is the schema whose attributes are visited.
\<close>

function ck_validate :: "bool \<Rightarrow> json \<Rightarrow> (string \<times> json) list \<Rightarrow> (string \<times> json) list \<Rightarrow> checker \<Rightarrow> checker"
and ck_attribute :: "bool \<Rightarrow> json \<Rightarrow> (string \<times> json) list \<Rightarrow> string \<Rightarrow> json \<Rightarrow> checker \<Rightarrow> checker"
and checkProperties :: "bool \<Rightarrow> (string \<times> json) list \<Rightarrow> (string \<times> json) list \<Rightarrow> checker \<Rightarrow> checker"
and checkItems :: "bool \<Rightarrow> json list \<Rightarrow> nat \<Rightarrow> (string \<times> json) list \<Rightarrow> checker \<Rightarrow> checker"
and checkAdditionalProperties :: "bool \<Rightarrow> (string \<times> json) list \<Rightarrow> json \<Rightarrow> string list \<Rightarrow> checker \<Rightarrow> checker" where
  "ck_validate ign v full [] s = s"
| "ck_validate ign v full ((a, av) # rest) s = ck_validate ign v full rest (ck_attribute ign v full a av s)"
| "ck_attribute ign v full a av s =
     (case attribute_of a of
        AType \<Rightarrow> checkType v av s
      | AProperties \<Rightarrow>
          (if is_JObject v then checkProperties ign (json_object v) (json_object av) s
           else ck_fail (MsgOnly ''properties'') s)
      | AAdditional \<Rightarrow>
          (if is_JObject v
           then checkAdditionalProperties ign (json_object v) av
                  (map fst (json_object (json_lookup full ''properties''))) s
           else ck_fail (MsgOnly ''additionalProperties'') s)
      | AMinimum \<Rightarrow> checkMinimum v av s
      | AMaximum \<Rightarrow> checkMaximum v av s
      | AItems \<Rightarrow>
          (if is_JArray v then checkItems ign (json_array v) 0 (json_object av) s
           else ck_fail (MsgOnly ''items'') s)
      | AMinItems \<Rightarrow> checkMinItems v av s
      | AMaxItems \<Rightarrow> checkMaxItems v av s
      | AUnique \<Rightarrow> checkUniqueItems v av s
      | AEnum \<Rightarrow> checkEnum v av s
      | APlain \<Rightarrow> s
      | AUnknown \<Rightarrow> ck_fail (MsgAttribute a) s)"
| "checkProperties ign obj [] s = s"
| "checkProperties ign obj ((p, pv) # ps) s =
     checkProperties ign obj ps
       (ck_pop
          (if json_contains obj p
           then ck_validate ign (json_lookup obj p) (json_object pv) (json_object pv) (ck_push (Member p) s)
           else if json_bool False (json_lookup (json_object pv) ''required'') \<and> \<not> ign
                then ck_fail MsgMissing (ck_push (Member p) s) else ck_push (Member p) s))"
| "checkItems ign [] i sch s = s"
| "checkItems ign (x # xs) i sch s =
     checkItems ign xs (Suc i) sch (ck_pop (ck_validate ign x sch sch (ck_push (Index i) s)))"
| "checkAdditionalProperties ign [] sch ignored s = s"
| "checkAdditionalProperties ign ((p, x) # obj) sch ignored s =
     checkAdditionalProperties ign obj sch ignored
       (if p \<in> set ignored then s
        else ck_pop
          (if is_JBool sch
           then (if json_bool False sch then ck_push (Member p) s else ck_fail MsgNoSchema (ck_push (Member p) s))
           else ck_validate ign (JObject (json_object x)) (json_object sch) (json_object sch)
                  (ck_push (Member p) s)))"
  by pat_completeness auto
termination
  by (relation "measures
      [\<lambda>x. case x of
         Inl (Inl (ign, v, full, rest, s)) \<Rightarrow> 2 * size_list (size_prod (\<lambda>_. 0) size) rest
       | Inl (Inr (ign, v, full, a, av, s)) \<Rightarrow> 2 * size av + 1
       | Inr (Inl (ign, obj, ps, s)) \<Rightarrow> 2 * size_list (size_prod (\<lambda>_. 0) size) ps
       | Inr (Inr (Inl (ign, xs, i, sch, s))) \<Rightarrow> 2 * size_list (size_prod (\<lambda>_. 0) size) sch
       | Inr (Inr (Inr (ign, obj, sch, ignored, s))) \<Rightarrow> 2 * size sch,
       \<lambda>x. case x of
         Inl _ \<Rightarrow> 0
       | Inr (Inl _) \<Rightarrow> 0
       | Inr (Inr (Inl (ign, xs, i, sch, s))) \<Rightarrow> Suc (length xs)
       | Inr (Inr (Inr (ign, obj, sch, ignored, s))) \<Rightarrow> Suc (length obj)]")
    (auto simp: termination_simp le_less_trans [OF size_json_object] intro: le_neq_implies_less)


definition check_init :: checker where
  "check_init = \<lparr>ck_error = False, ck_messages = [], ck_path = [Root]\<rparr>"

text \<open>The public \<open>validate\<close>: the answer and the messages.\<close>

definition schema_validate :: "bool \<Rightarrow> (string \<times> json) list \<Rightarrow> (string \<times> json) list \<Rightarrow> bool \<times> (path_item list \<times> schema_msg) list" where
  "schema_validate ign sch obj =
     (let s = ck_validate ign (JObject obj) sch sch check_init in (\<not> ck_error s, ck_messages s))"

section \<open>What the checker amounts to\<close>

lemma size_json_member:
  "(a, v) \<in> set obj \<Longrightarrow> size v < size_list (size_prod (\<lambda>_. 0) size) obj"
  by (induction obj) auto

text \<open>The same walk without any state.\<close>

function accepts :: "bool \<Rightarrow> json \<Rightarrow> (string \<times> json) list \<Rightarrow> bool" where
  "accepts ign v sch \<longleftrightarrow> list_all (\<lambda>(a, av).
     (case attribute_of a of
        AType \<Rightarrow> \<not> wrong_type (json_string [] av) v
      | AProperties \<Rightarrow> is_JObject v \<and>
          list_all (\<lambda>(p, pv). if json_contains (json_object v) p
              then accepts ign (json_lookup (json_object v) p) (json_object pv)
              else \<not> json_bool False (json_lookup (json_object pv) ''required'') \<or> ign) (json_object av)
      | AAdditional \<Rightarrow> is_JObject v \<and>
          list_all (\<lambda>(p, x). p \<in> set (map fst (json_object (json_lookup sch ''properties''))) \<or>
              (if is_JBool av then json_bool False av
               else accepts ign (JObject (json_object x)) (json_object av))) (json_object v)
      | AMinimum \<Rightarrow> is_JDouble v \<and> json_double 0 av \<le> json_double 0 v
      | AMaximum \<Rightarrow> is_JDouble v \<and> json_double 0 v \<le> json_double 0 av
      | AItems \<Rightarrow> is_JArray v \<and> list_all (\<lambda>x. accepts ign x (json_object av)) (json_array v)
      | AMinItems \<Rightarrow> is_JArray v \<and> json_int 0 av \<le> int (length (json_array v))
      | AMaxItems \<Rightarrow> is_JArray v \<and> int (length (json_array v)) \<le> json_int 0 av
      | AUnique \<Rightarrow> is_JArray v \<and> (json_bool False av \<longrightarrow> distinct (json_array v))
      | AEnum \<Rightarrow> v \<in> set (json_array av)
      | APlain \<Rightarrow> True
      | AUnknown \<Rightarrow> False)) sch"
  by pat_completeness auto
termination
  by (relation "measure (\<lambda>(ign, v, sch). size_list (size_prod (\<lambda>_. 0) size) sch)")
    (auto dest!: size_json_member intro: le_less_trans [OF size_json_object] less_trans)


declare accepts.simps [simp del]

text \<open>One attribute of the schema \<open>full\<close>.\<close>

definition attr_accepts :: "bool \<Rightarrow> json \<Rightarrow> (string \<times> json) list \<Rightarrow> string \<Rightarrow> json \<Rightarrow> bool" where
  "attr_accepts ign v full a av \<longleftrightarrow>
     (case attribute_of a of
        AType \<Rightarrow> \<not> wrong_type (json_string [] av) v
      | AProperties \<Rightarrow> is_JObject v \<and>
          list_all (\<lambda>(p, pv). if json_contains (json_object v) p
              then accepts ign (json_lookup (json_object v) p) (json_object pv)
              else \<not> json_bool False (json_lookup (json_object pv) ''required'') \<or> ign) (json_object av)
      | AAdditional \<Rightarrow> is_JObject v \<and>
          list_all (\<lambda>(p, x). p \<in> set (map fst (json_object (json_lookup full ''properties''))) \<or>
              (if is_JBool av then json_bool False av
               else accepts ign (JObject (json_object x)) (json_object av))) (json_object v)
      | AMinimum \<Rightarrow> is_JDouble v \<and> json_double 0 av \<le> json_double 0 v
      | AMaximum \<Rightarrow> is_JDouble v \<and> json_double 0 v \<le> json_double 0 av
      | AItems \<Rightarrow> is_JArray v \<and> list_all (\<lambda>x. accepts ign x (json_object av)) (json_array v)
      | AMinItems \<Rightarrow> is_JArray v \<and> json_int 0 av \<le> int (length (json_array v))
      | AMaxItems \<Rightarrow> is_JArray v \<and> int (length (json_array v)) \<le> json_int 0 av
      | AUnique \<Rightarrow> is_JArray v \<and> (json_bool False av \<longrightarrow> distinct (json_array v))
      | AEnum \<Rightarrow> v \<in> set (json_array av)
      | APlain \<Rightarrow> True
      | AUnknown \<Rightarrow> False)"

lemma accepts_iff: "accepts ign v sch \<longleftrightarrow> list_all (\<lambda>(a, av). attr_accepts ign v sch a av) sch"
  unfolding attr_accepts_def by (subst accepts.simps) (rule refl)

section \<open>The messages of the checker\<close>

text \<open>A part of the check that decides \<open>P\<close>: it adds messages exactly when \<open>P\<close> fails, and restores the path.\<close>

definition decides :: "checker \<Rightarrow> bool \<Rightarrow> checker \<Rightarrow> bool" where
  "decides s P s' \<longleftrightarrow> ck_path s' = ck_path s \<and> ck_error s' = (ck_error s \<or> \<not> P) \<and>
     (\<exists>ms. ck_messages s' = ck_messages s @ ms \<and> (ms = [] \<longleftrightarrow> P) \<and>
        (\<forall>m \<in> set ms. \<exists>q. fst m = ck_path s @ q))"

lemma decides_refl: "decides s True s"
  by (simp add: decides_def)

lemma decides_trans: "decides s P t \<Longrightarrow> decides t Q u \<Longrightarrow> decides s (P \<and> Q) u"
proof -
  assume st: "decides s P t" and tu: "decides t Q u"
  from st obtain ms where ms: "ck_messages t = ck_messages s @ ms" "ms = [] \<longleftrightarrow> P"
      "\<forall>m \<in> set ms. \<exists>q. fst m = ck_path s @ q" by (auto simp: decides_def)
  from tu obtain ns where ns: "ck_messages u = ck_messages t @ ns" "ns = [] \<longleftrightarrow> Q"
      "\<forall>m \<in> set ns. \<exists>q. fst m = ck_path t @ q" by (auto simp: decides_def)
  have "ck_path t = ck_path s" using st by (simp add: decides_def)
  with ms ns have "ck_messages u = ck_messages s @ (ms @ ns)" "ms @ ns = [] \<longleftrightarrow> P \<and> Q"
      "\<forall>m \<in> set (ms @ ns). \<exists>q. fst m = ck_path s @ q" by auto
  moreover have "ck_path u = ck_path s" "ck_error u = (ck_error s \<or> \<not> (P \<and> Q))"
    using st tu by (simp_all add: decides_def)
  ultimately show ?thesis unfolding decides_def by blast
qed

lemma decides_fail: "decides s False (ck_fail m s)"
  by (simp add: decides_def ck_fail_def)

lemma decides_if: "(b \<Longrightarrow> decides s P t) \<Longrightarrow> (\<not> b \<Longrightarrow> decides s Q u) \<Longrightarrow>
    decides s (if b then P else Q) (if b then t else u)"
  by simp

lemma decides_nested:
  assumes "decides (ck_push p s) P t"
  shows "decides s P (ck_pop t)"
proof -
  obtain ms where ms: "ck_messages t = ck_messages s @ ms" "ms = [] \<longleftrightarrow> P" "\<forall>m \<in> set ms. \<exists>q. fst m = ck_path s @ p # q"
    using assms by (auto simp: decides_def ck_push_def)
  moreover have "\<forall>m \<in> set ms. \<exists>q. fst m = ck_path s @ q" using ms(3) by blast
  ultimately show ?thesis using assms by (simp add: decides_def ck_push_def ck_pop_def)
qed

lemma unique_against_decides: "decides s (x \<notin> set ys) (unique_against x ys s)"
proof (induction ys arbitrary: s)
  case (Cons y ys)
  have "decides s (x \<noteq> y) (if x = y then ck_fail MsgUnique s else s)"
    using decides_fail decides_refl by simp
  from decides_trans [OF this Cons] show ?case by simp
qed (simp add: decides_refl)

lemma unique_items_decides: "decides s (distinct xs) (unique_items xs s)"
proof (induction xs arbitrary: s)
  case (Cons x xs)
  from decides_trans [OF unique_against_decides Cons] show ?case by simp
qed (simp add: decides_refl)

lemma simple_checks:
  "decides s (\<not> wrong_type (json_string [] av) v) (checkType v av s)"
  "decides s (is_JDouble v \<and> json_double 0 av \<le> json_double 0 v) (checkMinimum v av s)"
  "decides s (is_JDouble v \<and> json_double 0 v \<le> json_double 0 av) (checkMaximum v av s)"
  "decides s (is_JArray v \<and> json_int 0 av \<le> int (length (json_array v))) (checkMinItems v av s)"
  "decides s (is_JArray v \<and> int (length (json_array v)) \<le> json_int 0 av) (checkMaxItems v av s)"
  "decides s (is_JArray v \<and> (json_bool False av \<longrightarrow> distinct (json_array v))) (checkUniqueItems v av s)"
  "decides s (v \<in> set (json_array av)) (checkEnum v av s)"
  using decides_refl decides_fail unique_items_decides
  by (simp_all add: checkType_def checkMinimum_def checkMaximum_def checkMinItems_def checkMaxItems_def
      checkUniqueItems_def checkEnum_def Let_def not_less)

lemma checker_decides:
  "decides s (list_all (\<lambda>(a, av). attr_accepts ign v full a av) rest) (ck_validate ign v full rest s)"
  "decides s (attr_accepts ign v full a av) (ck_attribute ign v full a av s)"
  "decides s (list_all (\<lambda>(p, pv). if json_contains obj p then accepts ign (json_lookup obj p) (json_object pv)
      else \<not> json_bool False (json_lookup (json_object pv) ''required'') \<or> ign) ps) (checkProperties ign obj ps s)"
  "decides s (list_all (\<lambda>x. accepts ign x sch) xs) (checkItems ign xs i sch s)"
  "decides s (list_all (\<lambda>(p, x). p \<in> set ignored \<or> (if is_JBool av then json_bool False av
      else accepts ign (JObject (json_object x)) (json_object av))) obj)
     (checkAdditionalProperties ign obj av ignored s)"
proof (induction ign v full rest s and ign v full a av s and ign obj ps s and ign xs i sch s and ign obj av ignored s
    rule: ck_validate_ck_attribute_checkProperties_checkItems_checkAdditionalProperties.induct)
  case (1 ign v full s)
  show ?case by (simp add: decides_refl)
next
  case (2 ign v full a av rest s)
  from decides_trans [OF 2(1,2)] show ?case by simp
next
  case (3 ign v full a av s)
  show ?case
  proof (cases "attribute_of a")
    case AProperties
    then show ?thesis using 3(1) decides_fail by (simp add: attr_accepts_def)
  next
    case AAdditional
    then show ?thesis using 3(2) decides_fail by (simp add: attr_accepts_def)
  next
    case AItems
    then show ?thesis using 3(3) decides_fail by (simp add: attr_accepts_def)
  qed (use simple_checks decides_refl decides_fail in \<open>simp_all add: attr_accepts_def\<close>)
next
  case (4 ign obj s)
  show ?case by (simp add: decides_refl)
next
  case (5 ign obj p pv ps s)
  let ?m = "if json_contains obj p then accepts ign (json_lookup obj p) (json_object pv)
      else \<not> json_bool False (json_lookup (json_object pv) ''required'') \<or> ign"
  have "decides (ck_push (Member p) s) ?m
     (if json_contains obj p
      then ck_validate ign (json_lookup obj p) (json_object pv) (json_object pv) (ck_push (Member p) s)
      else if json_bool False (json_lookup (json_object pv) ''required'') \<and> \<not> ign
           then ck_fail MsgMissing (ck_push (Member p) s) else ck_push (Member p) s)"
    using 5(1) decides_fail decides_refl by (simp add: accepts_iff)
  from decides_trans [OF decides_nested [OF this] 5(2)] show ?case by simp
next
  case (6 ign i sch s)
  show ?case by (simp add: decides_refl)
next
  case (7 ign x xs i sch s)
  from 7(1) have "decides (ck_push (Index i) s) (accepts ign x sch) (ck_validate ign x sch sch (ck_push (Index i) s))"
    by (simp add: accepts_iff)
  from decides_trans [OF decides_nested [OF this] 7(2)] show ?case by simp
next
  case (8 ign sch ignored s)
  show ?case by (simp add: decides_refl)
next
  case (9 ign p x obj sch ignored s)
  let ?m = "if is_JBool sch then json_bool False sch else accepts ign (JObject (json_object x)) (json_object sch)"
  let ?t = "if is_JBool sch
      then (if json_bool False sch then ck_push (Member p) s else ck_fail MsgNoSchema (ck_push (Member p) s))
      else ck_validate ign (JObject (json_object x)) (json_object sch) (json_object sch) (ck_push (Member p) s)"
  have "decides (ck_push (Member p) s) ?m ?t" if "p \<notin> set ignored"
    using 9(1) [OF that] decides_fail decides_refl by (simp add: accepts_iff)
  then have "decides s (p \<in> set ignored \<or> ?m) (if p \<in> set ignored then s else ck_pop ?t)"
    using decides_nested [of "Member p" s ?m ?t] decides_refl by (cases "p \<in> set ignored") (simp_all only: simp_thms if_True if_False)
  from decides_trans [OF this 9(2)] show ?case by simp
qed

section \<open>What a schema means\<close>

text \<open>The types a value has, by their documented names.\<close>

fun types_of :: "json \<Rightarrow> string list" where
  "types_of JNull = [''null'']"
| "types_of JUndefined = []"
| "types_of (JBool b) = [''boolean'']"
| "types_of (JDouble x) = ''number'' # ''double'' # (if of_int \<lfloor>x\<rfloor> = x then [''integer''] else [])"
| "types_of (JString t) = [''string'', ''enum'']"
| "types_of (JArray xs) = [''array'']"
| "types_of (JObject obj) = [''object'']"

definition known_types :: "string list" where
  "known_types = [''string'', ''number'', ''integer'', ''double'', ''boolean'', ''object'', ''array'', ''null'', ''enum'']"

text \<open>
  What an attribute of the schema \<open>sch\<close> asks of a value; \<open>c\<close> is the meaning of the schemas inside it.  With
  \<open>lenient\<close> the three gaps of the checker are part of the meaning: the type \<open>integer\<close> admits what is no
  number, an unknown type admits everything, and an additional property that is no object counts as an
  empty one.
\<close>

definition attr_means ::
  "(json \<Rightarrow> (string \<times> json) list \<Rightarrow> bool) \<Rightarrow> bool \<Rightarrow> bool \<Rightarrow> json \<Rightarrow> (string \<times> json) list \<Rightarrow> string \<Rightarrow> json \<Rightarrow> bool" where
  "attr_means c lenient ign v sch a av \<longleftrightarrow>
    (if a = ''type'' then
       (let ty = json_string [] av
        in ty \<in> set (types_of v) \<or> lenient \<and> (ty = ''integer'' \<and> ''number'' \<notin> set (types_of v) \<or> ty \<notin> set known_types))
     else if a = ''properties'' then
       (case v of JObject obj \<Rightarrow> list_all (\<lambda>(p, pv). case map_of obj p of
            Some x \<Rightarrow> c x (json_object pv)
          | None \<Rightarrow> json_lookup (json_object pv) ''required'' \<noteq> JBool True \<or> ign) (json_object av) | _ \<Rightarrow> False)
     else if a = ''additionalProperties'' then
       (case v of JObject obj \<Rightarrow> list_all (\<lambda>(p, x). p \<in> set (map fst (json_object (json_lookup sch ''properties''))) \<or>
            (case av of JBool b \<Rightarrow> b
             | _ \<Rightarrow> c (if lenient \<and> ''object'' \<notin> set (types_of x) then JObject [] else x) (json_object av))) obj
        | _ \<Rightarrow> False)
     else if a = ''minimum'' then (case v of JDouble x \<Rightarrow> json_double 0 av \<le> x | _ \<Rightarrow> False)
     else if a = ''maximum'' then (case v of JDouble x \<Rightarrow> x \<le> json_double 0 av | _ \<Rightarrow> False)
     else if a = ''items'' then (case v of JArray xs \<Rightarrow> list_all (\<lambda>x. c x (json_object av)) xs | _ \<Rightarrow> False)
     else if a = ''minItems'' then (case v of JArray xs \<Rightarrow> json_int 0 av \<le> int (length xs) | _ \<Rightarrow> False)
     else if a = ''maxItems'' then (case v of JArray xs \<Rightarrow> int (length xs) \<le> json_int 0 av | _ \<Rightarrow> False)
     else if a = ''uniqueItems'' then (case v of JArray xs \<Rightarrow> av = JBool True \<longrightarrow> distinct xs | _ \<Rightarrow> False)
     else if a = ''enum'' then (case av of JArray vs \<Rightarrow> v \<in> set vs | _ \<Rightarrow> False)
     else a \<in> set [''required'', ''id'', ''title'', ''description'', ''default'', ''format'', ''defaultProperties'',
       ''propertyOrder'', ''append'', ''step'', ''access'', ''options'', ''script''])"

lemma list_all_agree: "(\<And>x. x \<in> set xs \<Longrightarrow> P x \<longleftrightarrow> Q x) \<Longrightarrow> list_all P xs \<longleftrightarrow> list_all Q xs"
  by (auto simp: list_all_iff)

lemma size_attribute:
  assumes "(a, av) \<in> set (sch :: (string \<times> json) list)"
  shows "size_list (size_prod (\<lambda>_. 0) size) (json_object av) < size_list (size_prod (\<lambda>_. 0) size) sch"
    "(p, pv) \<in> set (json_object av) \<Longrightarrow>
       size_list (size_prod (\<lambda>_. 0) size) (json_object pv) < size_list (size_prod (\<lambda>_. 0) size) sch"
proof -
  show less: "size_list (size_prod (\<lambda>_. 0) size) (json_object av) < size_list (size_prod (\<lambda>_. 0) size) sch"
    using size_json_member [OF assms] size_json_object [of av] by linarith
  show "(p, pv) \<in> set (json_object av) \<Longrightarrow>
       size_list (size_prod (\<lambda>_. 0) size) (json_object pv) < size_list (size_prod (\<lambda>_. 0) size) sch"
    using less size_json_member [of p pv "json_object av"] size_json_object [of pv] by linarith
qed

lemma attr_means_mono:
  assumes "attr_means c l ign v sch a av"
    and "\<And>x. c x (json_object av) \<Longrightarrow> d x (json_object av)"
    and "\<And>x p pv. (p, pv) \<in> set (json_object av) \<Longrightarrow> c x (json_object pv) \<Longrightarrow> d x (json_object pv)"
  shows "attr_means d l ign v sch a av"
proof -
  have p: "list_all (\<lambda>(p, pv). case map_of m p of Some x \<Rightarrow> c x (json_object pv)
      | None \<Rightarrow> json_lookup (json_object pv) ''required'' \<noteq> JBool True \<or> ign) (json_object av) \<Longrightarrow>
    list_all (\<lambda>(p, pv). case map_of m p of Some x \<Rightarrow> d x (json_object pv)
      | None \<Rightarrow> json_lookup (json_object pv) ''required'' \<noteq> JBool True \<or> ign) (json_object av)" for m
    by (erule list.pred_mono_strong) (auto split: option.splits intro: assms(3))
  have step: "(case av of JBool b \<Rightarrow> b | _ \<Rightarrow> c y (json_object av)) \<Longrightarrow> (case av of JBool b \<Rightarrow> b | _ \<Rightarrow> d y (json_object av))" for y
    using assms(2) [of y] by (cases av) simp_all
  have q: "list_all (\<lambda>(p, x). p \<in> ps \<or> (case av of JBool b \<Rightarrow> b | _ \<Rightarrow> c (f x) (json_object av))) m \<Longrightarrow>
    list_all (\<lambda>(p, x). p \<in> ps \<or> (case av of JBool b \<Rightarrow> b | _ \<Rightarrow> d (f x) (json_object av))) m" for m ps and f :: "json \<Rightarrow> json"
    by (erule list.pred_mono_strong) (use step in blast)
  have r: "list_all (\<lambda>x. c x (json_object av)) xs \<Longrightarrow> list_all (\<lambda>x. d x (json_object av)) xs" for xs
    by (erule list.pred_mono_strong) (rule assms(2))
  have nested: "?thesis" if "a = ''properties'' \<or> a = ''additionalProperties'' \<or> a = ''items''"
    using that
  proof (elim disjE)
    assume a: "a = ''properties''"
    show ?thesis using assms(1) unfolding a attr_means_def by (cases v) (simp_all add: p)
  next
    assume a: "a = ''additionalProperties''"
    show ?thesis using assms(1) unfolding a attr_means_def by (cases v) (simp_all add: q split del: if_split)
  next
    assume a: "a = ''items''"
    show ?thesis using assms(1) unfolding a attr_means_def by (cases v) (simp_all add: r)
  qed
  show ?thesis
  proof (cases "a = ''properties'' \<or> a = ''additionalProperties'' \<or> a = ''items''")
    case False
    then have "(a = ''properties'') = False" "(a = ''additionalProperties'') = False" "(a = ''items'') = False" by simp_all
    then show ?thesis using assms(1) by (simp only: attr_means_def if_False)
  qed (rule nested)
qed

text \<open>The schemas inside an attribute.\<close>

definition inner_schemas :: "json \<Rightarrow> (string \<times> json) list set" where
  "inner_schemas av = insert (json_object av) ((\<lambda>(p, pv). json_object pv) ` set (json_object av))"

lemma attr_means_cong [fundef_cong]:
  assumes "av = av'" "\<And>x s. s \<in> inner_schemas av' \<Longrightarrow> c x s = d x s"
  shows "attr_means c l ign v sch a av = attr_means d l ign v sch a av'"
proof -
  have "c x (json_object av') = d x (json_object av')" for x by (rule assms(2)) (simp add: inner_schemas_def)
  moreover have "c x (json_object pv) = d x (json_object pv)" if "(p, pv) \<in> set (json_object av')" for x p pv
    using that by (intro assms(2)) (force simp: inner_schemas_def)
  ultimately show ?thesis
    using attr_means_mono [of c l ign v sch a av' d] attr_means_mono [of d l ign v sch a av' c] assms(1) by blast
qed

text \<open>A value conforms to a schema when it does what every attribute asks.\<close>

function conforms :: "bool \<Rightarrow> bool \<Rightarrow> json \<Rightarrow> (string \<times> json) list \<Rightarrow> bool" where
  "conforms lenient ign v sch \<longleftrightarrow>
     list_all (\<lambda>(a, av). attr_means (\<lambda>x s. conforms lenient ign x s) lenient ign v sch a av) sch"
  by pat_completeness auto
termination
  by (relation "measure (\<lambda>(lenient, ign, v, sch). size_list (size_prod (\<lambda>_. 0) size) sch)")
    (auto simp: inner_schemas_def intro: size_attribute)

declare conforms.simps [simp del]

lemma conforms_iff:
  "conforms lenient ign v sch \<longleftrightarrow> list_all (\<lambda>(a, av). attr_means (conforms lenient ign) lenient ign v sch a av) sch"
  by (subst conforms.simps) (rule refl)

section \<open>The checker decides conformance\<close>

lemma attribute_of_iff:
  "attribute_of a = AType \<longleftrightarrow> a = ''type''" "attribute_of a = AProperties \<longleftrightarrow> a = ''properties''"
  "attribute_of a = AAdditional \<longleftrightarrow> a = ''additionalProperties''" "attribute_of a = AMinimum \<longleftrightarrow> a = ''minimum''"
  "attribute_of a = AMaximum \<longleftrightarrow> a = ''maximum''" "attribute_of a = AItems \<longleftrightarrow> a = ''items''"
  "attribute_of a = AMinItems \<longleftrightarrow> a = ''minItems''" "attribute_of a = AMaxItems \<longleftrightarrow> a = ''maxItems''"
  "attribute_of a = AUnique \<longleftrightarrow> a = ''uniqueItems''" "attribute_of a = AEnum \<longleftrightarrow> a = ''enum''"
  by (simp_all add: attribute_of_def)

lemma attribute_names:
  "attribute_of ''type'' = AType" "attribute_of ''properties'' = AProperties"
  "attribute_of ''additionalProperties'' = AAdditional" "attribute_of ''minimum'' = AMinimum"
  "attribute_of ''maximum'' = AMaximum" "attribute_of ''items'' = AItems"
  "attribute_of ''minItems'' = AMinItems" "attribute_of ''maxItems'' = AMaxItems"
  "attribute_of ''uniqueItems'' = AUnique" "attribute_of ''enum'' = AEnum" "attribute_of ''required'' = APlain"
  by code_simp+

lemma attribute_of_rest:
  "attribute_of a = APlain \<Longrightarrow> a \<in> set plain_attributes"
  "attribute_of a = AUnknown \<Longrightarrow> a \<notin> set plain_attributes"
  by (auto simp: attribute_of_def split: if_splits)

lemma wrong_type_iff:
  "\<not> wrong_type ty v \<longleftrightarrow> ty \<in> set (types_of v) \<or> ty = ''integer'' \<and> ''number'' \<notin> set (types_of v) \<or> ty \<notin> set known_types"
  by (cases v) (auto simp: wrong_type_def known_types_def)

lemma required_flag: "json_bool False v \<longleftrightarrow> v = JBool True"
  by (cases v) auto

lemma accepts_conforms: "accepts ign v sch \<longleftrightarrow> conforms True ign v sch"
proof (induction "size_list (size_prod (\<lambda>_. 0) size) sch" arbitrary: v sch rule: less_induct)
  case less
  show ?case unfolding accepts_iff [of ign v] conforms_iff [of True ign v]
  proof (rule list_all_agree, clarify)
    fix a av assume mem: "(a, av) \<in> set sch"
    have one: "accepts ign x (json_object av) \<longleftrightarrow> conforms True ign x (json_object av)" for x
      using less.hyps [OF size_attribute(1) [OF mem]] by simp
    have two: "accepts ign x (json_object pv) \<longleftrightarrow> conforms True ign x (json_object pv)" if "(p, pv) \<in> set (json_object av)" for x p pv
      using less.hyps [OF size_attribute(2) [OF mem that]] by simp
    have obj: "JObject (json_object x) = (if True \<and> ''object'' \<notin> set (types_of x) then JObject [] else x)" for x
      by (cases x) simp_all
    show "attr_accepts ign v sch a av \<longleftrightarrow> attr_means (conforms True ign) True ign v sch a av"
    proof (cases "attribute_of a")
      case AType
      then show ?thesis by (simp add: attr_accepts_def attr_means_def attribute_of_iff attribute_names wrong_type_iff Let_def)
    next
      case AProperties
      have "list_all (\<lambda>(p, pv). if json_contains m p then accepts ign (json_lookup m p) (json_object pv)
          else json_bool False (json_lookup (json_object pv) ''required'') \<longrightarrow> ign) (json_object av) \<longleftrightarrow>
        list_all (\<lambda>(p, pv). case map_of m p of Some x \<Rightarrow> conforms True ign x (json_object pv)
          | None \<Rightarrow> json_lookup (json_object pv) ''required'' \<noteq> JBool True \<or> ign) (json_object av)" for m
      proof (rule list_all_agree, clarify)
        fix p pv assume "(p, pv) \<in> set (json_object av)"
        from two [OF this] show "(if json_contains m p then accepts ign (json_lookup m p) (json_object pv)
            else json_bool False (json_lookup (json_object pv) ''required'') \<longrightarrow> ign) \<longleftrightarrow>
          (case map_of m p of Some x \<Rightarrow> conforms True ign x (json_object pv)
            | None \<Rightarrow> json_lookup (json_object pv) ''required'' \<noteq> JBool True \<or> ign)"
          by (cases "map_of m p") (simp_all add: json_contains_def json_lookup_def [of m] required_flag)
      qed
      note agree = this
      from AProperties show ?thesis by (cases v) (simp_all add: attr_accepts_def attr_means_def attribute_of_iff attribute_names agree cong: if_cong split del: if_split)
    next
      case AAdditional
      have "list_all (\<lambda>(p, x). p \<in> ps \<or> (if is_JBool av then json_bool False av
          else accepts ign (JObject (json_object x)) (json_object av))) m \<longleftrightarrow>
        list_all (\<lambda>(p, x). p \<in> ps \<or> (case av of JBool b \<Rightarrow> b
          | _ \<Rightarrow> conforms True ign (if True \<and> ''object'' \<notin> set (types_of x) then JObject [] else x) (json_object av))) m" for m ps
        unfolding one obj by (cases av) simp_all
      note agree = this
      from AAdditional show ?thesis by (cases v) (simp_all add: attr_accepts_def attr_means_def attribute_of_iff attribute_names agree cong: if_cong split del: if_split)
    next
      case AItems
      then show ?thesis by (cases v) (simp_all add: attr_accepts_def attr_means_def attribute_of_iff attribute_names one)
    next
      case AUnique
      then show ?thesis by (cases v) (simp_all add: attr_accepts_def attr_means_def attribute_of_iff attribute_names required_flag)
    next
      case AEnum
      then show ?thesis by (cases av) (simp_all add: attr_accepts_def attr_means_def attribute_of_iff attribute_names)
    next
      case APlain
      from attribute_of_rest(1) [OF this] show ?thesis
        unfolding attr_accepts_def attr_means_def APlain attribute.case plain_attributes_def list.set by (elim insertE emptyE) simp_all
    next
      case AUnknown
      have "a \<notin> set [''type'', ''properties'', ''additionalProperties'', ''minimum'', ''maximum'', ''items'', ''minItems'',
          ''maxItems'', ''uniqueItems'', ''enum'']" using AUnknown by (auto simp: attribute_of_def)
      with attribute_of_rest(2) [OF AUnknown] show ?thesis
        unfolding attr_accepts_def attr_means_def AUnknown attribute.case plain_attributes_def by simp
    qed (cases v; simp add: attr_accepts_def attr_means_def attribute_of_iff attribute_names)+
  qed
qed

text \<open>
  Schemas on which the gaps do not matter: additional properties are allowed or not, without a schema of
  their own, and, when \<open>typed\<close>, all types are known and an integer has a bound, which asks for a number.
\<close>

function regular :: "bool \<Rightarrow> (string \<times> json) list \<Rightarrow> bool" where
  "regular typed sch \<longleftrightarrow> list_all (\<lambda>(a, av).
     if a = ''type'' then
       typed \<longrightarrow> json_string [] av \<in> set known_types \<and>
         (json_string [] av = ''integer'' \<longrightarrow> ''minimum'' \<in> set (map fst sch) \<or> ''maximum'' \<in> set (map fst sch))
     else if a = ''properties'' then list_all (\<lambda>(p, pv). regular typed (json_object pv)) (json_object av)
     else if a = ''items'' then regular typed (json_object av)
     else if a = ''additionalProperties'' then is_JBool av
     else True) sch"
  by pat_completeness auto
termination
  by (relation "measure (\<lambda>(typed, sch). size_list (size_prod (\<lambda>_. 0) size) sch)") (auto intro: size_attribute)

declare regular.simps [simp del]

lemma attr_means_regular:
  assumes "attr_means c l ign v sch a av" "a \<noteq> ''type''" "a = ''additionalProperties'' \<Longrightarrow> is_JBool av"
    and "\<And>x. a = ''items'' \<Longrightarrow> c x (json_object av) \<Longrightarrow> d x (json_object av)"
    and "\<And>x p pv. a = ''properties'' \<Longrightarrow> (p, pv) \<in> set (json_object av) \<Longrightarrow> c x (json_object pv) \<Longrightarrow> d x (json_object pv)"
  shows "attr_means d l' ign v sch a av"
proof -
  consider "a = ''properties''" | "a = ''additionalProperties''" | "a = ''items''"
    | "a \<noteq> ''properties''" "a \<noteq> ''additionalProperties''" "a \<noteq> ''items''" by blast
  then show ?thesis
  proof cases
    case 1
    have "list_all (\<lambda>(p, pv). case map_of m p of Some x \<Rightarrow> c x (json_object pv)
        | None \<Rightarrow> json_lookup (json_object pv) ''required'' \<noteq> JBool True \<or> ign) (json_object av) \<Longrightarrow>
      list_all (\<lambda>(p, pv). case map_of m p of Some x \<Rightarrow> d x (json_object pv)
        | None \<Rightarrow> json_lookup (json_object pv) ''required'' \<noteq> JBool True \<or> ign) (json_object av)" for m
      by (erule list.pred_mono_strong) (auto split: option.splits intro: assms(5) [OF 1])
    then show ?thesis using assms(1) unfolding 1 attr_means_def by (cases v) simp_all
  next
    case 2
    then obtain b where "av = JBool b" using assms(3) by (cases av) auto
    then show ?thesis using assms(1) unfolding 2 attr_means_def by (cases v) simp_all
  next
    case 3
    have "list_all (\<lambda>x. c x (json_object av)) xs \<Longrightarrow> list_all (\<lambda>x. d x (json_object av)) xs" for xs
      by (erule list.pred_mono_strong) (rule assms(4) [OF 3])
    then show ?thesis using assms(1) unfolding 3 attr_means_def by (cases v) simp_all
  next
    case 4
    then have "(a = ''properties'') = False" "(a = ''additionalProperties'') = False" "(a = ''items'') = False"
      "(a = ''type'') = False" using assms(2) by simp_all
    then show ?thesis using assms(1) by (simp only: attr_means_def if_False)
  qed
qed

text \<open>Induction over the schema for two meanings that agree on types.\<close>

lemma regular_step:
  assumes "regular typed sch" "conforms l ign v sch"
    and types: "\<And>av. (''type'', av) \<in> set sch \<Longrightarrow> attr_means (conforms l ign) l ign v sch ''type'' av \<Longrightarrow>
      attr_means (conforms l' ign) l' ign v sch ''type'' av"
    and inner: "\<And>x s. regular typed s \<Longrightarrow> size_list (size_prod (\<lambda>_. 0) size) s < size_list (size_prod (\<lambda>_. 0) size) sch \<Longrightarrow>
      conforms l ign x s \<Longrightarrow> conforms l' ign x s"
  shows "conforms l' ign v sch"
proof -
  have "attr_means (conforms l' ign) l' ign v sch a av" if mem: "(a, av) \<in> set sch" for a av
  proof (cases "a = ''type''")
    case True
    then show ?thesis using mem types assms(2) by (auto simp: conforms_iff list_all_iff)
  next
    case False
    have reg: "a = ''properties'' \<Longrightarrow> (p, pv) \<in> set (json_object av) \<Longrightarrow> regular typed (json_object pv)"
      "a = ''items'' \<Longrightarrow> regular typed (json_object av)" "a = ''additionalProperties'' \<Longrightarrow> is_JBool av" for p pv
      using assms(1) mem by (subst (asm) regular.simps; fastforce simp: list_all_iff)+
    have "attr_means (conforms l ign) l ign v sch a av"
      using assms(2) mem by (auto simp: conforms_iff list_all_iff)
    then show ?thesis
      by (rule attr_means_regular) (use False reg inner size_attribute [OF mem] in blast)+
  qed
  then show ?thesis by (auto simp: conforms_iff [of l'] list_all_iff)
qed

lemma lenient_accepts: "regular False sch \<Longrightarrow> conforms False ign v sch \<Longrightarrow> conforms True ign v sch"
proof (induction "size_list (size_prod (\<lambda>_. 0) size) sch" arbitrary: v sch rule: less_induct)
  case less
  show ?case
    by (rule regular_step [OF less.prems]) (auto simp: attr_means_def Let_def intro: less.hyps)
qed

lemma bound_needs_number:
  assumes "conforms l ign v sch" "''minimum'' \<in> set (map fst sch) \<or> ''maximum'' \<in> set (map fst sch)"
  shows "''number'' \<in> set (types_of v)"
proof -
  obtain a av where "(a, av) \<in> set sch" "a = ''minimum'' \<or> a = ''maximum''" using assms(2) by auto
  then have "attr_means (conforms l ign) l ign v sch ''minimum'' av \<or> attr_means (conforms l ign) l ign v sch ''maximum'' av"
    using assms(1) by (auto simp: conforms_iff list_all_iff)
  then show ?thesis by (cases v) (auto simp: attr_means_def)
qed

lemma strict_rejects: "regular True sch \<Longrightarrow> conforms True ign v sch \<Longrightarrow> conforms False ign v sch"
proof (induction "size_list (size_prod (\<lambda>_. 0) size) sch" arbitrary: v sch rule: less_induct)
  case less
  show ?case
  proof (rule regular_step [OF less.prems])
    fix av assume mem: "(''type'', av) \<in> set sch" and m: "attr_means (conforms True ign) True ign v sch ''type'' av"
    have "json_string [] av \<in> set known_types \<and>
       (json_string [] av = ''integer'' \<longrightarrow> ''minimum'' \<in> set (map fst sch) \<or> ''maximum'' \<in> set (map fst sch))"
      using less.prems(1) mem by (subst (asm) regular.simps) (fastforce simp: list_all_iff)
    with m bound_needs_number [OF less.prems(2)] show "attr_means (conforms False ign) False ign v sch ''type'' av"
      by (auto simp: attr_means_def Let_def)
  qed (auto intro: less.hyps)
qed

lemma regular_weaken: "regular True sch \<Longrightarrow> regular False sch"
proof (induction "size_list (size_prod (\<lambda>_. 0) size) sch" arbitrary: sch rule: less_induct)
  case less
  show ?case unfolding regular.simps [of False sch] list_all_iff
  proof clarify
    fix a av assume mem: "(a, av) \<in> set sch"
    have reg: "a = ''properties'' \<Longrightarrow> \<forall>(p, pv) \<in> set (json_object av). regular True (json_object pv)"
      "a = ''items'' \<Longrightarrow> regular True (json_object av)" "a = ''additionalProperties'' \<Longrightarrow> is_JBool av"
      using less.prems mem by (subst (asm) regular.simps; fastforce simp: list_all_iff)+
    have one: "a = ''items'' \<Longrightarrow> regular False (json_object av)"
      using less.hyps [OF size_attribute(1) [OF mem]] reg(2) by blast
    have two: "a = ''properties'' \<Longrightarrow> \<forall>(p, pv) \<in> set (json_object av). regular False (json_object pv)"
      using less.hyps [OF size_attribute(2) [OF mem]] reg(1) by blast
    show "if a = ''type'' then False \<longrightarrow> json_string [] av \<in> set known_types \<and>
         (json_string [] av = ''integer'' \<longrightarrow> ''minimum'' \<in> set (map fst sch) \<or> ''maximum'' \<in> set (map fst sch))
      else if a = ''properties'' then \<forall>(p, pv) \<in> set (json_object av). regular False (json_object pv)
      else if a = ''items'' then regular False (json_object av)
      else if a = ''additionalProperties'' then is_JBool av else True"
      using one two reg(3) by simp
  qed
qed

text \<open>
  C24.  The checker decides conformance.  It accepts an object exactly when the object conforms to the
  schema in the lenient meaning, it reports a message exactly when it rejects, and every message names a
  path from the root.  Nothing that conforms in the documented meaning is rejected by a schema whose
  additional properties are allowed or not, and when its types are known and its integers have a bound,
  exactly what conforms in the documented meaning is accepted.
\<close>

theorem schema_validate_exact:
  "(fst (schema_validate ign sch obj) \<longleftrightarrow> conforms True ign (JObject obj) sch) \<and>
   (snd (schema_validate ign sch obj) = [] \<longleftrightarrow> fst (schema_validate ign sch obj)) \<and>
   list_all (\<lambda>(path, msg). take 1 path = [Root]) (snd (schema_validate ign sch obj)) \<and>
   (regular False sch \<and> conforms False ign (JObject obj) sch \<longrightarrow> fst (schema_validate ign sch obj)) \<and>
   (regular True sch \<longrightarrow> (fst (schema_validate ign sch obj) \<longleftrightarrow> conforms False ign (JObject obj) sch))"
proof -
  let ?s = "ck_validate ign (JObject obj) sch sch check_init" and ?c = "conforms True ign (JObject obj) sch"
  have "decides check_init ?c ?s"
    unfolding accepts_conforms [symmetric] accepts_iff by (rule checker_decides)
  then have s: "ck_error ?s \<longleftrightarrow> \<not> ?c" "ck_messages ?s = [] \<longleftrightarrow> ?c" "\<forall>m \<in> set (ck_messages ?s). \<exists>q. fst m = Root # q"
    by (auto simp: decides_def check_init_def)
  have "regular True sch \<Longrightarrow> ?c \<longleftrightarrow> conforms False ign (JObject obj) sch"
    using lenient_accepts strict_rejects regular_weaken by blast
  with s lenient_accepts show ?thesis by (fastforce simp: schema_validate_def list_all_iff)
qed

definition channel_demo :: "(string \<times> json) list" where
  "channel_demo = [(''properties'', JObject [(''priority'', JObject [(''maximum'', JDouble 253), (''minimum'', JDouble 1),
     (''required'', JBool True), (''type'', JString ''integer'')])]), (''type'', JString ''object'')]"

theorem schema_validate_exact_witness:
  "regular True channel_demo \<and> fst (schema_validate False channel_demo [(''priority'', JDouble 7)]) \<and>
   \<not> fst (schema_validate False channel_demo [(''priority'', JString ''7'')])"
proof -
  have reg: "regular True channel_demo"
    by (simp add: channel_demo_def regular.simps known_types_def)
  have "conforms False False (JObject [(''priority'', JDouble 7)]) channel_demo"
    "\<not> conforms False False (JObject [(''priority'', JString ''7'')]) channel_demo"
    by (simp_all add: channel_demo_def conforms.simps attr_means_def json_lookup_def)
  with reg schema_validate_exact [of False channel_demo "[(''priority'', JDouble 7)]"]
    schema_validate_exact [of False channel_demo "[(''priority'', JString ''7'')]"] show ?thesis by blast
qed

end
