(* ===== verification/JsonSchemas.thy ===== *)
theory JsonSchemas
  imports JsonSchema
begin

text \<open>
  The schemas of the JSON messages (\<open>libsrc/jsonserver/schema/*.json\<close>), as \<open>QJsonDocument\<close> reads them:
  objects with sorted keys.  \<open>checkJson\<close> of \<open>JsonClientConnection.cpp\<close> looks a schema up among the
  resources and validates against it; the facts below are what acceptance means for the fields
  the handlers read.
\<close>

section \<open>The schemas\<close>

definition schema_base :: "(string \<times> json) list" where
  "schema_base =
     [(''properties'', JObject [
       (''command'', JObject [
         (''enum'', JArray [
           JString ''color'', JString ''image'', JString ''effect'', JString ''create-effect'',
           JString ''delete-effect'', JString ''serverinfo'', JString ''clear'', JString ''clearall'',
           JString ''adjustment'', JString ''sourceselect'', JString ''config'',
           JString ''componentstate'', JString ''ledcolors'', JString ''logging'',
           JString ''processing'']),
         (''required'', JBool True),
         (''type'', JString ''string'')])]),
     (''required'', JBool True),
     (''type'', JString ''object'')]"

definition schema_color :: "(string \<times> json) list" where
  "schema_color =
     [(''additionalProperties'', JBool False),
     (''properties'', JObject [
       (''color'', JObject [
         (''items'', JObject [(''type'', JString ''integer'')]),
         (''minItems'', JDouble 3),
         (''required'', JBool True),
         (''type'', JString ''array'')]),
       (''command'', JObject [
         (''enum'', JArray [JString ''color'']),
         (''required'', JBool True),
         (''type'', JString ''string'')]),
       (''duration'', JObject [(''required'', JBool False), (''type'', JString ''integer'')]),
       (''priority'', JObject [
         (''maximum'', JDouble 253),
         (''minimum'', JDouble 1),
         (''required'', JBool True),
         (''type'', JString ''integer'')]),
       (''tan'', JObject [(''type'', JString ''integer'')])]),
     (''required'', JBool True),
     (''type'', JString ''object'')]"

definition schema_image :: "(string \<times> json) list" where
  "schema_image =
     [(''additionalProperties'', JBool False),
     (''properties'', JObject [
       (''command'', JObject [
         (''enum'', JArray [JString ''image'']),
         (''required'', JBool True),
         (''type'', JString ''string'')]),
       (''duration'', JObject [(''required'', JBool False), (''type'', JString ''integer'')]),
       (''imagedata'', JObject [(''required'', JBool True), (''type'', JString ''string'')]),
       (''imageheight'', JObject [
         (''minimum'', JDouble 0),
         (''required'', JBool True),
         (''type'', JString ''integer'')]),
       (''imagewidth'', JObject [
         (''minimum'', JDouble 0),
         (''required'', JBool True),
         (''type'', JString ''integer'')]),
       (''priority'', JObject [
         (''maximum'', JDouble 253),
         (''minimum'', JDouble 1),
         (''required'', JBool True),
         (''type'', JString ''integer'')]),
       (''tan'', JObject [(''type'', JString ''integer'')])]),
     (''required'', JBool True),
     (''type'', JString ''object'')]"

definition schema_effect :: "(string \<times> json) list" where
  "schema_effect =
     [(''additionalProperties'', JBool False),
     (''properties'', JObject [
       (''command'', JObject [
         (''enum'', JArray [JString ''effect'']),
         (''required'', JBool True),
         (''type'', JString ''string'')]),
       (''duration'', JObject [(''required'', JBool False), (''type'', JString ''integer'')]),
       (''effect'', JObject [
         (''additionalProperties'', JBool False),
         (''properties'', JObject [
           (''args'', JObject [(''required'', JBool False), (''type'', JString ''object'')]),
           (''name'', JObject [(''required'', JBool True), (''type'', JString ''string'')])]),
         (''required'', JBool True),
         (''type'', JString ''object'')]),
       (''priority'', JObject [
         (''maximum'', JDouble 253),
         (''minimum'', JDouble 1),
         (''required'', JBool True),
         (''type'', JString ''integer'')]),
       (''pythonScript'', JObject [(''required'', JBool False), (''type'', JString ''string'')]),
       (''tan'', JObject [(''type'', JString ''integer'')])]),
     (''required'', JBool True),
     (''type'', JString ''object'')]"

definition schema_clear :: "(string \<times> json) list" where
  "schema_clear =
     [(''additionalProperties'', JBool False),
     (''properties'', JObject [
       (''command'', JObject [
         (''enum'', JArray [JString ''clear'']),
         (''required'', JBool True),
         (''type'', JString ''string'')]),
       (''priority'', JObject [
         (''maximum'', JDouble 253),
         (''minimum'', JDouble 1),
         (''required'', JBool True),
         (''type'', JString ''integer'')]),
       (''tan'', JObject [(''type'', JString ''integer'')])]),
     (''required'', JBool True),
     (''type'', JString ''object'')]"

definition schema_clearall :: "(string \<times> json) list" where
  "schema_clearall =
     [(''additionalProperties'', JBool False),
     (''properties'', JObject [
       (''command'', JObject [
         (''enum'', JArray [JString ''clearall'']),
         (''required'', JBool True),
         (''type'', JString ''string'')]),
       (''tan'', JObject [(''type'', JString ''integer'')])]),
     (''required'', JBool True),
     (''type'', JString ''object'')]"

definition schema_adjustment :: "(string \<times> json) list" where
  "schema_adjustment =
     [(''additionalProperties'', JBool False),
     (''properties'', JObject [
       (''adjustment'', JObject [
         (''additionalProperties'', JBool False),
         (''properties'', JObject [
           (''backlightColored'', JObject [
             (''required'', JBool False),
             (''type'', JString ''boolean'')]),
           (''backlightThreshold'', JObject [
             (''maximum'', JDouble 1),
             (''minimum'', JDouble 0),
             (''required'', JBool False),
             (''type'', JString ''number'')]),
           (''black'', JObject [
             (''items'', JObject [
               (''maximum'', JDouble 255),
               (''minimum'', JDouble 0),
               (''type'', JString ''integer'')]),
             (''maxItems'', JDouble 3),
             (''minItems'', JDouble 3),
             (''required'', JBool False),
             (''type'', JString ''array'')]),
           (''blue'', JObject [
             (''items'', JObject [
               (''maximum'', JDouble 255),
               (''minimum'', JDouble 0),
               (''type'', JString ''integer'')]),
             (''maxItems'', JDouble 3),
             (''minItems'', JDouble 3),
             (''required'', JBool False),
             (''type'', JString ''array'')]),
           (''brightness'', JObject [
             (''maximum'', JDouble 1),
             (''minimum'', JDouble 0),
             (''required'', JBool False),
             (''type'', JString ''number'')]),
           (''cyan'', JObject [
             (''items'', JObject [
               (''maximum'', JDouble 255),
               (''minimum'', JDouble 0),
               (''type'', JString ''integer'')]),
             (''maxItems'', JDouble 3),
             (''minItems'', JDouble 3),
             (''required'', JBool False),
             (''type'', JString ''array'')]),
           (''gammaBlue'', JObject [
             (''maximum'', JDouble 100),
             (''minimum'', JDouble 0),
             (''required'', JBool False),
             (''type'', JString ''number'')]),
           (''gammaGreen'', JObject [
             (''maximum'', JDouble 100),
             (''minimum'', JDouble 0),
             (''required'', JBool False),
             (''type'', JString ''number'')]),
           (''gammaRed'', JObject [
             (''maximum'', JDouble 100),
             (''minimum'', JDouble 0),
             (''required'', JBool False),
             (''type'', JString ''number'')]),
           (''green'', JObject [
             (''items'', JObject [
               (''maximum'', JDouble 255),
               (''minimum'', JDouble 0),
               (''type'', JString ''integer'')]),
             (''maxItems'', JDouble 3),
             (''minItems'', JDouble 3),
             (''required'', JBool False),
             (''type'', JString ''array'')]),
           (''id'', JObject [(''required'', JBool False), (''type'', JString ''string'')]),
           (''magenta'', JObject [
             (''items'', JObject [
               (''maximum'', JDouble 255),
               (''minimum'', JDouble 0),
               (''type'', JString ''integer'')]),
             (''maxItems'', JDouble 3),
             (''minItems'', JDouble 3),
             (''required'', JBool False),
             (''type'', JString ''array'')]),
           (''red'', JObject [
             (''items'', JObject [
               (''maximum'', JDouble 255),
               (''minimum'', JDouble 0),
               (''type'', JString ''integer'')]),
             (''maxItems'', JDouble 3),
             (''minItems'', JDouble 3),
             (''required'', JBool False),
             (''type'', JString ''array'')]),
           (''white'', JObject [
             (''items'', JObject [
               (''maximum'', JDouble 255),
               (''minimum'', JDouble 0),
               (''type'', JString ''integer'')]),
             (''maxItems'', JDouble 3),
             (''minItems'', JDouble 3),
             (''required'', JBool False),
             (''type'', JString ''array'')]),
           (''yellow'', JObject [
             (''items'', JObject [
               (''maximum'', JDouble 255),
               (''minimum'', JDouble 0),
               (''type'', JString ''integer'')]),
             (''maxItems'', JDouble 3),
             (''minItems'', JDouble 3),
             (''required'', JBool False),
             (''type'', JString ''array'')])]),
         (''required'', JBool True),
         (''type'', JString ''object'')]),
       (''command'', JObject [
         (''enum'', JArray [JString ''adjustment'']),
         (''required'', JBool True),
         (''type'', JString ''string'')]),
       (''tan'', JObject [(''type'', JString ''integer'')])]),
     (''required'', JBool True),
     (''type'', JString ''object'')]"

definition schema_sourceselect :: "(string \<times> json) list" where
  "schema_sourceselect =
     [(''additionalProperties'', JBool False),
     (''properties'', JObject [
       (''auto'', JObject [(''type'', JString ''boolean'')]),
       (''command'', JObject [
         (''enum'', JArray [JString ''sourceselect'']),
         (''required'', JBool True),
         (''type'', JString ''string'')]),
       (''priority'', JObject [
         (''maximum'', JDouble 255),
         (''minimum'', JDouble 0),
         (''type'', JString ''integer'')]),
       (''tan'', JObject [(''type'', JString ''integer'')])]),
     (''required'', JBool False),
     (''type'', JString ''object'')]"

definition schema_componentstate :: "(string \<times> json) list" where
  "schema_componentstate =
     [(''additionalProperties'', JBool False),
     (''properties'', JObject [
       (''command'', JObject [
         (''enum'', JArray [JString ''componentstate'']),
         (''required'', JBool True),
         (''type'', JString ''string'')]),
       (''componentstate'', JObject [
         (''additionalProperties'', JBool False),
         (''properties'', JObject [
           (''component'', JObject [
             (''enum'', JArray [
               JString ''SMOOTHING'', JString ''BLACKBORDER'', JString ''KODICHECKER'',
               JString ''FORWARDER'', JString ''UDPLISTENER'', JString ''BOBLIGHTSERVER'',
               JString ''GRABBER'', JString ''V4L'']),
             (''required'', JBool True),
             (''type'', JString ''string'')]),
           (''state'', JObject [(''required'', JBool True), (''type'', JString ''bool'')])]),
         (''required'', JBool True),
         (''type'', JString ''object'')]),
       (''tan'', JObject [(''type'', JString ''integer'')])]),
     (''required'', JBool True),
     (''type'', JString ''object'')]"

definition schema_processing :: "(string \<times> json) list" where
  "schema_processing =
     [(''additionalProperties'', JBool False),
     (''properties'', JObject [
       (''command'', JObject [
         (''enum'', JArray [JString ''processing'']),
         (''required'', JBool True),
         (''type'', JString ''string'')]),
       (''mappingType'', JObject [
         (''enum'', JArray [JString ''multicolor_mean'', JString ''unicolor_mean'']),
         (''type'', JString ''string'')]),
       (''tan'', JObject [(''type'', JString ''integer'')])]),
     (''required'', JBool True),
     (''type'', JString ''object'')]"

definition schema_ledcolors :: "(string \<times> json) list" where
  "schema_ledcolors =
     [(''additionalProperties'', JBool False),
     (''properties'', JObject [
       (''command'', JObject [
         (''enum'', JArray [JString ''ledcolors'']),
         (''required'', JBool True),
         (''type'', JString ''string'')]),
       (''interval'', JObject [(''type'', JString ''integer'')]),
       (''oneshot'', JObject [(''type'', JString ''bool'')]),
       (''subcommand'', JObject [
         (''enum'', JArray [
           JString ''ledstream-stop'', JString ''ledstream-start'', JString ''testled'',
           JString ''imagestream-start'', JString ''imagestream-stop'']),
         (''required'', JBool True),
         (''type'', JString ''string'')]),
       (''tan'', JObject [(''type'', JString ''integer'')])]),
     (''required'', JBool True),
     (''type'', JString ''object'')]"

definition schema_logging :: "(string \<times> json) list" where
  "schema_logging =
     [(''additionalProperties'', JBool False),
     (''properties'', JObject [
       (''command'', JObject [
         (''enum'', JArray [JString ''logging'']),
         (''required'', JBool True),
         (''type'', JString ''string'')]),
       (''interval'', JObject [(''type'', JString ''integer'')]),
       (''oneshot'', JObject [(''type'', JString ''bool'')]),
       (''subcommand'', JObject [
         (''enum'', JArray [JString ''stop'', JString ''start'', JString ''update'']),
         (''required'', JBool True),
         (''type'', JString ''string'')]),
       (''tan'', JObject [(''type'', JString ''integer'')])]),
     (''required'', JBool True),
     (''type'', JString ''object'')]"

definition schema_config :: "(string \<times> json) list" where
  "schema_config =
     [(''additionalProperties'', JBool False),
     (''properties'', JObject [
       (''command'', JObject [
         (''enum'', JArray [JString ''config'']),
         (''required'', JBool True),
         (''type'', JString ''string'')]),
       (''config'', JObject [(''type'', JString ''object'')]),
       (''subcommand'', JObject [
         (''enum'', JArray [JString ''getconfig'', JString ''getschema'', JString ''reload'']),
         (''required'', JBool True),
         (''type'', JString ''string'')]),
       (''tan'', JObject [(''type'', JString ''integer'')])]),
     (''required'', JBool True),
     (''type'', JString ''object'')]"

definition schema_serverinfo :: "(string \<times> json) list" where
  "schema_serverinfo =
     [(''additionalProperties'', JBool False),
     (''properties'', JObject [
       (''command'', JObject [
         (''enum'', JArray [JString ''serverinfo'']),
         (''required'', JBool True),
         (''type'', JString ''string'')]),
       (''tan'', JObject [(''type'', JString ''integer'')])]),
     (''required'', JBool True),
     (''type'', JString ''object'')]"

definition schema_create_effect :: "(string \<times> json) list" where
  "schema_create_effect =
     [(''additionalProperties'', JBool False),
     (''properties'', JObject [
       (''args'', JObject [(''required'', JBool True), (''type'', JString ''object'')]),
       (''command'', JObject [
         (''enum'', JArray [JString ''create-effect'']),
         (''required'', JBool True),
         (''type'', JString ''string'')]),
       (''name'', JObject [(''required'', JBool True), (''type'', JString ''string'')]),
       (''script'', JObject [(''required'', JBool True), (''type'', JString ''string'')]),
       (''tan'', JObject [(''type'', JString ''integer'')])]),
     (''required'', JBool True),
     (''type'', JString ''object'')]"

definition schema_delete_effect :: "(string \<times> json) list" where
  "schema_delete_effect =
     [(''additionalProperties'', JBool False),
     (''properties'', JObject [
       (''command'', JObject [
         (''enum'', JArray [JString ''delete-effect'']),
         (''required'', JBool True),
         (''type'', JString ''string'')]),
       (''name'', JObject [(''required'', JBool True), (''type'', JString ''string'')]),
       (''tan'', JObject [(''type'', JString ''integer'')])]),
     (''required'', JBool True),
     (''type'', JString ''object'')]"

definition schema_resources :: "(string \<times> (string \<times> json) list) list" where
  "schema_resources =
     [('':schema'', schema_base), ('':schema-color'', schema_color), ('':schema-image'', schema_image),
      ('':schema-effect'', schema_effect), ('':schema-create-effect'', schema_create_effect),
      ('':schema-delete-effect'', schema_delete_effect), ('':schema-serverinfo'', schema_serverinfo),
      ('':schema-clear'', schema_clear), ('':schema-clearall'', schema_clearall),
      ('':schema-adjustment'', schema_adjustment), ('':schema-sourceselect'', schema_sourceselect),
      ('':schema-config'', schema_config), ('':schema-componentstate'', schema_componentstate),
      ('':schema-ledcolors'', schema_ledcolors), ('':schema-logging'', schema_logging),
      ('':schema-processing'', schema_processing)]"

text \<open>The answer of \<open>checkJson\<close>: \<open>None\<close> when the message is accepted, otherwise what is wrong with it.\<close>

datatype json_errors = SchemaError | SchemaMessages "(path_item list \<times> schema_msg) list"

definition checkJson :: "(string \<times> json) list \<Rightarrow> string \<Rightarrow> bool \<Rightarrow> json_errors option" where
  "checkJson message schemaResource ignoreRequired =
     (case map_of schema_resources schemaResource of
        None \<Rightarrow> Some SchemaError
      | Some sch \<Rightarrow>
          (let (ok, ms) = schema_validate ignoreRequired sch message
           in if ok then None else Some (SchemaMessages ms)))"

section \<open>What acceptance means\<close>

lemma schema_validate_fst: "fst (schema_validate ign sch obj) = accepts ign (JObject obj) sch"
  using checker_decides(1) [of check_init ign "JObject obj" sch sch]
  by (simp add: schema_validate_def accepts_iff decides_def check_init_def Let_def)

lemma checkJson_accepts:
  "map_of schema_resources res = Some sch \<Longrightarrow>
     checkJson message res ign = None \<longleftrightarrow> accepts ign (JObject message) sch"
  using schema_validate_fst [of ign sch message]
  by (cases "schema_validate ign sch message") (simp add: checkJson_def)

lemma conforms_property:
  assumes "accepts ign (JObject obj) sch" "(''properties'', JObject ps) \<in> set sch" "(p, pv) \<in> set ps"
  shows "json_contains obj p \<Longrightarrow> accepts ign (json_lookup obj p) (json_object pv)"
    "json_lookup (json_object pv) ''required'' = JBool True \<Longrightarrow> \<not> ign \<Longrightarrow> json_contains obj p"
proof -
  have "attr_accepts ign (JObject obj) sch ''properties'' (JObject ps)"
    using assms(1,2) by (auto simp: accepts_iff list_all_iff)
  then show "json_contains obj p \<Longrightarrow> accepts ign (json_lookup obj p) (json_object pv)"
    "json_lookup (json_object pv) ''required'' = JBool True \<Longrightarrow> \<not> ign \<Longrightarrow> json_contains obj p"
    using assms(3) by (fastforce simp: attr_accepts_def attribute_names list_all_iff split: if_splits)+
qed

text \<open>A number of a channel.\<close>

definition channel_schema :: "(string \<times> json) list" where
  "channel_schema =
     [(''maximum'', JDouble 253), (''minimum'', JDouble 1), (''required'', JBool True),
      (''type'', JString ''integer'')]"

lemma conforms_channel:
  assumes "accepts ign v channel_schema"
  shows "1 \<le> json_int d v \<and> json_int d v \<le> 253"
proof -
  obtain x where x: "v = JDouble x" "1 \<le> x" "x \<le> 253" "of_int \<lfloor>x\<rfloor> = x"
    using assms by (cases v) (auto simp: accepts_iff channel_schema_def attr_accepts_def attribute_names wrong_type_def)
  then have "1 \<le> \<lfloor>x\<rfloor>" "\<lfloor>x\<rfloor> \<le> 253" by linarith+
  with x show ?thesis by simp
qed

text \<open>The channel of the commands that carry one.\<close>

lemma accepted_channel:
  assumes "accepts False (JObject message) sch" "sch \<in> {schema_color, schema_image, schema_effect, schema_clear}"
  shows "1 \<le> json_int d (json_lookup message ''priority'') \<and> json_int d (json_lookup message ''priority'') \<le> 253"
proof -
  have ps: "\<exists>ps. (''properties'', JObject ps) \<in> set sch \<and> (''priority'', JObject channel_schema) \<in> set ps"
    using assms(2) by (auto simp: schema_color_def schema_image_def schema_effect_def schema_clear_def channel_schema_def)
  then obtain ps where ps: "(''properties'', JObject ps) \<in> set sch" "(''priority'', JObject channel_schema) \<in> set ps"
    by blast
  have "json_lookup (json_object (JObject channel_schema)) ''required'' = JBool True"
    by (simp add: channel_schema_def json_lookup_def)
  with conforms_property [OF assms(1) ps] have "accepts False (json_lookup message ''priority'') channel_schema" by simp
  then show ?thesis by (rule conforms_channel)
qed

text \<open>A colour command carries the bytes of at least one colour.\<close>

lemma accepted_color:
  assumes "accepts False (JObject message) schema_color"
  shows "3 \<le> length (json_array (json_lookup message ''color''))"
proof -
  let ?c = "[(''items'', JObject [(''type'', JString ''integer'')]), (''minItems'', JDouble 3),
      (''required'', JBool True), (''type'', JString ''array'')]"
  have ps: "\<exists>ps. (''properties'', JObject ps) \<in> set schema_color \<and> (''color'', JObject ?c) \<in> set ps"
    by (auto simp: schema_color_def)
  then obtain ps where ps: "(''properties'', JObject ps) \<in> set schema_color" "(''color'', JObject ?c) \<in> set ps"
    by blast
  have "json_lookup (json_object (JObject ?c)) ''required'' = JBool True" by (simp add: json_lookup_def)
  with conforms_property [OF assms ps] have "accepts False (json_lookup message ''color'') ?c" by simp
  then show ?thesis by (simp add: accepts_iff attr_accepts_def attribute_names)
qed

text \<open>The type \<open>integer\<close> does not keep other values out: only bounds do.\<close>

lemma integer_accepts_strings: "accepts ign (JString s) [(''type'', JString ''integer'')]"
  by (simp add: accepts_iff attr_accepts_def attribute_names wrong_type_def)

text \<open>Every schema of a message only allows or forbids additional properties, so nothing that conforms to it is rejected.\<close>

lemma message_schemas_regular: "list_all (\<lambda>(name, sch). regular False sch) schema_resources"
  by code_simp

end
