(* ===== verification/CoreClients.thy ===== *)
theory CoreClients
  imports CoreRuns ImgProcessor
begin

text \<open>
  What the servers share: a client connection keeps a state of its own and turns what arrives into
  requests of the core.  A request that keeps to \<open>request_ok\<close> leaves the core in a reachable state,
  a picture that fits the image processor becomes one colour per led, and a session in which every
  step keeps both states intact never fails (locale \<open>core_session\<close>).
\<close>

text \<open>A product of \<open>int\<close>s: leaving the range is undefined.\<close>

definition mul_int :: "int \<Rightarrow> int \<Rightarrow> int res" where
  "mul_int a b = (if - (2 ^ 31) \<le> a * b \<and> a * b < 2 ^ 31 then Inr (a * b) else Inl Undefined)"

section \<open>Single requests\<close>

lemma core_request:
  assumes "cfg_ok pw cfg" "reachable pw clk cfg junk h" "request_ok (length (cfg_leds cfg)) req"
  shows "\<exists>h'. perform clk req h = Inr h' \<and> reachable pw clk cfg junk h'"
proof -
  have ok: "core_ok (cfg_leds cfg) (cfg_clones cfg) (cfg_hwLeds cfg) h" "layout_ok (cfg_leds cfg) (cfg_clones cfg)"
    using reachable_core_ok [OF assms(2,1)] by simp_all
  obtain h' where h': "perform clk req h = Inr h'" using perform_ok [OF ok assms(3)] by blast
  have "request_ok (length (h_ledString h)) req" using assms(3) core_okD(4) [OF ok(1)] by simp
  from reachable.Request [OF assms(2) this h'] h' show ?thesis by blast
qed

lemmas core_requests =
  core_request [where req = "ReqSetColors p cs t clr cmp" for p cs t clr cmp, simplified]
  core_request [where req = "ReqClear p" for p, simplified]
  core_request [where req = ReqClearAll, simplified]
  core_request [where req = "ReqAutoSelect b" for b, simplified]
  core_request [where req = ReqAdjustmentsUpdated, simplified]

text \<open>Requests that cannot fail.\<close>

lemma core_steps:
  assumes "reachable pw clk cfg junk h"
  shows "reachable pw clk cfg junk (snd (hyp_setCurrentSourcePriority p h))"
    "reachable pw clk cfg junk (hyp_setComponentState cmp b h)"
    "reachable pw clk cfg junk (hyp_setLedMappingType k h)"
    "reachable pw clk cfg junk (hyp_registerPriority name p h)"
    "reachable pw clk cfg junk (hyp_unRegisterPriority name h)"
    "reachable pw clk cfg junk (hyp_reportComponent cmp b h)"
    "reachable pw clk cfg junk (hyp_setImage p im t h)"
    "p \<noteq> LOWEST_PRIORITY \<Longrightarrow> reachable pw clk cfg junk (snd (ee_runEffect name args p t script h))"
  using reachable.Request [OF assms, of "ReqSource p"] reachable.Request [OF assms, of "ReqComponent cmp b"]
    reachable.Request [OF assms, of "ReqMapping k"] reachable.Request [OF assms, of "ReqEffect name args p t script"]
    reachable.Request [OF assms, of "ReqRegister name p"] reachable.Request [OF assms, of "ReqUnregister name"]
    reachable.Request [OF assms, of "ReqReport cmp b"] reachable.Request [OF assms, of "ReqImage p im t"]
  by simp_all

text \<open>A reachable core of a considered configuration, and what clients ask of it.\<close>

definition core_at :: "pow_fun \<Rightarrow> (nat \<Rightarrow> int) \<Rightarrow> hyperion_cfg \<Rightarrow> int \<Rightarrow> hyperion \<Rightarrow> bool" where
  "core_at pw clk cfg junk h \<longleftrightarrow> cfg_ok pw cfg \<and> reachable pw clk cfg junk h"

lemma core_at_leds: "core_at pw clk cfg junk h \<Longrightarrow> h_ledString h = cfg_leds cfg"
  using reachable_core_ok core_okD(4) unfolding core_at_def by blast

lemma core_at_setColors:
  assumes "core_at pw clk cfg junk h" "length cs = length (cfg_leds cfg)" "p \<noteq> LOWEST_PRIORITY \<or> t \<le> 0"
  shows "\<exists>h'. hyp_setColors clk p cs t clr cmp h = Inr h' \<and> core_at pw clk cfg junk h'"
  using core_requests(1) [of pw cfg clk junk h cs p t clr cmp] assms by (auto simp: core_at_def)

lemma core_at_clear: "core_at pw clk cfg junk h \<Longrightarrow>
    \<exists>h'. hyp_clear clk p h = Inr h' \<and> core_at pw clk cfg junk h' \<and> (p < LOWEST_PRIORITY \<longrightarrow> mux_abs (h_muxer h') p = None)"
proof -
  assume a: "core_at pw clk cfg junk h"
  then have "core_ok (cfg_leds cfg) (cfg_clones cfg) (cfg_hwLeds cfg) h \<and> layout_ok (cfg_leds cfg) (cfg_clones cfg)"
    by (auto simp: core_at_def dest: reachable_core_ok)
  then obtain h' where "hyp_clear clk p h = Inr h'" "p < LOWEST_PRIORITY \<longrightarrow> mux_abs (h_muxer h') p = None"
    using clear_core_ok by metis
  moreover obtain h'' where "hyp_clear clk p h = Inr h''" "reachable pw clk cfg junk h''"
    using a core_requests(2) unfolding core_at_def by blast
  ultimately show ?thesis using a by (auto simp: core_at_def)
qed

lemma core_at_clearall: "core_at pw clk cfg junk h \<Longrightarrow> \<exists>h'. hyp_clearall clk h = Inr h' \<and> core_at pw clk cfg junk h'"
  using core_requests(3) unfolding core_at_def by blast

lemma core_at_frame [simp]:
  assumes "core_at pw clk cfg junk h"
  shows "core_at pw clk cfg junk (hyp_registerPriority name p h)"
    "core_at pw clk cfg junk (hyp_unRegisterPriority name h)"
    "core_at pw clk cfg junk (hyp_reportComponent cmp b h)"
    "core_at pw clk cfg junk (hyp_setImage p im t h)"
  using assms core_steps by (simp_all add: core_at_def)

section \<open>Pictures of clients\<close>

text \<open>
  The steps of the image commands of the servers: the image processor is set to the size, the bytes
  are copied into a picture, the picture is processed.
\<close>

definition client_picture :: "nat \<Rightarrow> int \<Rightarrow> int \<Rightarrow> byte list \<Rightarrow> imgproc \<Rightarrow> (imgproc \<times> ColorRgb image \<times> ColorRgb list) res" where
  "client_picture w width height bytes ip =
     (let wd = as_unsigned width; ht = as_unsigned height in
      res_bind (ip_setSize wd ht ip) (\<lambda>ip.
      res_bind (memcpy 0 (bytes_colors bytes) (length (bytes_colors bytes)) (img_pixels (img_new BLACK wd ht))) (\<lambda>ps.
      let im = \<lparr>img_width = wd, img_height = ht, img_pixels = ps\<rparr> in
      res_bind (ip_process w im ip) (\<lambda>(ip, cs). Inr (ip, im, cs)))))"

text \<open>A size that fits the borders the processor may remove and the accumulators of width \<open>w\<close>.\<close>

definition size_fits :: "nat \<Rightarrow> int \<Rightarrow> int \<Rightarrow> imgproc \<Rightarrow> bool" where
  "size_fits w width height ip \<longleftrightarrow>
     (let k = unat (bp_blurRemoveCnt (ip_border ip))
      in 2 * (nat width div 3 + k) < nat width \<and> 2 * (nat height div 3 + k) < nat height \<and>
         width * height * 3 < 2 ^ 31 \<and> 255 * nat (width * height) < 2 ^ w)"

lemma size_fits_mul:
  assumes "size_fits w width height ip"
  shows "0 < width" "0 < height" "mul_int width height = Inr (width * height)"
    "mul_int (width * height) 3 = Inr (width * height * 3)" "width < 2 ^ 31" "height < 2 ^ 31"
proof -
  show pos: "0 < width" "0 < height" using assms by (auto simp: size_fits_def Let_def intro: ccontr)
  have wh: "0 < width * height" "width * height * 3 < 2 ^ 31"
    using pos assms by (simp_all add: size_fits_def Let_def)
  then show "mul_int width height = Inr (width * height)" "mul_int (width * height) 3 = Inr (width * height * 3)"
    by (simp_all add: mul_int_def)
  have "width \<le> width * height" "height \<le> width * height" using pos by simp_all
  then show "width < 2 ^ 31" "height < 2 ^ 31" using wh by linarith+
qed

lemma client_picture_ok:
  assumes "ip_inv ip" "size_fits w width height ip" "int (length bytes) = width * height * 3"
  shows "\<exists>ip' im cs. client_picture w width height bytes ip = Inr (ip', im, cs) \<and> ip_inv ip' \<and> ip_same ip' ip \<and>
    length cs = length (ip_leds ip)"
proof -
  note m = size_fits_mul [OF assms(2)]
  note fits = assms(2) [unfolded size_fits_def Let_def]
  have u: "as_unsigned width = nat width" "as_unsigned height = nat height"
    using m by (simp_all add: as_unsigned_def)
  let ?ps = "bytes_colors bytes @ [BLACK]"
  let ?im = "\<lparr>img_width = nat width, img_height = nat height, img_pixels = ?ps\<rparr>"
  have "int (nat width * nat height) = width * height" using m by simp
  then have area: "nat width * nat height = nat (width * height)" by linarith
  have wh: "0 < width * height" using m by simp
  have "length bytes = 3 * nat (width * height)" using assms(3) wh by linarith
  then have len: "length (bytes_colors bytes) = nat (width * height)" by (rule bytes_colors_length)
  have copy: "memcpy 0 (bytes_colors bytes) (length (bytes_colors bytes)) (img_pixels (img_new BLACK (nat width) (nat height))) = Inr ?ps"
    using len area by (simp add: memcpy_ok img_new_def del: replicate_Suc) simp
  have wf: "img_wf ?im" using len area by (simp add: img_wf_def)
  have "width * height * 3 < 2 ^ 31" using fits by simp
  then have "width * height < 2 ^ 32" using wh by simp
  then have "nat width < 2 ^ 31" "nat height < 2 ^ 31" "nat (width * height) < 2 ^ 32"
    using m by (simp_all add: nat_less_iff)
  then have roomy: "roomy (ip_border ip) ?im"
    using wf fits area by (simp add: roomy_def)
  have acc: "accumulates w ?im" using fits area by (simp add: accumulates_def)
  have "picture_ok ?im" using wf m by (simp add: picture_ok_def)
  from setSize_ok [OF assms(1) this] roomy obtain ip1 where
    ip1: "ip_setSize (nat width) (nat height) ip = Inr ip1" "ip_inv ip1" "ip_same ip1 ip"
    by (auto simp: roomy_def)
  have "roomy (ip_border ip1) ?im" using roomy ip1(3) by (simp add: roomy_def ip_same_def same_config_def)
  from ip_process_ok [OF ip1(2) this acc] obtain ip2 cs where
    ip2: "ip_process w ?im ip1 = Inr (ip2, cs)" "ip_inv ip2" "ip_same ip2 ip1" "length cs = length (ip_leds ip1)"
    by blast
  have "length cs = length (ip_leds ip)" using ip2(4) ip1(3) by (simp add: ip_same_def)
  moreover have "ip_same ip2 ip" using ip_same_trans [OF ip2(3) ip1(3)] .
  moreover have "client_picture w width height bytes ip = Inr (ip2, ?im, cs)"
    using ip1(1) ip2(1) copy by (simp add: client_picture_def u Let_def)
  ultimately show ?thesis using ip2(2) by blast
qed

section \<open>Sessions\<close>

text \<open>
  \<open>step\<close> handles one arrival in a connection; \<open>inv\<close> holds of the connection, \<open>adm\<close> says which
  arrivals are considered, \<open>ok\<close> is what the core keeps.
\<close>

fun session :: "('i \<Rightarrow> 's \<Rightarrow> hyperion \<Rightarrow> ('s \<times> hyperion) res) \<Rightarrow> 'i list \<Rightarrow> 's \<Rightarrow> hyperion \<Rightarrow> ('s \<times> hyperion) res" where
  "session step [] s h = Inr (s, h)"
| "session step (i # is) s h = res_bind (step i s h) (\<lambda>(s, h). session step is s h)"

lemma session_append:
  "session step (is @ js) s h = res_bind (session step is s h) (\<lambda>(s, h). session step js s h)"
proof (induction "is" arbitrary: s h)
  case (Cons i "is")
  then show ?case by (cases "step i s h") auto
qed simp

locale core_session =
  fixes step :: "'i \<Rightarrow> 's \<Rightarrow> hyperion \<Rightarrow> ('s \<times> hyperion) res"
    and inv :: "'s \<Rightarrow> bool" and adm :: "'i \<Rightarrow> bool" and ok :: "hyperion \<Rightarrow> bool"
  assumes step_ok: "inv s \<Longrightarrow> adm i \<Longrightarrow> ok h \<Longrightarrow> \<exists>s' h'. step i s h = Inr (s', h') \<and> inv s' \<and> ok h'"
begin

lemma session_ok:
  "inv s \<Longrightarrow> list_all adm is \<Longrightarrow> ok h \<Longrightarrow> \<exists>s' h'. session step is s h = Inr (s', h') \<and> inv s' \<and> ok h'"
proof (induction "is" arbitrary: s h)
  case (Cons i "is")
  from Cons.prems step_ok [of s i h] obtain s' h' where "step i s h = Inr (s', h')" "inv s'" "ok h'" by auto
  with Cons show ?case by auto
qed simp

end

end
