(* ===== verification/JsonServer.thy ===== *)
theory JsonServer
  imports JsonSchemas CoreClients
begin

text \<open>
  The commands of the JSON server (\<open>libsrc/jsonserver/JsonClientConnection.cpp\<close>): from a parsed
  message to the calls of the core and the replies.  A handler returns the connection and the
  core; \<open>None\<close> means that it never returns.  Parsing of JSON, base64 and the network connections
  to the slaves are Qt's: the parser and the decoder are parameters, and what is forwarded is
  collected in the connection.
\<close>

section \<open>The connection\<close>

text \<open>The texts of the error replies; \<open>ErrParse\<close> carries the parser's text with line and column.\<close>

datatype reply_error =
    ErrText string | ErrParse string nat nat | ErrSchema json_errors | ErrSubcommand string

datatype json_reply = SuccessReply string int | ErrorReply reply_error string int

record json_client =
  jc_processor :: imgproc
  jc_forwarder :: bool
  jc_forwarded :: "(string \<times> json) list list"
  jc_sent :: "json_reply list"
  jc_ledTimer :: bool
  jc_imageStreams :: nat
  jc_logStreams :: nat
  jc_logActivated :: bool
  jc_ledsReply :: "string \<times> int"
  jc_imageReply :: "string \<times> int"
  jc_logReply :: "string \<times> int"

type_synonym handled = "(json_client \<times> hyperion) res option"

definition sendSuccessReply :: "string \<Rightarrow> int \<Rightarrow> json_client \<Rightarrow> json_client" where
  "sendSuccessReply command tn c = c\<lparr>jc_sent := jc_sent c @ [SuccessReply command tn]\<rparr>"

definition sendErrorReply :: "reply_error \<Rightarrow> string \<Rightarrow> int \<Rightarrow> json_client \<Rightarrow> json_client" where
  "sendErrorReply err command tn c = c\<lparr>jc_sent := jc_sent c @ [ErrorReply err command tn]\<rparr>"

definition jc_componentStateChanged :: "Components \<Rightarrow> bool \<Rightarrow> json_client \<Rightarrow> json_client" where
  "jc_componentStateChanged cmp enable c =
     (if cmp = COMP_FORWARDER \<and> jc_forwarder c \<noteq> enable then c\<lparr>jc_forwarder := enable\<rparr> else c)"

text \<open>Sent to every slave.\<close>

definition forwardJsonMessage :: "(string \<times> json) list \<Rightarrow> json_client \<Rightarrow> json_client" where
  "forwardJsonMessage message c =
     (if jc_forwarder c then c\<lparr>jc_forwarded := jc_forwarded c @ [message]\<rparr> else c)"

section \<open>The colour command\<close>

text \<open>
  The first colours are taken from the message; the rest is filled by copying the block of
  \<open>size\<close> colours behind itself, which goes on for ever when there is no colour to copy.
\<close>

definition color_at :: "json list \<Rightarrow> nat \<Rightarrow> ColorRgb" where
  "color_at js i =
     (let v = \<lambda>k. u8 (json_int 0 (if k < length js then js ! k else JUndefined))
      in rgb (v (3 * i)) (v (3 * i + 1)) (v (3 * i + 2)))"

partial_function (option) fill_blocks :: "nat \<Rightarrow> nat \<Rightarrow> nat \<Rightarrow> ColorRgb list \<Rightarrow> (nat \<times> ColorRgb list) res option" where
  "fill_blocks sz n i buf =
     (if i + sz < n
      then (case memcpy i buf sz buf of Inl e \<Rightarrow> Some (Inl e) | Inr b \<Rightarrow> fill_blocks sz n (i + sz) b)
      else Some (Inr (i, buf)))"

definition color_data :: "nat \<Rightarrow> json list \<Rightarrow> ColorRgb list res option" where
  "color_data n js =
     (let k = min (length js div 3) n
      in case index_loop (\<lambda>i. poke i (color_at js i)) [0 ..< k] (replicate n BLACK) of
           Inl e \<Rightarrow> Some (Inl e)
         | Inr b \<Rightarrow> map_option (\<lambda>r. res_bind r (\<lambda>(i, b). if i < n then memcpy i b (n - i) b else Inr b))
                     (fill_blocks k n k b))"

definition handleColorCommand ::
  "(nat \<Rightarrow> int) \<Rightarrow> (string \<times> json) list \<Rightarrow> string \<Rightarrow> int \<Rightarrow> json_client \<Rightarrow> hyperion \<Rightarrow> handled" where
  "handleColorCommand clk message command tn c h =
     (let c = forwardJsonMessage message c;
          prio = json_int 0 (json_lookup message ''priority'');
          duration = json_int (-1) (json_lookup message ''duration'')
      in map_option (\<lambda>r. res_bind r (\<lambda>cs.
           res_bind (hyp_setColors clk prio cs duration True COMP_COLOR h) (\<lambda>h.
             Inr (sendSuccessReply command tn c, h))))
           (color_data (length (h_ledString h)) (json_array (json_lookup message ''color''))))"

lemma fill_blocks_step:
  "i + sz < n \<Longrightarrow> memcpy i buf sz buf = Inr b \<Longrightarrow> fill_blocks sz n i buf = fill_blocks sz n (i + sz) b"
  by (subst fill_blocks.simps) simp

lemma fill_blocks_end: "\<not> i + sz < n \<Longrightarrow> fill_blocks sz n i buf = Some (Inr (i, buf))"
  by (subst fill_blocks.simps) simp

text \<open>The loop keeps what it has filled: colour \<open>j\<close> is colour \<open>j mod sz\<close>.\<close>

lemma fill_blocks_repeats:
  assumes "0 < sz" "sz \<le> i" "i \<le> n" "length buf = n" "\<And>j. j < i \<Longrightarrow> buf ! j = f (j mod sz)" "i mod sz = 0"
  shows "\<exists>i' b. fill_blocks sz n i buf = Some (Inr (i', b)) \<and> i \<le> i' \<and> i' \<le> n \<and> n \<le> i' + sz \<and>
     length b = n \<and> i' mod sz = 0 \<and> (\<forall>j < i'. b ! j = f (j mod sz))"
  using assms
proof (induction "n - i" arbitrary: i buf rule: less_induct)
  case less
  show ?case
  proof (cases "i + sz < n")
    case False
    with less.prems show ?thesis by (intro exI [of _ i] exI [of _ buf]) (simp add: fill_blocks_end)
  next
    case True
    let ?b = "take i buf @ take sz buf @ drop (i + sz) buf"
    have m: "memcpy i buf sz buf = Inr ?b" using True less.prems by (simp add: memcpy_ok)
    have "?b ! j = f (j mod sz)" if j: "j < i + sz" for j
    proof (cases "j < i")
      case True
      then show ?thesis using less.prems by (simp add: nth_append)
    next
      case False
      then have "?b ! j = buf ! (j - i)" using j less.prems True by (simp add: nth_append)
      also have "\<dots> = f ((j - i) mod sz)" using j False less.prems by simp
      also have "(j - i) mod sz = j mod sz" using False less.prems(6) by (metis le_add_diff_inverse mod_add_right_eq mod_add_self2 add.commute add_0 mod_add_left_eq not_le)
      finally show ?thesis .
    qed
    moreover have "length ?b = n" using True less.prems by simp
    moreover have "(i + sz) mod sz = 0" using less.prems(6) by simp
    ultimately obtain i' b where "fill_blocks sz n (i + sz) ?b = Some (Inr (i', b))" "i + sz \<le> i'" "i' \<le> n"
        "n \<le> i' + sz" "length b = n" "i' mod sz = 0" "\<forall>j < i'. b ! j = f (j mod sz)"
      using less.hyps [of "i + sz" ?b] True less.prems(1,2) by force
    then show ?thesis using fill_blocks_step [OF True m] by auto
  qed
qed

lemma index_loop_poke:
  "k \<le> length buf \<Longrightarrow> index_loop (\<lambda>i. poke i (f i)) [0 ..< k] buf = Inr (map f [0 ..< k] @ drop k buf)"
proof (induction k)
  case (Suc k)
  then have "drop k buf = buf ! k # drop (Suc k) buf" by (simp add: Cons_nth_drop_Suc)
  with Suc show ?case
    using poke_between [of "map f [0 ..< k]"] by (simp add: index_loop_append)
qed simp

text \<open>With at least one colour the pattern is repeated over the whole string.\<close>

lemma color_data_repeats:
  assumes "3 \<le> length js"
  shows "color_data n js = Some (Inr (map (\<lambda>i. color_at js (i mod (length js div 3))) [0 ..< n]))"
proof -
  define m where "m = length js div 3"
  define f where "f i = color_at js (i mod m)" for i
  have m: "0 < m" using assms by (simp add: m_def)
  define b0 where "b0 = map (color_at js) [0 ..< min m n] @ replicate (n - min m n) BLACK"
  have loop: "index_loop (\<lambda>i. poke i (color_at js i)) [0 ..< min m n] (replicate n BLACK) = Inr b0"
    by (simp add: index_loop_poke b0_def)
  have b0: "length b0 = n" "\<And>j. j < min m n \<Longrightarrow> b0 ! j = f j" by (simp_all add: b0_def f_def nth_append)
  show ?thesis
  proof (cases "m < n")
    case False
    then have "b0 = map f [0 ..< n]" using b0 by (intro nth_equalityI) simp_all
    moreover have "fill_blocks (min m n) n (min m n) b0 = Some (Inr (n, b0))"
      using False by (simp add: fill_blocks_end)
    ultimately show ?thesis using loop by (simp add: color_data_def m_def [symmetric] f_def Let_def)
  next
    case True
    have "b0 ! j = color_at js (j mod m)" if "j < m" for j using b0(2) [of j] that True by (simp add: f_def)
    then obtain i b where b: "fill_blocks m n m b0 = Some (Inr (i, b))" "m \<le> i" "i \<le> n" "n \<le> i + m"
        "length b = n" "i mod m = 0" "\<forall>j < i. b ! j = color_at js (j mod m)"
      using fill_blocks_repeats [of m m n b0 "color_at js"] m True b0(1) by auto
    have "(if i < n then memcpy i b (n - i) b else Inr b) = Inr (map f [0 ..< n])"
    proof (cases "i < n")
      case True
      have "(take i b @ take (n - i) b) ! j = f j" if "j < n" for j
      proof (cases "j < i")
        case False
        obtain q where "i = m * q" using b(6) by (metis mod_0_imp_dvd dvdE)
        with False have "j = m * q + (j - i)" by simp
        then have "j mod m = (j - i) mod m" by (metis mod_mult_self4)
        moreover have "j - i < m" using that b(4) False by linarith
        ultimately show ?thesis using False that b by (simp add: nth_append f_def)
      qed (use that b in \<open>simp add: nth_append f_def\<close>)
      then have "take i b @ take (n - i) b = map f [0 ..< n]"
        using True b(5) by (intro nth_equalityI) simp_all
      then show ?thesis using True b by (simp add: memcpy_ok)
    next
      case False
      then have "b = map f [0 ..< n]" using b by (intro nth_equalityI) (simp_all add: f_def)
      with False show ?thesis by simp
    qed
    then show ?thesis using loop b(1) True by (simp add: color_data_def m_def [symmetric] f_def Let_def min_absorb1)
  qed
qed

text \<open>Without a colour to copy the loop never ends.\<close>

lemma fill_blocks_diverges:
  assumes "fill_blocks sz n i buf = Some r"
  shows "sz = 0 \<longrightarrow> i \<le> length buf \<longrightarrow> n \<le> i"
proof (rule fill_blocks.raw_induct [where P = "\<lambda>sz n i buf r. sz = 0 \<longrightarrow> i \<le> length buf \<longrightarrow> n \<le> i", OF _ assms])
  fix fill sz n i buf r
  assume IH: "\<And>sz n i buf r. fill sz n i buf = Some r \<Longrightarrow> sz = 0 \<longrightarrow> i \<le> length buf \<longrightarrow> n \<le> i"
    and step: "(if i + sz < n
      then (case memcpy i buf sz buf of Inl e \<Rightarrow> Some (Inl e) | Inr b \<Rightarrow> fill sz n (i + sz) b)
      else Some (Inr (i, buf))) = Some (r :: (nat \<times> ColorRgb list) res)"
  have "sz = 0 \<Longrightarrow> i \<le> length buf \<Longrightarrow> memcpy i buf sz buf = Inr buf" by (simp add: memcpy_def blit_def)
  with IH step show "sz = 0 \<longrightarrow> i \<le> length buf \<longrightarrow> n \<le> i" by (cases "i + sz < n") fastforce+
qed

lemma color_data_hangs: "length js < 3 \<Longrightarrow> 0 < n \<Longrightarrow> color_data n js = None"
  using fill_blocks_diverges [of 0 n 0 "replicate n BLACK"]
  by (cases "fill_blocks 0 n 0 (replicate n BLACK)") (auto simp: color_data_def Let_def)


section \<open>The other commands\<close>

text \<open>\<open>b64\<close> decodes base64, \<open>w\<close> is the width of the accumulators of the image processor.\<close>

definition handleImageCommand ::
  "(string \<Rightarrow> byte list) \<Rightarrow> nat \<Rightarrow> (nat \<Rightarrow> int) \<Rightarrow> (string \<times> json) list \<Rightarrow> string \<Rightarrow> int \<Rightarrow> json_client \<Rightarrow> hyperion \<Rightarrow> handled"
  where
  "handleImageCommand b64 w clk message command tn c h =
     (let c = forwardJsonMessage message c;
          prio = json_int 0 (json_lookup message ''priority'');
          duration = json_int (-1) (json_lookup message ''duration'');
          width = json_int 0 (json_lookup message ''imagewidth'');
          height = json_int 0 (json_lookup message ''imageheight'');
          bytes = b64 (json_string [] (json_lookup message ''imagedata''))
      in Some (
         res_bind (mul_int width height) (\<lambda>area.
         res_bind (mul_int area 3) (\<lambda>expected.
         if int (length bytes) \<noteq> expected
         then Inr (sendErrorReply (ErrText ''Size of image data does not match with the width and height'')
                     command tn c, h)
         else
           res_bind (client_picture w width height bytes (jc_processor c)) (\<lambda>(ip, im, cs).
           res_bind (hyp_setColors clk prio cs duration True COMP_INVALID h) (\<lambda>h.
             Inr (sendSuccessReply command tn (c\<lparr>jc_processor := ip\<rparr>), h)))))))"

definition handleEffectCommand ::
  "(string \<times> json) list \<Rightarrow> string \<Rightarrow> int \<Rightarrow> json_client \<Rightarrow> hyperion \<Rightarrow> handled" where
  "handleEffectCommand message command tn c h =
     (let c = forwardJsonMessage message c;
          prio = json_int 0 (json_lookup message ''priority'');
          duration = json_int (-1) (json_lookup message ''duration'');
          pythonScript = json_string [] (json_lookup message ''pythonScript'');
          eff = json_object (json_lookup message ''effect'');
          effectName = json_string [] (json_lookup eff ''name'');
          (rc, h) = (if json_contains eff ''args''
             then ee_runEffect effectName (json_object (json_lookup eff ''args'')) prio duration pythonScript h
             else ee_runEffect effectName [] prio duration [] h)
      in Some (Inr (sendSuccessReply command tn c, h)))"

definition handleClearCommand ::
  "(nat \<Rightarrow> int) \<Rightarrow> (string \<times> json) list \<Rightarrow> string \<Rightarrow> int \<Rightarrow> json_client \<Rightarrow> hyperion \<Rightarrow> handled" where
  "handleClearCommand clk message command tn c h =
     (let c = forwardJsonMessage message c
      in Some (res_bind (hyp_clear clk (json_int 0 (json_lookup message ''priority'')) h) (\<lambda>h.
           Inr (sendSuccessReply command tn c, h))))"

definition handleClearallCommand ::
  "(nat \<Rightarrow> int) \<Rightarrow> (string \<times> json) list \<Rightarrow> string \<Rightarrow> int \<Rightarrow> json_client \<Rightarrow> hyperion \<Rightarrow> handled" where
  "handleClearallCommand clk message command tn c h =
     (let c = forwardJsonMessage message c
      in Some (res_bind (hyp_clearall clk h) (\<lambda>h. Inr (sendSuccessReply command tn c, h))))"

section \<open>The adjustment command\<close>

definition set_channel :: "json list \<Rightarrow> RgbChannelAdjustment \<Rightarrow> RgbChannelAdjustment" where
  "set_channel values a =
     (let v = \<lambda>k. u8 (json_int 0 (if k < length values then values ! k else JUndefined))
      in chan_setAdjustmentB (chan_setAdjustmentG (chan_setAdjustmentR a (v 0)) (v 1)) (v 2))"

text \<open>The effect of the first matching member; \<open>upd\<close> applies it to the adjustment.\<close>

definition if_member :: "(string \<times> json) list \<Rightarrow> string \<Rightarrow> (json \<Rightarrow> 'a \<Rightarrow> 'a) \<Rightarrow> 'a \<Rightarrow> 'a" where
  "if_member adjustment key upd a =
     (if json_contains adjustment key then upd (json_lookup adjustment key) a else a)"

definition adjust_channels :: "(string \<times> json) list \<Rightarrow> ColorAdjustment \<Rightarrow> ColorAdjustment" where
  "adjust_channels adjustment a =
     (let m = \<lambda>key upd. if_member adjustment key (\<lambda>v. upd (set_channel (json_array v)))
      in m ''white'' ca_rgbWhiteAdjustment_update (m ''black'' ca_rgbBlackAdjustment_update
        (m ''yellow'' ca_rgbYellowAdjustment_update (m ''magenta'' ca_rgbMagentaAdjustment_update
        (m ''cyan'' ca_rgbCyanAdjustment_update (m ''blue'' ca_rgbBlueAdjustment_update
        (m ''green'' ca_rgbGreenAdjustment_update (m ''red'' ca_rgbRedAdjustment_update a))))))))"

definition adjust_transform :: "pow_fun \<Rightarrow> (string \<times> json) list \<Rightarrow> RgbTransform \<Rightarrow> RgbTransform" where
  "adjust_transform pw adjustment tr =
     (let m = if_member adjustment
      in m ''brightness'' (\<lambda>v tr. tr_setBrightness pw tr (json_double 0 v))
        (m ''backlightColored'' (\<lambda>v tr. tr_setBacklightColored tr (json_bool False v))
        (m ''backlightThreshold'' (\<lambda>v tr. tr_setBacklightThreshold pw tr (json_double 0 v))
        (m ''gammaBlue'' (\<lambda>v tr. tr_setGamma pw tr (tr_gammaR tr) (tr_gammaG tr) (json_double 0 v))
        (m ''gammaGreen'' (\<lambda>v tr. tr_setGamma pw tr (tr_gammaR tr) (json_double 0 v) (tr_gammaB tr))
        (m ''gammaRed'' (\<lambda>v tr. tr_setGamma pw tr (json_double 0 v) (tr_gammaG tr) (tr_gammaB tr)) tr))))))"

text \<open>
  The object is changed in place, so the leds that share it see the change.  Without any
  adjustment \<open>front\<close> is undefined; for an unknown name there is no reply.
\<close>

definition handleAdjustmentCommand ::
  "pow_fun \<Rightarrow> (nat \<Rightarrow> int) \<Rightarrow> (string \<times> json) list \<Rightarrow> string \<Rightarrow> int \<Rightarrow> json_client \<Rightarrow> hyperion \<Rightarrow> handled" where
  "handleAdjustmentCommand pw clk message command tn c h =
     (let adjustment = json_object (json_lookup message ''adjustment'');
          m = h_adjustment h
      in if mca_adjustmentIds m = [] then Some (Inl Undefined)
         else (case mca_getAdjustment m (json_string (hd (mca_adjustmentIds m)) (json_lookup adjustment ''id'')) of
             None \<Rightarrow> Some (Inr (c, h))
           | Some i \<Rightarrow>
               (let a = adjust_channels adjustment (mca_adjustment m ! i);
                    a = a\<lparr>ca_rgbTransform := adjust_transform pw adjustment (ca_rgbTransform a)\<rparr>;
                    h = h\<lparr>h_adjustment := m\<lparr>mca_adjustment := (mca_adjustment m)[i := a]\<rparr>\<rparr>
                in Some (res_bind (hyp_adjustmentsUpdated clk h) (\<lambda>h.
                     Inr (sendSuccessReply command tn c, h))))))"


section \<open>Selection, components and streams\<close>

definition handleSourceSelectCommand ::
  "(nat \<Rightarrow> int) \<Rightarrow> (string \<times> json) list \<Rightarrow> string \<Rightarrow> int \<Rightarrow> json_client \<Rightarrow> hyperion \<Rightarrow> handled" where
  "handleSourceSelectCommand clk message command tn c h =
     Some (res_bind
       (if json_bool False (json_lookup message ''auto'')
        then res_bind (hyp_setSourceAutoSelectEnabled clk True h) (\<lambda>h. Inr (True, h))
        else if json_contains message ''priority''
        then Inr (hyp_setCurrentSourcePriority (json_int 0 (json_lookup message ''priority'')) h)
        else Inr (False, h))
       (\<lambda>(success, h).
          Inr (if success then sendSuccessReply command tn c
               else sendErrorReply (ErrText ''setting current priority failed'') command tn c, h)))"

definition handleComponentStateCommand ::
  "(string \<times> json) list \<Rightarrow> string \<Rightarrow> int \<Rightarrow> json_client \<Rightarrow> hyperion \<Rightarrow> handled" where
  "handleComponentStateCommand message command tn c h =
     (let componentState = json_object (json_lookup message ''componentstate'');
          cmp = stringToComponent (json_string ''invalid'' (json_lookup componentState ''component''))
      in Some (Inr (if cmp \<noteq> COMP_INVALID
           then (sendSuccessReply command tn c,
                 hyp_setComponentState cmp (json_bool True (json_lookup componentState ''state'')) h)
           else (sendErrorReply (ErrText ''invalid component name'') command tn c, h))))"

text \<open>Every \<open>connect\<close> adds a connection of the signal, \<open>disconnect\<close> removes all of them.\<close>

definition handleLedColorsCommand ::
  "(string \<times> json) list \<Rightarrow> string \<Rightarrow> int \<Rightarrow> json_client \<Rightarrow> hyperion \<Rightarrow> handled" where
  "handleLedColorsCommand message command tn c h =
     (let subcommand = json_string [] (json_lookup message ''subcommand'');
          reply = sendSuccessReply (command @ ''-'' @ subcommand) tn
      in Some (Inr (
         if subcommand = ''ledstream-start''
         then reply (c\<lparr>jc_ledsReply := (command @ ''-ledstream-update'', tn), jc_ledTimer := True\<rparr>)
         else if subcommand = ''ledstream-stop'' then reply (c\<lparr>jc_ledTimer := False\<rparr>)
         else if subcommand = ''imagestream-start''
         then reply (c\<lparr>jc_imageReply := (command @ ''-imagestream-update'', tn),
                       jc_imageStreams := jc_imageStreams c + 1\<rparr>)
         else if subcommand = ''imagestream-stop'' then reply (c\<lparr>jc_imageStreams := 0\<rparr>)
         else sendErrorReply (ErrSubcommand subcommand) command tn c, h)))"

definition handleLoggingCommand ::
  "(string \<times> json) list \<Rightarrow> string \<Rightarrow> int \<Rightarrow> json_client \<Rightarrow> hyperion \<Rightarrow> handled" where
  "handleLoggingCommand message command tn c h =
     (let subcommand = json_string [] (json_lookup message ''subcommand'');
          reply = sendSuccessReply (command @ ''-'' @ subcommand) tn;
          c = c\<lparr>jc_logReply := (command, tn)\<rparr>
      in Some (Inr (
         if subcommand = ''start''
         then reply (if jc_logActivated c then c
                     else c\<lparr>jc_logReply := (command @ ''-update'', tn), jc_logStreams := jc_logStreams c + 1\<rparr>)
         else if subcommand = ''stop''
         then reply (if jc_logActivated c then c\<lparr>jc_logStreams := 0, jc_logActivated := False\<rparr> else c)
         else sendErrorReply (ErrText ''unknown subcommand'') command tn c, h)))"

definition handleProcessingCommand ::
  "(string \<times> json) list \<Rightarrow> string \<Rightarrow> int \<Rightarrow> json_client \<Rightarrow> hyperion \<Rightarrow> handled" where
  "handleProcessingCommand message command tn c h =
     Some (Inr (sendSuccessReply command tn c,
        hyp_setLedMappingType
          (mappingTypeToInt (json_string ''multicolor_mean'' (json_lookup message ''mappingType''))) h))"

section \<open>Dispatch\<close>

text \<open>The position of a parse error: the line breaks before it and the characters since the last one.\<close>

fun error_position :: "string \<Rightarrow> nat \<Rightarrow> nat \<Rightarrow> nat \<times> nat" where
  "error_position [] line column = (line, column)"
| "error_position (ch # chs) line column =
     (if ch = CHR 0x0A then error_position chs (line + 1) 0 else error_position chs line (column + 1))"

datatype command =
    CmdColor | CmdImage | CmdEffect | CmdClear | CmdClearall | CmdAdjustment | CmdSourceSelect
  | CmdComponentState | CmdLedColors | CmdLogging | CmdProcessing | CmdOther

definition command_of :: "string \<Rightarrow> command" where
  "command_of s =
     (if s = ''color'' then CmdColor else if s = ''image'' then CmdImage
      else if s = ''effect'' then CmdEffect else if s = ''clear'' then CmdClear
      else if s = ''clearall'' then CmdClearall else if s = ''adjustment'' then CmdAdjustment
      else if s = ''sourceselect'' then CmdSourceSelect
      else if s = ''componentstate'' then CmdComponentState
      else if s = ''ledcolors'' then CmdLedColors else if s = ''logging'' then CmdLogging
      else if s = ''processing'' then CmdProcessing else CmdOther)"

text \<open>
  What the handlers take from outside: the parser of JSON, the decoder of base64, \<open>pow\<close>, the
  clock, the width of the accumulators, and the commands that only answer with data or work on
  files.
\<close>

record json_env =
  je_parse :: "string \<Rightarrow> (string \<times> nat) + (string \<times> json) list"
  je_b64 :: "string \<Rightarrow> byte list"
  je_pow :: pow_fun
  je_clock :: "nat \<Rightarrow> int"
  je_width :: nat
  je_other :: "(string \<times> json) list \<Rightarrow> string \<Rightarrow> int \<Rightarrow> json_client \<Rightarrow> hyperion \<Rightarrow> handled"

definition handleCommand ::
  "json_env \<Rightarrow> (string \<times> json) list \<Rightarrow> string \<Rightarrow> int \<Rightarrow> json_client \<Rightarrow> hyperion \<Rightarrow> handled" where
  "handleCommand E message command tn c h =
     (case command_of command of
        CmdColor \<Rightarrow> handleColorCommand (je_clock E) message command tn c h
      | CmdImage \<Rightarrow> handleImageCommand (je_b64 E) (je_width E) (je_clock E) message command tn c h
      | CmdEffect \<Rightarrow> handleEffectCommand message command tn c h
      | CmdClear \<Rightarrow> handleClearCommand (je_clock E) message command tn c h
      | CmdClearall \<Rightarrow> handleClearallCommand (je_clock E) message command tn c h
      | CmdAdjustment \<Rightarrow> handleAdjustmentCommand (je_pow E) (je_clock E) message command tn c h
      | CmdSourceSelect \<Rightarrow> handleSourceSelectCommand (je_clock E) message command tn c h
      | CmdComponentState \<Rightarrow> handleComponentStateCommand message command tn c h
      | CmdLedColors \<Rightarrow> handleLedColorsCommand message command tn c h
      | CmdLogging \<Rightarrow> handleLoggingCommand message command tn c h
      | CmdProcessing \<Rightarrow> handleProcessingCommand message command tn c h
      | CmdOther \<Rightarrow> je_other E message command tn c h)"

text \<open>
  \<open>handleMessage\<close>: parse, check against the base schema and the one of the command, dispatch.  The
  exception handler around it is left out: it would answer with an error, but the state of the
  core after an exception is not part of the model.
\<close>

definition handleMessage :: "json_env \<Rightarrow> string \<Rightarrow> json_client \<Rightarrow> hyperion \<Rightarrow> handled" where
  "handleMessage E messageString c h =
     (case je_parse E messageString of
        Inl (err, off) \<Rightarrow>
          (let (line, column) = error_position (take off messageString) 0 0
           in Some (Inr (sendErrorReply (ErrParse err line column) [] 0 c, h)))
      | Inr message \<Rightarrow>
          (case checkJson message '':schema'' False of
             Some errors \<Rightarrow> Some (Inr (sendErrorReply (ErrSchema errors) [] 0 c, h))
           | None \<Rightarrow>
               (let command = json_string [] (json_lookup message ''command'')
                in case checkJson message ('':schema-'' @ command) False of
                     Some errors \<Rightarrow> Some (Inr (sendErrorReply (ErrSchema errors) [] 0 c, h))
                   | None \<Rightarrow> handleCommand E message command (json_int 0 (json_lookup message ''tan'')) c h)))"

section \<open>Accepted commands\<close>

text \<open>
  C25.  A colour command that the schema accepts always returns, and led \<open>i\<close> gets colour
  \<open>i mod k\<close> of the \<open>k\<close> colours it carries.  The schema is needed: with fewer than three numbers
  the copying loop would never end.
\<close>

theorem color_command_repeats:
  assumes "checkJson message '':schema-color'' False = None"
  defines "js \<equiv> json_array (json_lookup message ''color'')"
  shows "color_data n js = Some (Inr (map (\<lambda>i. color_at js (i mod (length js div 3))) [0 ..< n])) \<and>
    handleColorCommand clk message command tn c h \<noteq> None \<and>
    (length js' < 3 \<and> 0 < n \<longrightarrow> color_data n js' = None)"
proof -
  have "accepts False (JObject message) schema_color"
    using assms(1) by (subst (asm) checkJson_accepts) (auto simp: schema_resources_def)
  from accepted_color [OF this] have js: "3 \<le> length js" by (simp add: js_def)
  show ?thesis
    using color_data_repeats [OF js] color_data_hangs by (simp add: handleColorCommand_def js_def Let_def)
qed

definition demo_color :: "(string \<times> json) list" where
  "demo_color =
     [(''color'', JArray [JDouble 255, JDouble 0, JDouble 0, JDouble 0, JDouble 0, JDouble 255]),
      (''command'', JString ''color''), (''priority'', JDouble 50)]"

lemma demo_color_accepted: "checkJson demo_color '':schema-color'' False = None"
proof -
  have "accepts False (JObject demo_color) schema_color"
    by (simp add: accepts_iff schema_color_def demo_color_def attr_accepts_def attribute_names wrong_type_def
        json_lookup_def json_contains_def)
  then show ?thesis by (subst checkJson_accepts) (auto simp: schema_resources_def)
qed

theorem color_command_repeats_witness:
  "color_data 5 (json_array (json_lookup demo_color ''color'')) =
     Some (Inr [rgb 255 0 0, rgb 0 0 255, rgb 255 0 0, rgb 0 0 255, rgb 255 0 0])"
  using color_command_repeats [OF demo_color_accepted, of 5 "\<lambda>_. 0" "[]" 0 undefined undefined "[]"]
  by (simp add: demo_color_def json_lookup_def color_at_def upt_rec u8_def)


text \<open>A handled message: the core in a state of \<open>P\<close>, the image processor intact, at most one reply.\<close>

definition served :: "(hyperion \<Rightarrow> bool) \<Rightarrow> json_client \<Rightarrow> handled \<Rightarrow> bool" where
  "served P c r \<longleftrightarrow> (\<exists>c' h' rs. r = Some (Inr (c', h')) \<and> P h' \<and>
     ip_inv (jc_processor c') \<and> ip_same (jc_processor c') (jc_processor c) \<and>
     jc_sent c' = jc_sent c @ rs \<and> length rs \<le> 1)"

lemma jc_frame [simp]:
  "jc_processor (sendSuccessReply cmd tn c) = jc_processor c"
  "jc_processor (sendErrorReply e cmd tn c) = jc_processor c"
  "jc_processor (forwardJsonMessage m c) = jc_processor c"
  "jc_sent (sendSuccessReply cmd tn c) = jc_sent c @ [SuccessReply cmd tn]"
  "jc_sent (sendErrorReply e cmd tn c) = jc_sent c @ [ErrorReply e cmd tn]"
  "jc_sent (forwardJsonMessage m c) = jc_sent c"
  by (simp_all add: sendSuccessReply_def sendErrorReply_def forwardJsonMessage_def)

lemma served_success:
  "P h \<Longrightarrow> ip_inv (jc_processor c') \<Longrightarrow> ip_same (jc_processor c') (jc_processor c) \<Longrightarrow> jc_sent c' = jc_sent c \<Longrightarrow>
     served P c (Some (Inr (sendSuccessReply cmd tn c', h)))"
  by (simp add: served_def)

lemma served_error:
  "P h \<Longrightarrow> ip_inv (jc_processor c') \<Longrightarrow> ip_same (jc_processor c') (jc_processor c) \<Longrightarrow> jc_sent c' = jc_sent c \<Longrightarrow>
     served P c (Some (Inr (sendErrorReply e cmd tn c', h)))"
  by (simp add: served_def)

text \<open>What is asked of a message: pictures that fit the image processor, adjustments away from the backlight.\<close>

definition image_fits :: "json_env \<Rightarrow> (string \<times> json) list \<Rightarrow> imgproc \<Rightarrow> bool" where
  "image_fits E message ip \<longleftrightarrow>
     size_fits (je_width E) (json_int 0 (json_lookup message ''imagewidth''))
       (json_int 0 (json_lookup message ''imageheight'')) ip"

definition command_fits :: "json_env \<Rightarrow> (string \<times> json) list \<Rightarrow> json_client \<Rightarrow> hyperion \<Rightarrow> bool" where
  "command_fits E message c h \<longleftrightarrow>
     (case command_of (json_string [] (json_lookup message ''command'')) of
        CmdImage \<Rightarrow> image_fits E message (jc_processor c)
      | CmdAdjustment \<Rightarrow> mca_adjustmentIds (h_adjustment h) \<noteq> [] \<and>
          (let a = json_object (json_lookup message ''adjustment'')
           in \<not> json_contains a ''backlightThreshold'' \<and> \<not> json_contains a ''backlightColored'')
      | CmdOther \<Rightarrow> False
      | _ \<Rightarrow> True)"

lemma json_duration_channel:
  assumes "checkJson message ('':schema-'' @ command) False = None"
    "command \<in> {''color'', ''image'', ''effect'', ''clear''}"
  shows "json_int 0 (json_lookup message ''priority'') \<noteq> LOWEST_PRIORITY"
proof -
  obtain sch where "map_of schema_resources ('':schema-'' @ command) = Some sch"
      "sch \<in> {schema_color, schema_image, schema_effect, schema_clear}"
    using assms(2) by (auto simp: schema_resources_def)
  moreover from this assms(1) have "accepts False (JObject message) sch" by (simp add: checkJson_accepts)
  ultimately have "json_int 0 (json_lookup message ''priority'') \<le> 253" using accepted_channel [of message sch 0] by simp
  then show ?thesis by (simp add: LOWEST_PRIORITY_def)
qed


lemma color_served:
  assumes "cfg_ok pw cfg" "reachable pw clk cfg junk h" "ip_inv (jc_processor c)"
    and "checkJson message '':schema-color'' False = None"
  shows "served (reachable pw clk cfg junk) c (handleColorCommand clk message command tn c h)"
proof -
  let ?js = "json_array (json_lookup message ''color'')" and ?p = "json_int 0 (json_lookup message ''priority'')"
  have "accepts False (JObject message) schema_color"
    using assms(4) by (subst (asm) checkJson_accepts) (auto simp: schema_resources_def)
  from color_data_repeats [OF accepted_color [OF this], of "length (h_ledString h)"] obtain cs where
    cs: "color_data (length (h_ledString h)) ?js = Some (Inr cs)" "length cs = length (h_ledString h)" by simp
  have "h_ledString h = cfg_leds cfg" using reachable_core_ok [OF assms(2,1)] by (auto dest: core_okD(4))
  moreover have "?p \<noteq> LOWEST_PRIORITY" using json_duration_channel [of message "''color''"] assms(4) by simp
  ultimately obtain h' where
    "hyp_setColors clk ?p cs (json_int (-1) (json_lookup message ''duration'')) True COMP_COLOR h = Inr h'"
    "reachable pw clk cfg junk h'"
    using core_requests(1) [OF assms(1,2)] cs(2) by metis
  then show ?thesis
    using cs(1) assms(3) by (simp add: handleColorCommand_def Let_def served_def)
qed

lemma image_served:
  assumes "cfg_ok pw cfg" "reachable pw clk cfg junk h" "ip_inv (jc_processor c)"
    and "checkJson message '':schema-image'' False = None"
    and "ip_leds (jc_processor c) = cfg_leds cfg" "image_fits E message (jc_processor c)" "je_clock E = clk"
  shows "served (reachable pw clk cfg junk) c
    (handleImageCommand (je_b64 E) (je_width E) (je_clock E) message command tn c h)"
proof -
  let ?w = "json_int 0 (json_lookup message ''imagewidth'')" and ?h = "json_int 0 (json_lookup message ''imageheight'')"
    and ?p = "json_int 0 (json_lookup message ''priority'')" and ?d = "json_int (-1) (json_lookup message ''duration'')"
    and ?bytes = "je_b64 E (json_string [] (json_lookup message ''imagedata''))" and ?ip = "jc_processor c"
  have fits: "size_fits (je_width E) ?w ?h ?ip" using assms(6) by (simp add: image_fits_def)
  note mul = size_fits_mul(3,4) [OF fits]
  show ?thesis
  proof (cases "int (length ?bytes) = ?w * ?h * 3")
    case False
    then show ?thesis
      using assms(2,3) mul by (simp add: handleImageCommand_def Let_def served_error)
  next
    case True
    from client_picture_ok [OF assms(3) fits True] obtain ip2 im cs where
      ip2: "client_picture (je_width E) ?w ?h ?bytes ?ip = Inr (ip2, im, cs)" "ip_inv ip2" "ip_same ip2 ?ip"
        "length cs = length (ip_leds ?ip)" by blast
    then have "length cs = length (cfg_leds cfg)" using assms(5) by simp
    moreover have "?p \<noteq> LOWEST_PRIORITY" using json_duration_channel [of message "''image''"] assms(4) by simp
    ultimately obtain h' where h': "hyp_setColors clk ?p cs ?d True COMP_INVALID h = Inr h'" "reachable pw clk cfg junk h'"
      using core_requests(1) [OF assms(1,2)] by metis
    have "handleImageCommand (je_b64 E) (je_width E) (je_clock E) message command tn c h =
        Some (Inr (sendSuccessReply command tn ((forwardJsonMessage message c)\<lparr>jc_processor := ip2\<rparr>), h'))"
      using mul True ip2(1) h'(1) assms(7) by (simp add: handleImageCommand_def Let_def)
    then show ?thesis using h'(2) ip2(2,3) by (simp add: served_success)
  qed
qed


lemma adjust_channels_transform: "ca_rgbTransform (adjust_channels adjustment a) = ca_rgbTransform a"
  by (simp add: adjust_channels_def if_member_def Let_def)

lemma adjust_transform_backlight:
  assumes "\<not> json_contains adjustment ''backlightThreshold''" "\<not> json_contains adjustment ''backlightColored''"
  shows "tr_sumBrightnessLow (adjust_transform pw adjustment tr) = tr_sumBrightnessLow tr"
    "tr_backlightColored (adjust_transform pw adjustment tr) = tr_backlightColored tr"
  using assms
  by (simp_all add: adjust_transform_def if_member_def tr_setBrightness_def tr_setGamma_def tr_initializeMapping_def Let_def)

lemma adjust_ok_update:
  assumes "adjust_ok m" "i < length (mca_adjustment m)"
    and "tr_sumBrightnessLow (ca_rgbTransform a) = tr_sumBrightnessLow (ca_rgbTransform (mca_adjustment m ! i))"
    and "tr_backlightColored (ca_rgbTransform a) = tr_backlightColored (ca_rgbTransform (mca_adjustment m ! i))"
  shows "adjust_ok (m\<lparr>mca_adjustment := (mca_adjustment m)[i := a]\<rparr>)"
proof -
  have "x \<in> set (mca_adjustment m) \<or> x = a" if "x \<in> set ((mca_adjustment m)[i := a])" for x
    using that set_update_subset_insert [of "mca_adjustment m" i a] by blast
  moreover have "mca_adjustment m ! i \<in> set (mca_adjustment m)" using assms(2) by simp
  ultimately show ?thesis using assms unfolding adjust_ok_def by fastforce
qed

lemma adjustment_served:
  assumes "cfg_ok pw' cfg" "reachable pw' clk cfg junk h" "ip_inv (jc_processor c)"
    and "mca_adjustmentIds (h_adjustment h) \<noteq> []"
    and "\<not> json_contains (json_object (json_lookup message ''adjustment'')) ''backlightThreshold''"
      "\<not> json_contains (json_object (json_lookup message ''adjustment'')) ''backlightColored''"
  shows "served (reachable pw' clk cfg junk) c (handleAdjustmentCommand pw clk message command tn c h)"
proof -
  let ?a = "json_object (json_lookup message ''adjustment'')" and ?m = "h_adjustment h"
  let ?id = "json_string (hd (mca_adjustmentIds ?m)) (json_lookup ?a ''id'')"
  show ?thesis
  proof (cases "mca_getAdjustment ?m ?id")
    case None
    then show ?thesis using assms(2-4) by (simp add: handleAdjustmentCommand_def Let_def served_def)
  next
    case (Some i)
    let ?b = "adjust_channels ?a (mca_adjustment ?m ! i)"
    let ?c = "?b\<lparr>ca_rgbTransform := adjust_transform pw ?a (ca_rgbTransform ?b)\<rparr>"
    let ?h = "h\<lparr>h_adjustment := ?m\<lparr>mca_adjustment := (mca_adjustment ?m)[i := ?c]\<rparr>\<rparr>"
    have ok: "adjust_ok ?m"
      using reachable_core_ok [OF assms(2,1)] by (auto simp: core_ok_def hyp_ok_def)
    have "i < length (mca_adjustment ?m)"
      using Some find_adjustment_Some by (simp add: mca_getAdjustment_def)
    then have "adjust_ok (h_adjustment ?h)"
      using adjust_ok_update [OF ok, of i ?c] adjust_transform_backlight [OF assms(5,6)]
      by (simp add: adjust_channels_transform)
    from reachable.Adjust [OF assms(2) this] have "reachable pw' clk cfg junk ?h" by simp
    from core_requests(5) [OF assms(1) this] obtain h' where
      "hyp_adjustmentsUpdated clk ?h = Inr h'" "reachable pw' clk cfg junk h'" by blast
    then show ?thesis
      using Some assms(3,4) by (simp add: handleAdjustmentCommand_def Let_def served_success)
  qed
qed

lemma command_names:
  "command_of s = CmdColor \<Longrightarrow> s = ''color''"
  "command_of s = CmdImage \<Longrightarrow> s = ''image''"
  "command_of s = CmdEffect \<Longrightarrow> s = ''effect''"
  by (simp_all add: command_of_def split: if_splits)

lemma effect_served:
  assumes "reachable pw clk cfg junk h" "ip_inv (jc_processor c)"
    and "checkJson message '':schema-effect'' False = None"
  shows "served (reachable pw clk cfg junk) c (handleEffectCommand message command tn c h)"
proof -
  have "json_int 0 (json_lookup message ''priority'') \<noteq> LOWEST_PRIORITY"
    using json_duration_channel [of message "''effect''"] assms(3) by simp
  note step = core_steps(8) [OF assms(1) this]
  show ?thesis
    using assms(2) step by (auto simp: handleEffectCommand_def Let_def split: prod.split intro!: served_success) (metis snd_conv)+
qed

lemma source_served:
  assumes "cfg_ok pw cfg" "reachable pw clk cfg junk h" "ip_inv (jc_processor c)"
  shows "served (reachable pw clk cfg junk) c (handleSourceSelectCommand clk message command tn c h)"
proof (cases "json_bool False (json_lookup message ''auto'')")
  case True
  obtain h' where "hyp_setSourceAutoSelectEnabled clk True h = Inr h'" "reachable pw clk cfg junk h'"
    using core_requests(4) [OF assms(1,2)] by blast
  with True assms(3) show ?thesis by (simp add: handleSourceSelectCommand_def served_success)
next
  case False
  let ?p = "json_int 0 (json_lookup message ''priority'')"
  obtain b h' where set: "hyp_setCurrentSourcePriority ?p h = (b, h')" by fastforce
  have "reachable pw clk cfg junk h'" using core_steps(1) [OF assms(2), of ?p] set by simp
  with False assms(2,3) set show ?thesis
    by (simp add: handleSourceSelectCommand_def served_success served_error)
qed

lemma commands_served:
  assumes "cfg_ok pw cfg" "reachable pw (je_clock E) cfg junk h" "ip_inv (jc_processor c)"
    and "ip_leds (jc_processor c) = cfg_leds cfg"
    and "checkJson message ('':schema-'' @ json_string [] (json_lookup message ''command'')) False = None"
    and "command_fits E message c h"
  shows "served (reachable pw (je_clock E) cfg junk) c
    (handleCommand E message (json_string [] (json_lookup message ''command'')) tn c h)"
proof -
  let ?cmd = "json_string [] (json_lookup message ''command'')"
  note ctx = assms(1-3)
  show ?thesis
  proof (cases "command_of ?cmd")
    case CmdColor
    then have "checkJson message '':schema-color'' False = None" using assms(5) command_names(1) by simp
    from color_served [OF ctx this] CmdColor show ?thesis by (simp add: handleCommand_def)
  next
    case CmdImage
    then have "checkJson message '':schema-image'' False = None" using assms(5) command_names(2) by simp
    from image_served [OF ctx this assms(4), of E] CmdImage assms(6) show ?thesis
      by (simp add: handleCommand_def command_fits_def)
  next
    case CmdEffect
    then have "checkJson message '':schema-effect'' False = None" using assms(5) command_names(3) by simp
    from effect_served [OF ctx(2,3) this] CmdEffect show ?thesis by (simp add: handleCommand_def)
  next
    case CmdClear
    obtain h' where "hyp_clear (je_clock E) (json_int 0 (json_lookup message ''priority'')) h = Inr h'"
        "reachable pw (je_clock E) cfg junk h'" using core_requests(2) [OF ctx(1,2)] by blast
    with CmdClear ctx(3) show ?thesis
      by (simp add: handleCommand_def handleClearCommand_def Let_def served_success)
  next
    case CmdClearall
    obtain h' where "hyp_clearall (je_clock E) h = Inr h'" "reachable pw (je_clock E) cfg junk h'"
      using core_requests(3) [OF ctx(1,2)] by blast
    with CmdClearall ctx(3) show ?thesis
      by (simp add: handleCommand_def handleClearallCommand_def Let_def served_success)
  next
    case CmdAdjustment
    with adjustment_served [OF ctx] assms(6) show ?thesis
      by (simp add: handleCommand_def command_fits_def Let_def)
  next
    case CmdSourceSelect
    with source_served [OF ctx] show ?thesis by (simp add: handleCommand_def)
  next
    case CmdOther
    with assms(6) show ?thesis by (simp add: command_fits_def)
  qed (use ctx core_steps in \<open>simp_all add: handleCommand_def handleComponentStateCommand_def handleLedColorsCommand_def
      handleLoggingCommand_def handleProcessingCommand_def served_success served_error Let_def\<close>)
qed

text \<open>
  C4.  The server answers what does not pass its checks, and the commands that act on the core keep it
  running: in any reachable state a message that is no JSON, fails a schema or names an unknown
  command, and an accepted message with one of the modelled commands (\<open>color\<close>, \<open>image\<close>, \<open>effect\<close>,
  \<open>clear\<close>, \<open>clearall\<close>, \<open>adjustment\<close>, \<open>sourceselect\<close>, \<open>componentstate\<close>, \<open>ledcolors\<close>, \<open>logging\<close>,
  \<open>processing\<close>), is handled to the end with at most one reply, the core is in a reachable state again and
  the image processor keeps its leds and configuration.  Asked of an accepted message is
  (\<open>command_fits\<close>) that a picture fits the image processor -- room for the borders with their
  margin and sums that fit the accumulators; \<open>empty_picture_aborts\<close> shows a picture that does not --, that
  an adjustment leaves the threshold and the colour of the backlight alone and the core has an
  adjustment at all, and that the command is none of those outside the model: \<open>serverinfo\<close>, \<open>config\<close>,
  \<open>create-effect\<close> and \<open>delete-effect\<close>.
\<close>

theorem json_messages_served:
  assumes "cfg_ok pw cfg" "reachable pw (je_clock E) cfg junk h"
    and "ip_inv (jc_processor c)" "ip_leds (jc_processor c) = cfg_leds cfg"
    and "\<And>message. je_parse E s = Inr message \<Longrightarrow> checkJson message '':schema'' False = None \<Longrightarrow>
      checkJson message ('':schema-'' @ json_string [] (json_lookup message ''command'')) False = None \<Longrightarrow>
      command_fits E message c h"
  shows "\<exists>c' h' rs. handleMessage E s c h = Some (Inr (c', h')) \<and> reachable pw (je_clock E) cfg junk h' \<and>
    ip_inv (jc_processor c') \<and> ip_same (jc_processor c') (jc_processor c) \<and>
    jc_sent c' = jc_sent c @ rs \<and> length rs \<le> 1"
proof -
  note ctx = assms(1-3)
  have "served (reachable pw (je_clock E) cfg junk) c (handleMessage E s c h)"
  proof (cases "je_parse E s")
    case (Inl e)
    then show ?thesis
      using ctx by (simp add: handleMessage_def served_error split: prod.split)
  next
    case (Inr message)
    let ?command = "json_string [] (json_lookup message ''command'')" and ?tn = "json_int 0 (json_lookup message ''tan'')"
    show ?thesis
    proof (cases "checkJson message '':schema'' False = None \<and> checkJson message ('':schema-'' @ ?command) False = None")
      case False
      then show ?thesis using Inr ctx by (auto simp: handleMessage_def served_error split: option.split)
    next
      case True
      then have "command_fits E message c h" using assms(5) [OF Inr] by simp
      with True have "served (reachable pw (je_clock E) cfg junk) c (handleCommand E message ?command ?tn c h)"
        by (intro commands_served [OF ctx assms(4)]) simp_all
      with Inr True show ?thesis by (simp add: handleMessage_def Let_def)
    qed
  qed
  then show ?thesis by (simp add: served_def)
qed


definition demo_env :: json_env where
  "demo_env = \<lparr>je_parse = (\<lambda>s. if s = [] then Inl (''unexpected end'', 0) else Inr demo_color), je_b64 = (\<lambda>_. []),
     je_pow = (\<lambda>x y. 1), je_clock = (\<lambda>n. int n), je_width = 32, je_other = (\<lambda>m cmd tn c h. Some (Inr (c, h)))\<rparr>"

definition demo_client :: json_client where
  "demo_client = \<lparr>jc_processor = ip_new (cfg_leds demo_cfg) (bp_new True 600 50 10 1 ''osd'' 0), jc_forwarder = True,
     jc_forwarded = [], jc_sent = [], jc_ledTimer = False, jc_imageStreams = 0, jc_logStreams = 0,
     jc_logActivated = False, jc_ledsReply = ([], 0), jc_imageReply = ([], 0), jc_logReply = ([], 0)\<rparr>"

lemma demo_client_ok: "ip_inv (jc_processor demo_client)" "ip_leds (jc_processor demo_client) = cfg_leds demo_cfg"
proof -
  have "list_all led_wf (cfg_leds demo_cfg)" using createLedString_wf by (simp add: list_all_iff)
  then show "ip_inv (jc_processor demo_client)"
    by (simp add: demo_client_def ip_inv_def ip_new_def known_mode_def bp_new_def)
  show "ip_leds (jc_processor demo_client) = cfg_leds demo_cfg" by (simp add: demo_client_def ip_new_def)
qed

theorem json_messages_served_witness:
  "\<exists>h c' h' rs. hyp_new (\<lambda>x y. 1) (je_clock demo_env) demo_cfg 7 = Inr h \<and>
     handleMessage demo_env ''x'' demo_client h = Some (Inr (c', h')) \<and>
     reachable (\<lambda>x y. 1) (je_clock demo_env) demo_cfg 7 h' \<and> jc_sent c' = rs \<and> length rs \<le> 1"
proof -
  obtain h where h: "hyp_new (\<lambda>x y. 1) (je_clock demo_env) demo_cfg 7 = Inr h"
    using hyp_new_ok [OF demo_cfg_ok, of "je_clock demo_env" 7] by blast
  then have "reachable (\<lambda>x y. 1) (je_clock demo_env) demo_cfg 7 h" by (rule reachable.Start)
  moreover have "je_parse demo_env ''x'' = Inr message \<Longrightarrow> command_fits demo_env message demo_client h" for message
    by (auto simp: demo_env_def demo_color_def command_fits_def json_lookup_def command_of_def)
  ultimately obtain c' h' rs where "handleMessage demo_env ''x'' demo_client h = Some (Inr (c', h'))"
      "reachable (\<lambda>x y. 1) (je_clock demo_env) demo_cfg 7 h'" "jc_sent c' = jc_sent demo_client @ rs" "length rs \<le> 1"
    using json_messages_served [OF demo_cfg_ok, of demo_env 7 h demo_client "''x''"] demo_client_ok by blast
  with h show ?thesis by (auto simp: demo_client_def)
qed

definition empty_picture :: "(string \<times> json) list" where
  "empty_picture =
     [(''command'', JString ''image''), (''imagedata'', JString []), (''imageheight'', JDouble 0),
      (''imagewidth'', JDouble 0), (''priority'', JDouble 50)]"

lemma empty_picture_accepted:
  "checkJson empty_picture '':schema'' False = None" "checkJson empty_picture '':schema-image'' False = None"
proof -
  have "accepts False (JObject empty_picture) schema_base"
    by (simp add: accepts_iff schema_base_def empty_picture_def attr_accepts_def attribute_names wrong_type_def
        json_lookup_def json_contains_def)
  then show "checkJson empty_picture '':schema'' False = None"
    by (subst checkJson_accepts) (auto simp: schema_resources_def)
  have "accepts False (JObject empty_picture) schema_image"
    by (simp add: accepts_iff schema_image_def empty_picture_def attr_accepts_def attribute_names wrong_type_def
        json_lookup_def json_contains_def)
  then show "checkJson empty_picture '':schema-image'' False = None"
    by (subst checkJson_accepts) (auto simp: schema_resources_def)
qed

text \<open>
  A picture without pixels passes the schemas, and it stops the program: whatever the image
  processor did before, the pixel map of the leds asserts that the picture is wider than its borders.
\<close>

theorem empty_picture_aborts:
  assumes "je_parse E s = Inr empty_picture" "je_b64 E [] = []" "ip_inv (jc_processor c)"
  shows "handleMessage E s c h = Some (Inl AssertFail)"
proof -
  have fields: "json_int 0 (json_lookup empty_picture ''imagewidth'') = 0"
    "json_int 0 (json_lookup empty_picture ''imageheight'') = 0"
    "json_string [] (json_lookup empty_picture ''imagedata'') = []"
    "json_string [] (json_lookup empty_picture ''command'') = ''image''"
    by (simp_all add: empty_picture_def json_lookup_def)
  have "ip_setSize 0 0 (jc_processor c) = Inl AssertFail"
    using assms(3) by (auto simp: ip_setSize_def ip_replaceMap_def itl_new_def ip_inv_def map_ok_def split: option.split)
  then have "handleImageCommand (je_b64 E) (je_width E) (je_clock E) empty_picture ''image'' tn c h = Some (Inl AssertFail)" for tn
    using assms(2) fields by (simp add: handleImageCommand_def client_picture_def mul_int_def as_unsigned_def Let_def)
  then show ?thesis
    using assms(1) empty_picture_accepted fields(4) by (simp add: handleMessage_def handleCommand_def command_of_def Let_def)
qed

theorem empty_picture_aborts_witness:
  "\<forall>h. handleMessage (demo_env\<lparr>je_parse := \<lambda>_. Inr empty_picture\<rparr>) ''x'' demo_client h = Some (Inl AssertFail)"
proof -
  let ?E = "demo_env\<lparr>je_parse := \<lambda>_. Inr empty_picture\<rparr>"
  have "je_parse ?E ''x'' = Inr empty_picture" "je_b64 ?E [] = []" by (simp_all add: demo_env_def)
  from empty_picture_aborts [OF this demo_client_ok(1)] show ?thesis by blast
qed

end
