(* ===== verification/WebSocket.thy ===== *)
theory WebSocket
  imports Prelude "HOL-Library.Sublist"
begin

text \<open>
  The transport of the JSON server (\<open>readData\<close>, \<open>handleWebSocketFrame\<close>, \<open>doWebSocketHandshake\<close> and
  \<open>sendMessage\<close> of \<open>libsrc/jsonserver/JsonClientConnection.cpp\<close>): lines on a plain socket, frames
  after a WebSocket handshake.  Messages handed to \<open>handleMessage\<close> are collected in
  \<open>ws_messages\<close>, written bytes in \<open>ws_out\<close>.  SHA-1 with base64 and the decoding of UTF-8 are Qt's:
  the parameters \<open>we_accept\<close> and \<open>we_utf8\<close>.
\<close>

section \<open>Byte arrays\<close>

definition bytes_of :: "string \<Rightarrow> byte list" where
  "bytes_of s = map of_char s"

text \<open>\<open>indexOf\<close> from a position, -1 when there is none, and \<open>mid\<close>, where a negative length means the rest.\<close>

definition index_of :: "byte list \<Rightarrow> byte list \<Rightarrow> int \<Rightarrow> int" where
  "index_of xs pat start =
     (case List.find (\<lambda>i. take (length pat) (drop i xs) = pat) [nat start ..< Suc (length xs) - length pat] of
        None \<Rightarrow> -1 | Some i \<Rightarrow> int i)"

definition mid :: "byte list \<Rightarrow> int \<Rightarrow> int \<Rightarrow> byte list" where
  "mid xs pos len =
     (if pos > int (length xs) then []
      else if len < 0 then drop (nat pos) xs
      else take (nat (if pos < 0 then len + pos else len)) (drop (nat pos) xs))"

text \<open>\<open>at\<close> out of range is undefined.\<close>

definition byte_at :: "byte list \<Rightarrow> nat \<Rightarrow> byte res" where
  "byte_at xs i = peek xs i"

section \<open>The connection\<close>

record ws_conn =
  ws_buffer :: "byte list"
  ws_handshake :: bool
  ws_closed :: bool
  ws_out :: "byte list"
  ws_messages :: "string list"

record ws_env =
  we_accept :: "byte list \<Rightarrow> byte list"
  we_utf8 :: "byte list \<Rightarrow> string"

definition ws_write :: "byte list \<Rightarrow> ws_conn \<Rightarrow> ws_conn" where
  "ws_write bs c = c\<lparr>ws_out := ws_out c @ bs\<rparr>"

text \<open>\<open>QString(result)\<close> of a byte array: its bytes up to the first zero, decoded from UTF-8.\<close>

definition qstring_of :: "ws_env \<Rightarrow> byte list \<Rightarrow> string" where
  "qstring_of E bs = we_utf8 E (takeWhile (\<lambda>b. b \<noteq> 0) bs)"

definition ws_deliver :: "string \<Rightarrow> ws_conn \<Rightarrow> ws_conn" where
  "ws_deliver m c = c\<lparr>ws_messages := ws_messages c @ [m]\<rparr>"

section \<open>Frames from the client\<close>

text \<open>Big-endian numbers.\<close>

definition be_number :: "byte list \<Rightarrow> nat" where
  "be_number bs = foldl (\<lambda>n b. n * 256 + unat b) 0 bs"

text \<open>The payload length and the index behind it.\<close>

definition payload_length :: "byte list \<Rightarrow> (nat \<times> nat) res" where
  "payload_length buf =
     res_bind (byte_at buf 1) (\<lambda>b.
     let k = unat (b AND 0x7F)
     in if k = 126 then res_bind (byte_at buf 3) (\<lambda>_. Inr (be_number (take 2 (drop 2 buf)), 4))
        else if k = 127 then res_bind (byte_at buf 9) (\<lambda>_. Inr (be_number (take 8 (drop 2 buf)), 10))
        else Inr (k, 2))"

text \<open>
  Unmasking goes over the announced length: an index past the end reads 0 and extends the array.
  Arrays of more than \<open>2 ^ 31\<close> bytes cannot be allocated.
\<close>

definition unmask :: "byte list \<Rightarrow> nat \<Rightarrow> byte list \<Rightarrow> byte list res" where
  "unmask key n bs =
     (if n < 2 ^ 31
      then Inr (map (\<lambda>i. (if i < length bs then bs ! i else 0) XOR key ! (i mod 4)) [0 ..< n] @ drop n bs)
      else Inl RuntimeError)"

definition handleWebSocketFrame :: "ws_env \<Rightarrow> ws_conn \<Rightarrow> ws_conn res" where
  "handleWebSocketFrame E c =
     (let buf = ws_buffer c in
      res_bind (byte_at buf 0) (\<lambda>b0.
      if b0 AND 0x80 = 0x80
      then
        res_bind (byte_at buf 1) (\<lambda>b1.
        res_bind (payload_length buf) (\<lambda>(n, index).
        let masked = (b1 AND 0x80 = 0x80); opcode = b0 AND 0x0F in
        res_bind (if masked then res_bind (byte_at buf (index + 3)) (\<lambda>_. Inr (take 4 (drop index buf), index + 4))
                  else Inr ([], index)) (\<lambda>(key, index).
        if opcode = 0x1
        then (let result = mid buf (int index) (sint (word_of_nat n :: 32 word));
                  c = c\<lparr>ws_buffer := []\<rparr>
              in res_bind (if masked then unmask key n result else Inr result) (\<lambda>m. Inr (ws_deliver (qstring_of E m) c)))
        else if opcode = 0x8 then Inr ((ws_write [0x88, 0] c)\<lparr>ws_closed := True\<rparr>)
        else if opcode = 0x9 then Inr (ws_write [0xA, 0] c)
        else Inr c)))
      else Inr ((ws_write [0x88, 0] c)\<lparr>ws_closed := True\<rparr>)))"

section \<open>The handshake\<close>

definition doWebSocketHandshake :: "ws_env \<Rightarrow> ws_conn \<Rightarrow> ws_conn" where
  "doWebSocketHandshake E c =
     (let buf = ws_buffer c;
          start = index_of buf (bytes_of ''Sec-WebSocket-Key'') 0 + 19;
          value = takeWhile (\<lambda>b. b \<noteq> 0) (mid buf start (index_of buf [0x0D, 0x0A] start - start));
          value = value @ bytes_of ''258EAFA5-E914-47DA-95CA-C5AB0DC85B11'';
          crlf = [0x0D, 0x0A];
          answer = bytes_of ''HTTP/1.1 101 Switching Protocols'' @ crlf @ bytes_of ''Upgrade: websocket'' @ crlf @
                   bytes_of ''Connection: Upgrade'' @ crlf @ bytes_of ''Sec-WebSocket-Accept: '' @
                   we_accept E value @ crlf @ crlf
      in (ws_write answer (c\<lparr>ws_buffer := []\<rparr>))\<lparr>ws_handshake := True\<rparr>)"

section \<open>Incoming data\<close>

text \<open>
  The loop over the complete lines of the buffer: the messages, each with its line break, and the rest.
  A line becomes a text with \<open>fromStdString\<close>, which decodes all its bytes.
\<close>

fun split_lines :: "byte list \<Rightarrow> byte list \<Rightarrow> byte list list \<times> byte list" where
  "split_lines acc [] = ([], acc)"
| "split_lines acc (b # bs) =
     (if b = 0x0A
      then (let (ls, rest) = split_lines [] bs in ((acc @ [b]) # ls, rest))
      else split_lines (acc @ [b]) bs)"

definition upgrade_request :: "byte list" where
  "upgrade_request = bytes_of ''Upgrade: websocket''"

definition readData :: "ws_env \<Rightarrow> byte list \<Rightarrow> ws_conn \<Rightarrow> ws_conn res" where
  "readData E chunk c =
     (let c = c\<lparr>ws_buffer := ws_buffer c @ chunk\<rparr>
      in if ws_handshake c then handleWebSocketFrame E c
         else if sublist upgrade_request (ws_buffer c) then Inr (doWebSocketHandshake E c)
         else (let (ls, rest) = split_lines [] (ws_buffer c)
               in Inr (c\<lparr>ws_buffer := rest, ws_messages := ws_messages c @ map (we_utf8 E) ls\<rparr>)))"

fun read_chunks :: "ws_env \<Rightarrow> byte list list \<Rightarrow> ws_conn \<Rightarrow> ws_conn res" where
  "read_chunks E [] c = Inr c"
| "read_chunks E (ch # chs) c = res_bind (readData E ch c) (read_chunks E chs)"

text \<open>A new connection.\<close>

definition ws_new :: ws_conn where
  "ws_new = \<lparr>ws_buffer = [], ws_handshake = False, ws_closed = False, ws_out = [], ws_messages = []\<rparr>"

definition ws_socketClosed :: "ws_conn \<Rightarrow> ws_conn" where
  "ws_socketClosed c = c\<lparr>ws_handshake := False\<rparr>"

section \<open>Messages to the client\<close>

text \<open>\<open>sendMessage\<close> of a serialised message with its line break.\<close>

definition ws_send :: "byte list \<Rightarrow> ws_conn \<Rightarrow> ws_conn" where
  "ws_send reply c =
     (if \<not> ws_handshake c then ws_write reply c
      else (let sz = length reply
            in ws_write ((if sz > 125 then [0x81, 0x7E, u8 (int (sz div 256)), u8 (int sz)] else [0x81, u8 (int sz)]) @ reply) c))"


section \<open>Lines\<close>

lemma split_lines_append:
  "split_lines acc (xs @ ys) =
     (let (ls, rest) = split_lines acc xs; (ls', rest') = split_lines rest ys in (ls @ ls', rest'))"
  by (induction acc xs rule: split_lines.induct) (simp_all add: Let_def split: prod.split)

lemma split_lines_spec:
  "split_lines acc bs = (ls, rest) \<Longrightarrow> 0x0A \<notin> set acc \<Longrightarrow>
     concat ls @ rest = acc @ bs \<and> 0x0A \<notin> set rest \<and> (\<forall>l \<in> set ls. \<exists>k. l = k @ [0x0A] \<and> 0x0A \<notin> set k)"
proof (induction acc bs arbitrary: ls rest rule: split_lines.induct)
  case (2 acc b bs)
  show ?case
  proof (cases "b = 0x0A")
    case True
    then obtain ls' where "ls = (acc @ [b]) # ls'" "split_lines [] bs = (ls', rest)"
      using 2(3) by (auto simp: Let_def split: prod.splits)
    with 2(1) [OF True] 2(4) True show ?thesis by auto
  next
    case False
    with 2(2) [OF False] 2(3,4) show ?thesis by auto
  qed
qed auto

lemma split_lines_done: "0x0A \<notin> set bs \<Longrightarrow> split_lines acc bs = ([], acc @ bs)"
  by (induction acc bs rule: split_lines.induct) auto

lemma read_chunks_lines:
  assumes "\<not> ws_handshake c" "\<not> sublist upgrade_request (ws_buffer c @ concat chs)" "0x0A \<notin> set (ws_buffer c)"
  shows "\<exists>c'. read_chunks E chs c = Inr c' \<and> ws_out c' = ws_out c \<and>
    (\<exists>ls. split_lines [] (ws_buffer c @ concat chs) = (ls, ws_buffer c') \<and> ws_messages c' = ws_messages c @ map (we_utf8 E) ls)"
  using assms
proof (induction chs arbitrary: c)
  case Nil
  then show ?case by (auto simp: split_lines_done)
next
  case (Cons ch chs)
  obtain ls rest where sp: "split_lines [] (ws_buffer c @ ch) = (ls, rest)" by fastforce
  let ?c = "c\<lparr>ws_buffer := rest, ws_messages := ws_messages c @ map (we_utf8 E) ls\<rparr>"
  have "\<not> sublist upgrade_request (ws_buffer c @ ch)"
    using Cons.prems(2) by (metis append.assoc concat.simps(2) sublist_append_rightI sublist_order.order.trans)
  then have read: "readData E ch c = Inr ?c" using Cons.prems(1) sp by (simp add: readData_def)
  have rest: "concat ls @ rest = ws_buffer c @ ch" "0x0A \<notin> set rest" using split_lines_spec [OF sp] by simp_all
  then have "ws_buffer c @ concat (ch # chs) = concat ls @ (rest @ concat chs)" by simp
  then have "\<not> sublist upgrade_request (rest @ concat chs)"
    using Cons.prems(2) by (metis sublist_append_leftI sublist_order.order.trans)
  then obtain c' ls' where c': "read_chunks E chs ?c = Inr c'" "ws_out c' = ws_out ?c"
      "split_lines [] (rest @ concat chs) = (ls', ws_buffer c')" "ws_messages c' = ws_messages ?c @ map (we_utf8 E) ls'"
    using Cons.IH [of ?c] Cons.prems(1) rest(2) by auto
  have "split_lines [] (ws_buffer c @ concat (ch # chs)) = (ls @ ls', ws_buffer c')"
    using split_lines_append [of "[]" "ws_buffer c @ ch" "concat chs"] split_lines_append [of "[]" rest "concat chs"]
      sp c'(3) split_lines_done [OF rest(2), of "[]"] by (simp split: prod.splits)
  with read c' show ?case by simp
qed

text \<open>
  On a plain socket the messages do not depend on how the stream is cut into pieces: they are
  its complete lines, in order, and what is left in the buffer is the beginning of the next one.
\<close>

theorem lines_independent_of_chunks:
  assumes "\<not> sublist upgrade_request (concat chs)"
  shows "\<exists>c. read_chunks E chs ws_new = Inr c \<and> ws_out c = [] \<and>
    0x0A \<notin> set (ws_buffer c) \<and> (\<exists>ls. ws_messages c = map (we_utf8 E) ls \<and> concat ls @ ws_buffer c = concat chs \<and>
      (\<forall>l \<in> set ls. \<exists>k. l = k @ [0x0A] \<and> 0x0A \<notin> set k))"
proof -
  obtain c ls where c: "read_chunks E chs ws_new = Inr c" "ws_out c = []"
      "split_lines [] (concat chs) = (ls, ws_buffer c)" "ws_messages c = map (we_utf8 E) ls"
    using read_chunks_lines [of ws_new chs E] assms by (auto simp: ws_new_def)
  with split_lines_spec [OF c(3)] show ?thesis by auto
qed

text \<open>An environment that decodes ASCII.\<close>

definition demo_ws_env :: ws_env where
  "demo_ws_env = \<lparr>we_accept = (\<lambda>k. k), we_utf8 = map (\<lambda>b. char_of (unat b))\<rparr>"

theorem lines_independent_of_chunks_witness:
  "\<exists>c ls. read_chunks demo_ws_env [[0x7B], [0x7D, 0x0A, 0x7B]] ws_new = Inr c \<and>
     ws_messages c = map (we_utf8 demo_ws_env) ls \<and> concat ls @ ws_buffer c = [0x7B, 0x7D, 0x0A, 0x7B]"
proof -
  have "\<not> sublist upgrade_request (concat [[0x7B], [0x7D, 0x0A, 0x7B]])"
    by (auto dest!: sublist_length_le simp: upgrade_request_def bytes_of_def)
  from lines_independent_of_chunks [OF this, of demo_ws_env] show ?thesis by auto
qed


section \<open>Frames\<close>

text \<open>Big-endian encoding in \<open>k\<close> bytes.\<close>

fun be_bytes :: "nat \<Rightarrow> nat \<Rightarrow> byte list" where
  "be_bytes 0 n = []"
| "be_bytes (Suc k) n = be_bytes k (n div 256) @ [u8 (int n)]"

lemma length_be_bytes [simp]: "length (be_bytes k n) = k"
  by (induction k arbitrary: n) simp_all

lemma unat_u8: "unat (u8 (int n)) = n mod 256"
  by (simp add: u8_def unat_of_nat)

lemma be_number_snoc: "be_number (bs @ [b]) = be_number bs * 256 + unat b"
  by (simp add: be_number_def)

lemma be_number_bytes: "n < 256 ^ k \<Longrightarrow> be_number (be_bytes k n) = n"
proof (induction k arbitrary: n)
  case (Suc k)
  then have "n div 256 < 256 ^ k" by (simp add: less_mult_imp_div_less mult.commute)
  with Suc.IH show ?case by (simp add: be_number_snoc unat_u8)
qed (simp add: be_number_def)

text \<open>The frame of a text message as a client sends it: final, masked with a key of four bytes.\<close>

definition mask_with :: "byte list \<Rightarrow> byte list \<Rightarrow> byte list" where
  "mask_with key m = map (\<lambda>i. m ! i XOR key ! (i mod 4)) [0 ..< length m]"

definition client_length :: "nat \<Rightarrow> byte list" where
  "client_length n =
     (if n < 126 then [0x80 OR u8 (int n)]
      else if n < 65536 then 0xFE # be_bytes 2 n else 0xFF # be_bytes 8 n)"

definition client_frame :: "byte list \<Rightarrow> byte list \<Rightarrow> byte list" where
  "client_frame key m = 0x81 # client_length (length m) @ key @ mask_with key m"

lemma small_length_byte:
  assumes "n < 128"
  shows "(0x80 OR u8 (int n)) AND 0x80 = 0x80" "unat ((0x80 OR u8 (int n)) AND 0x7F) = n"
proof -
  have small: "n \<in> set [0 ..< 128]" using assms by simp
  have "list_all (\<lambda>n. (0x80 OR u8 (int n)) AND 0x80 = 0x80 \<and> unat ((0x80 OR u8 (int n)) AND 0x7F) = n) [0 ..< 128]"
    by code_simp
  with small show "(0x80 OR u8 (int n)) AND 0x80 = 0x80" "unat ((0x80 OR u8 (int n)) AND 0x7F) = n"
    by (simp_all only: list_all_iff)
qed

lemma client_length_parsed:
  assumes "n < 2 ^ 31"
  shows "\<exists>b rest. client_length n = b # rest \<and> b AND 0x80 = 0x80 \<and>
    payload_length (0x81 # client_length n @ tail) = Inr (n, Suc (length (client_length n)))"
proof -
  consider "n < 126" | "126 \<le> n" "n < 65536" | "65536 \<le> n" by linarith
  then show ?thesis
  proof cases
    case 1
    then show ?thesis
      using small_length_byte [of n]
      by (simp add: client_length_def payload_length_def byte_at_def peek_def Let_def)
  next
    case 2
    then have "be_number (be_bytes 2 n) = n" by (intro be_number_bytes) simp
    with 2 show ?thesis
      by (simp add: client_length_def payload_length_def byte_at_def peek_def Let_def)
  next
    case 3
    then have "be_number (be_bytes 8 n) = n" using assms by (intro be_number_bytes) simp
    with 3 show ?thesis
      by (simp add: client_length_def payload_length_def byte_at_def peek_def Let_def)
  qed
qed

lemma unmask_mask: "length key = 4 \<Longrightarrow> length m < 2 ^ 31 \<Longrightarrow> unmask key (length m) (mask_with key m) = Inr m"
  by (auto simp: unmask_def mask_with_def xor.assoc intro!: nth_equalityI)

text \<open>
  C36.  A message survives its frame: with the handshake done and nothing pending, a complete masked
  text frame of less than \<open>2 ^ 31\<close> bytes that arrives in one piece delivers exactly one text, the
  decoding of the message up to its first zero byte -- of the whole message when it has none, as
  every JSON text --, and leaves nothing behind, whatever the mask.
\<close>

theorem client_frame_delivers:
  assumes "length key = 4" "length m < 2 ^ 31" "ws_handshake c" "ws_buffer c = []"
  shows "readData E (client_frame key m) c = Inr (ws_deliver (we_utf8 E (takeWhile (\<lambda>b. b \<noteq> 0) m)) c) \<and>
    (0 \<notin> set m \<longrightarrow> readData E (client_frame key m) c = Inr (ws_deliver (we_utf8 E m) c))"
proof -
  obtain b rest where b: "client_length (length m) = b # rest" "b AND 0x80 = 0x80"
      "payload_length (client_frame key m) = Inr (length m, Suc (length (client_length (length m))))"
    using client_length_parsed [OF assms(2), of "key @ mask_with key m"] by (auto simp: client_frame_def)
  let ?i = "Suc (length (client_length (length m)))"
  have f: "client_frame key m = (0x81 # client_length (length m)) @ key @ mask_with key m"
    by (simp add: client_frame_def)
  have "byte_at (client_frame key m) 0 = Inr 0x81" "byte_at (client_frame key m) 1 = Inr b"
    using b(1) by (simp_all add: client_frame_def byte_at_def peek_def)
  moreover have "byte_at (client_frame key m) (?i + 3) = Inr (key ! 3)"
    using assms(1) by (simp add: f byte_at_def peek_def nth_append del: append_Cons)
  moreover have "take 4 (drop ?i (client_frame key m)) = key" using assms(1) by (simp add: f)
  moreover have "mid (client_frame key m) (int (?i + 4)) (sint (word_of_nat (length m) :: 32 word)) = mask_with key m"
  proof -
    have "sint (word_of_nat (length m) :: 32 word) = int (length m)"
      using sint32_id [of "int (length m)"] assms(2) by simp
    moreover have "drop (?i + 4) (client_frame key m) = mask_with key m"
      using assms(1) by (simp add: f del: append_Cons)
    moreover have "length (client_frame key m) = ?i + 4 + length m"
      using assms(1) by (simp add: f mask_with_def)
    ultimately show ?thesis
      unfolding mid_def by (simp add: mask_with_def del: of_nat_add)
  qed
  moreover have "c\<lparr>ws_buffer := []\<rparr> = c" using assms(4) by simp
  ultimately have "handleWebSocketFrame E (c\<lparr>ws_buffer := client_frame key m\<rparr>) = Inr (ws_deliver (qstring_of E m) c)"
    using b(2,3) unmask_mask [OF assms(1,2)] unfolding handleWebSocketFrame_def Let_def
    by (simp del: of_nat_add)
  then have "readData E (client_frame key m) c = Inr (ws_deliver (qstring_of E m) c)"
    using assms(3,4) by (simp add: readData_def Let_def)
  moreover have "takeWhile (\<lambda>b. b \<noteq> 0) m = m" if "0 \<notin> set m" using that by (induction m) auto
  ultimately show ?thesis unfolding qstring_of_def by metis
qed


definition demo_ws :: ws_conn where
  "demo_ws = ws_new\<lparr>ws_handshake := True\<rparr>"

theorem client_frame_delivers_witness:
  "readData demo_ws_env (client_frame [1, 2, 3, 4] [0x7B, 0x7D]) demo_ws = Inr (ws_deliver ''{}'' demo_ws) \<and>
   readData demo_ws_env (client_frame [1, 2, 3, 4] [0x7B, 0, 0x7D]) demo_ws = Inr (ws_deliver ''{'' demo_ws)"
proof -
  have "length [1, 2, 3, 4 :: byte] = 4" "length [0x7B, 0x7D :: byte] < 2 ^ 31" "length [0x7B, 0, 0x7D :: byte] < 2 ^ 31"
    "ws_handshake demo_ws" "ws_buffer demo_ws = []" by (simp_all add: demo_ws_def ws_new_def)
  note c = client_frame_delivers [OF this(1,2,4,5), of demo_ws_env] client_frame_delivers [OF this(1,3,4,5), of demo_ws_env]
  have "we_utf8 demo_ws_env [0x7B, 0x7D] = ''{}''" "we_utf8 demo_ws_env [0x7B] = ''{''"
    unfolding demo_ws_env_def by code_simp+
  with c show ?thesis by simp
qed

lemma ping_stays:
  assumes "ws_handshake c" "ws_buffer c = p @ rest" "p \<in> {[0x89, 0x00], [0x89, 0x80, k1, k2, k3, k4]}"
  shows "readData E ch c = Inr (ws_write [0xA, 0] (c\<lparr>ws_buffer := p @ rest @ ch\<rparr>))"
proof -
  have "handleWebSocketFrame E (c\<lparr>ws_buffer := p @ rest @ ch\<rparr>) = Inr (ws_write [0xA, 0] (c\<lparr>ws_buffer := p @ rest @ ch\<rparr>))"
    using assms(3)
    by (elim insertE emptyE) (simp_all add: handleWebSocketFrame_def byte_at_def peek_def payload_length_def Let_def)
  then show ?thesis using assms(1,2) by (simp add: readData_def Let_def)
qed

lemma pings_only:
  assumes "ws_handshake c" "ws_buffer c = p @ rest" "p \<in> {[0x89, 0x00], [0x89, 0x80, k1, k2, k3, k4]}"
  shows "\<exists>c'. read_chunks E chs c = Inr c' \<and> ws_messages c' = ws_messages c \<and>
    ws_out c' = ws_out c @ concat (replicate (length chs) [0xA, 0])"
  using assms
proof (induction chs arbitrary: c rest)
  case (Cons ch chs)
  let ?c = "ws_write [0xA, 0] (c\<lparr>ws_buffer := p @ rest @ ch\<rparr>)"
  have c: "ws_handshake ?c" "ws_buffer ?c = p @ (rest @ ch)" using Cons.prems by (simp_all add: ws_write_def)
  obtain c' where "read_chunks E chs ?c = Inr c'" "ws_messages c' = ws_messages ?c"
      "ws_out c' = ws_out ?c @ concat (replicate (length chs) [0xA, 0])"
    using Cons.IH [OF c assms(3)] by blast
  with ping_stays [OF Cons.prems] show ?case by (auto simp: ws_write_def)
qed simp

text \<open>
  C37.  A ping makes the connection deaf: its frame is never removed from the buffer, so after an
  (unmasked or masked) empty ping every further piece of data is answered with one more pong, and no
  message is delivered any more.
\<close>

theorem deaf_after_ping:
  assumes "ws_handshake c" "ws_buffer c = []" "p \<in> {[0x89, 0x00], [0x89, 0x80, k1, k2, k3, k4]}"
  shows "\<exists>c'. read_chunks E (p # chs) c = Inr c' \<and> ws_messages c' = ws_messages c \<and>
    ws_out c' = ws_out c @ concat (replicate (Suc (length chs)) [0xA, 0])"
proof -
  have "handleWebSocketFrame E (c\<lparr>ws_buffer := p\<rparr>) = Inr (ws_write [0xA, 0] (c\<lparr>ws_buffer := p\<rparr>))"
    using assms(3)
    by (elim insertE emptyE) (simp_all add: handleWebSocketFrame_def byte_at_def peek_def payload_length_def Let_def)
  then have "readData E p c = Inr (ws_write [0xA, 0] (c\<lparr>ws_buffer := p\<rparr>))"
    using assms(1,2) by (simp add: readData_def Let_def)
  then show ?thesis
    using pings_only [of "ws_write [0xA, 0] (c\<lparr>ws_buffer := p\<rparr>)" p "[]"] assms by (auto simp: ws_write_def)
qed

theorem deaf_after_ping_witness:
  "\<exists>c'. read_chunks demo_ws_env [[0x89, 0x00], client_frame [1, 2, 3, 4] [0x7B, 0x7D]] demo_ws = Inr c' \<and>
     ws_messages c' = [] \<and> ws_out c' = [0xA, 0, 0xA, 0]"
  using deaf_after_ping [of demo_ws "[0x89, 0x00]" 0 0 0 0 demo_ws_env "[client_frame [1, 2, 3, 4] [0x7B, 0x7D]]"]
  by (simp add: demo_ws_def ws_new_def)

text \<open>What a client reads: a final unmasked text frame and the bytes behind it.\<close>

definition client_reads :: "byte list \<Rightarrow> (byte list \<times> byte list) option" where
  "client_reads bs =
     (case bs of
        b0 # b1 # rest \<Rightarrow>
          if b0 \<noteq> 0x81 then None
          else if b1 < 126 then (if unat b1 \<le> length rest then Some (take (unat b1) rest, drop (unat b1) rest) else None)
          else if b1 = 126 then
            (case rest of
               hi # lo # rest \<Rightarrow>
                 (let n = unat hi * 256 + unat lo
                  in if n \<le> length rest then Some (take n rest, drop n rest) else None)
             | _ \<Rightarrow> None)
          else None
      | _ \<Rightarrow> None)"

text \<open>
  A reply reaches a WebSocket client in one piece exactly when it has less than 65536 bytes:
  the length field only holds the low 16 bits, so of a longer one (the server information can be)
  the client reads the beginning and takes the rest for further frames.
\<close>

theorem reply_frame_read:
  assumes "ws_handshake c" "ws_out c = []"
  shows "(client_reads (ws_out (ws_send reply c)) = Some (reply, []) \<longleftrightarrow> length reply < 65536) \<and>
    (65536 \<le> length reply \<longrightarrow> client_reads (ws_out (ws_send reply c)) =
       Some (take (length reply mod 65536) reply, drop (length reply mod 65536) reply))"
proof -
  let ?n = "length reply"
  have small: "?n \<le> 125 \<Longrightarrow> unat (u8 (int ?n)) = ?n" by (simp add: unat_u8)
  have "unat (u8 (int (?n div 256))) * 256 + unat (u8 (int ?n)) = ?n div 256 mod 256 * 256 + ?n mod 256"
    by (simp only: unat_u8)
  also have "\<dots> = ?n mod 65536"
    using mod_mult2_eq [of ?n 256 256] by (simp add: mult.commute)
  finally have len: "unat (u8 (int (?n div 256))) * 256 + unat (u8 (int ?n)) = ?n mod 65536" .
  show ?thesis
  proof (cases "?n \<le> 125")
    case True
    then have "u8 (int ?n) < 126" by (simp add: word_less_nat_alt small)
    with True show ?thesis using assms small by (simp add: ws_send_def ws_write_def client_reads_def Let_def)
  next
    case False
    then have "client_reads (ws_out (ws_send reply c)) = Some (take (?n mod 65536) reply, drop (?n mod 65536) reply)"
      using assms len by (simp add: ws_send_def ws_write_def client_reads_def Let_def)
    moreover have "65536 \<le> ?n \<Longrightarrow> drop (?n mod 65536) reply \<noteq> []"
      by (simp add: less_le_trans [OF mod_less_divisor])
    ultimately show ?thesis by auto
  qed
qed

theorem reply_frame_read_witness:
  "client_reads (ws_out (ws_send (replicate 65537 0x20) demo_ws)) = Some ([0x20], replicate 65536 0x20)"
proof -
  have "ws_handshake demo_ws" "ws_out demo_ws = []" by (simp_all add: demo_ws_def ws_new_def)
  from reply_frame_read [OF this, of "replicate 65537 0x20"] show ?thesis by simp
qed

end
