(* ===== verification/UdpListener.thy ===== *)
theory UdpListener
  imports CoreClients Json
begin

text \<open>
  The UDP listener (\<open>libsrc/udplistener/UDPListener.cpp\<close>): every datagram is a row of colours for the
  leds.  Whether the socket can be bound is an argument; a closed socket delivers nothing.  The
  listener as \<open>hyperiond\<close> sets it up (\<open>src/hyperiond/hyperiond.cpp\<close>) is at the end.
\<close>

section \<open>State and operations\<close>

record udp_listener =
  ul_priority :: int
  ul_timeout :: int
  ul_isActive :: bool
  ul_statusChanged :: "bool list"

definition ul_new :: "int \<Rightarrow> int \<Rightarrow> hyperion \<Rightarrow> udp_listener \<times> hyperion" where
  "ul_new prio timeout h =
     (\<lparr>ul_priority = prio, ul_timeout = timeout, ul_isActive = False, ul_statusChanged = []\<rparr>,
      hyp_registerPriority ''UDPLISTENER'' prio h)"

definition ul_start :: "bool \<Rightarrow> udp_listener \<Rightarrow> udp_listener" where
  "ul_start bound u =
     (if ul_isActive u then u
      else if \<not> bound then u
      else u\<lparr>ul_isActive := True, ul_statusChanged := ul_statusChanged u @ [True]\<rparr>)"

definition ul_stop :: "udp_listener \<Rightarrow> udp_listener" where
  "ul_stop u =
     (if \<not> ul_isActive u then u
      else u\<lparr>ul_isActive := False, ul_statusChanged := ul_statusChanged u @ [False]\<rparr>)"

definition ul_componentStateChanged ::
  "bool \<Rightarrow> Components \<Rightarrow> bool \<Rightarrow> udp_listener \<Rightarrow> hyperion \<Rightarrow> udp_listener \<times> hyperion" where
  "ul_componentStateChanged bound cmp enable u h =
     (if cmp = COMP_UDPLISTENER
      then (if ul_isActive u \<noteq> enable then (if enable then ul_start bound u else ul_stop u) else u,
            hyp_reportComponent cmp enable h)
      else (u, h))"

text \<open>One colour of a datagram; \<open>QByteArray::at\<close> asserts its index.\<close>

definition datagram_at :: "byte list \<Rightarrow> nat \<Rightarrow> byte res" where
  "datagram_at dg i = (if i < length dg then Inr (dg ! i) else Inl AssertFail)"

definition datagram_color :: "byte list \<Rightarrow> nat \<Rightarrow> ColorRgb res" where
  "datagram_color dg i =
     res_bind (datagram_at dg (i * 3)) (\<lambda>r. res_bind (datagram_at dg (i * 3 + 1)) (\<lambda>g.
     res_bind (datagram_at dg (i * 3 + 2)) (\<lambda>b. Inr (rgb r g b))))"

text \<open>The fourth argument of \<open>setColors\<close> is \<open>-1\<close>, which is the flag \<open>clearEffects\<close> and not a number.\<close>

definition processTheDatagram :: "(nat \<Rightarrow> int) \<Rightarrow> byte list \<Rightarrow> udp_listener \<Rightarrow> hyperion \<Rightarrow> hyperion res" where
  "processTheDatagram clk dg u h =
     (let packetLedCount = length dg div 3; hyperionLedCount = length (h_ledString h)
      in res_bind (index_loop (\<lambda>i buf. res_bind (datagram_color dg i) (\<lambda>c. poke i c buf))
                     [0 ..< min packetLedCount hyperionLedCount] (replicate hyperionLedCount BLACK)) (\<lambda>cs.
         hyp_setColors clk (ul_priority u) cs (ul_timeout u) True COMP_UDPLISTENER h))"

fun readPendingDatagrams :: "(nat \<Rightarrow> int) \<Rightarrow> byte list list \<Rightarrow> udp_listener \<Rightarrow> hyperion \<Rightarrow> hyperion res" where
  "readPendingDatagrams clk [] u h = Inr h"
| "readPendingDatagrams clk (dg # dgs) u h =
     res_bind (processTheDatagram clk dg u h) (readPendingDatagrams clk dgs u)"

text \<open>The destructor.\<close>

definition ul_delete :: "(nat \<Rightarrow> int) \<Rightarrow> udp_listener \<Rightarrow> hyperion \<Rightarrow> hyperion res" where
  "ul_delete clk u h = hyp_clear clk (ul_priority u) h"

text \<open>What reaches the listener: datagrams, while the socket is open, and changes of components.\<close>

datatype udp_event = UdpPending "byte list list" | UdpComponent Components bool bool

fun ul_step :: "(nat \<Rightarrow> int) \<Rightarrow> udp_event \<Rightarrow> udp_listener \<Rightarrow> hyperion \<Rightarrow> (udp_listener \<times> hyperion) res" where
  "ul_step clk (UdpPending dgs) u h =
     (if ul_isActive u then res_bind (readPendingDatagrams clk dgs u h) (\<lambda>h. Inr (u, h)) else Inr (u, h))"
| "ul_step clk (UdpComponent cmp enable bound) u h = Inr (ul_componentStateChanged bound cmp enable u h)"

section \<open>The daemon's listener\<close>

definition daemon_udp :: "(string \<times> json) list \<Rightarrow> bool \<Rightarrow> hyperion \<Rightarrow> udp_listener \<times> hyperion" where
  "daemon_udp config bound h =
     (let udpListenerConfigured = json_contains config ''udpListener'';
          udpListenerConfig = json_object (json_lookup config ''udpListener'');
          (u, h) = ul_new (json_int 700 (json_lookup udpListenerConfig ''priority''))
                     (json_int 10000 (json_lookup udpListenerConfig ''timeout'')) h;
          u = (if udpListenerConfigured \<and> json_bool True (json_lookup udpListenerConfig ''enable'')
               then ul_start bound u else u)
      in (u, hyp_reportComponent COMP_UDPLISTENER (ul_isActive u) h))"

section \<open>A datagram is a request\<close>

lemma nth_bytes_colors:
  "i < length bs div 3 \<Longrightarrow> bytes_colors bs ! i = rgb (bs ! (i * 3)) (bs ! (i * 3 + 1)) (bs ! (i * 3 + 2))"
proof (induction bs arbitrary: i rule: bytes_colors.induct)
  case (1 r g b bs)
  then show ?case by (cases i) simp_all
qed simp_all

lemma length_bytes_colors: "length (bytes_colors bs) = length bs div 3"
  by (induction bs rule: bytes_colors.induct) simp_all

lemma datagram_colors:
  "k \<le> length dg div 3 \<Longrightarrow> k \<le> n \<Longrightarrow>
     index_loop (\<lambda>i buf. res_bind (datagram_color dg i) (\<lambda>c. poke i c buf)) [0 ..< k] (replicate n BLACK)
       = Inr (take k (bytes_colors dg) @ replicate (n - k) BLACK)"
proof (induction k)
  case (Suc k)
  let ?l = "take k (bytes_colors dg)"
  have "k * 3 + 2 < length dg" using Suc.prems by linarith
  then have c: "datagram_color dg k = Inr (bytes_colors dg ! k)"
    using Suc.prems by (simp add: datagram_color_def datagram_at_def nth_bytes_colors)
  have l: "length ?l = k" using Suc.prems by (simp add: length_bytes_colors)
  have r: "replicate (n - k) BLACK = BLACK # replicate (n - Suc k) BLACK"
    using Suc.prems by (metis Suc_diff_Suc Suc_le_lessD replicate_Suc)
  have t: "take (Suc k) (bytes_colors dg) = ?l @ [bytes_colors dg ! k]"
    using Suc.prems by (intro take_Suc_conv_app_nth) (simp add: length_bytes_colors)
  show ?case
    using Suc c poke_between [of ?l "bytes_colors dg ! k" BLACK, unfolded l] unfolding r
    by (simp add: index_loop_append t)
qed simp

lemma datagram_request:
  "processTheDatagram clk dg u h =
     hyp_setColors clk (ul_priority u) (vec_resize (length (h_ledString h)) BLACK (bytes_colors dg))
       (ul_timeout u) True COMP_UDPLISTENER h"
proof -
  have "take (min (length dg div 3) n) (bytes_colors dg) @ replicate (n - min (length dg div 3) n) BLACK
      = vec_resize n BLACK (bytes_colors dg)" for n
    by (auto simp: vec_resize_def length_bytes_colors min_def)
  then show ?thesis by (simp add: processTheDatagram_def datagram_colors Let_def)
qed

section \<open>Sessions\<close>

definition ul_ok :: "udp_listener \<Rightarrow> bool" where
  "ul_ok u \<longleftrightarrow> ul_priority u \<noteq> LOWEST_PRIORITY \<or> ul_timeout u \<le> 0"

lemma ul_frame [simp]:
  "ul_priority (ul_start b u) = ul_priority u" "ul_timeout (ul_start b u) = ul_timeout u"
  "ul_priority (ul_stop u) = ul_priority u" "ul_timeout (ul_stop u) = ul_timeout u"
  by (simp_all add: ul_start_def ul_stop_def)

lemma pending_ok:
  assumes "cfg_ok pw cfg" "ul_ok u"
  shows "reachable pw clk cfg junk h \<Longrightarrow>
    \<exists>h'. readPendingDatagrams clk dgs u h = Inr h' \<and> reachable pw clk cfg junk h'"
proof (induction dgs arbitrary: h)
  case (Cons dg dgs)
  have "h_ledString h = cfg_leds cfg" using reachable_core_ok [OF Cons.prems assms(1)] by (auto dest: core_okD(4))
  then obtain h1 where "processTheDatagram clk dg u h = Inr h1" "reachable pw clk cfg junk h1"
    using core_requests(1) [OF assms(1) Cons.prems, of "vec_resize (length (cfg_leds cfg)) BLACK (bytes_colors dg)"
        "ul_priority u" "ul_timeout u" True COMP_UDPLISTENER] assms(2)
    by (auto simp: datagram_request ul_ok_def)
  with Cons.IH show ?case by simp
qed simp

interpretation udp: core_session "ul_step clk" ul_ok "\<lambda>_. True" "\<lambda>h. cfg_ok pw cfg \<and> reachable pw clk cfg junk h"
  for clk pw cfg junk
proof
  fix u i h
  assume a: "ul_ok u" "True" "cfg_ok pw cfg \<and> reachable pw clk cfg junk h"
  show "\<exists>u' h'. ul_step clk i u h = Inr (u', h') \<and> ul_ok u' \<and> cfg_ok pw cfg \<and> reachable pw clk cfg junk h'"
  proof (cases i)
    case (UdpPending dgs)
    with a pending_ok [of pw cfg u clk junk h dgs] show ?thesis by auto
  next
    case (UdpComponent cmp enable bound)
    with a core_steps(6) show ?thesis by (auto simp: ul_componentStateChanged_def ul_ok_def)
  qed
qed

section \<open>Properties\<close>

lemma udp_keeps_priority: "ul_step clk ev u h = Inr (u', h') \<Longrightarrow> ul_priority u' = ul_priority u"
  by (cases ev) (auto simp: ul_componentStateChanged_def elim!: res_bind_InrE split: if_splits)

lemma udp_session_priority: "session (ul_step clk) evs u h = Inr (u', h') \<Longrightarrow> ul_priority u' = ul_priority u"
  by (induction evs arbitrary: u h) (auto elim!: res_bind_InrE dest!: udp_keeps_priority)

text \<open>
  Whatever datagrams arrive and however the listener is switched, no step fails and the core
  stays in a reachable state; a datagram that carries the colours of all leds becomes exactly the
  request to show them.
\<close>

theorem udp_session_served:
  assumes "cfg_ok pw cfg" "reachable pw clk cfg junk h" "ul_priority u \<noteq> LOWEST_PRIORITY \<or> ul_timeout u \<le> 0"
  shows "(\<exists>u' h'. session (ul_step clk) evs u h = Inr (u', h') \<and> reachable pw clk cfg junk h' \<and>
      ul_priority u' = ul_priority u) \<and>
    (length cs = length (h_ledString h) \<longrightarrow>
      processTheDatagram clk (raw_bytes cs @ take 2 rest) u h =
        hyp_setColors clk (ul_priority u) cs (ul_timeout u) True COMP_UDPLISTENER h)"
proof (intro conjI impI)
  show "\<exists>u' h'. session (ul_step clk) evs u h = Inr (u', h') \<and> reachable pw clk cfg junk h' \<and>
      ul_priority u' = ul_priority u"
    using udp.session_ok [of u evs pw cfg clk junk h] assms udp_session_priority [of clk evs u h]
    by (fastforce simp: ul_ok_def list_all_iff)
next
  assume "length cs = length (h_ledString h)"
  moreover have "bytes_colors (raw_bytes cs @ r) = cs @ bytes_colors r" for r
    by (induction cs) (simp_all add: color_bytes_def)
  moreover have "bytes_colors (take 2 rest) = []"
    by (cases rest; cases "tl rest") simp_all
  ultimately show "processTheDatagram clk (raw_bytes cs @ take 2 rest) u h =
        hyp_setColors clk (ul_priority u) cs (ul_timeout u) True COMP_UDPLISTENER h"
    by (simp add: datagram_request vec_resize_def)
qed

theorem udp_session_served_witness:
  "\<exists>h u' h'. hyp_new (\<lambda>x y. 1) (\<lambda>n. int n) demo_cfg 7 = Inr h \<and>
     session (ul_step (\<lambda>n. int n)) [UdpComponent COMP_UDPLISTENER True True, UdpPending [[1, 2, 3, 4], []]]
       \<lparr>ul_priority = 190, ul_timeout = 10000, ul_isActive = False, ul_statusChanged = []\<rparr> h = Inr (u', h') \<and>
     reachable (\<lambda>x y. 1) (\<lambda>n. int n) demo_cfg 7 h'"
proof -
  obtain h where h: "hyp_new (\<lambda>x y. 1) (\<lambda>n. int n) demo_cfg 7 = Inr h"
    using hyp_new_ok [OF demo_cfg_ok, of "\<lambda>n. int n" 7] by blast
  then have "reachable (\<lambda>x y. 1) (\<lambda>n. int n) demo_cfg 7 h" by (rule reachable.Start)
  from udp_session_served [OF demo_cfg_ok this, of "\<lparr>ul_priority = 190, ul_timeout = 10000, ul_isActive = False,
      ul_statusChanged = []\<rparr>" "[UdpComponent COMP_UDPLISTENER True True, UdpPending [[1, 2, 3, 4], []]]"] h
  show ?thesis by (fastforce simp: LOWEST_PRIORITY_def simp del: session.simps)
qed

text \<open>A channel above the lowest one is stored and never shown.\<close>

lemma high_channel_hidden:
  assumes "mux_wf (h_muxer h)" "h_autoSelect h" "LOWEST_PRIORITY < p"
  shows "\<exists>h'. hyp_setColors clk p cs t clr cmp h = Inr h' \<and> mux_wf (h_muxer h') \<and> h_autoSelect h' \<and>
    h_smooth h' = h_smooth h \<and> getCurrentPriority h' \<le> LOWEST_PRIORITY"
proof -
  let ?h = "if clr then ee_channelCleared p h else h"
  have keep: "h_muxer ?h = h_muxer h" "h_autoSelect ?h = h_autoSelect h" "h_smooth ?h = h_smooth h"
    by (simp_all add: ee_channelCleared_def ee_abort_def)
  obtain T h1 where h1: "(if t > 0 then let (now, h) = read_clock clk ?h in (now + t, h) else (- 1, ?h)) = (T, h1)"
      "h_muxer h1 = h_muxer h" "h_autoSelect h1" "h_smooth h1 = h_smooth h"
    using keep assms(2) by (cases "t > 0") (simp_all add: read_clock_def)
  let ?m = "mux_setInput (h_muxer h) p cs T cmp"
  have wf: "mux_wf ?m" using assms(1,3) by (intro mux_wf_setInput) simp_all
  then have le: "mux_getCurrentPriority ?m \<le> LOWEST_PRIORITY"
    using mux_wf_current_le [OF wf mux_wf_keys_nonempty [OF wf]] by (simp add: mux_getCurrentPriority_def)
  then have "hyp_setColors clk p cs t clr cmp h = Inr (h1\<lparr>h_muxer := ?m\<rparr>)"
    using h1 assms(3) unfolding hyp_setColors_def Let_def [of ?h] by (simp add: Let_def)
  then show ?thesis using wf le h1 by (simp add: getCurrentPriority_def)
qed

lemma high_datagrams_hidden:
  assumes "LOWEST_PRIORITY < ul_priority u"
  shows "mux_wf (h_muxer h) \<Longrightarrow> h_autoSelect h \<Longrightarrow>
    \<exists>h'. readPendingDatagrams clk dgs u h = Inr h' \<and> h_smooth h' = h_smooth h \<and>
      h_autoSelect h' \<and> getCurrentPriority h' \<le> LOWEST_PRIORITY"
proof (induction dgs arbitrary: h)
  case Nil
  then show ?case
    using mux_wf_current_le [OF Nil(1) mux_wf_keys_nonempty [OF Nil(1)]]
    by (simp add: getCurrentPriority_def mux_getCurrentPriority_def)
next
  case (Cons dg dgs)
  let ?cs = "vec_resize (length (h_ledString h)) BLACK (bytes_colors dg)"
  obtain h1 where "processTheDatagram clk dg u h = Inr h1" "mux_wf (h_muxer h1)" "h_autoSelect h1" "h_smooth h1 = h_smooth h"
    using high_channel_hidden [OF Cons.prems assms, of clk ?cs "ul_timeout u" True COMP_UDPLISTENER]
    by (auto simp: datagram_request)
  with Cons.IH [of h1] show ?case by simp
qed

text \<open>
  Without a priority in its configuration the listener of the daemon gets channel 700, which is
  above the lowest channel 255: with automatic selection no datagram ever changes what the leds
  show, the frames sent so far stay the same and the current channel is another one.
\<close>

theorem udp_default_invisible:
  assumes "cfg_ok pw cfg" "reachable pw clk cfg junk h" "h_autoSelect h"
    and "json_lookup (json_object (json_lookup config ''udpListener'')) ''priority'' = JUndefined"
    and "daemon_udp config bound h = (u, h1)"
  shows "\<exists>h'. readPendingDatagrams clk dgs u h1 = Inr h' \<and> h_smooth h' = h_smooth h \<and>
    getCurrentPriority h' \<noteq> ul_priority u"
proof -
  have "ul_priority u = 700"
    using assms(4,5) by (auto simp: daemon_udp_def ul_new_def Let_def)
  then have p: "LOWEST_PRIORITY < ul_priority u" by (simp add: LOWEST_PRIORITY_def)
  have "core_ok (cfg_leds cfg) (cfg_clones cfg) (cfg_hwLeds cfg) h"
    using reachable_core_ok [OF assms(2,1)] by simp
  then have "mux_wf (h_muxer h)" by (auto dest!: core_okD(1) simp: mux_ok_def)
  moreover have "h_muxer h1 = h_muxer h" "h_autoSelect h1 = h_autoSelect h" "h_smooth h1 = h_smooth h"
    using assms(5)
    by (auto simp: daemon_udp_def ul_new_def hyp_reportComponent_def hyp_registerPriority_def Let_def split: if_splits)
  ultimately show ?thesis
    using high_datagrams_hidden [OF p, of h1 clk dgs] assms(3) p by auto
qed

theorem udp_default_invisible_witness:
  "\<exists>h h'. hyp_new (\<lambda>x y. 1) (\<lambda>n. int n) demo_cfg 7 = Inr h \<and>
     readPendingDatagrams (\<lambda>n. int n) [[1, 2, 3, 4, 5, 6]] (fst (daemon_udp [(''udpListener'', JObject [])] True h))
       (snd (daemon_udp [(''udpListener'', JObject [])] True h)) = Inr h' \<and>
     h_smooth h' = h_smooth h"
proof -
  let ?config = "[(''udpListener'', JObject [])]"
  obtain h where "hyp_new (\<lambda>x y. 1) (\<lambda>n. int n) demo_cfg 7 = Inr h"
    using hyp_new_ok [OF demo_cfg_ok, of "\<lambda>n. int n" 7] by blast
  then have h: "hyp_new (\<lambda>x y. 1) (\<lambda>n. int n) demo_cfg 7 = Inr h" "h_autoSelect h"
    using hyp_new_auto [OF _ demo_cfg_ok] by blast+
  then have r: "reachable (\<lambda>x y. 1) (\<lambda>n. int n) demo_cfg 7 h" by (auto intro: reachable.Start)
  have "json_lookup (json_object (json_lookup ?config ''udpListener'')) ''priority'' = JUndefined"
    by (simp add: json_lookup_def)
  from udp_default_invisible [OF demo_cfg_ok r h(2) this, of True "fst (daemon_udp ?config True h)"
      "snd (daemon_udp ?config True h)" "[[1, 2, 3, 4, 5, 6]]"] h(1)
  show ?thesis by auto
qed

end
