(* ===== verification/QtText.thy ===== *)
theory QtText
  imports Prelude
begin

text \<open>
  What the code uses of \<open>QString\<close>, on strings of Latin-1 characters: splitting, trimming and the
  conversions to integers, which skip surrounding white space, accept one sign and check the range.
  The decimal digits of a number are read back as that number.
\<close>

section \<open>Splitting and trimming\<close>

definition is_space :: "char \<Rightarrow> bool" where
  "is_space c \<longleftrightarrow> (let n = of_char c :: nat in 9 \<le> n \<and> n \<le> 13 \<or> n = 32 \<or> n = 0x85 \<or> n = 0xA0)"

definition trimmed :: "string \<Rightarrow> string" where
  "trimmed s = rev (dropWhile is_space (rev (dropWhile is_space s)))"

text \<open>\<open>split(c)\<close> keeps empty parts, \<open>split(c, QString::SkipEmptyParts)\<close> does not.\<close>

fun split_at :: "char \<Rightarrow> string \<Rightarrow> string list" where
  "split_at c [] = [[]]"
| "split_at c (x # xs) =
     (if x = c then [] # split_at c xs
      else case split_at c xs of [] \<Rightarrow> [[x]] | p # ps \<Rightarrow> (x # p) # ps)"

definition split_skip :: "char \<Rightarrow> string \<Rightarrow> string list" where
  "split_skip c s = filter (\<lambda>p. p \<noteq> []) (split_at c s)"

definition replace_char :: "char \<Rightarrow> char \<Rightarrow> string \<Rightarrow> string" where
  "replace_char a b s = map (\<lambda>c. if c = a then b else c) s"

text \<open>Joining parts with a separator between them.\<close>

fun join_with :: "string \<Rightarrow> string list \<Rightarrow> string" where
  "join_with sep [] = []"
| "join_with sep [p] = p"
| "join_with sep (p # q # ps) = p @ sep @ join_with sep (q # ps)"

lemma split_at_nonempty [simp]: "split_at c s \<noteq> []"
  by (cases s) (auto split: list.split)

lemma split_at_none: "c \<notin> set s \<Longrightarrow> split_at c s = [s]"
  by (induction s) auto

lemma split_at_append: "c \<notin> set p \<Longrightarrow> split_at c (p @ c # s) = p # split_at c s"
  by (induction p) auto

lemma split_at_cons_parts:
  "c \<notin> set p \<Longrightarrow> split_at c (p @ s) = (p @ hd (split_at c s)) # tl (split_at c s)"
  by (induction p) (auto simp: neq_Nil_conv)

lemma split_at_join:
  "ps \<noteq> [] \<Longrightarrow> \<forall>p \<in> set ps. c \<notin> set p \<Longrightarrow> split_at c (join_with [c] ps) = ps"
  by (induction "[c]" ps rule: join_with.induct) (simp_all add: split_at_none split_at_append)

lemma split_skip_join:
  "\<forall>p \<in> set ps. c \<notin> set p \<and> p \<noteq> [] \<Longrightarrow> split_skip c (join_with [c] ps) = ps"
  by (cases "ps = []") (auto simp: split_skip_def split_at_join filter_id_conv)

lemma trimmed_id:
  "s = [] \<or> \<not> is_space (hd s) \<and> \<not> is_space (last s) \<Longrightarrow> trimmed s = s"
proof -
  assume a: "s = [] \<or> \<not> is_space (hd s) \<and> \<not> is_space (last s)"
  have keep: "xs = [] \<or> \<not> is_space (hd xs) \<Longrightarrow> dropWhile is_space xs = xs" for xs
    by (cases xs) simp_all
  have "rev s = [] \<or> \<not> is_space (hd (rev s))" using a by (auto simp: hd_rev)
  with a show ?thesis by (auto simp: trimmed_def keep)
qed

section \<open>Lines of a byte stream\<close>

text \<open>\<open>fromLatin1\<close>, and the parts of a buffer before and behind its first line break.\<close>

definition latin1 :: "byte list \<Rightarrow> string" where
  "latin1 bs = map (\<lambda>b. char_of (unat b)) bs"

definition to_latin1 :: "string \<Rightarrow> byte list" where
  "to_latin1 s = map of_char s"

definition first_line :: "byte list \<Rightarrow> byte list" where
  "first_line buf = takeWhile (\<lambda>b. b \<noteq> 0x0A) buf"

definition after_line :: "byte list \<Rightarrow> byte list" where
  "after_line buf = tl (dropWhile (\<lambda>b. b \<noteq> 0x0A) buf)"

lemma length_after_line: "0x0A \<in> set buf \<Longrightarrow> length (after_line buf) < length buf"
proof -
  assume "0x0A \<in> set buf"
  then have "dropWhile (\<lambda>b. b \<noteq> 0x0A) buf \<noteq> []" by (simp add: dropWhile_eq_Nil_conv)
  moreover have "length (dropWhile (\<lambda>b. b \<noteq> 0x0A) buf) \<le> length buf" by (simp add: length_dropWhile_le)
  ultimately show ?thesis unfolding after_line_def by (cases "dropWhile (\<lambda>b. b \<noteq> 0x0A) buf") simp_all
qed

lemma line_append:
  "0x0A \<in> set buf \<Longrightarrow> first_line (buf @ ys) = first_line buf \<and> after_line (buf @ ys) = after_line buf @ ys"
proof -
  assume nl: "0x0A \<in> set buf"
  then have "dropWhile (\<lambda>b. b \<noteq> 0x0A) buf \<noteq> []" by (simp add: dropWhile_eq_Nil_conv)
  with nl show ?thesis by (auto simp: first_line_def after_line_def takeWhile_append1 dropWhile_append1)
qed

lemma line_of: "0x0A \<notin> set l \<Longrightarrow> first_line (l @ 0x0A # rest) = l \<and> after_line (l @ 0x0A # rest) = rest"
  by (auto simp: first_line_def after_line_def dropWhile_append takeWhile_append)

lemma unat_of_char: "unat (of_char c :: byte) = (of_char c :: nat)"
proof -
  have "(of_char c :: byte) = of_nat (of_char c)" by (simp only: of_nat_of_char)
  then have "unat (of_char c :: byte) = of_char c mod 256" by (simp add: unat_of_nat)
  then show ?thesis by simp
qed

lemma latin1_to_latin1 [simp]: "latin1 (to_latin1 s) = s"
  by (induction s) (simp_all add: latin1_def to_latin1_def unat_of_char)

lemma to_latin1_append [simp]: "to_latin1 (s @ t) = to_latin1 s @ to_latin1 t"
  by (simp add: to_latin1_def)

lemma to_latin1_no_break: "CHR 0x0A \<notin> set s \<Longrightarrow> 0x0A \<notin> set (to_latin1 s)"
proof
  assume s: "CHR 0x0A \<notin> set s" and "0x0A \<in> set (to_latin1 s)"
  then obtain c where c: "c \<in> set s" "of_char c = (0x0A :: byte)" by (auto simp: to_latin1_def)
  have "latin1 (to_latin1 [c]) = [c]" by simp
  then have "c = char_of (10 :: nat)" using c(2) by (simp add: latin1_def to_latin1_def)
  also have "\<dots> = CHR 0x0A" by (simp add: char_of_eq_iff)
  finally show False using s c(1) by simp
qed

section \<open>Numbers\<close>

definition is_digit :: "char \<Rightarrow> bool" where
  "is_digit c \<longleftrightarrow> c \<in> set ''0123456789''"

definition digit_of :: "char \<Rightarrow> nat" where
  "digit_of c = of_char c - 48"

definition number_of_digits :: "string \<Rightarrow> nat" where
  "number_of_digits ds = foldl (\<lambda>n c. 10 * n + digit_of c) 0 ds"

definition digits :: "string \<Rightarrow> bool" where
  "digits s \<longleftrightarrow> s \<noteq> [] \<and> list_all is_digit s"

text \<open>The sign and the value of the text of an integer.\<close>

definition parse_integer :: "string \<Rightarrow> int option" where
  "parse_integer s =
     (let t = trimmed s;
          ds = (if t \<noteq> [] \<and> hd t \<in> {CHR ''-'', CHR ''+''} then tl t else t)
      in if digits ds
         then Some (if hd t = CHR ''-'' then - int (number_of_digits ds) else int (number_of_digits ds))
         else None)"

text \<open>The conversions: the value and the flag \<open>ok\<close>; the value is 0 when the conversion fails.\<close>

definition toInt :: "string \<Rightarrow> int \<times> bool" where
  "toInt s = (case parse_integer s of
       Some n \<Rightarrow> if - (2 ^ 31) \<le> n \<and> n < 2 ^ 31 then (n, True) else (0, False)
     | None \<Rightarrow> (0, False))"

definition toUnsigned :: "nat \<Rightarrow> string \<Rightarrow> nat \<times> bool" where
  "toUnsigned w s =
     (if trimmed s \<noteq> [] \<and> hd (trimmed s) = CHR ''-'' then (0, False)
      else case parse_integer s of
          Some n \<Rightarrow> if n < 2 ^ w then (nat n, True) else (0, False)
        | None \<Rightarrow> (0, False))"

abbreviation toUInt :: "string \<Rightarrow> nat \<times> bool" where
  "toUInt \<equiv> toUnsigned 32"

abbreviation toUShort :: "string \<Rightarrow> nat \<times> bool" where
  "toUShort \<equiv> toUnsigned 16"

lemma toInt_range: "- (2 ^ 31) \<le> fst (toInt s) \<and> fst (toInt s) < 2 ^ 31"
  by (auto simp: toInt_def split: option.split)

lemma toUnsigned_range: "fst (toUnsigned w s) < 2 ^ w"
  by (auto simp: toUnsigned_def nat_less_iff split: option.split)

section \<open>Decimal notation\<close>

definition digit_char :: "nat \<Rightarrow> char" where
  "digit_char d = ''0123456789'' ! d"

fun decimal :: "nat \<Rightarrow> string" where
  "decimal n = (if n < 10 then [digit_char n] else decimal (n div 10) @ [digit_char (n mod 10)])"

declare decimal.simps [simp del]

lemma digit_char_ok: "d < 10 \<Longrightarrow> is_digit (digit_char d) \<and> digit_of (digit_char d) = d"
proof -
  assume "d < 10"
  then have "d \<in> {0, 1, 2, 3, 4, 5, 6, 7, 8, 9}" by (simp add: numeral_eq_Suc less_Suc_eq)
  then show ?thesis by (auto simp: digit_char_def is_digit_def digit_of_def)
qed

lemma digits_decimal [simp]: "digits (decimal n)"
  by (induction n rule: decimal.induct) (subst decimal.simps, auto simp: digits_def digit_char_ok)

lemma number_of_decimal [simp]: "number_of_digits (decimal n) = n"
proof (induction n rule: decimal.induct)
  case (1 n)
  show ?case
  proof (cases "n < 10")
    case True
    then show ?thesis by (subst decimal.simps) (simp add: number_of_digits_def digit_char_ok)
  next
    case False
    with 1 have "number_of_digits (decimal n) = 10 * (n div 10) + n mod 10"
      by (subst decimal.simps) (simp add: number_of_digits_def digit_char_ok)
    then show ?thesis by simp
  qed
qed

lemma digit_plain: "is_digit c \<Longrightarrow> \<not> is_space c \<and> c \<noteq> CHR ''-'' \<and> c \<noteq> CHR ''+'' \<and> c \<noteq> CHR '','' \<and> c \<noteq> CHR '' ''"
  by (auto simp: is_digit_def is_space_def)

lemma digits_plain:
  assumes "digits s"
  shows "s \<noteq> []" "c \<in> set s \<Longrightarrow> is_digit c" "trimmed s = s" "is_digit (hd s)"
proof -
  show ne: "s \<noteq> []" and d: "\<And>c. c \<in> set s \<Longrightarrow> is_digit c"
    using assms by (auto simp: digits_def list_all_iff)
  then have "is_digit (hd s)" "is_digit (last s)" by simp_all
  then show "is_digit (hd s)" "trimmed s = s" using ne digit_plain by (simp_all add: trimmed_id)
qed

lemma parse_digits: "digits s \<Longrightarrow> parse_integer s = Some (int (number_of_digits s))"
  using digits_plain [of s] digit_plain [of "hd s"] by (auto simp: parse_integer_def Let_def)

lemma trimmed_front_space: "trimmed (CHR '' '' # s) = trimmed s"
  by (simp add: trimmed_def is_space_def)

lemma parse_integer_front_space: "parse_integer (CHR '' '' # s) = parse_integer s"
  by (simp add: parse_integer_def trimmed_front_space)

lemma toInt_digits: "digits s \<Longrightarrow> number_of_digits s < 2 ^ 31 \<Longrightarrow> toInt s = (int (number_of_digits s), True)"
  by (simp add: toInt_def parse_digits)

lemma toUnsigned_digits: "digits s \<Longrightarrow> number_of_digits s < 2 ^ w \<Longrightarrow> toUnsigned w s = (number_of_digits s, True)"
proof -
  assume a: "digits s" "number_of_digits s < 2 ^ w"
  then have "int (number_of_digits s) < 2 ^ w" by (metis of_nat_less_iff of_nat_numeral of_nat_power)
  with a digits_plain [OF a(1)] digit_plain [of "hd s"] show ?thesis
    by (simp add: toUnsigned_def parse_digits)
qed

lemma decimal_plain: "c \<in> set (decimal n) \<Longrightarrow> is_digit c"
  using digits_plain(2) [OF digits_decimal] .

lemma decimal_no: "\<not> is_digit c \<Longrightarrow> c \<notin> set (decimal n)"
  using decimal_plain by blast

end
