(* ===== verification/Boblight.thy ===== *)
theory Boblight
  imports CoreClients QtText Json
begin

text \<open>
  The boblight server (\<open>libsrc/boblightserver/BoblightClientConnection.cpp\<close>, \<open>BoblightServer.cpp\<close>): a
  text protocol in which a client sets the leds one by one.  The conversion of a text to a
  \<open>float\<close> is Qt's and a parameter; the sockets are the bytes that arrive and the replies sent.
\<close>

section \<open>A connection\<close>

text \<open>The lines sent to the client; the numbers of a \<open>light\<close> line are printed with \<open>printf\<close>.\<close>

datatype bl_reply = BlText string | BlLights nat | BlLight nat rat rat rat rat

text \<open>\<open>bl_comma\<close>: the decimal point of the locale is a comma.\<close>

record bl_client =
  bl_processor :: imgproc
  bl_priority :: int
  bl_ledColors :: "ColorRgb list"
  bl_comma :: bool
  bl_sent :: "bl_reply list"

definition bl_new :: "imgproc \<Rightarrow> int \<Rightarrow> hyperion \<Rightarrow> bl_client" where
  "bl_new ip prio h =
     \<lparr>bl_processor = ip, bl_priority = prio,
      bl_ledColors = replicate (length (h_ledString h)) BLACK, bl_comma = False, bl_sent = []\<rparr>"

definition bl_send :: "bl_reply \<Rightarrow> bl_client \<Rightarrow> bl_client" where
  "bl_send r c = c\<lparr>bl_sent := bl_sent c @ [r]\<rparr>"

text \<open>\<open>toFloat\<close> returns a value and whether the text is a number.\<close>

datatype qt_float = Finite rat | NonFinite

type_synonym to_float = "string \<Rightarrow> qt_float \<times> bool"

text \<open>
  \<open>qMax(0, qMin(255, int(255 * x)))\<close>: a product in single precision; a value that does not fit an
  \<open>int\<close> makes the conversion undefined.
\<close>

definition bl_channel :: "to_float \<Rightarrow> string \<Rightarrow> (byte \<times> bool) res" where
  "bl_channel tf s =
     (case tf s of
        (NonFinite, _) \<Rightarrow> Inl Undefined
      | (Finite x, rc) \<Rightarrow>
          (let v = trunc_rat (fl 24 (255 * x))
           in if - (2 ^ 31) \<le> v \<and> v < 2 ^ 31 then Inr (u8 (max 0 (min 255 v)), rc) else Inl Undefined))"

text \<open>
  The component is passed in the place of the flag \<open>clearEffects\<close>, so effects of the channel are
  cleared and the colours are filed without a component.
\<close>

definition bl_setColors :: "(nat \<Rightarrow> int) \<Rightarrow> bl_client \<Rightarrow> hyperion \<Rightarrow> hyperion res" where
  "bl_setColors clk c h = hyp_setColors clk (bl_priority c) (bl_ledColors c) (-1) True COMP_INVALID h"

definition bl_handleLight ::
  "to_float \<Rightarrow> (nat \<Rightarrow> int) \<Rightarrow> string list \<Rightarrow> bl_client \<Rightarrow> hyperion \<Rightarrow> (bl_client \<times> hyperion) res" where
  "bl_handleLight tf clk parts c h =
     (let (ledIndex, rc) = toUInt (parts ! 2) in
      if rc \<and> ledIndex < length (bl_ledColors c)
      then
        if parts ! 3 = ''rgb'' \<and> length parts = 7
        then (let point = replace_char (CHR '','') (CHR ''.'') in
          res_bind (bl_channel tf (point (parts ! 4))) (\<lambda>(r, rc1).
          let c = (if rc1 then c else c\<lparr>bl_comma := \<not> bl_comma c\<rparr>) in
          res_bind (if rc1 then Inr (r, rc1) else bl_channel tf (point (parts ! 4))) (\<lambda>(r, rc1).
          res_bind (bl_channel tf (point (parts ! 5))) (\<lambda>(g, rc2).
          res_bind (bl_channel tf (point (parts ! 6))) (\<lambda>(b, rc3).
          if rc1 \<and> rc2 \<and> rc3
          then (let c = c\<lparr>bl_ledColors := (bl_ledColors c)[ledIndex := rgb r g b]\<rparr> in
            if ledIndex = length (bl_ledColors c) - 1 \<and> bl_priority c < 255
            then res_bind (bl_setColors clk c h) (\<lambda>h. Inr (c, h))
            else Inr (c, h))
          else Inr (c, h))))))
        else Inr (c, h)
      else Inr (c, h))"

definition bl_handlePriority ::
  "(nat \<Rightarrow> int) \<Rightarrow> string list \<Rightarrow> bl_client \<Rightarrow> hyperion \<Rightarrow> (bl_client \<times> hyperion) res" where
  "bl_handlePriority clk parts c h =
     (let (prio, rc) = toInt (parts ! 2) in
      if rc \<and> prio \<noteq> bl_priority c
      then res_bind (if bl_priority c < 255 then hyp_clear clk (bl_priority c) h else Inr h) (\<lambda>h.
             Inr (c\<lparr>bl_priority := prio\<rparr>, h))
      else Inr (c, h))"

text \<open>\<open>getScanParameters\<close> leaves the variables uninitialised for a led it does not know.\<close>

definition bl_lightLine :: "imgproc \<Rightarrow> nat \<Rightarrow> bl_reply res" where
  "bl_lightLine ip i =
     (if i < ip_getLedCount ip
      then (let ((h0, h1, v0, v1), _) = getScanParameters ip i (0, 0, 0, 0)
            in Inr (BlLight i (dbl (100 * v0)) (dbl (100 * v1)) (dbl (100 * h0)) (dbl (100 * h1))))
      else Inl Undefined)"

definition sendLightMessage :: "bl_client \<Rightarrow> hyperion \<Rightarrow> bl_client res" where
  "sendLightMessage c h =
     (let n = length (h_ledString h)
      in index_loop (\<lambda>i c. res_bind (bl_lightLine (bl_processor c) i) (\<lambda>r. Inr (bl_send r c))) [0 ..< n]
           (bl_send (BlLights n) c))"

definition bl_handleMessage ::
  "to_float \<Rightarrow> (nat \<Rightarrow> int) \<Rightarrow> string \<Rightarrow> bl_client \<Rightarrow> hyperion \<Rightarrow> (bl_client \<times> hyperion) res" where
  "bl_handleMessage tf clk message c h =
     (let parts = split_skip (CHR '' '') message; n = length parts in
      if n > 0 then
        if parts ! 0 = ''hello'' then Inr (bl_send (BlText ''hello'') c, h)
        else if parts ! 0 = ''ping'' then Inr (bl_send (BlText ''ping 1'') c, h)
        else if parts ! 0 = ''get'' \<and> n > 1 then
          if parts ! 1 = ''version'' then Inr (bl_send (BlText ''version 5'') c, h)
          else if parts ! 1 = ''lights'' then res_bind (sendLightMessage c h) (\<lambda>c. Inr (c, h))
          else Inr (c, h)
        else if parts ! 0 = ''set'' \<and> n > 2 then
          if n > 3 \<and> parts ! 1 = ''light'' then bl_handleLight tf clk parts c h
          else if n = 3 \<and> parts ! 1 = ''priority'' then bl_handlePriority clk parts c h
          else Inr (c, h)
        else if parts ! 0 = ''sync'' then
          if bl_priority c < 255 then res_bind (bl_setColors clk c h) (\<lambda>h. Inr (c, h)) else Inr (c, h)
        else Inr (c, h)
      else Inr (c, h))"

section \<open>Incoming data\<close>

text \<open>
  The loop of \<open>readData\<close>; \<open>buf\<close> is the receive buffer, which is emptied when more than 100 KiB are
  left after a message.  What is left of it is returned beside the connection.
\<close>

type_synonym bl_connection = "byte list \<times> bl_client"

function bl_loop ::
  "to_float \<Rightarrow> (nat \<Rightarrow> int) \<Rightarrow> byte list \<Rightarrow> bl_client \<Rightarrow> hyperion \<Rightarrow> (bl_connection \<times> hyperion) res" where
  "bl_loop tf clk buf c h =
     (if 0x0A \<in> set buf
      then (let rest = after_line buf in
        res_bind (bl_handleMessage tf clk (trimmed (latin1 (first_line buf))) c h) (\<lambda>(c, h).
          bl_loop tf clk (if length rest > 100 * 1024 then [] else rest) c h))
      else Inr ((buf, c), h))"
  by pat_completeness auto

termination
  by (relation "measure (\<lambda>(tf, clk, buf, c, h). length buf)")
    (use length_after_line length_pos_if_in_set in fastforce)+

declare bl_loop.simps [simp del]

definition bl_readData ::
  "to_float \<Rightarrow> (nat \<Rightarrow> int) \<Rightarrow> byte list \<Rightarrow> bl_connection \<Rightarrow> hyperion \<Rightarrow> (bl_connection \<times> hyperion) res" where
  "bl_readData tf clk chunk conn h = bl_loop tf clk (fst conn @ chunk) (snd conn) h"

text \<open>\<open>socketClosed\<close>, and the same steps in the destructor.\<close>

definition bl_release :: "(nat \<Rightarrow> int) \<Rightarrow> bl_client \<Rightarrow> hyperion \<Rightarrow> (bl_client \<times> hyperion) res" where
  "bl_release clk c h =
     (if bl_priority c < 255
      then res_bind (hyp_clear clk (bl_priority c) h) (\<lambda>h. Inr (c\<lparr>bl_priority := 255\<rparr>, h))
      else Inr (c, h))"

text \<open>What a connection sees: messages, and its end.\<close>

datatype bl_event = BlMessage string | BlClosed

fun bl_step :: "to_float \<Rightarrow> (nat \<Rightarrow> int) \<Rightarrow> bl_event \<Rightarrow> bl_client \<Rightarrow> hyperion \<Rightarrow> (bl_client \<times> hyperion) res" where
  "bl_step tf clk (BlMessage m) c h = bl_handleMessage tf clk m c h"
| "bl_step tf clk BlClosed c h = bl_release clk c h"

section \<open>The server\<close>

record bl_server =
  bs_priority :: int
  bs_isActive :: bool
  bs_connections :: "bl_client list"
  bs_statusChanged :: "bool list"

definition bs_new :: "int \<Rightarrow> bl_server" where
  "bs_new prio = \<lparr>bs_priority = prio, bs_isActive = False, bs_connections = [], bs_statusChanged = []\<rparr>"

text \<open>\<open>bound\<close>: whether the port can be opened.\<close>

definition bs_start :: "bool \<Rightarrow> bl_server \<Rightarrow> hyperion \<Rightarrow> (bl_server \<times> hyperion) res" where
  "bs_start bound s h =
     (if bs_isActive s then Inr (s, h)
      else if \<not> bound then Inl RuntimeError
      else Inr (s\<lparr>bs_isActive := True, bs_statusChanged := bs_statusChanged s @ [True]\<rparr>,
                hyp_registerPriority ''Boblight'' (bs_priority s) h))"

fun bs_deleteAll :: "(nat \<Rightarrow> int) \<Rightarrow> bl_client list \<Rightarrow> hyperion \<Rightarrow> hyperion res" where
  "bs_deleteAll clk [] h = Inr h"
| "bs_deleteAll clk (c # cs) h = res_bind (bl_release clk c h) (\<lambda>(c, h). bs_deleteAll clk cs h)"

definition bs_stop :: "(nat \<Rightarrow> int) \<Rightarrow> bl_server \<Rightarrow> hyperion \<Rightarrow> (bl_server \<times> hyperion) res" where
  "bs_stop clk s h =
     (if \<not> bs_isActive s then Inr (s, h)
      else res_bind (bs_deleteAll clk (bs_connections s) h) (\<lambda>h.
        Inr (s\<lparr>bs_isActive := False, bs_connections := [], bs_statusChanged := bs_statusChanged s @ [False]\<rparr>,
             hyp_unRegisterPriority ''Boblight'' h)))"

definition bs_componentStateChanged ::
  "(nat \<Rightarrow> int) \<Rightarrow> bool \<Rightarrow> Components \<Rightarrow> bool \<Rightarrow> bl_server \<Rightarrow> hyperion \<Rightarrow> (bl_server \<times> hyperion) res" where
  "bs_componentStateChanged clk bound cmp enable s h =
     (if cmp = COMP_BOBLIGHTSERVER
      then res_bind (if bs_isActive s \<noteq> enable
                     then (if enable then bs_start bound s h else bs_stop clk s h) else Inr (s, h)) (\<lambda>(s, h).
             Inr (s, hyp_reportComponent cmp (bs_isActive s) h))
      else Inr (s, h))"

definition bs_newConnection :: "imgproc \<Rightarrow> bl_server \<Rightarrow> hyperion \<Rightarrow> bl_server" where
  "bs_newConnection ip s h = s\<lparr>bs_connections := bs_connections s @ [bl_new ip (bs_priority s) h]\<rparr>"

text \<open>The server as \<open>hyperiond\<close> creates it.\<close>

definition daemon_boblight :: "(string \<times> json) list \<Rightarrow> bool \<Rightarrow> hyperion \<Rightarrow> (bl_server \<times> hyperion) res" where
  "daemon_boblight config bound h =
     (let boblightConfigured = json_contains config ''boblightServer'';
          boblightServerConfig = json_object (json_lookup config ''boblightServer'');
          s = bs_new (json_int 710 (json_lookup boblightServerConfig ''priority''))
      in res_bind (if boblightConfigured \<and> json_bool True (json_lookup boblightServerConfig ''enable'')
                   then bs_start bound s h else Inr (s, h)) (\<lambda>(s, h).
         Inr (s, hyp_reportComponent COMP_BOBLIGHTSERVER (bs_isActive s) h)))"

section \<open>Messages and chunks\<close>

lemma bl_loop_line: "0x0A \<in> set buf \<Longrightarrow> length buf \<le> 100 * 1024 \<Longrightarrow>
    bl_loop tf clk buf c h =
      res_bind (bl_handleMessage tf clk (trimmed (latin1 (first_line buf))) c h) (\<lambda>(c, h). bl_loop tf clk (after_line buf) c h)"
  using length_after_line [of buf] by (subst bl_loop.simps) simp

lemma bl_loop_rest: "0x0A \<notin> set buf \<Longrightarrow> bl_loop tf clk buf c h = Inr ((buf, c), h)"
  by (subst bl_loop.simps) simp

lemma bl_loop_keeps:
  "bl_loop tf clk buf c h = Inr ((r, c'), h') \<Longrightarrow> 0x0A \<notin> set r \<and> length r \<le> length buf"
proof (induction "length buf" arbitrary: buf c h rule: less_induct)
  case less
  show ?case
  proof (cases "0x0A \<in> set buf")
    case False
    with less.prems show ?thesis by (auto simp: bl_loop_rest)
  next
    case True
    let ?rest = "if length (after_line buf) > 100 * 1024 then [] else after_line buf"
    obtain c1 h1 where "bl_loop tf clk ?rest c1 h1 = Inr ((r, c'), h')"
      using True less.prems unfolding bl_loop.simps [of tf clk buf] Let_def by (auto elim!: res_bind_InrE)
    moreover have "length ?rest < length buf" using length_after_line [OF True] by auto
    ultimately show ?thesis using less.hyps [of ?rest c1 h1] by auto
  qed
qed

lemma bl_loop_append:
  "length (a @ b) \<le> 100 * 1024 \<Longrightarrow>
    bl_loop tf clk (a @ b) c h = res_bind (bl_loop tf clk a c h) (\<lambda>((r, c), h). bl_loop tf clk (r @ b) c h)"
proof (induction "length a" arbitrary: a c h rule: less_induct)
  case less
  show ?case
  proof (cases "0x0A \<in> set a")
    case False
    then show ?thesis by (simp add: bl_loop_rest)
  next
    case True
    let ?m = "trimmed (latin1 (first_line a))"
    have len: "length (after_line a @ b) \<le> 100 * 1024" using less.prems length_after_line [OF True] by simp
    have "bl_loop tf clk (a @ b) c h =
        res_bind (bl_handleMessage tf clk ?m c h) (\<lambda>(c, h). bl_loop tf clk (after_line a @ b) c h)"
      using True less.prems line_append [OF True, of b] by (subst bl_loop_line) simp_all
    also have "\<dots> = res_bind (bl_handleMessage tf clk ?m c h) (\<lambda>(c, h).
        res_bind (bl_loop tf clk (after_line a) c h) (\<lambda>((r, c), h). bl_loop tf clk (r @ b) c h))"
      using less.hyps [OF length_after_line [OF True] len] by simp
    also have "\<dots> = res_bind (bl_loop tf clk a c h) (\<lambda>((r, c), h). bl_loop tf clk (r @ b) c h)"
      using True less.prems by (subst bl_loop_line [of a]) (simp_all add: res_bind_def split: sum.split)
    finally show ?thesis .
  qed
qed

text \<open>
  As long as no more than 100 KiB arrive, the server does the same however the stream of a
  client is cut into pieces: it handles the complete lines in order and keeps the rest.
\<close>

theorem boblight_chunks_irrelevant:
  assumes "length (concat chunks) \<le> 100 * 1024"
  shows "session (bl_readData tf clk) chunks ([], c) h = bl_readData tf clk (concat chunks) ([], c) h"
proof -
  have "0x0A \<notin> set buf \<Longrightarrow> length (buf @ concat chunks) \<le> 100 * 1024 \<Longrightarrow>
      session (bl_readData tf clk) chunks (buf, c) h = bl_loop tf clk (buf @ concat chunks) c h" for buf
  proof (induction chunks arbitrary: buf c h)
    case Nil
    then show ?case by (simp add: bl_loop_rest)
  next
    case (Cons ch chs)
    have split: "bl_loop tf clk (buf @ concat (ch # chs)) c h =
        res_bind (bl_loop tf clk (buf @ ch) c h) (\<lambda>((r, c), h). bl_loop tf clk (r @ concat chs) c h)"
      using bl_loop_append [of "buf @ ch" "concat chs" tf clk c h] Cons.prems(2) by simp
    show ?case
    proof (cases "bl_loop tf clk (buf @ ch) c h")
      case (Inl e)
      then show ?thesis unfolding split by (simp add: bl_readData_def)
    next
      case (Inr x)
      then obtain r c1 h1 where x: "bl_loop tf clk (buf @ ch) c h = Inr ((r, c1), h1)" by (metis surj_pair)
      then have "0x0A \<notin> set r" "length (r @ concat chs) \<le> 100 * 1024"
        using bl_loop_keeps [OF x] Cons.prems(2) by simp_all
      from Cons.IH [OF this] x show ?thesis unfolding split by (simp add: bl_readData_def)
    qed
  qed
  from this [of "[]"] assms show ?thesis by (simp add: bl_readData_def)
qed

section \<open>Sessions\<close>

definition words_ok :: "to_float \<Rightarrow> string \<Rightarrow> bool" where
  "words_ok tf m \<longleftrightarrow>
     list_all (\<lambda>w. case bl_channel tf (replace_char (CHR '','') (CHR ''.'') w) of Inr _ \<Rightarrow> True | Inl _ \<Rightarrow> False)
       (split_skip (CHR '' '') m)"

fun bl_event_ok :: "to_float \<Rightarrow> bl_event \<Rightarrow> bool" where
  "bl_event_ok tf (BlMessage m) \<longleftrightarrow> words_ok tf m"
| "bl_event_ok tf BlClosed \<longleftrightarrow> True"

definition bl_ok :: "nat \<Rightarrow> bl_client \<Rightarrow> bool" where
  "bl_ok n c \<longleftrightarrow> length (bl_ledColors c) = n \<and> ip_getLedCount (bl_processor c) = n"

lemma bl_ok_frame [simp]:
  "bl_ok n (bl_send r c) = bl_ok n c" "bl_ok n (c\<lparr>bl_priority := p\<rparr>) = bl_ok n c"
  "bl_ok n (c\<lparr>bl_comma := b\<rparr>) = bl_ok n c" "bl_ok n (c\<lparr>bl_ledColors := (bl_ledColors c)[i := x]\<rparr>) = bl_ok n c"
  by (simp_all add: bl_ok_def bl_send_def)

lemma lightLine_ok: "i < ip_getLedCount ip \<Longrightarrow> \<exists>r. bl_lightLine ip i = Inr r"
  by (cases "getScanParameters ip i (0, 0, 0, 0)") (auto simp: bl_lightLine_def)

lemma lights_ok:
  assumes "bl_ok n c" "length (h_ledString h) = n"
  shows "\<exists>c'. sendLightMessage c h = Inr c' \<and> bl_ok n c'"
proof -
  let ?f = "\<lambda>i c. res_bind (bl_lightLine (bl_processor c) i) (\<lambda>r. Inr (bl_send r c))"
  have "list_all (\<lambda>i. i < n) is \<Longrightarrow> bl_ok n d \<Longrightarrow> \<exists>c'. index_loop ?f is d = Inr c' \<and> bl_ok n c'" for "is" d
  proof (induction "is" arbitrary: d)
    case (Cons i "is")
    then obtain r where "bl_lightLine (bl_processor d) i = Inr r" using lightLine_ok [of i "bl_processor d"] by (auto simp: bl_ok_def)
    with Cons show ?case by auto
  qed simp
  from this [of "[0 ..< n]" "bl_send (BlLights n) c"] assms show ?thesis
    by (simp add: sendLightMessage_def list_all_iff)
qed

lemma lights_priority:
  assumes "sendLightMessage c h = Inr c'"
  shows "bl_priority c' = bl_priority c"
proof -
  let ?f = "\<lambda>i c. res_bind (bl_lightLine (bl_processor c) i) (\<lambda>r. Inr (bl_send r c))"
  have keep: "index_loop ?f is d = Inr c' \<Longrightarrow> bl_priority c' = bl_priority d" for "is" d
    by (induction "is" arbitrary: d) (auto simp: bl_send_def elim!: res_bind_InrE)
  have "index_loop ?f [0 ..< length (h_ledString h)] (bl_send (BlLights (length (h_ledString h))) c) = Inr c'"
    using assms by (simp add: sendLightMessage_def Let_def)
  from keep [OF this] show ?thesis by (simp add: bl_send_def)
qed

lemma bl_setColors_ok:
  assumes "core_at pw clk cfg junk h" "bl_ok (length (cfg_leds cfg)) c"
  shows "\<exists>h'. bl_setColors clk c h = Inr h' \<and> core_at pw clk cfg junk h'"
  using core_at_setColors [OF assms(1)] assms(2) by (simp add: bl_setColors_def bl_ok_def)

lemma bl_handleLight_ok:
  assumes "core_at pw clk cfg junk h" "bl_ok (length (cfg_leds cfg)) c"
    and "list_all (\<lambda>w. case bl_channel tf (replace_char (CHR '','') (CHR ''.'') w) of Inr _ \<Rightarrow> True | Inl _ \<Rightarrow> False) parts"
  shows "\<exists>c' h'. bl_handleLight tf clk parts c h = Inr (c', h') \<and> bl_ok (length (cfg_leds cfg)) c' \<and>
    core_at pw clk cfg junk h'"
proof (cases "parts ! 3 = ''rgb'' \<and> length parts = 7")
  case True
  let ?point = "replace_char (CHR '','') (CHR ''.'')"
  have "\<exists>x rc. bl_channel tf (?point (parts ! i)) = Inr (x, rc)" if "i < 7" for i
    using assms(3) True that
    by (cases "bl_channel tf (?point (parts ! i))") (force simp: list_all_length split: sum.splits)+
  from this [of 4] this [of 5] this [of 6] obtain r rc1 g rc2 b rc3 where
    ch: "bl_channel tf (?point (parts ! 4)) = Inr (r, rc1)" "bl_channel tf (?point (parts ! 5)) = Inr (g, rc2)"
      "bl_channel tf (?point (parts ! 6)) = Inr (b, rc3)" by auto
  let ?c = "\<lambda>i. c\<lparr>bl_ledColors := (bl_ledColors c)[i := rgb r g b]\<rparr>"
  have set: "\<exists>h'. bl_setColors clk (?c i) h = Inr h' \<and> core_at pw clk cfg junk h'" for i
    using bl_setColors_ok [OF assms(1)] assms(2) by simp
  obtain i rc where u: "toUInt (parts ! 2) = (i, rc)" by fastforce
  show ?thesis
  proof (cases "rc \<and> i < length (bl_ledColors c)")
    case False
    with u True assms(1,2) show ?thesis by (auto simp: bl_handleLight_def)
  next
    case known: True
    show ?thesis
    proof (cases "rc1 \<and> rc2 \<and> rc3")
      case False
      with u True known ch assms(1,2) show ?thesis by (cases rc1) (auto simp: bl_handleLight_def Let_def)
    next
      case ok: True
      then have "bl_handleLight tf clk parts c h =
          (if i = length (bl_ledColors c) - 1 \<and> bl_priority c < 255
           then res_bind (bl_setColors clk (?c i) h) (\<lambda>h. Inr (?c i, h)) else Inr (?c i, h))"
        using u True known ch by (simp add: bl_handleLight_def Let_def)
      then show ?thesis using set [of i] assms(1,2) by auto
    qed
  qed
qed (use assms in \<open>auto simp: bl_handleLight_def split: prod.split\<close>)

lemma bl_handlePriority_ok:
  assumes "core_at pw clk cfg junk h" "bl_ok n c"
  shows "\<exists>c' h'. bl_handlePriority clk parts c h = Inr (c', h') \<and> bl_ok n c' \<and> core_at pw clk cfg junk h'"
  using core_at_clear [OF assms(1), of "bl_priority c"] assms by (auto simp: bl_handlePriority_def split: prod.split)

lemma bl_handleMessage_ok:
  assumes "core_at pw clk cfg junk h" "bl_ok (length (cfg_leds cfg)) c" "words_ok tf m"
  shows "\<exists>c' h'. bl_handleMessage tf clk m c h = Inr (c', h') \<and> bl_ok (length (cfg_leds cfg)) c' \<and>
    core_at pw clk cfg junk h'"
proof -
  obtain c1 where "sendLightMessage c h = Inr c1" "bl_ok (length (cfg_leds cfg)) c1"
    using lights_ok [OF assms(2), of h] core_at_leds [OF assms(1)] by auto
  moreover obtain h1 where "bl_setColors clk c h = Inr h1" "core_at pw clk cfg junk h1"
    using bl_setColors_ok [OF assms(1,2)] by blast
  moreover note light = bl_handleLight_ok [OF assms(1,2) assms(3) [unfolded words_ok_def]]
  ultimately show ?thesis
    using light bl_handlePriority_ok [OF assms(1,2)] assms(1,2)
    by (simp add: bl_handleMessage_def Let_def)
qed

interpretation boblight: core_session "bl_step tf clk" "bl_ok (length (cfg_leds cfg))" "bl_event_ok tf"
    "core_at pw clk cfg junk" for tf clk pw cfg junk
proof
  fix c i h
  assume a: "bl_ok (length (cfg_leds cfg)) c" "bl_event_ok tf i" "core_at pw clk cfg junk h"
  show "\<exists>c' h'. bl_step tf clk i c h = Inr (c', h') \<and> bl_ok (length (cfg_leds cfg)) c' \<and> core_at pw clk cfg junk h'"
  proof (cases i)
    case (BlMessage m)
    then show ?thesis using bl_handleMessage_ok [OF a(3,1)] a(2) by simp
  next
    case BlClosed
    then show ?thesis using core_at_clear [OF a(3), of "bl_priority c"] a by (auto simp: bl_release_def)
  qed
qed

section \<open>Properties\<close>

text \<open>
  C9.  A boblight client cannot break the core: as long as its numbers fit an \<open>int\<close>, every sequence
  of messages is handled, the core stays in a reachable state, and when the client leaves its
  channel is removed.
\<close>

theorem boblight_session_served:
  assumes "cfg_ok pw cfg" "reachable pw clk cfg junk h"
    and "length (bl_ledColors c) = length (cfg_leds cfg)" "ip_getLedCount (bl_processor c) = length (cfg_leds cfg)"
    and "list_all (bl_event_ok tf) evs"
  shows "\<exists>c1 h1 c2 h2. session (bl_step tf clk) evs c h = Inr (c1, h1) \<and> reachable pw clk cfg junk h1 \<and>
    bl_step tf clk BlClosed c1 h1 = Inr (c2, h2) \<and> reachable pw clk cfg junk h2 \<and>
    length (bl_ledColors c1) = length (cfg_leds cfg) \<and> 255 \<le> bl_priority c2 \<and>
    (bl_priority c1 < 255 \<longrightarrow> mux_abs (h_muxer h2) (bl_priority c1) = None)"
proof -
  have at: "core_at pw clk cfg junk h" "bl_ok (length (cfg_leds cfg)) c"
    using assms by (simp_all add: core_at_def bl_ok_def)
  from boblight.session_ok [OF at(2) assms(5) at(1)] obtain c1 h1 where
    s: "session (bl_step tf clk) evs c h = Inr (c1, h1)" "bl_ok (length (cfg_leds cfg)) c1" "core_at pw clk cfg junk h1"
    by blast
  obtain h2 where h2: "hyp_clear clk (bl_priority c1) h1 = Inr h2" "core_at pw clk cfg junk h2"
      "bl_priority c1 < LOWEST_PRIORITY \<longrightarrow> mux_abs (h_muxer h2) (bl_priority c1) = None"
    using core_at_clear [OF s(3)] by blast
  show ?thesis
  proof (cases "bl_priority c1 < 255")
    case True
    then have "bl_step tf clk BlClosed c1 h1 = Inr (c1\<lparr>bl_priority := 255\<rparr>, h2)"
      using h2(1) by (simp add: bl_release_def)
    with s h2 True show ?thesis by (auto simp: core_at_def bl_ok_def LOWEST_PRIORITY_def)
  next
    case False
    then have "bl_step tf clk BlClosed c1 h1 = Inr (c1, h1)" by (simp add: bl_release_def)
    with s False show ?thesis by (auto simp: core_at_def bl_ok_def)
  qed
qed

text \<open>A connection for the witnesses; its numbers are read as 1 and every other text as no number.\<close>

definition demo_float :: to_float where
  "demo_float s = (if s = ''1.0'' then (Finite 1, True) else (Finite 0, False))"

definition demo_bl :: "int \<Rightarrow> bl_client" where
  "demo_bl prio = \<lparr>bl_processor = ip_new (cfg_leds demo_cfg) (bp_new True 600 50 10 1 ''osd'' 0), bl_priority = prio,
     bl_ledColors = replicate (length (cfg_leds demo_cfg)) BLACK, bl_comma = False, bl_sent = []\<rparr>"

lemma demo_channel: "bl_channel demo_float s = Inr (if s = ''1.0'' then (255, True) else (0, False))"
proof -
  have "fl 24 (of_int 255) = of_int 255" "fl 24 (of_int 0) = of_int 0" by (rule fl_of_int; simp)+
  then show ?thesis by (simp add: bl_channel_def demo_float_def trunc_rat_def u8_def)
qed

lemma demo_words: "words_ok demo_float m"
  by (simp add: words_ok_def demo_channel list_all_iff)

theorem boblight_session_served_witness:
  "\<exists>h c1 h1 c2 h2. hyp_new (\<lambda>x y. 1) (\<lambda>n. int n) demo_cfg 7 = Inr h \<and>
     session (bl_step demo_float (\<lambda>n. int n)) [BlMessage ''set light 0 rgb 1.0 1.0 x'', BlMessage ''sync''] (demo_bl 200) h
       = Inr (c1, h1) \<and>
     bl_step demo_float (\<lambda>n. int n) BlClosed c1 h1 = Inr (c2, h2)"
proof -
  obtain h where h: "hyp_new (\<lambda>x y. 1) (\<lambda>n. int n) demo_cfg 7 = Inr h"
    using hyp_new_ok [OF demo_cfg_ok, of "\<lambda>n. int n" 7] by blast
  then have r: "reachable (\<lambda>x y. 1) (\<lambda>n. int n) demo_cfg 7 h" by (rule reachable.Start)
  have "length (bl_ledColors (demo_bl 200)) = length (cfg_leds demo_cfg)"
    "ip_getLedCount (bl_processor (demo_bl 200)) = length (cfg_leds demo_cfg)"
    "list_all (bl_event_ok demo_float) [BlMessage ''set light 0 rgb 1.0 1.0 x'', BlMessage ''sync'']"
    by (simp_all add: demo_bl_def ip_new_def ip_getLedCount_def demo_words)
  from boblight_session_served [OF demo_cfg_ok r this] h show ?thesis by blast
qed

text \<open>The message that sets one led; \<open>txt\<close> writes a channel as a number.\<close>

definition light_message :: "(byte \<Rightarrow> string) \<Rightarrow> nat \<Rightarrow> ColorRgb \<Rightarrow> string" where
  "light_message txt i x =
     join_with '' '' [''set'', ''light'', decimal i, ''rgb'', txt (red x), txt (green x), txt (blue x)]"

lemma light_message_handled:
  assumes "\<And>b. txt b \<noteq> [] \<and> CHR '' '' \<notin> set (txt b)"
    and "\<And>b. bl_channel tf (replace_char (CHR '','') (CHR ''.'') (txt b)) = Inr (b, True)"
    and "i < length (bl_ledColors c)" "i < 2 ^ 32"
  shows "bl_handleMessage tf clk (light_message txt i x) c h =
    (let c = c\<lparr>bl_ledColors := (bl_ledColors c)[i := x]\<rparr> in
     if i = length (bl_ledColors c) - 1 \<and> bl_priority c < 255
     then res_bind (bl_setColors clk c h) (\<lambda>h. Inr (c, h)) else Inr (c, h))"
proof -
  let ?ps = "[''set'', ''light'', decimal i, ''rgb'', txt (red x), txt (green x), txt (blue x)]"
  have "decimal i \<noteq> [] \<and> CHR '' '' \<notin> set (decimal i)"
    using digits_plain(1,2) [OF digits_decimal] digit_plain by blast
  then have parts: "split_skip (CHR '' '') (light_message txt i x) = ?ps"
    unfolding light_message_def using assms(1) by (intro split_skip_join) simp
  have u: "toUInt (decimal i) = (i, True)" using assms(4) by (intro toUnsigned_digits [THEN trans]) simp_all
  show ?thesis
    using assms(2,3) u by (simp add: bl_handleMessage_def parts bl_handleLight_def Let_def)
qed

text \<open>
  C16.  A frame sent led by led is shown once and as a whole: the messages for all leds in order
  lead to exactly one request, with the colours of the frame on the channel of the client.
\<close>

theorem boblight_frame_shown:
  assumes "\<And>b. txt b \<noteq> [] \<and> CHR '' '' \<notin> set (txt b)"
    and "\<And>b. bl_channel tf (replace_char (CHR '','') (CHR ''.'') (txt b)) = Inr (b, True)"
    and "length cs = length (bl_ledColors c)" "0 < length cs" "length cs < 2 ^ 32" "bl_priority c < 255"
  shows "session (bl_step tf clk) (map (\<lambda>i. BlMessage (light_message txt i (cs ! i))) [0 ..< length cs]) c h =
    res_bind (hyp_setColors clk (bl_priority c) cs (-1) True COMP_INVALID h) (\<lambda>h. Inr (c\<lparr>bl_ledColors := cs\<rparr>, h))"
proof -
  let ?msg = "\<lambda>i. BlMessage (light_message txt i (cs ! i))"
  have step: "bl_step tf clk (?msg i) d h = (let d = d\<lparr>bl_ledColors := (bl_ledColors d)[i := cs ! i]\<rparr> in
     if i = length (bl_ledColors d) - 1 \<and> bl_priority d < 255
     then res_bind (bl_setColors clk d h) (\<lambda>h. Inr (d, h)) else Inr (d, h))"
    if "i < length cs" "length (bl_ledColors d) = length cs" for i d
    using light_message_handled [OF assms(1,2), of i d] that assms(5) by simp
  have all_but: "session (bl_step tf clk) (map ?msg [0 ..< k]) c h =
      Inr (c\<lparr>bl_ledColors := take k cs @ drop k (bl_ledColors c)\<rparr>, h)" if "k < length cs" for k
    using that
  proof (induction k)
    case (Suc k)
    let ?d = "c\<lparr>bl_ledColors := take k cs @ drop k (bl_ledColors c)\<rparr>"
    have "(take k cs @ drop k (bl_ledColors c))[k := cs ! k] = take (Suc k) cs @ drop (Suc k) (bl_ledColors c)"
      using Suc.prems assms(3)
      by (simp add: list_update_append take_Suc_conv_app_nth Cons_nth_drop_Suc [symmetric])
    moreover have "k \<noteq> length (bl_ledColors c) - Suc 0" using Suc.prems assms(3) by linarith
    ultimately show ?case
      using Suc step [of k ?d] assms(3) by (simp add: session_append Let_def)
  qed simp
  obtain k where k: "length cs = Suc k" using assms(4) by (cases "length cs") simp_all
  let ?d = "c\<lparr>bl_ledColors := take k cs @ drop k (bl_ledColors c)\<rparr>"
  have "(take k cs @ drop k (bl_ledColors c))[k := cs ! k] = cs"
    using k assms(3) by (simp add: list_update_append take_Suc_conv_app_nth [symmetric] Cons_nth_drop_Suc [symmetric])
  then show ?thesis
    using all_but [of k] step [of k ?d] k assms(3,6)
    by (cases "hyp_setColors clk (bl_priority c) cs (- 1) True COMP_INVALID h")
      (simp_all add: session_append Let_def bl_setColors_def)
qed

text \<open>Numbers written in 255ths, for the witness.\<close>

definition fraction_float :: to_float where
  "fraction_float s = (Finite (of_nat (number_of_digits s) / 255), True)"

lemma fraction_channel:
  "bl_channel fraction_float (replace_char (CHR '','') (CHR ''.'') (decimal (unat b))) = Inr (b, True)"
proof -
  have "CHR '','' \<notin> set (decimal (unat b))"
    using digits_plain(2) [OF digits_decimal] digit_plain by blast
  then have "replace_char (CHR '','') (CHR ''.'') (decimal (unat b)) = decimal (unat b)"
    unfolding replace_char_def by (intro map_idI) auto
  moreover have "255 * ((of_nat (unat b) :: rat) / 255) = of_int (uint b)" by simp
  moreover have "fl 24 (of_int (uint b)) = of_int (uint b)"
    using byte_bound [of b] by (intro fl_of_int) simp_all
  moreover have "trunc_rat (of_int (uint b)) = uint b" by (rule trunc_rat_of_int)
  ultimately have "bl_channel fraction_float (replace_char (CHR '','') (CHR ''.'') (decimal (unat b))) =
      Inr (u8 (max 0 (min 255 (uint b))), True)"
    using byte_bound [of b] by (simp only: bl_channel_def fraction_float_def number_of_decimal) (simp add: Let_def order_trans [OF _ byte_bound(2)])
  then show ?thesis using byte_bound [of b] by (simp add: u8_def)
qed

theorem boblight_frame_shown_witness:
  "\<forall>h. session (bl_step fraction_float (\<lambda>n. int n))
       (map (\<lambda>i. BlMessage (light_message (\<lambda>b. decimal (unat b)) i ([rgb 1 2 3, rgb 4 5 6] ! i))) [0 ..< 2])
       ((demo_bl 200)\<lparr>bl_ledColors := [BLACK, BLACK]\<rparr>) h =
     res_bind (hyp_setColors (\<lambda>n. int n) 200 [rgb 1 2 3, rgb 4 5 6] (-1) True COMP_INVALID h)
       (\<lambda>h. Inr ((demo_bl 200)\<lparr>bl_ledColors := [rgb 1 2 3, rgb 4 5 6]\<rparr>, h))"
proof -
  have "decimal (unat b) \<noteq> [] \<and> CHR '' '' \<notin> set (decimal (unat b))" for b :: byte
    using digits_plain(1,2) [OF digits_decimal] digit_plain by blast
  note frame = boblight_frame_shown [OF this fraction_channel, of "[rgb 1 2 3, rgb 4 5 6]"
      "(demo_bl 200)\<lparr>bl_ledColors := [BLACK, BLACK]\<rparr>"]
  have two: "length [rgb 1 2 3, rgb 4 5 6] = 2" by simp
  have "bl_priority ((demo_bl 200)\<lparr>bl_ledColors := [BLACK, BLACK]\<rparr>) = 200" by (simp add: demo_bl_def)
  with frame [unfolded two, of "\<lambda>n. int n"] show ?thesis by simp
qed

text \<open>A message that sets a priority.\<close>

definition sets_priority :: "string \<Rightarrow> bool" where
  "sets_priority m \<longleftrightarrow>
     (let ps = split_skip (CHR '' '') m in length ps = 3 \<and> ps ! 0 = ''set'' \<and> ps ! 1 = ''priority'')"

lemma mute_message:
  assumes "255 \<le> bl_priority c" "bl_ok (length (h_ledString h)) c" "words_ok tf m" "\<not> sets_priority m"
  shows "\<exists>c'. bl_handleMessage tf clk m c h = Inr (c', h) \<and> bl_ok (length (h_ledString h)) c' \<and> 255 \<le> bl_priority c'"
proof -
  let ?parts = "split_skip (CHR '' '') m" and ?point = "replace_char (CHR '','') (CHR ''.'')"
  have light: "\<exists>c'. bl_handleLight tf clk ?parts c h = Inr (c', h) \<and> bl_ok (length (h_ledString h)) c' \<and> 255 \<le> bl_priority c'"
  proof (cases "?parts ! 3 = ''rgb'' \<and> length ?parts = 7")
    case True
    have "\<exists>x rc. bl_channel tf (?point (?parts ! i)) = Inr (x, rc)" if "i < 7" for i
      using assms(3) True that
      by (cases "bl_channel tf (?point (?parts ! i))") (force simp: words_ok_def list_all_length split: sum.splits)+
    from this [of 4] this [of 5] this [of 6] obtain r rc1 g rc2 b rc3 where
      "bl_channel tf (?point (?parts ! 4)) = Inr (r, rc1)" "bl_channel tf (?point (?parts ! 5)) = Inr (g, rc2)"
        "bl_channel tf (?point (?parts ! 6)) = Inr (b, rc3)" by auto
    with True assms(1,2) show ?thesis
      by (cases "toUInt (?parts ! 2)"; cases rc1; cases "rc2 \<and> rc3") (auto simp: bl_handleLight_def Let_def)
  qed (use assms(1,2) in \<open>auto simp: bl_handleLight_def split: prod.split\<close>)
  obtain c1 where "sendLightMessage c h = Inr c1" "bl_ok (length (h_ledString h)) c1" "255 \<le> bl_priority c1"
    using lights_ok [OF assms(2) refl] lights_priority [of c h] assms(1) by metis
  with light assms(1,2,4) show ?thesis
    by (auto simp: bl_handleMessage_def sets_priority_def Let_def bl_send_def [of _ c] bl_ok_def)
qed

text \<open>
  Without a priority in its configuration the boblight server of the daemon works on channel
  710, where it does nothing: no message of a client, short of one that sets another priority,
  reaches the core at all.
\<close>

theorem boblight_default_mute:
  assumes "json_lookup (json_object (json_lookup config ''boblightServer'')) ''priority'' = JUndefined"
    and "daemon_boblight config bound h0 = Inr (s, h1)" "ip_getLedCount ip = length (h_ledString h)"
    and "list_all (\<lambda>m. words_ok tf m \<and> \<not> sets_priority m) ms"
  shows "\<exists>c'. session (bl_step tf clk) (map BlMessage ms @ [BlClosed]) (bl_new ip (bs_priority s) h) h = Inr (c', h)"
proof -
  have "bs_priority s = 710"
    using assms(1,2) by (auto simp: daemon_boblight_def bs_new_def bs_start_def Let_def split: if_splits)
  then have start: "255 \<le> bl_priority (bl_new ip (bs_priority s) h)" "bl_ok (length (h_ledString h)) (bl_new ip (bs_priority s) h)"
    using assms(3) by (simp_all add: bl_new_def bl_ok_def)
  have "\<exists>c'. session (bl_step tf clk) (map BlMessage ms @ [BlClosed]) c h = Inr (c', h)"
    if "255 \<le> bl_priority c" "bl_ok (length (h_ledString h)) c" for c
    using that assms(4)
  proof (induction ms arbitrary: c)
    case Nil
    then show ?case by (simp add: bl_release_def)
  next
    case (Cons m ms)
    then obtain c1 where "bl_handleMessage tf clk m c h = Inr (c1, h)" "255 \<le> bl_priority c1" "bl_ok (length (h_ledString h)) c1"
      using mute_message [of c h tf m clk] by auto
    with Cons show ?case by simp
  qed
  from this [OF start] show ?thesis .
qed

theorem boblight_default_mute_witness:
  "\<forall>h. length (h_ledString h) = 2 \<longrightarrow> (\<exists>s h1 c'. daemon_boblight [(''boblightServer'', JObject [])] True h = Inr (s, h1) \<and>
     session (bl_step demo_float (\<lambda>n. int n)) (map BlMessage [''set light 1 rgb 1.0 1.0 1.0'', ''sync''] @ [BlClosed])
       (bl_new (bl_processor (demo_bl 0)) (bs_priority s) h) h = Inr (c', h))"
proof (intro allI impI)
  fix h :: hyperion
  assume n: "length (h_ledString h) = 2"
  let ?config = "[(''boblightServer'', JObject [])]"
  have prio: "json_lookup (json_object (json_lookup ?config ''boblightServer'')) ''priority'' = JUndefined"
    by (simp add: json_lookup_def)
  obtain s h1 where s: "daemon_boblight ?config True h = Inr (s, h1)"
    using that by (auto simp: daemon_boblight_def bs_new_def bs_start_def json_lookup_def json_contains_def Let_def)
  have leds: "ip_getLedCount (bl_processor (demo_bl 0)) = length (h_ledString h)"
    by (simp add: n demo_bl_def ip_getLedCount_def ip_new_def demo_cfg_def demo_entry_def createLedString_def clone_of_def Let_def)
  have "list_all (\<lambda>m. words_ok demo_float m \<and> \<not> sets_priority m) [''set light 1 rgb 1.0 1.0 1.0'', ''sync'']"
    by (simp add: demo_words sets_priority_def split_skip_def)
  from boblight_default_mute [OF prio s leds this] s show "\<exists>s h1 c'. daemon_boblight ?config True h = Inr (s, h1) \<and>
     session (bl_step demo_float (\<lambda>n. int n)) (map BlMessage [''set light 1 rgb 1.0 1.0 1.0'', ''sync''] @ [BlClosed])
       (bl_new (bl_processor (demo_bl 0)) (bs_priority s) h) h = Inr (c', h)" by blast
qed

text \<open>
  A client can make the server convert a number that no \<open>int\<close> holds: a text such as \<open>nan\<close> or
  \<open>inf\<close>, which \<open>toFloat\<close> accepts, is undefined behaviour in the place of a channel.
\<close>

theorem boblight_not_a_number:
  assumes "tf w = (NonFinite, rc)" "w \<noteq> []" "CHR '' '' \<notin> set w" "CHR '','' \<notin> set w" "0 < length (bl_ledColors c)"
  shows "bl_handleMessage tf clk (join_with '' '' [''set'', ''light'', ''0'', ''rgb'', w, w, w]) c h = Inl Undefined"
proof -
  have parts: "split_skip (CHR '' '') (join_with '' '' [''set'', ''light'', ''0'', ''rgb'', w, w, w]) =
      [''set'', ''light'', ''0'', ''rgb'', w, w, w]"
    using assms(2,3) by (intro split_skip_join) simp
  have "replace_char (CHR '','') (CHR ''.'') w = w"
    unfolding replace_char_def using assms(4) by (intro map_idI) auto
  moreover have "toUInt ''0'' = (0, True)"
    by (simp add: toUnsigned_digits [of "''0''"] digits_def is_digit_def number_of_digits_def digit_of_def)
  ultimately show ?thesis
    using assms(1,5) unfolding bl_handleMessage_def parts by (simp add: bl_handleLight_def bl_channel_def)
qed

theorem boblight_not_a_number_witness:
  "\<forall>h. bl_handleMessage (\<lambda>s. if s = ''nan'' then (NonFinite, True) else (Finite 0, False)) (\<lambda>n. int n)
     ''set light 0 rgb nan nan nan'' ((demo_bl 200)\<lparr>bl_ledColors := [BLACK]\<rparr>) h = Inl Undefined"
proof
  fix h
  show "bl_handleMessage (\<lambda>s. if s = ''nan'' then (NonFinite, True) else (Finite 0, False)) (\<lambda>n. int n)
     ''set light 0 rgb nan nan nan'' ((demo_bl 200)\<lparr>bl_ledColors := [BLACK]\<rparr>) h = Inl Undefined"
    using boblight_not_a_number [of "\<lambda>s. if s = ''nan'' then (NonFinite, True) else (Finite 0, False)" "''nan''" True
        "(demo_bl 200)\<lparr>bl_ledColors := [BLACK]\<rparr>" "\<lambda>n. int n" h] by simp
qed

text \<open>For the chunks.\<close>

theorem boblight_chunks_irrelevant_witness:
  "\<forall>h. session (bl_readData demo_float (\<lambda>n. int n)) [to_latin1 ''pi'', to_latin1 ''ng'', [0x0A]] ([], demo_bl 200) h =
     bl_readData demo_float (\<lambda>n. int n) (concat [to_latin1 ''pi'', to_latin1 ''ng'', [0x0A]]) ([], demo_bl 200) h"
proof
  fix h
  have "length (concat [to_latin1 ''pi'', to_latin1 ''ng'', [0x0A]]) \<le> 100 * 1024" by (simp add: to_latin1_def)
  from boblight_chunks_irrelevant [OF this] show "session (bl_readData demo_float (\<lambda>n. int n))
      [to_latin1 ''pi'', to_latin1 ''ng'', [0x0A]] ([], demo_bl 200) h =
     bl_readData demo_float (\<lambda>n. int n) (concat [to_latin1 ''pi'', to_latin1 ''ng'', [0x0A]]) ([], demo_bl 200) h" .
qed

end
