(* ===== verification/Forwarder.thy ===== *)
theory Forwarder
  imports QtText Json
begin

text \<open>
  The message forwarder (\<open>libsrc/hyperion/MessageForwarder.cpp\<close>) and its construction from the
  configuration (\<open>Hyperion::createMessageForwarder\<close>): the addresses of the other instances that get
  copies of the messages.  An address is a host and a port of 16 bits; host names stay texts.
\<close>

section \<open>Addresses\<close>

definition parse_address :: "string \<Rightarrow> (string \<times> nat) res" where
  "parse_address slave =
     (let parts = split_at (CHR '':'') slave in
      if length parts \<noteq> 2 then Inl RuntimeError
      else (let (port, ok) = toUShort (parts ! 1)
            in if \<not> ok then Inl RuntimeError else Inr (parts ! 0, port)))"

definition print_address :: "string \<Rightarrow> nat \<Rightarrow> string" where
  "print_address host port = host @ '':'' @ decimal port"

lemma parse_print_address:
  "CHR '':'' \<notin> set host \<Longrightarrow> port < 2 ^ 16 \<Longrightarrow> parse_address (print_address host port) = Inr (host, port)"
proof -
  assume a: "CHR '':'' \<notin> set host" "port < 2 ^ 16"
  have "CHR '':'' \<notin> set (decimal port)"
    using digits_plain(2) [OF digits_decimal, of _ port] by (auto simp: is_digit_def)
  then have "split_at (CHR '':'') (print_address host port) = [host, decimal port]"
    using a(1) by (simp add: print_address_def split_at_append split_at_none)
  moreover have "toUShort (decimal port) = (port, True)"
    using a(2) by (simp add: toUnsigned_digits)
  ultimately show ?thesis by (simp add: parse_address_def)
qed

lemma parse_address_port: "parse_address s = Inr (host, port) \<Longrightarrow> port < 2 ^ 16"
  using toUnsigned_range [of 16] by (auto simp: parse_address_def Let_def split: if_splits prod.splits) (metis fst_conv)

section \<open>The forwarder\<close>

record forwarder =
  fw_jsonSlaves :: "(string \<times> nat) list"
  fw_protoSlaves :: "string list"

definition fw_new :: forwarder where
  "fw_new = \<lparr>fw_jsonSlaves = [], fw_protoSlaves = []\<rparr>"

definition addJsonSlave :: "string \<Rightarrow> forwarder \<Rightarrow> forwarder res" where
  "addJsonSlave slave f =
     res_bind (parse_address slave) (\<lambda>c. Inr (f\<lparr>fw_jsonSlaves := fw_jsonSlaves f @ [c]\<rparr>))"

definition addProtoSlave :: "string \<Rightarrow> forwarder \<Rightarrow> forwarder" where
  "addProtoSlave slave f = f\<lparr>fw_protoSlaves := fw_protoSlaves f @ [slave]\<rparr>"

definition protoForwardingEnabled :: "forwarder \<Rightarrow> bool" where
  "protoForwardingEnabled f \<longleftrightarrow> fw_protoSlaves f \<noteq> []"

definition jsonForwardingEnabled :: "forwarder \<Rightarrow> bool" where
  "jsonForwardingEnabled f \<longleftrightarrow> fw_jsonSlaves f \<noteq> []"

definition forwardingEnabled :: "forwarder \<Rightarrow> bool" where
  "forwardingEnabled f \<longleftrightarrow> jsonForwardingEnabled f \<or> protoForwardingEnabled f"

fun add_json_slaves :: "json list \<Rightarrow> forwarder \<Rightarrow> forwarder res" where
  "add_json_slaves [] f = Inr f"
| "add_json_slaves (a # as) f = res_bind (addJsonSlave (json_string [] a) f) (add_json_slaves as)"

fun add_proto_slaves :: "json list \<Rightarrow> forwarder \<Rightarrow> forwarder" where
  "add_proto_slaves [] f = f"
| "add_proto_slaves (a # as) f = add_proto_slaves as (addProtoSlave (json_string [] a) f)"

definition createMessageForwarder :: "(string \<times> json) list \<Rightarrow> forwarder res" where
  "createMessageForwarder config =
     (let f = fw_new in
      if config \<noteq> [] \<and> json_bool True (json_lookup config ''enable'')
      then res_bind (if is_JArray (json_lookup config ''json'')
                     then add_json_slaves (json_array (json_lookup config ''json'')) f else Inr f) (\<lambda>f.
             Inr (if is_JArray (json_lookup config ''proto'')
                  then add_proto_slaves (json_array (json_lookup config ''proto'')) f else f))
      else Inr f)"

lemma add_json_slaves_print:
  "\<forall>(host, port) \<in> set as. CHR '':'' \<notin> set host \<and> port < 2 ^ 16 \<Longrightarrow>
    add_json_slaves (map (\<lambda>(host, port). JString (print_address host port)) as) f =
      Inr (f\<lparr>fw_jsonSlaves := fw_jsonSlaves f @ as\<rparr>)"
  by (induction as arbitrary: f) (auto simp: addJsonSlave_def parse_print_address)

lemma add_proto_slaves_all:
  "add_proto_slaves (map JString as) f = f\<lparr>fw_protoSlaves := fw_protoSlaves f @ as\<rparr>"
  by (induction as arbitrary: f) (simp_all add: addProtoSlave_def)

text \<open>
  The configuration of the forwarder is read back: from an enabled section that lists hosts
  with ports of 16 bits, as JSON and as protobuf receivers, exactly these receivers come out, in
  order, and forwarding is on as soon as there is one.
\<close>

theorem forwarder_config_read:
  assumes "\<forall>(host, port) \<in> set js. CHR '':'' \<notin> set host \<and> port < 2 ^ 16"
  shows "createMessageForwarder
      [(''json'', JArray (map (\<lambda>(host, port). JString (print_address host port)) js)), (''proto'', JArray (map JString ps))]
    = Inr \<lparr>fw_jsonSlaves = js, fw_protoSlaves = ps\<rparr> \<and>
    (forwardingEnabled \<lparr>fw_jsonSlaves = js, fw_protoSlaves = ps\<rparr> \<longleftrightarrow> js \<noteq> [] \<or> ps \<noteq> [])"
  using add_json_slaves_print [OF assms, of fw_new]
  by (simp add: createMessageForwarder_def json_lookup_def add_proto_slaves_all fw_new_def
      forwardingEnabled_def jsonForwardingEnabled_def protoForwardingEnabled_def)

theorem forwarder_config_read_witness:
  "createMessageForwarder [(''json'', JArray (map (\<lambda>(host, port). JString (print_address host port)) [(''host'', 19446)])),
     (''proto'', JArray (map JString [''127.0.0.1:19447'']))]
    = Inr \<lparr>fw_jsonSlaves = [(''host'', 19446)], fw_protoSlaves = [''127.0.0.1:19447'']\<rparr>"
  using forwarder_config_read [of "[(''host'', 19446)]" "[''127.0.0.1:19447'']"] by simp

end
