(* ===== verification/ProtoServer.thy ===== *)
theory ProtoServer
  imports CoreClients Forwarder
begin

text \<open>
  The protobuf server and its client (\<open>libsrc/protoserver/ProtoClientConnection.cpp\<close>,
  \<open>ProtoServer.cpp\<close>, \<open>ProtoConnection.cpp\<close>, with the messages of \<open>message.proto\<close>): frames of a
  length and a message, the commands of a connection, forwarding to other instances and the replies.
  The encoding of a message is protobuf's: parsing and serialising are parameters.
\<close>

section \<open>Messages\<close>

datatype proto_command = PROTO_COLOR | PROTO_IMAGE | PROTO_CLEAR | PROTO_CLEARALL

record color_request =
  cr_priority :: int
  cr_rgbcolor :: int
  cr_duration :: "int option"

record image_request =
  ir_priority :: int
  ir_imagewidth :: int
  ir_imageheight :: int
  ir_imagedata :: "byte list"
  ir_duration :: "int option"

record hyperion_request =
  hr_command :: proto_command
  hr_color :: "color_request option"
  hr_image :: "image_request option"
  hr_clear :: "int option"

datatype reply_type = REPLY | GRABBING | VIDEO

record hyperion_reply =
  rp_type :: reply_type
  rp_success :: "bool option"
  rp_error :: "string option"
  rp_grabbing :: "int option"
  rp_video :: "int option"

definition plain_reply :: "reply_type \<Rightarrow> hyperion_reply" where
  "plain_reply t = \<lparr>rp_type = t, rp_success = None, rp_error = None, rp_grabbing = None, rp_video = None\<rparr>"

section \<open>Frames\<close>

text \<open>The length of a message in four bytes, the most significant one first.\<close>

definition size_header :: "32 word \<Rightarrow> byte list" where
  "size_header n = [ucast (drop_bit 24 n), ucast (drop_bit 16 n), ucast (drop_bit 8 n), ucast n]"

definition message_size :: "byte list \<Rightarrow> 32 word" where
  "message_size buf =
     (push_bit 24 (ucast (buf ! 0)) OR push_bit 16 (ucast (buf ! 1)) OR push_bit 8 (ucast (buf ! 2)) OR ucast (buf ! 3))"

definition proto_frame :: "byte list \<Rightarrow> byte list" where
  "proto_frame body = size_header (of_nat (length body)) @ body"

lemma message_size_header: "message_size (size_header n @ rest) = n"
proof (rule bit_word_eqI)
  fix k assume "k < LENGTH(32)"
  then consider "k < 8" | "8 \<le> k" "k < 16" | "16 \<le> k" "k < 24" | "24 \<le> k" "k < 32" by fastforce
  then show "bit (message_size (size_header n @ rest)) k = bit n k"
    by cases (auto simp: message_size_def size_header_def bit_simps numeral_3_eq_3)
qed

lemma length_size_header [simp]: "length (size_header n) = 4"
  by (simp add: size_header_def)

text \<open>
  The beginning of both \<open>readData\<close>: the length and the bytes of the first message, when the buffer
  seems to hold it completely.  The sum of 32 bits can wrap; then the parser gets a negative length.
\<close>

definition first_message :: "byte list \<Rightarrow> (32 word \<times> byte list) option res" where
  "first_message buf =
     (if length buf \<le> 4 then Inr None
      else let n = message_size buf in
        if (of_nat (length buf) :: 32 word) < n + 4 then Inr None
        else if 4 + unat n \<le> length buf then Inr (Some (n, take (unat n) (drop 4 buf)))
        else Inl Undefined)"

definition skip_message :: "32 word \<Rightarrow> byte list \<Rightarrow> byte list" where
  "skip_message n buf = drop (unat (n + 4)) buf"

lemma first_message_frame:
  assumes "body \<noteq> []" "length (proto_frame body @ rest) < 2 ^ 32"
  shows "first_message (proto_frame body @ rest) = Inr (Some (of_nat (length body), body))"
    "skip_message (of_nat (length body)) (proto_frame body @ rest) = rest"
proof -
  let ?buf = "proto_frame body @ rest" and ?n = "of_nat (length body) :: 32 word"
  have n: "message_size ?buf = ?n" by (simp add: proto_frame_def message_size_header)
  have len: "length ?buf = 4 + length body + length rest" by (simp add: proto_frame_def)
  have fits: "unat ?n = length body" using assms(2) len by (simp add: unat_of_nat)
  have "?n + 4 = of_nat (length body + 4)" by simp
  then have four: "unat (?n + 4) = length body + 4" using assms(2) len by (simp add: unat_of_nat del: of_nat_add)
  have "unat (of_nat (length ?buf) :: 32 word) = length ?buf"
    using assms(2) by (simp add: unat_of_nat del: of_nat_add length_append)
  then have "\<not> (of_nat (length ?buf) :: 32 word) < ?n + 4" using four len by (simp add: word_less_nat_alt)
  moreover have "take (length body) (drop 4 ?buf) = body" by (simp add: proto_frame_def)
  moreover have "\<not> length ?buf \<le> 4" using assms(1) len by simp
  ultimately show "first_message ?buf = Inr (Some (?n, body))"
    using n fits len by (simp add: first_message_def Let_def)
  show "skip_message ?n ?buf = rest"
    by (simp add: skip_message_def four) (simp add: proto_frame_def)
qed

lemma first_message_incomplete:
  assumes "length buf < 4 + length body" "length body < 2 ^ 32 - 4" "take (length buf) (proto_frame body) = buf"
  shows "first_message buf = Inr None"
proof (cases "length buf \<le> 4")
  case False
  let ?n = "of_nat (length body) :: 32 word"
  have "buf = size_header ?n @ take (length buf - 4) body"
    using assms(3) False by (simp add: proto_frame_def)
  then have n: "message_size buf = ?n" by (metis message_size_header)
  have "?n + 4 = of_nat (length body + 4)" by simp
  then have four: "unat (?n + 4) = length body + 4" using assms(2) by (simp add: unat_of_nat del: of_nat_add)
  have "unat (of_nat (length buf) :: 32 word) = length buf" using assms(1,2) by (simp add: unat_of_nat)
  then have "(of_nat (length buf) :: 32 word) < ?n + 4" using four assms(1) by (simp add: word_less_nat_alt)
  then show ?thesis using n by (simp add: first_message_def Let_def)
qed (simp add: first_message_def)

section \<open>The connection of a client\<close>

text \<open>
  The replies are the messages sent, each in a frame of its own; \<open>pc_newMessage\<close> are the requests
  handed to the server for forwarding.
\<close>

record proto_client =
  pc_processor :: imgproc
  pc_receiveBuffer :: "byte list"
  pc_priority :: int
  pc_priorityChannelName :: string
  pc_sent :: "hyperion_reply list"
  pc_newMessage :: "hyperion_request list"

definition pc_new :: "imgproc \<Rightarrow> string \<Rightarrow> proto_client" where
  "pc_new ip peer =
     \<lparr>pc_processor = ip, pc_receiveBuffer = [], pc_priority = -1, pc_priorityChannelName = ''proto@'' @ peer,
      pc_sent = [], pc_newMessage = []\<rparr>"

definition pc_sendMessage :: "hyperion_reply \<Rightarrow> proto_client \<Rightarrow> proto_client" where
  "pc_sendMessage r c = c\<lparr>pc_sent := pc_sent c @ [r]\<rparr>"

definition pc_sendSuccessReply :: "proto_client \<Rightarrow> proto_client" where
  "pc_sendSuccessReply c = pc_sendMessage ((plain_reply REPLY)\<lparr>rp_success := Some True\<rparr>) c"

definition pc_sendErrorReply :: "string \<Rightarrow> proto_client \<Rightarrow> proto_client" where
  "pc_sendErrorReply err c = pc_sendMessage ((plain_reply REPLY)\<lparr>rp_success := Some False, rp_error := Some err\<rparr>) c"

text \<open>The modes of the Kodi checker; the video mode is put into the field of the grabbing mode.\<close>

definition pc_setGrabbingMode :: "int \<Rightarrow> proto_client \<Rightarrow> proto_client" where
  "pc_setGrabbingMode mode c = pc_sendMessage ((plain_reply GRABBING)\<lparr>rp_grabbing := Some mode\<rparr>) c"

definition pc_setVideoMode :: "int \<Rightarrow> proto_client \<Rightarrow> proto_client" where
  "pc_setVideoMode videoMode c = pc_sendMessage ((plain_reply VIDEO)\<lparr>rp_grabbing := Some videoMode\<rparr>) c"

definition duration_of :: "int option \<Rightarrow> int" where
  "duration_of d = (case d of Some n \<Rightarrow> n | None \<Rightarrow> -1)"

text \<open>\<open>qRed\<close>, \<open>qGreen\<close>, \<open>qBlue\<close>.\<close>

definition rgb_of_int :: "int \<Rightarrow> ColorRgb" where
  "rgb_of_int c = rgb (u8 (c div 2 ^ 16)) (u8 (c div 2 ^ 8)) (u8 c)"

definition pc_handleColorCommand ::
  "(nat \<Rightarrow> int) \<Rightarrow> color_request \<Rightarrow> proto_client \<Rightarrow> hyperion \<Rightarrow> (proto_client \<times> hyperion) res" where
  "pc_handleColorCommand clk message c h =
     (let c = c\<lparr>pc_priority := cr_priority message\<rparr>
      in res_bind (hyp_setColor clk (pc_priority c) (rgb_of_int (cr_rgbcolor message))
                     (duration_of (cr_duration message)) True h) (\<lambda>h.
         Inr (pc_sendSuccessReply c, h)))"

text \<open>\<open>w\<close> is the width of the accumulators of the image processor.\<close>

definition pc_handleImageCommand ::
  "nat \<Rightarrow> (nat \<Rightarrow> int) \<Rightarrow> image_request \<Rightarrow> proto_client \<Rightarrow> hyperion \<Rightarrow> (proto_client \<times> hyperion) res" where
  "pc_handleImageCommand w clk message c h =
     (let c = c\<lparr>pc_priority := ir_priority message\<rparr>;
          duration = duration_of (ir_duration message);
          width = ir_imagewidth message; height = ir_imageheight message; imageData = ir_imagedata message
      in res_bind (mul_int width height) (\<lambda>area. res_bind (mul_int area 3) (\<lambda>expected.
         if int (length imageData) \<noteq> expected
         then Inr (pc_sendErrorReply ''Size of image data does not match with the width and height'' c, h)
         else res_bind (client_picture w width height imageData (pc_processor c)) (\<lambda>(ip, im, ledColors).
              res_bind (hyp_setColors clk (pc_priority c) ledColors duration True COMP_INVALID h) (\<lambda>h.
                Inr (pc_sendSuccessReply (c\<lparr>pc_processor := ip\<rparr>), hyp_setImage (pc_priority c) im duration h))))))"

definition pc_handleClearCommand ::
  "(nat \<Rightarrow> int) \<Rightarrow> int \<Rightarrow> proto_client \<Rightarrow> hyperion \<Rightarrow> (proto_client \<times> hyperion) res" where
  "pc_handleClearCommand clk prio c h =
     (let c = c\<lparr>pc_priority := prio\<rparr>
      in res_bind (hyp_clear clk (pc_priority c) h) (\<lambda>h.
         Inr (pc_sendSuccessReply c, hyp_unRegisterPriority (pc_priorityChannelName c) h)))"

definition pc_handleClearallCommand ::
  "(nat \<Rightarrow> int) \<Rightarrow> proto_client \<Rightarrow> hyperion \<Rightarrow> (proto_client \<times> hyperion) res" where
  "pc_handleClearallCommand clk c h = res_bind (hyp_clearall clk h) (\<lambda>h. Inr (pc_sendSuccessReply c, h))"

definition pc_handleMessage ::
  "nat \<Rightarrow> (nat \<Rightarrow> int) \<Rightarrow> hyperion_request \<Rightarrow> proto_client \<Rightarrow> hyperion \<Rightarrow> (proto_client \<times> hyperion) res" where
  "pc_handleMessage w clk message c h =
     (let c = c\<lparr>pc_newMessage := pc_newMessage c @ [message]\<rparr>;
          prevPriority = pc_priority c
      in res_bind
        (case hr_command message of
           PROTO_COLOR \<Rightarrow> (case hr_color message of
               None \<Rightarrow> Inr (pc_sendErrorReply ''Received COLOR command without ColorRequest'' c, h)
             | Some r \<Rightarrow> pc_handleColorCommand clk r c h)
         | PROTO_IMAGE \<Rightarrow> (case hr_image message of
               None \<Rightarrow> Inr (pc_sendErrorReply ''Received IMAGE command without ImageRequest'' c, h)
             | Some r \<Rightarrow> pc_handleImageCommand w clk r c h)
         | PROTO_CLEAR \<Rightarrow> (case hr_clear message of
               None \<Rightarrow> Inr (pc_sendErrorReply ''Received CLEAR command without ClearRequest'' c, h)
             | Some r \<Rightarrow> pc_handleClearCommand clk r c h)
         | PROTO_CLEARALL \<Rightarrow> pc_handleClearallCommand clk c h)
        (\<lambda>(c, h). Inr (c, if prevPriority \<noteq> pc_priority c
                          then hyp_registerPriority (pc_priorityChannelName c) (pc_priority c) h else h)))"

text \<open>\<open>parse\<close> returns the message read so far, and whether it was complete.\<close>

definition pc_readData ::
  "(byte list \<Rightarrow> hyperion_request \<times> bool) \<Rightarrow> nat \<Rightarrow> (nat \<Rightarrow> int) \<Rightarrow> byte list \<Rightarrow> proto_client \<Rightarrow> hyperion \<Rightarrow>
     (proto_client \<times> hyperion) res" where
  "pc_readData parse w clk chunk c h =
     (let buf = pc_receiveBuffer c @ chunk; c = c\<lparr>pc_receiveBuffer := buf\<rparr>
      in res_bind (first_message buf) (\<lambda>m. case m of
           None \<Rightarrow> Inr (c, h)
         | Some (n, bytes) \<Rightarrow>
             (let (message, ok) = parse bytes;
                  c = (if ok then c else pc_sendErrorReply ''Unable to parse message'' c)
              in res_bind (pc_handleMessage w clk message c h) (\<lambda>(c, h).
                   Inr (c\<lparr>pc_receiveBuffer := skip_message n buf\<rparr>, h)))))"

definition pc_socketClosed :: "proto_client \<Rightarrow> hyperion \<Rightarrow> hyperion" where
  "pc_socketClosed c h = hyp_unRegisterPriority (pc_priorityChannelName c) h"

section \<open>The connection to another instance\<close>

record proto_conn =
  px_host :: string
  px_port :: nat
  px_skipReply :: bool
  px_connected :: bool
  px_receiveBuffer :: "byte list"
  px_sent :: "hyperion_request list"
  px_grabbingModes :: "int list"
  px_videoModes :: "int list"

text \<open>The socket connects later, or never: \<open>px_connected\<close> is set from outside.\<close>

definition px_new :: "string \<Rightarrow> proto_conn res" where
  "px_new a = res_bind (parse_address a) (\<lambda>(host, port).
     Inr \<lparr>px_host = host, px_port = port, px_skipReply = False, px_connected = False, px_receiveBuffer = [],
          px_sent = [], px_grabbingModes = [], px_videoModes = []\<rparr>)"

definition px_sendMessage :: "hyperion_request \<Rightarrow> proto_conn \<Rightarrow> proto_conn" where
  "px_sendMessage m x = (if \<not> px_connected x then x else x\<lparr>px_sent := px_sent x @ [m]\<rparr>)"

definition request_color :: "ColorRgb \<Rightarrow> int \<Rightarrow> int \<Rightarrow> hyperion_request" where
  "request_color color prio duration =
     \<lparr>hr_command = PROTO_COLOR,
      hr_color = Some \<lparr>cr_priority = prio,
        cr_rgbcolor = uint (red color) * 2 ^ 16 + uint (green color) * 2 ^ 8 + uint (blue color),
        cr_duration = Some duration\<rparr>,
      hr_image = None, hr_clear = None\<rparr>"

definition request_image :: "ColorRgb image \<Rightarrow> int \<Rightarrow> int \<Rightarrow> hyperion_request" where
  "request_image im prio duration =
     \<lparr>hr_command = PROTO_IMAGE, hr_color = None,
      hr_image = Some \<lparr>ir_priority = prio, ir_imagewidth = int (img_width im), ir_imageheight = int (img_height im),
        ir_imagedata = take (img_width im * img_height im * 3) (raw_bytes (img_pixels im)),
        ir_duration = Some duration\<rparr>,
      hr_clear = None\<rparr>"

definition px_setColor :: "ColorRgb \<Rightarrow> int \<Rightarrow> int \<Rightarrow> proto_conn \<Rightarrow> proto_conn" where
  "px_setColor color prio duration x = px_sendMessage (request_color color prio duration) x"

definition px_setImage :: "ColorRgb image \<Rightarrow> int \<Rightarrow> int \<Rightarrow> proto_conn \<Rightarrow> proto_conn" where
  "px_setImage im prio duration x = px_sendMessage (request_image im prio duration) x"

definition px_clear :: "int \<Rightarrow> proto_conn \<Rightarrow> proto_conn" where
  "px_clear prio x = px_sendMessage
     \<lparr>hr_command = PROTO_CLEAR, hr_color = None, hr_image = None, hr_clear = Some prio\<rparr> x"

definition px_clearAll :: "proto_conn \<Rightarrow> proto_conn" where
  "px_clearAll x = px_sendMessage
     \<lparr>hr_command = PROTO_CLEARALL, hr_color = None, hr_image = None, hr_clear = None\<rparr> x"

definition px_parseReply :: "hyperion_reply \<Rightarrow> proto_conn \<Rightarrow> (bool \<times> proto_conn) res" where
  "px_parseReply reply x =
     (case rp_type reply of
        REPLY \<Rightarrow>
          if \<not> px_skipReply x
          then (if rp_success reply \<noteq> Some True then Inl RuntimeError else Inr (True, x))
          else Inr (False, x)
      | GRABBING \<Rightarrow>
          (let grabbing = (case rp_grabbing reply of Some g \<Rightarrow> g | None \<Rightarrow> 7)
           in Inr (False, x\<lparr>px_grabbingModes := px_grabbingModes x @ [grabbing]\<rparr>))
      | VIDEO \<Rightarrow>
          (let video = (case rp_video reply of Some v \<Rightarrow> v | None \<Rightarrow> 0)
           in Inr (False, x\<lparr>px_videoModes := px_videoModes x @ [video]\<rparr>)))"

text \<open>A reply that cannot be parsed stays in the buffer.\<close>

definition px_readData ::
  "(byte list \<Rightarrow> hyperion_reply \<times> bool) \<Rightarrow> byte list \<Rightarrow> proto_conn \<Rightarrow> proto_conn res" where
  "px_readData parse chunk x =
     (let buf = px_receiveBuffer x @ chunk; x = x\<lparr>px_receiveBuffer := buf\<rparr>
      in res_bind (first_message buf) (\<lambda>m. case m of
           None \<Rightarrow> Inr x
         | Some (n, bytes) \<Rightarrow>
             (let (reply, ok) = parse bytes
              in if \<not> ok then Inr x
                 else res_bind (px_parseReply reply x) (\<lambda>(_, x). Inr (x\<lparr>px_receiveBuffer := skip_message n buf\<rparr>)))))"

section \<open>The server\<close>

record proto_server =
  ps_proxy_connections :: "proto_conn list"
  ps_forwarder_enabled :: bool

fun ps_proxies :: "nat \<Rightarrow> string list \<Rightarrow> proto_conn list res" where
  "ps_proxies port [] = Inr []"
| "ps_proxies port (slave # slaves) =
     (if ''127.0.0.1:'' @ decimal port = slave then Inl RuntimeError
      else res_bind (px_new slave) (\<lambda>p.
           res_bind (ps_proxies port slaves) (\<lambda>ps. Inr (p\<lparr>px_skipReply := True\<rparr> # ps))))"

definition ps_new :: "nat \<Rightarrow> bool \<Rightarrow> forwarder \<Rightarrow> proto_server res" where
  "ps_new port bound f =
     res_bind (ps_proxies port (fw_protoSlaves f)) (\<lambda>ps.
       if \<not> bound then Inl RuntimeError
       else Inr \<lparr>ps_proxy_connections = ps, ps_forwarder_enabled = True\<rparr>)"

definition ps_newMessage :: "hyperion_request \<Rightarrow> proto_server \<Rightarrow> proto_server" where
  "ps_newMessage m s = s\<lparr>ps_proxy_connections := map (px_sendMessage m) (ps_proxy_connections s)\<rparr>"

definition ps_sendImageToProtoSlaves :: "int \<Rightarrow> ColorRgb image \<Rightarrow> int \<Rightarrow> proto_server \<Rightarrow> proto_server" where
  "ps_sendImageToProtoSlaves prio im duration s =
     (if ps_forwarder_enabled s
      then s\<lparr>ps_proxy_connections := map (px_setImage im prio duration) (ps_proxy_connections s)\<rparr> else s)"

definition ps_componentStateChanged ::
  "Components \<Rightarrow> bool \<Rightarrow> proto_server \<Rightarrow> hyperion \<Rightarrow> proto_server \<times> hyperion" where
  "ps_componentStateChanged cmp enable s h =
     (if cmp = COMP_FORWARDER
      then (let s = (if ps_forwarder_enabled s \<noteq> enable then s\<lparr>ps_forwarder_enabled := enable\<rparr> else s)
            in (s, hyp_reportComponent cmp (ps_forwarder_enabled s) h))
      else (s, h))"

section \<open>Messages are requests of the core\<close>

definition product_of :: "int \<Rightarrow> int \<Rightarrow> int res" where
  "product_of width height = res_bind (mul_int width height) (\<lambda>a. mul_int a 3)"

text \<open>
  What is asked of a message: no timeout on the lowest channel; a picture whose data have the
  announced size fits the image processor.
\<close>

definition request_fits :: "nat \<Rightarrow> imgproc \<Rightarrow> hyperion_request \<Rightarrow> bool" where
  "request_fits w ip m \<longleftrightarrow>
     (case hr_command m of
        PROTO_COLOR \<Rightarrow> (case hr_color m of None \<Rightarrow> True
          | Some r \<Rightarrow> cr_priority r \<noteq> LOWEST_PRIORITY \<or> duration_of (cr_duration r) \<le> 0)
      | PROTO_IMAGE \<Rightarrow> (case hr_image m of None \<Rightarrow> True
          | Some r \<Rightarrow> (case product_of (ir_imagewidth r) (ir_imageheight r) of Inl _ \<Rightarrow> False
            | Inr p \<Rightarrow> int (length (ir_imagedata r)) \<noteq> p \<or>
                size_fits w (ir_imagewidth r) (ir_imageheight r) ip \<and>
                (ir_priority r \<noteq> LOWEST_PRIORITY \<or> duration_of (ir_duration r) \<le> 0)))
      | _ \<Rightarrow> True)"

definition pc_ok :: "imgproc \<Rightarrow> proto_client \<Rightarrow> bool" where
  "pc_ok ip c \<longleftrightarrow> ip_inv (pc_processor c) \<and> ip_same (pc_processor c) ip"

lemma pc_frame [simp]:
  "pc_processor (pc_sendErrorReply e c) = pc_processor c" "pc_processor (pc_sendSuccessReply c) = pc_processor c"
  "pc_sent (pc_sendErrorReply e c) = pc_sent c @ [(plain_reply REPLY)\<lparr>rp_success := Some False, rp_error := Some e\<rparr>]"
  "pc_sent (pc_sendSuccessReply c) = pc_sent c @ [(plain_reply REPLY)\<lparr>rp_success := Some True\<rparr>]"
  by (simp_all add: pc_sendErrorReply_def pc_sendSuccessReply_def pc_sendMessage_def)

lemma size_fits_same: "ip_same ip' ip \<Longrightarrow> size_fits w wd ht ip' = size_fits w wd ht ip"
  by (simp add: size_fits_def ip_same_def same_config_def)

text \<open>A handled message: one more reply, the connection and the core intact.\<close>

definition answered :: "imgproc \<Rightarrow> (hyperion \<Rightarrow> bool) \<Rightarrow> proto_client \<Rightarrow> (proto_client \<times> hyperion) res \<Rightarrow> bool" where
  "answered ip P c r \<longleftrightarrow> (\<exists>c' h'. r = Inr (c', h') \<and> pc_ok ip c' \<and> P h' \<and> length (pc_sent c') = Suc (length (pc_sent c)))"

lemma color_answered:
  assumes "core_at pw clk cfg junk h" "pc_ok ip c"
    and "cr_priority r \<noteq> LOWEST_PRIORITY \<or> duration_of (cr_duration r) \<le> 0"
  shows "answered ip (core_at pw clk cfg junk) c (pc_handleColorCommand clk r c h)"
proof -
  have "length (replicate (length (h_ledString h)) (rgb_of_int (cr_rgbcolor r))) = length (cfg_leds cfg)"
    using core_at_leds [OF assms(1)] by simp
  from core_at_setColors [OF assms(1) this assms(3)] obtain h' where
    "hyp_setColor clk (cr_priority r) (rgb_of_int (cr_rgbcolor r)) (duration_of (cr_duration r)) True h = Inr h'"
    "core_at pw clk cfg junk h'" by (auto simp: hyp_setColor_def)
  then show ?thesis
    using assms(2) by (simp add: answered_def pc_handleColorCommand_def pc_ok_def Let_def)
qed

lemma image_answered:
  assumes "core_at pw clk cfg junk h" "pc_ok ip c" "ip_leds ip = cfg_leds cfg"
    and "product_of (ir_imagewidth r) (ir_imageheight r) = Inr p"
    and "int (length (ir_imagedata r)) \<noteq> p \<or> size_fits w (ir_imagewidth r) (ir_imageheight r) ip \<and>
      (ir_priority r \<noteq> LOWEST_PRIORITY \<or> duration_of (ir_duration r) \<le> 0)"
  shows "answered ip (core_at pw clk cfg junk) c (pc_handleImageCommand w clk r c h)"
proof -
  obtain a where mul: "mul_int (ir_imagewidth r) (ir_imageheight r) = Inr a" "mul_int a 3 = Inr p"
    using assms(4) by (auto simp: product_of_def elim: res_bind_InrE)
  show ?thesis
  proof (cases "int (length (ir_imagedata r)) = p")
    case False
    with mul assms(1,2) show ?thesis
      by (simp add: answered_def pc_handleImageCommand_def pc_ok_def Let_def)
  next
    case True
    then have fits: "size_fits w (ir_imagewidth r) (ir_imageheight r) (pc_processor c)"
      "ir_priority r \<noteq> LOWEST_PRIORITY \<or> duration_of (ir_duration r) \<le> 0"
      using assms(2,5) size_fits_same by (auto simp: pc_ok_def)
    have "int (length (ir_imagedata r)) = ir_imagewidth r * ir_imageheight r * 3"
      using True mul size_fits_mul(3,4) [OF fits(1)] by simp
    from client_picture_ok [OF _ fits(1) this] assms(2) obtain ip' im cs where
      pic: "client_picture w (ir_imagewidth r) (ir_imageheight r) (ir_imagedata r) (pc_processor c) = Inr (ip', im, cs)"
        "ip_inv ip'" "ip_same ip' (pc_processor c)" "length cs = length (ip_leds (pc_processor c))"
      by (auto simp: pc_ok_def)
    have "length cs = length (cfg_leds cfg)" using pic(4) assms(2,3) by (simp add: pc_ok_def ip_same_def)
    from core_at_setColors [OF assms(1) this fits(2)] obtain h' where
      h': "hyp_setColors clk (ir_priority r) cs (duration_of (ir_duration r)) True COMP_INVALID h = Inr h'"
        "core_at pw clk cfg junk h'" by blast
    have "ip_same ip' ip" using ip_same_trans [OF pic(3)] assms(2) by (simp add: pc_ok_def)
    then show ?thesis
      using True mul pic(1,2) h' by (simp add: answered_def pc_handleImageCommand_def pc_ok_def Let_def)
  qed
qed

lemma message_answered:
  assumes "core_at pw clk cfg junk h" "pc_ok ip c" "ip_leds ip = cfg_leds cfg" "request_fits w ip m"
  shows "answered ip (core_at pw clk cfg junk) c (pc_handleMessage w clk m c h)"
proof -
  let ?c = "c\<lparr>pc_newMessage := pc_newMessage c @ [m]\<rparr>"
  have ok: "pc_ok ip ?c" using assms(2) by (simp add: pc_ok_def)
  let ?r = "case hr_command m of
           PROTO_COLOR \<Rightarrow> (case hr_color m of
               None \<Rightarrow> Inr (pc_sendErrorReply ''Received COLOR command without ColorRequest'' ?c, h)
             | Some r \<Rightarrow> pc_handleColorCommand clk r ?c h)
         | PROTO_IMAGE \<Rightarrow> (case hr_image m of
               None \<Rightarrow> Inr (pc_sendErrorReply ''Received IMAGE command without ImageRequest'' ?c, h)
             | Some r \<Rightarrow> pc_handleImageCommand w clk r ?c h)
         | PROTO_CLEAR \<Rightarrow> (case hr_clear m of
               None \<Rightarrow> Inr (pc_sendErrorReply ''Received CLEAR command without ClearRequest'' ?c, h)
             | Some r \<Rightarrow> pc_handleClearCommand clk r ?c h)
         | PROTO_CLEARALL \<Rightarrow> pc_handleClearallCommand clk ?c h"
  have err: "answered ip (core_at pw clk cfg junk) ?c (Inr (pc_sendErrorReply e ?c, h))" for e
    using assms(1) ok by (simp add: answered_def pc_ok_def)
  have "answered ip (core_at pw clk cfg junk) ?c ?r"
  proof (cases "hr_command m")
    case PROTO_COLOR
    with assms(4) err color_answered [OF assms(1) ok] show ?thesis
      by (cases "hr_color m") (simp_all add: request_fits_def)
  next
    case PROTO_IMAGE
    with assms(4) err image_answered [OF assms(1) ok assms(3)] show ?thesis
      by (cases "hr_image m") (auto simp: request_fits_def split: sum.splits)
  next
    case PROTO_CLEAR
    show ?thesis
    proof (cases "hr_clear m")
      case (Some p)
      obtain h' where "hyp_clear clk p h = Inr h'" "core_at pw clk cfg junk h'" using core_at_clear [OF assms(1)] by blast
      with PROTO_CLEAR Some ok show ?thesis
        by (simp add: answered_def pc_handleClearCommand_def pc_ok_def Let_def)
    qed (use PROTO_CLEAR err in simp)
  next
    case PROTO_CLEARALL
    obtain h' where "hyp_clearall clk h = Inr h'" "core_at pw clk cfg junk h'" using core_at_clearall [OF assms(1)] by blast
    with PROTO_CLEARALL ok show ?thesis by (simp add: answered_def pc_handleClearallCommand_def pc_ok_def)
  qed
  then obtain c' h' where "?r = Inr (c', h')" "pc_ok ip c'" "core_at pw clk cfg junk h'"
      "length (pc_sent c') = Suc (length (pc_sent c))" by (auto simp: answered_def)
  then show ?thesis by (simp add: answered_def pc_handleMessage_def Let_def)
qed

interpretation proto: core_session "pc_handleMessage w clk" "pc_ok ip" "\<lambda>m. request_fits w ip m \<and> ip_leds ip = cfg_leds cfg"
    "core_at pw clk cfg junk" for w clk ip pw cfg junk
  using message_answered by unfold_locales (fastforce simp: answered_def)

lemma one_reply: "pc_handleMessage w clk m c h = Inr (c', h') \<Longrightarrow> length (pc_sent c') = Suc (length (pc_sent c))"
  by (auto simp: pc_handleMessage_def pc_handleColorCommand_def pc_handleImageCommand_def pc_handleClearCommand_def
      pc_handleClearallCommand_def Let_def elim!: res_bind_InrE split: proto_command.splits option.splits if_splits)

section \<open>Properties\<close>

text \<open>
  C10.  Every sequence of messages of a protobuf client that fit (\<open>request_fits\<close>) is handled, with exactly
  one reply per message, and the core stays in a reachable state.  A message fits unless it is a
  picture whose data have the announced size but which leaves no room for the borders or overflows
  a number of the image processor, or it sets channel 255 with a duration, which breaks the priority
  muxer.
\<close>

theorem proto_session_served:
  assumes "cfg_ok pw cfg" "reachable pw clk cfg junk h"
    and "ip_inv (pc_processor c)" "ip_leds (pc_processor c) = cfg_leds cfg"
    and "list_all (request_fits w (pc_processor c)) ms"
  shows "\<exists>c' h'. session (pc_handleMessage w clk) ms c h = Inr (c', h') \<and> reachable pw clk cfg junk h' \<and>
    length (pc_sent c') = length (pc_sent c) + length ms"
proof -
  let ?ip = "pc_processor c"
  have "pc_ok ?ip c" using assms(3) by (simp add: pc_ok_def ip_same_def same_config_def)
  moreover have "list_all (\<lambda>m. request_fits w ?ip m \<and> ip_leds ?ip = cfg_leds cfg) ms"
    using assms(4,5) by (simp add: list_all_iff)
  moreover have "core_at pw clk cfg junk h" using assms(1,2) by (simp add: core_at_def)
  ultimately obtain c' h' where s: "session (pc_handleMessage w clk) ms c h = Inr (c', h')" "core_at pw clk cfg junk h'"
    using proto.session_ok by blast
  have "session (pc_handleMessage w clk) ms c h = Inr (c', h') \<Longrightarrow> length (pc_sent c') = length (pc_sent c) + length ms"
    for c h
    by (induction ms arbitrary: c h) (auto elim!: res_bind_InrE dest!: one_reply)
  with s show ?thesis by (auto simp: core_at_def)
qed

definition demo_proto :: proto_client where
  "demo_proto = pc_new (ip_new (cfg_leds demo_cfg) (bp_new True 600 50 10 1 ''osd'' 0)) ''10.0.0.1''"

lemma demo_proto_ok: "ip_inv (pc_processor demo_proto)" "ip_leds (pc_processor demo_proto) = cfg_leds demo_cfg"
proof -
  have "list_all led_wf (cfg_leds demo_cfg)" using createLedString_wf by (simp add: list_all_iff)
  then show "ip_inv (pc_processor demo_proto)"
    by (simp add: demo_proto_def pc_new_def ip_inv_def ip_new_def known_mode_def bp_new_def)
  show "ip_leds (pc_processor demo_proto) = cfg_leds demo_cfg" by (simp add: demo_proto_def pc_new_def ip_new_def)
qed

theorem proto_session_served_witness:
  "\<exists>h c' h'. hyp_new (\<lambda>x y. 1) (\<lambda>n. int n) demo_cfg 7 = Inr h \<and>
     session (pc_handleMessage 32 (\<lambda>n. int n))
       [request_color (rgb 1 2 3) 50 (-1), request_image (img_new BLACK 2 2) 50 (-1)\<lparr>hr_image := None\<rparr>] demo_proto h
       = Inr (c', h') \<and> length (pc_sent c') = 2"
proof -
  obtain h where h: "hyp_new (\<lambda>x y. 1) (\<lambda>n. int n) demo_cfg 7 = Inr h"
    using hyp_new_ok [OF demo_cfg_ok, of "\<lambda>n. int n" 7] by blast
  then have r: "reachable (\<lambda>x y. 1) (\<lambda>n. int n) demo_cfg 7 h" by (rule reachable.Start)
  let ?ms = "[request_color (rgb 1 2 3) 50 (-1), request_image (img_new BLACK 2 2) 50 (-1)\<lparr>hr_image := None\<rparr>]"
  have "list_all (request_fits 32 (pc_processor demo_proto)) ?ms"
    by (simp add: request_fits_def request_color_def request_image_def duration_of_def)
  from proto_session_served [OF demo_cfg_ok r demo_proto_ok this] h
  show ?thesis by (auto simp: demo_proto_def pc_new_def simp del: session.simps)
qed

text \<open>
  Every read handles one message: whatever else has arrived behind the first complete frame
  stays in the buffer, even another complete frame, until more data come.
\<close>

theorem proto_one_message_per_read:
  assumes "pc_receiveBuffer c @ chunk = proto_frame body @ rest" "body \<noteq> []"
    and "length (proto_frame body @ rest) < 2 ^ 32" "parse body = (m, True)"
  shows "pc_readData parse w clk chunk c h =
    res_bind (pc_handleMessage w clk m (c\<lparr>pc_receiveBuffer := proto_frame body @ rest\<rparr>) h)
      (\<lambda>(c, h). Inr (c\<lparr>pc_receiveBuffer := rest\<rparr>, h))"
  using first_message_frame [OF assms(2,3)] assms(4) by (simp add: pc_readData_def assms(1))

theorem proto_one_message_per_read_witness:
  "\<forall>h. pc_readData (\<lambda>b. (request_color (rgb 1 2 3) (int (length b)) 0, True)) 32 (\<lambda>n. int n)
      (proto_frame [1] @ proto_frame [1, 2]) demo_proto h =
    res_bind (pc_handleMessage 32 (\<lambda>n. int n) (request_color (rgb 1 2 3) 1 0)
        (demo_proto\<lparr>pc_receiveBuffer := proto_frame [1] @ proto_frame [1, 2]\<rparr>) h)
      (\<lambda>(c, h). Inr (c\<lparr>pc_receiveBuffer := proto_frame [1, 2]\<rparr>, h))"
proof -
  have "pc_receiveBuffer demo_proto @ (proto_frame [1] @ proto_frame [1, 2]) = proto_frame [1] @ proto_frame [1, 2]"
    by (simp add: demo_proto_def pc_new_def)
  moreover have "length (proto_frame [1 :: byte] @ proto_frame [1, 2]) < 2 ^ 32" by (simp add: proto_frame_def)
  ultimately show ?thesis
    using proto_one_message_per_read [of demo_proto "proto_frame [1] @ proto_frame [1, 2]" "[1]" "proto_frame [1, 2]"] by simp
qed

lemma rgb_of_request: "rgb_of_int (uint (red c) * 2 ^ 16 + uint (green c) * 2 ^ 8 + uint (blue c)) = c"
proof -
  define r g b where "r = uint (red c)" "g = uint (green c)" "b = uint (blue c)"
  have range: "0 \<le> r" "r < 256" "0 \<le> g" "g < 256" "0 \<le> b" "b < 256"
    using byte_bound by (auto simp: r_g_b_def)
  have e: "r * 2 ^ 16 + g * 2 ^ 8 + b = b + 256 * (g + 256 * r)" by simp
  have d: "(b + 256 * x) div 256 = x" "(b + 256 * x) mod 256 = b" "(g + 256 * x) div 256 = x" "(g + 256 * x) mod 256 = g" for x
    using range by simp_all
  have two: "(2 :: int) ^ 8 = 256" "(2 :: int) ^ 16 = 256 * 256" by simp_all
  have "(r * 2 ^ 16 + g * 2 ^ 8 + b) div 2 ^ 16 = r"
    unfolding e unfolding two by (subst zdiv_zmult2_eq, simp, simp only: d)
  moreover have "(r * 2 ^ 16 + g * 2 ^ 8 + b) div 2 ^ 8 mod 256 = g" unfolding e unfolding two by (simp only: d)
  moreover have "(r * 2 ^ 16 + g * 2 ^ 8 + b) mod 256 = b" unfolding e by (rule d(2))
  ultimately have "uint (u8 ((r * 2 ^ 16 + g * 2 ^ 8 + b) div 2 ^ 16)) = r" "uint (u8 ((r * 2 ^ 16 + g * 2 ^ 8 + b) div 2 ^ 8)) = g"
    "uint (u8 (r * 2 ^ 16 + g * 2 ^ 8 + b)) = b" using range by (simp_all add: uint_u8)
  then have "u8 ((r * 2 ^ 16 + g * 2 ^ 8 + b) div 2 ^ 16) = red c" "u8 ((r * 2 ^ 16 + g * 2 ^ 8 + b) div 2 ^ 8) = green c"
    "u8 (r * 2 ^ 16 + g * 2 ^ 8 + b) = blue c" by (simp_all only: r_g_b_def word_uint_eq_iff)
  then show ?thesis by (simp add: rgb_of_int_def r_g_b_def [symmetric])
qed

lemma request_image_bytes:
  assumes "img_wf im"
  shows "ir_imagedata (the (hr_image (request_image im prio d))) = raw_bytes (take (img_width im * img_height im) (img_pixels im))"
proof -
  let ?n = "img_width im * img_height im"
  have "raw_bytes (img_pixels im) = raw_bytes (take ?n (img_pixels im)) @ raw_bytes (drop ?n (img_pixels im))"
    by (metis append_take_drop_id raw_bytes_append)
  moreover have "length (raw_bytes (take ?n (img_pixels im))) = ?n * 3" using assms by (simp add: img_wf_def)
  ultimately show ?thesis by (simp add: request_image_def)
qed

lemma forwarded_picture:
  assumes "img_wf im" "img_width im < 2 ^ 32" "img_height im < 2 ^ 32"
  shows "client_picture w (int (img_width im)) (int (img_height im))
      (raw_bytes (take (img_width im * img_height im) (img_pixels im))) ip =
    res_bind (ip_setSize (img_width im) (img_height im) ip) (\<lambda>ip.
      let im' = im\<lparr>img_pixels := take (img_width im * img_height im) (img_pixels im) @ [BLACK]\<rparr> in
      res_bind (ip_process w im' ip) (\<lambda>(ip, cs). Inr (ip, im', cs)))"
proof -
  have u: "as_unsigned (int (img_width im)) = img_width im" "as_unsigned (int (img_height im)) = img_height im"
    using assms(2,3) by (simp_all add: as_unsigned_def nat_mod_as_int [symmetric])
  let ?ps = "take (img_width im * img_height im) (img_pixels im)"
  have "bytes_colors (raw_bytes ?ps) = ?ps" for ps :: "ColorRgb list" by (rule bytes_colors_of_raw)
  moreover have "length ?ps = img_width im * img_height im" using assms(1) by (simp add: img_wf_def)
  ultimately have "memcpy 0 (bytes_colors (raw_bytes ?ps)) (length (bytes_colors (raw_bytes ?ps)))
      (img_pixels (img_new BLACK (img_width im) (img_height im))) = Inr (?ps @ [BLACK])"
    by (simp add: memcpy_ok img_new_def del: replicate_Suc) simp
  then have copy: "memcpy 0 (bytes_colors (raw_bytes ?ps)) (length (bytes_colors (raw_bytes ?ps)))
      (img_pixels (img_new BLACK (img_width im) (img_height im))) = Inr (?ps @ [BLACK])" by simp
  have upd: "im\<lparr>img_pixels := ps\<rparr> = \<lparr>img_width = img_width im, img_height = img_height im, img_pixels = ps\<rparr>" for ps
    by simp
  show ?thesis unfolding client_picture_def u Let_def copy upd by simp
qed

text \<open>
  C13.  What an instance forwards arrives: the frame of a colour, read by the server of another
  instance, is exactly the request to show that colour on that channel for that time, and the data of
  a picture are rebuilt to the same picture before they are processed.
\<close>

theorem proto_forwarding_faithful:
  assumes "parse (ser (request_color color prio duration)) = (request_color color prio duration, True)"
    and "ser (request_color color prio duration) \<noteq> []" "length (ser (request_color color prio duration)) < 2 ^ 31"
    and "pc_receiveBuffer c = []" "img_wf im" "img_width im < 2 ^ 32" "img_height im < 2 ^ 32"
  shows "pc_readData parse w clk (proto_frame (ser (request_color color prio duration))) c h =
      res_bind (hyp_setColor clk prio color duration True h) (\<lambda>h.
        Inr (pc_sendSuccessReply (c\<lparr>pc_receiveBuffer := [], pc_priority := prio,
               pc_newMessage := pc_newMessage c @ [request_color color prio duration]\<rparr>),
             if pc_priority c \<noteq> prio then hyp_registerPriority (pc_priorityChannelName c) prio h else h)) \<and>
    client_picture w (int (img_width im)) (int (img_height im))
        (ir_imagedata (the (hr_image (request_image im prio duration)))) ip =
      res_bind (ip_setSize (img_width im) (img_height im) ip) (\<lambda>ip.
        let im' = im\<lparr>img_pixels := take (img_width im * img_height im) (img_pixels im) @ [BLACK]\<rparr> in
        res_bind (ip_process w im' ip) (\<lambda>(ip, cs). Inr (ip, im', cs)))"
proof
  let ?m = "request_color color prio duration"
  let ?b = "ser ?m"
  have len: "length (proto_frame ?b @ []) < 2 ^ 32" using assms(3) by (simp add: proto_frame_def)
  note first = first_message_frame [OF assms(2) len]
  show "pc_readData parse w clk (proto_frame ?b) c h =
      res_bind (hyp_setColor clk prio color duration True h) (\<lambda>h.
        Inr (pc_sendSuccessReply (c\<lparr>pc_receiveBuffer := [], pc_priority := prio, pc_newMessage := pc_newMessage c @ [?m]\<rparr>),
             if pc_priority c \<noteq> prio then hyp_registerPriority (pc_priorityChannelName c) prio h else h))"
    using first assms(1,4)
    by (cases "hyp_setColor clk prio color duration True h")
      (simp_all add: pc_readData_def pc_handleMessage_def pc_handleColorCommand_def request_color_def rgb_of_request rgb_of_request [simplified]
        duration_of_def pc_sendSuccessReply_def pc_sendMessage_def Let_def)
qed (use forwarded_picture [OF assms(5-7)] request_image_bytes [OF assms(5)] in simp)

theorem proto_forwarding_faithful_witness:
  "\<forall>h. pc_readData (\<lambda>b. (request_color (rgb 1 2 3) 50 (-1), True)) 32 (\<lambda>n. int n)
       (proto_frame [7]) demo_proto h =
     res_bind (hyp_setColor (\<lambda>n. int n) 50 (rgb 1 2 3) (-1) True h) (\<lambda>h.
       Inr (pc_sendSuccessReply (demo_proto\<lparr>pc_receiveBuffer := [], pc_priority := 50,
               pc_newMessage := pc_newMessage demo_proto @ [request_color (rgb 1 2 3) 50 (-1)]\<rparr>),
            if pc_priority demo_proto \<noteq> 50 then hyp_registerPriority (pc_priorityChannelName demo_proto) 50 h else h))"
proof -
  let ?m = "request_color (rgb 1 2 3) 50 (-1)" and ?im = "img_new BLACK 1 1"
  have "pc_receiveBuffer demo_proto = []" "img_wf ?im" "img_width ?im < 2 ^ 32" "img_height ?im < 2 ^ 32"
    by (simp_all add: demo_proto_def pc_new_def) (simp_all add: img_new_def)
  from proto_forwarding_faithful [of "\<lambda>b. (?m, True)" "\<lambda>m. [7]" "rgb 1 2 3" 50 "-1", OF _ _ _ this]
  show ?thesis by simp
qed

text \<open>
  The mode of a three-dimensional video is lost between two instances: the server puts it into
  the field of the grabbing mode, so whatever mode it sends, the receiver reports the mode 0.
\<close>

theorem proto_video_mode_lost:
  assumes "parse (ser ((plain_reply VIDEO)\<lparr>rp_grabbing := Some videoMode\<rparr>)) =
      ((plain_reply VIDEO)\<lparr>rp_grabbing := Some videoMode\<rparr>, True)"
    and "ser ((plain_reply VIDEO)\<lparr>rp_grabbing := Some videoMode\<rparr>) \<noteq> []"
    and "length (ser ((plain_reply VIDEO)\<lparr>rp_grabbing := Some videoMode\<rparr>)) < 2 ^ 31" "px_receiveBuffer x = []"
  shows "\<exists>x'. px_readData parse (proto_frame (ser (last (pc_sent (pc_setVideoMode videoMode c))))) x = Inr x' \<and>
    px_videoModes x' = px_videoModes x @ [0] \<and> px_receiveBuffer x' = []"
proof -
  let ?r = "(plain_reply VIDEO)\<lparr>rp_grabbing := Some videoMode\<rparr>"
  have len: "length (proto_frame (ser ?r) @ []) < 2 ^ 32" using assms(3) by (simp add: proto_frame_def)
  have "last (pc_sent (pc_setVideoMode videoMode c)) = ?r" by (simp add: pc_setVideoMode_def pc_sendMessage_def)
  with first_message_frame [OF assms(2) len] assms(1,4) show ?thesis
    by (simp add: px_readData_def px_parseReply_def plain_reply_def)
qed

theorem proto_video_mode_lost_witness:
  "\<forall>c. \<exists>x x'. px_readData (\<lambda>b. ((plain_reply VIDEO)\<lparr>rp_grabbing := Some (int (length b))\<rparr>, True))
       (proto_frame [0, 0]) x = Inr x' \<and> px_videoModes x' = [0]"
proof
  fix c :: proto_client
  let ?parse = "\<lambda>b. ((plain_reply VIDEO)\<lparr>rp_grabbing := Some (int (length b))\<rparr>, True)"
  let ?ser = "\<lambda>r. replicate (nat (the (rp_grabbing r))) (0 :: byte)"
  let ?x = "\<lparr>px_host = ''host'', px_port = 1, px_skipReply = True, px_connected = True, px_receiveBuffer = [],
     px_sent = [], px_grabbingModes = [], px_videoModes = []\<rparr>"
  have "last (pc_sent (pc_setVideoMode 2 c)) = (plain_reply VIDEO)\<lparr>rp_grabbing := Some 2\<rparr>"
    by (simp add: pc_setVideoMode_def pc_sendMessage_def)
  moreover have replicate_2: "replicate 2 (0 :: byte) = [0, 0]" by (simp add: numeral_2_eq_2)
  moreover note proto_video_mode_lost [of ?parse ?ser 2 ?x c]
  ultimately
  show "\<exists>x x'. px_readData ?parse (proto_frame [0, 0]) x = Inr x' \<and> px_videoModes x' = [0]"
    by (auto simp: replicate_2)
qed

end
