(* ===== verification/HyperionConfig.thy ===== *)
theory HyperionConfig
  imports CoreClients Forwarder
begin

text \<open>
  From the configuration to the core: the functions of \<open>libsrc/hyperion/Hyperion.cpp\<close> that read the
  JSON configuration (\<open>createColorOrder\<close>, \<open>createColorAdjustment\<close>, \<open>createLedColorsAdjustment\<close>,
  \<open>createColorSmoothing\<close>, the leds) and the constructor on top of them.  Shown: which leds a list of
  ranges adjusts, which texts end the program, and that a plain configuration starts.
\<close>

section \<open>Leds and colours\<close>

definition createColorOrder :: "(string \<times> json) list \<Rightarrow> ColorOrder" where
  "createColorOrder deviceConfig = stringToColorOrder (json_string ''rgb'' (json_lookup deviceConfig ''colorOrder''))"

text \<open>What \<open>createLedString\<close> reads of an entry.\<close>

definition led_entry :: "json \<Rightarrow> led_cfg" where
  "led_entry v =
     (let index = json_object v;
          hscan = json_object (json_lookup index ''hscan''); vscan = json_object (json_lookup index ''vscan'')
      in \<lparr>cfg_index = json_int 0 (json_lookup index ''index''),
          cfg_clone = Some (json_int (-1) (json_lookup index ''clone'')),
          cfg_hmin = json_double 0 (json_lookup hscan ''minimum''), cfg_hmax = json_double 0 (json_lookup hscan ''maximum''),
          cfg_vmin = json_double 0 (json_lookup vscan ''minimum''), cfg_vmax = json_double 0 (json_lookup vscan ''maximum''),
          cfg_order = (case json_lookup index ''colorOrder'' of JString s \<Rightarrow> Some s | _ \<Rightarrow> None)\<rparr>)"

definition led_entries :: "json \<Rightarrow> led_cfg list" where
  "led_entries ledsConfig = map led_entry (json_array ledsConfig)"

definition json_at :: "json list \<Rightarrow> nat \<Rightarrow> json" where
  "json_at xs i = (if i < length xs then xs ! i else JUndefined)"

definition createRgbChannelAdjustment ::
  "(string \<times> json) list \<Rightarrow> string \<Rightarrow> int \<Rightarrow> int \<Rightarrow> int \<Rightarrow> RgbChannelAdjustment" where
  "createRgbChannelAdjustment colorConfig channelName defaultR defaultG defaultB =
     (let channelConfig = json_array (json_lookup colorConfig channelName)
      in chan_setAdjustment (u8 (json_int defaultR (json_at channelConfig 0)))
           (u8 (json_int defaultG (json_at channelConfig 1))) (u8 (json_int defaultB (json_at channelConfig 2))))"

definition createRgbTransform :: "pow_fun \<Rightarrow> (string \<times> json) list \<Rightarrow> RgbTransform" where
  "createRgbTransform pw colorConfig =
     (let backlightThreshold = json_double 0 (json_lookup colorConfig ''backlightThreshold'');
          backlightColored = json_bool False (json_lookup colorConfig ''backlightColored'');
          brightness = json_double (1 / 2) (json_lookup colorConfig ''brightness'');
          gammaR = json_double 1 (json_lookup colorConfig ''gammaRed'');
          gammaG = json_double 1 (json_lookup colorConfig ''gammaGreen'');
          gammaB = json_double 1 (json_lookup colorConfig ''gammaBlue'')
      in tr_init pw gammaR gammaG gammaB backlightThreshold backlightColored brightness)"

definition createColorAdjustment :: "pow_fun \<Rightarrow> (string \<times> json) list \<Rightarrow> ColorAdjustment" where
  "createColorAdjustment pw config =
     \<lparr>ca_id = json_string ''default'' (json_lookup config ''id''),
      ca_rgbBlackAdjustment = createRgbChannelAdjustment config ''black'' 0 0 0,
      ca_rgbWhiteAdjustment = createRgbChannelAdjustment config ''white'' 255 255 255,
      ca_rgbRedAdjustment = createRgbChannelAdjustment config ''red'' 255 0 0,
      ca_rgbGreenAdjustment = createRgbChannelAdjustment config ''green'' 0 255 0,
      ca_rgbBlueAdjustment = createRgbChannelAdjustment config ''blue'' 0 0 255,
      ca_rgbCyanAdjustment = createRgbChannelAdjustment config ''cyan'' 0 255 255,
      ca_rgbMagentaAdjustment = createRgbChannelAdjustment config ''magenta'' 255 0 255,
      ca_rgbYellowAdjustment = createRgbChannelAdjustment config ''yellow'' 255 255 0,
      ca_rgbTransform = createRgbTransform pw config\<rparr>"

section \<open>Which leds an adjustment is for\<close>

text \<open>The language of the regular expression \<open>overallExp\<close>: numbers and ranges, separated by commas.\<close>

definition is_range :: "string \<Rightarrow> bool" where
  "is_range p =
     (case split_at (CHR ''-'') p of [a] \<Rightarrow> digits a | [a, b] \<Rightarrow> digits a \<and> digits b | _ \<Rightarrow> False)"

definition overallExp :: "string \<Rightarrow> bool" where
  "overallExp s =
     (case split_at (CHR '','') s of [] \<Rightarrow> False
      | p # ps \<Rightarrow> is_range p \<and> list_all (\<lambda>q. is_range (dropWhile (\<lambda>c. c = CHR '' '') q)) ps)"

definition set_range :: "string \<Rightarrow> string \<Rightarrow> MultiColorAdjustment \<Rightarrow> MultiColorAdjustment res" where
  "set_range i item m =
     (if CHR ''-'' \<in> set item
      then (let ledIndices = split_at (CHR ''-'') item;
                startInd = fst (toInt (ledIndices ! 0)); endInd = fst (toInt (ledIndices ! 1))
            in mca_setAdjustmentForLed m i (as_unsigned startInd) (as_unsigned endInd))
      else (let index = fst (toInt item) in mca_setAdjustmentForLed m i (as_unsigned index) (as_unsigned index)))"

fun set_ranges :: "string \<Rightarrow> string list \<Rightarrow> MultiColorAdjustment \<Rightarrow> MultiColorAdjustment res" where
  "set_ranges i [] m = Inr m"
| "set_ranges i (item # items) m = res_bind (set_range i item m) (set_ranges i items)"

definition add_adjustment ::
  "pow_fun \<Rightarrow> nat \<Rightarrow> (string \<times> json) list \<Rightarrow> MultiColorAdjustment \<Rightarrow> MultiColorAdjustment res" where
  "add_adjustment pw ledCnt config m =
     (let colorAdjustment = createColorAdjustment pw config;
          m = mca_addAdjustment m colorAdjustment;
          ledIndicesStr = trimmed (json_string [] (json_lookup config ''leds''))
      in if ledIndicesStr = ''*''
         then mca_setAdjustmentForLed m (ca_id colorAdjustment) 0 (as_unsigned (int ledCnt - 1))
         else if \<not> overallExp ledIndicesStr then Inr m
         else set_ranges (ca_id colorAdjustment) (split_at (CHR '','') ledIndicesStr) m)"

fun add_adjustments ::
  "pow_fun \<Rightarrow> nat \<Rightarrow> json list \<Rightarrow> MultiColorAdjustment \<Rightarrow> MultiColorAdjustment res" where
  "add_adjustments pw ledCnt [] m = Inr m"
| "add_adjustments pw ledCnt (v # vs) m = res_bind (add_adjustment pw ledCnt (json_object v) m) (add_adjustments pw ledCnt vs)"

definition createLedColorsAdjustment :: "pow_fun \<Rightarrow> nat \<Rightarrow> (string \<times> json) list \<Rightarrow> MultiColorAdjustment res" where
  "createLedColorsAdjustment pw ledCnt colorConfig =
     add_adjustments pw ledCnt (json_array (json_lookup colorConfig ''channelAdjustment'')) (mca_new ledCnt)"

section \<open>Smoothing\<close>

text \<open>
  The interval of the timer is \<open>1000 / updateFrequency\<close>, cut to an \<open>int\<close>; the delay becomes unsigned.
  The time stamps are not initialised.
\<close>

definition createColorSmoothing :: "int \<Rightarrow> int \<Rightarrow> (string \<times> json) list \<Rightarrow> smoothing res" where
  "createColorSmoothing junk junk' config =
     (let f = json_double 25 (json_lookup config ''updateFrequency''); v = trunc_rat (dbl (1000 / f))
      in if f = 0 \<or> \<not> (- (2 ^ 31) \<le> v \<and> v < 2 ^ 31) then Inl Undefined
         else Inr (sm_setEnable (json_bool True (json_lookup config ''enable''))
           (sm_new (json_int 200 (json_lookup config ''time_ms''))
             (as_unsigned (json_int 0 (json_lookup config ''updateDelay'')))
             (json_bool True (json_lookup config ''continuousOutput'')) junk junk')))"

section \<open>The constructor\<close>

definition hyp_create ::
  "pow_fun \<Rightarrow> (nat \<Rightarrow> int) \<Rightarrow> effect_definition list \<Rightarrow> int \<times> int \<times> int \<Rightarrow> (string \<times> json) list \<Rightarrow> hyperion res" where
  "hyp_create pw clk effs junk config =
     (let device = json_object (json_lookup config ''device''); color = json_object (json_lookup config ''color'');
          leds = led_entries (json_lookup config ''leds''); order = createColorOrder device;
          (junk1, junk2, junk3) = junk
      in res_bind (createLedColorsAdjustment pw (length (createLedString leds order)) color) (\<lambda>adj.
         res_bind (createMessageForwarder (json_object (json_lookup config ''forwarder''))) (\<lambda>fwd.
         if \<not> fst (mca_verifyAdjustments pw adj) then Inl RuntimeError
         else res_bind (createColorSmoothing junk2 junk3 (json_object (json_lookup config ''smoothing''))) (\<lambda>smooth.
           hyp_new pw clk
             \<lparr>hc_leds = leds, hc_order = order, hc_adjustment = adj, hc_smooth = smooth,
              hc_mapping = mappingTypeToInt (json_string [] (json_lookup color ''imageToLedMappingType'')),
              hc_ledCount = Some (json_int (int (length (createLedString leds order))) (json_lookup device ''ledCount'')),
              hc_effects = effs, hc_forwarding = forwardingEnabled fwd\<rparr> junk1))))"

section \<open>Ranges of leds\<close>

definition print_range :: "nat \<times> nat \<Rightarrow> string" where
  "print_range r = (if fst r = snd r then decimal (fst r) else decimal (fst r) @ ''-'' @ decimal (snd r))"

lemma print_range_chars: "c \<in> set (print_range r) \<Longrightarrow> is_digit c \<or> c = CHR ''-''"
  by (auto simp: print_range_def dest: decimal_plain split: if_splits)

lemma not_digits: "\<not> is_digit (CHR ''-'')" "\<not> is_digit (CHR '','')" "\<not> is_digit (CHR '' '')" "\<not> is_digit (CHR ''*'')"
  by (simp_all add: is_digit_def)

lemma split_range: "split_at (CHR ''-'') (print_range (a, b)) = (if a = b then [decimal a] else [decimal a, decimal b])"
  using decimal_no [OF not_digits(1)] by (simp add: print_range_def split_at_append split_at_none)

lemma is_range_print: "is_range (print_range r)"
  using split_range [of "fst r" "snd r"] by (simp add: is_range_def)

lemma toInt_decimal: "n < 2 ^ 31 \<Longrightarrow> toInt (decimal n) = (int n, True)" "n < 2 ^ 31 \<Longrightarrow> toInt (CHR '' '' # decimal n) = (int n, True)"
proof -
  show d: "n < 2 ^ 31 \<Longrightarrow> toInt (decimal n) = (int n, True)" by (subst toInt_digits) simp_all
  have "toInt (CHR '' '' # s) = toInt s" for s by (simp add: toInt_def parse_integer_front_space)
  with d show "n < 2 ^ 31 \<Longrightarrow> toInt (CHR '' '' # decimal n) = (int n, True)" by simp
qed

text \<open>An item with or without the space behind the comma.\<close>

lemma set_range_print:
  assumes "a < 2 ^ 31" "b < 2 ^ 31" "pre \<in> {[], '' ''}"
  shows "set_range i (pre @ print_range (a, b)) m = mca_setAdjustmentForLed m i a b"
proof -
  have u: "as_unsigned (int n) = n" if "n < 2 ^ 31" for n
    using that by (simp add: as_unsigned_def nat_mod_as_int [symmetric])
  have pre: "CHR ''-'' \<notin> set pre" using assms(3) by auto
  have split: "split_at (CHR ''-'') (pre @ decimal a @ CHR ''-'' # decimal b) = [pre @ decimal a, decimal b]"
    using split_at_append [of "CHR ''-''" "pre @ decimal a" "decimal b"] pre decimal_no [OF not_digits(1)]
    by (simp add: split_at_none)
  have "toInt (pre @ decimal a) = (int a, True)" using assms(1,3) toInt_decimal by auto
  then show ?thesis
    using assms(1,2) u toInt_decimal(1) [OF assms(2)] pre decimal_no [OF not_digits(1)] split
    by (auto simp: set_range_def print_range_def Let_def)
qed

definition print_ranges :: "(nat \<times> nat) list \<Rightarrow> string" where
  "print_ranges rs = join_with '', '' (map print_range rs)"

fun range_items :: "(nat \<times> nat) list \<Rightarrow> string list" where
  "range_items [] = []"
| "range_items (r # rs) = print_range r # map (\<lambda>r. CHR '' '' # print_range r) rs"

lemma print_range_no_comma: "CHR '','' \<notin> set (print_range r)"
  using print_range_chars [of "CHR '',''" r] not_digits(2) by auto

lemma split_print_ranges: "rs \<noteq> [] \<Longrightarrow> split_at (CHR '','') (print_ranges rs) = range_items rs"
proof (induction rs rule: induct_list012)
  case (2 r)
  then show ?case using print_range_no_comma by (simp add: print_ranges_def split_at_none)
next
  case (3 r q rs)
  have "print_ranges (r # q # rs) = print_range r @ CHR '','' # CHR '' '' # print_ranges (q # rs)"
    by (simp add: print_ranges_def)
  moreover have "split_at (CHR '','') (CHR '' '' # s) = (CHR '' '' # hd (split_at (CHR '','') s)) # tl (split_at (CHR '','') s)" for s
    by (cases "split_at (CHR '','') s") simp_all
  ultimately show ?case
    using 3 print_range_no_comma by (simp add: split_at_append)
qed simp

lemma print_range_front: "print_range r \<noteq> []" "hd (print_range r) \<noteq> CHR '' ''" "is_digit (hd (print_range r))" "is_digit (last (print_range r))"
proof -
  have d: "decimal n \<noteq> []" "is_digit (hd (decimal n))" "is_digit (last (decimal n))" for n
    using digits_plain(1,4) [OF digits_decimal, of n] digits_plain(2) [OF digits_decimal, of "last (decimal n)" n] by simp_all
  then show "print_range r \<noteq> []" "is_digit (hd (print_range r))" "is_digit (last (print_range r))"
    by (simp_all add: print_range_def)
  then show "hd (print_range r) \<noteq> CHR '' ''" using not_digits by metis
qed

lemma overallExp_print: "rs \<noteq> [] \<Longrightarrow> overallExp (print_ranges rs)"
proof -
  have "dropWhile (\<lambda>c. c = CHR '' '') (print_range r) = print_range r" for r
    using print_range_front(1,2) [of r] by (cases "print_range r") simp_all
  then show "rs \<noteq> [] \<Longrightarrow> overallExp (print_ranges rs)"
    by (cases rs) (simp_all add: overallExp_def split_print_ranges is_range_print list_all_iff)
qed

lemma trimmed_print: "rs \<noteq> [] \<Longrightarrow> trimmed (print_ranges rs) = print_ranges rs \<and> print_ranges rs \<noteq> ''*''"
proof -
  have ends: "rs \<noteq> [] \<Longrightarrow> print_ranges rs \<noteq> [] \<and> is_digit (hd (print_ranges rs)) \<and> is_digit (last (print_ranges rs))" for rs
    by (induction rs rule: induct_list012) (use print_range_front in \<open>auto simp: print_ranges_def\<close>)
  assume "rs \<noteq> []"
  from ends [OF this] digit_plain not_digits(4) show ?thesis
    by (metis list.sel(1) trimmed_id)
qed

section \<open>Reading the leds of an adjustment\<close>

definition led_ranges_valid :: "nat \<Rightarrow> (nat \<times> nat) list \<Rightarrow> bool" where
  "led_ranges_valid n rs \<longleftrightarrow> list_all (\<lambda>(a, b). a \<le> b \<and> b < n) rs"

definition in_led_ranges :: "nat \<Rightarrow> (nat \<times> nat) list \<Rightarrow> bool" where
  "in_led_ranges j rs \<longleftrightarrow> list_ex (\<lambda>(a, b). a \<le> j \<and> j \<le> b) rs"

text \<open>The leds that a list of items, each one a printed range with or without a space, points at an adjustment.\<close>

lemma set_ranges_items:
  assumes "\<forall>(a, b) \<in> set rs. a < 2 ^ 31 \<and> b < 2 ^ 31" "list_all2 (\<lambda>item r. \<exists>pre \<in> {[], '' ''}. item = pre @ print_range r) items rs"
  shows "if led_ranges_valid (length (mca_ledAdjustments m)) rs
    then \<exists>m'. set_ranges i items m = Inr m' \<and> mca_adjustment m' = mca_adjustment m \<and>
      length (mca_ledAdjustments m') = length (mca_ledAdjustments m) \<and>
      (\<forall>j < length (mca_ledAdjustments m). mca_ledAdjustments m' ! j =
         (if in_led_ranges j rs then mca_getAdjustment m i else mca_ledAdjustments m ! j))
    else set_ranges i items m = Inl AssertFail"
  using assms(2,1)
proof (induction arbitrary: m)
  case (Cons item items r rs)
  obtain a b where r: "r = (a, b)" by force
  from Cons.hyps Cons.prems r obtain pre where item: "item = pre @ print_range (a, b)" "pre \<in> {[], '' ''}" "a < 2 ^ 31" "b < 2 ^ 31"
    by auto
  have s: "set_range i item m = mca_setAdjustmentForLed m i a b" using set_range_print [OF item(3,4,2)] item(1) by simp
  show ?case
  proof (cases "a \<le> b \<and> b < length (mca_ledAdjustments m)")
    case True
    then obtain m1 where m1: "set_range i item m = Inr m1" "mca_adjustment m1 = mca_adjustment m"
        "length (mca_ledAdjustments m1) = length (mca_ledAdjustments m)"
        "\<forall>j < length (mca_ledAdjustments m). mca_ledAdjustments m1 ! j =
           (if a \<le> j \<and> j \<le> b then mca_getAdjustment m i else mca_ledAdjustments m ! j)"
      using setAdjustmentForLed_effect [of a b m i] s by auto
    have "mca_getAdjustment m1 i = mca_getAdjustment m i" using m1(2) by (simp add: mca_getAdjustment_def)
    note IH = Cons.IH [of m1, unfolded m1(2,3) this]
    have step: "set_ranges i (item # items) m = set_ranges i items m1" using m1(1) by simp
    have valid: "led_ranges_valid n (r # rs) = led_ranges_valid n rs" if "n = length (mca_ledAdjustments m)" for n
      using True r that by (simp add: led_ranges_valid_def)
    have ins: "in_led_ranges j (r # rs) \<longleftrightarrow> a \<le> j \<and> j \<le> b \<or> in_led_ranges j rs" for j
      using r by (simp add: in_led_ranges_def)
    show ?thesis
    proof (cases "led_ranges_valid (length (mca_ledAdjustments m)) rs")
      case True
      with IH Cons.prems obtain m' where m': "set_ranges i items m1 = Inr m'" "mca_adjustment m' = mca_adjustment m"
          "length (mca_ledAdjustments m') = length (mca_ledAdjustments m)"
          "\<forall>j < length (mca_ledAdjustments m). mca_ledAdjustments m' ! j =
             (if in_led_ranges j rs then mca_getAdjustment m i else mca_ledAdjustments m1 ! j)"
        by auto
      then have "mca_ledAdjustments m' ! j = (if in_led_ranges j (r # rs) then mca_getAdjustment m i else mca_ledAdjustments m ! j)"
        if "j < length (mca_ledAdjustments m)" for j
        using m1(4) that ins by simp
      with m' True show ?thesis unfolding step valid [OF refl] by simp
    next
      case False
      with IH Cons.prems show ?thesis unfolding step valid [OF refl] by simp
    qed
  next
    case False
    then have "set_range i item m = Inl AssertFail" using s by (auto simp: mca_setAdjustmentForLed_def)
    with False r show ?thesis by (auto simp: led_ranges_valid_def)
  qed
qed (simp add: led_ranges_valid_def in_led_ranges_def)

lemma range_items_all:
  "list_all2 (\<lambda>item r. \<exists>pre \<in> {[], '' ''}. item = pre @ print_range r) (range_items rs) rs"
  by (cases rs) (auto simp: list.rel_map intro!: list.rel_refl_strong)

text \<open>
  C15.  The leds of a colour adjustment, given as a list of numbers and ranges: when all of them are
  ranges of existing leds, exactly the leds they name point at the (first) adjustment of that id and
  the others keep theirs; a range that is reversed or leaves the led string ends the program in an
  assertion.
\<close>

theorem led_ranges_exact:
  assumes "json_lookup config ''leds'' = JString (print_ranges rs)" "rs \<noteq> []"
    and "\<forall>(a, b) \<in> set rs. a < 2 ^ 31 \<and> b < 2 ^ 31"
  shows "let m1 = mca_addAdjustment m (createColorAdjustment pw config) in
    if led_ranges_valid (length (mca_ledAdjustments m)) rs
    then \<exists>m'. add_adjustment pw ledCnt config m = Inr m' \<and> mca_adjustment m' = mca_adjustment m1 \<and>
      length (mca_ledAdjustments m') = length (mca_ledAdjustments m) \<and>
      (\<forall>j < length (mca_ledAdjustments m). mca_ledAdjustments m' ! j =
         (if in_led_ranges j rs then mca_getAdjustment m1 (json_string ''default'' (json_lookup config ''id''))
          else mca_ledAdjustments m ! j))
    else add_adjustment pw ledCnt config m = Inl AssertFail"
proof -
  let ?m1 = "mca_addAdjustment m (createColorAdjustment pw config)"
  have add: "add_adjustment pw ledCnt config m =
      set_ranges (json_string ''default'' (json_lookup config ''id'')) (range_items rs) ?m1"
    using assms(1,2) overallExp_print trimmed_print split_print_ranges
    by (simp add: add_adjustment_def createColorAdjustment_def)
  have leds: "mca_ledAdjustments ?m1 = mca_ledAdjustments m" by (simp add: mca_addAdjustment_def)
  show ?thesis
    using set_ranges_items [OF assms(3) range_items_all, of ?m1 "json_string ''default'' (json_lookup config ''id'')"]
    unfolding Let_def add leds .
qed

theorem led_ranges_exact_witness:
  "\<exists>m'. add_adjustment (\<lambda>x y. 1) 5 [(''id'', JString ''a''), (''leds'', JString (print_ranges [(0, 1), (3, 3)]))] (mca_new 5) = Inr m' \<and>
     mca_ledAdjustments m' ! 1 = Some 0 \<and> mca_ledAdjustments m' ! 2 = None \<and> mca_ledAdjustments m' ! 3 = Some 0"
proof -
  let ?c = "[(''id'', JString ''a''), (''leds'', JString (print_ranges [(0, 1), (3, 3)]))]"
  have c: "json_lookup ?c ''leds'' = JString (print_ranges [(0, 1), (3, 3)])" by (simp add: json_lookup_def)
  have v: "led_ranges_valid 5 [(0, 1), (3, 3)]" "\<not> in_led_ranges 2 [(0, 1), (3, 3)]" "in_led_ranges 1 [(0, 1), (3, 3)]"
    "in_led_ranges 3 [(0, 1), (3, 3)]" by (simp_all add: led_ranges_valid_def in_led_ranges_def)
  have "mca_getAdjustment (mca_addAdjustment (mca_new 5) (createColorAdjustment (\<lambda>x y. 1) ?c)) ''a'' = Some 0"
    by (simp add: mca_getAdjustment_def mca_addAdjustment_def mca_new_def createColorAdjustment_def json_lookup_def)
  moreover have "\<forall>(a, b) \<in> set [(0, 1), (3, 3)]. a < (2 :: nat) ^ 31 \<and> b < (2 :: nat) ^ 31" by simp
  moreover have "length (mca_ledAdjustments (mca_new 5)) = 5" "mca_ledAdjustments (mca_new 5) ! 2 = None"
    by (simp_all add: mca_new_def)
  ultimately show ?thesis
    using led_ranges_exact [OF c, of "mca_new 5" "\<lambda>x y. 1" 5] v by (auto simp: json_lookup_def Let_def)
qed

section \<open>From a configuration to a running core\<close>

lemma setAdjustmentForLed_same: "mca_setAdjustmentForLed m i a b = Inr m' \<Longrightarrow> mca_adjustment m' = mca_adjustment m"
  by (auto simp: mca_setAdjustmentForLed_def split: if_splits)

lemma mca_wf_set_range:
  assumes "mca_wf m" "set_range i item m = Inr m'"
  shows "mca_wf m' \<and> mca_adjustment m' = mca_adjustment m"
proof -
  obtain a b where "set_range i item m = mca_setAdjustmentForLed m i a b"
    unfolding set_range_def Let_def by metis
  then show ?thesis using assms mca_wf_setAdjustmentForLed setAdjustmentForLed_same by metis
qed

lemma mca_wf_set_ranges: "mca_wf m \<Longrightarrow> set_ranges i items m = Inr m' \<Longrightarrow> mca_wf m' \<and> mca_adjustment m' = mca_adjustment m"
proof (induction items arbitrary: m)
  case (Cons item items)
  then obtain m1 where m1: "set_range i item m = Inr m1" "set_ranges i items m1 = Inr m'" by (cases "set_range i item m") auto
  with Cons.IH [of m1] mca_wf_set_range [OF Cons.prems(1) m1(1)] show ?case by simp
qed simp

lemma add_adjustment_wf:
  assumes "mca_wf m" "add_adjustment pw n config m = Inr m'"
  shows "mca_wf m' \<and> mca_adjustment m' = mca_adjustment m @ [createColorAdjustment pw config]"
proof -
  let ?m1 = "mca_addAdjustment m (createColorAdjustment pw config)"
  have "mca_wf ?m1" "mca_adjustment ?m1 = mca_adjustment m @ [createColorAdjustment pw config]"
    using assms(1) mca_wf_addAdjustment by (simp_all add: mca_addAdjustment_def)
  then show ?thesis
    using assms(2) unfolding add_adjustment_def Let_def
    by (metis (no_types, lifting) mca_wf_set_ranges mca_wf_setAdjustmentForLed setAdjustmentForLed_same sum.inject(2))
qed

lemma add_adjustments_wf:
  "mca_wf m \<Longrightarrow> add_adjustments pw n vs m = Inr m' \<Longrightarrow>
    mca_wf m' \<and> mca_adjustment m' = mca_adjustment m @ map (\<lambda>v. createColorAdjustment pw (json_object v)) vs"
proof (induction vs arbitrary: m)
  case (Cons v vs)
  then obtain m1 where m1: "add_adjustment pw n (json_object v) m = Inr m1" "add_adjustments pw n vs m1 = Inr m'"
    by (cases "add_adjustment pw n (json_object v) m") auto
  with Cons.IH [of m1] add_adjustment_wf [OF Cons.prems(1) m1(1)] show ?case by simp
qed simp

lemma createRgbTransform_plain [simp]:
  "tr_backlightColored (createRgbTransform pw c) = json_bool False (json_lookup c ''backlightColored'')"
  by (simp add: createRgbTransform_def tr_init_def tr_setGamma_def tr_initializeMapping_def tr_setBacklightThreshold_def
      tr_setBacklightColored_def tr_setBrightness_def Let_def)

lemma verify_loop_plain:
  "verify_loop pw as ls = (ok, as') \<Longrightarrow> \<forall>a \<in> set as. \<not> tr_backlightColored (ca_rgbTransform a) \<Longrightarrow>
    \<forall>i. Some i \<in> set ls \<longrightarrow> i < length as \<Longrightarrow>
    \<forall>a \<in> set as'. \<not> tr_backlightColored (ca_rgbTransform a)"
proof (induction pw as ls arbitrary: as' rule: verify_loop.induct)
  case (3 pw as i ls)
  have "i < length as" using "3.prems"(3) by simp
  then have "\<not> tr_backlightColored (ca_rgbTransform (reset_brightness pw (as ! i)))"
    using "3.prems"(2) by (simp add: reset_brightness_def tr_setBrightness_def tr_setBacklightThreshold_def Let_def)
  then have "\<forall>a \<in> set (as[i := reset_brightness pw (as ! i)]). \<not> tr_backlightColored (ca_rgbTransform a)"
    using "3.prems"(2) set_update_subset_insert by (metis insertE subsetD)
  then show ?case using "3.IH" [of as'] "3.prems" by simp
qed auto

definition uncoloured :: "json \<Rightarrow> bool" where
  "uncoloured v \<longleftrightarrow> \<not> json_bool False (json_lookup (json_object v) ''backlightColored'')"

lemma createLedColorsAdjustment_ok:
  assumes "createLedColorsAdjustment pw n color = Inr m" "list_all uncoloured (json_array (json_lookup color ''channelAdjustment''))"
  shows "fst (mca_verifyAdjustments pw m) \<longleftrightarrow> None \<notin> set (mca_ledAdjustments m)"
    "fst (mca_verifyAdjustments pw m) \<Longrightarrow> adjust_ok (snd (mca_verifyAdjustments pw m))"
proof -
  have wf: "mca_wf m" and "mca_adjustment m = map (\<lambda>v. createColorAdjustment pw (json_object v)) (json_array (json_lookup color ''channelAdjustment''))"
    using add_adjustments_wf [OF mca_wf_new assms(1) [unfolded createLedColorsAdjustment_def]] by (simp_all add: mca_new_def)
  then have plain: "\<forall>a \<in> set (mca_adjustment m). \<not> tr_backlightColored (ca_rgbTransform a)"
    using assms(2) by (auto simp: createColorAdjustment_def uncoloured_def list_all_iff)
  obtain ok as' where v: "verify_loop pw (mca_adjustment m) (mca_ledAdjustments m) = (ok, as')" by force
  show "fst (mca_verifyAdjustments pw m) \<longleftrightarrow> None \<notin> set (mca_ledAdjustments m)"
    using verify_loop_False [of pw "mca_adjustment m" "mca_ledAdjustments m"]
    by (simp add: mca_verifyAdjustments_def split_beta)
  have "\<forall>i. Some i \<in> set (mca_ledAdjustments m) \<longrightarrow> i < length (mca_adjustment m)" using wf by (simp add: mca_wf_def)
  with verify_loop_plain [OF v plain] verify_loop_frame [OF v] v show "adjust_ok (snd (mca_verifyAdjustments pw m))"
    by (simp add: mca_verifyAdjustments_def adjust_ok_def)
qed

lemma createColorSmoothing_fresh: "createColorSmoothing j1 j2 c = Inr s \<Longrightarrow> sm_previousValues s = []"
  by (auto simp: createColorSmoothing_def sm_setEnable_def sm_new_def Let_def split: if_splits)

text \<open>The led string, the cloned leds and the adjustments of a configuration.\<close>

definition config_leds :: "(string \<times> json) list \<Rightarrow> Led list" where
  "config_leds config =
     createLedString (led_entries (json_lookup config ''leds'')) (createColorOrder (json_object (json_lookup config ''device'')))"

definition config_clones :: "(string \<times> json) list \<Rightarrow> Led list" where
  "config_clones config =
     createLedStringClone (led_entries (json_lookup config ''leds'')) (createColorOrder (json_object (json_lookup config ''device'')))"

definition config_color :: "(string \<times> json) list \<Rightarrow> (string \<times> json) list" where
  "config_color config = json_object (json_lookup config ''color'')"

text \<open>
  C7.  From the configuration to the running core: when the sections are readable, the clones
  follow the led they copy and no backlight is coloured, the core starts, without an undefined
  operation and in a reachable state, exactly when every led has a colour adjustment; otherwise the
  constructor throws.
\<close>

theorem config_starts:
  assumes "layout_ok (config_leds config) (config_clones config)"
    and "list_all uncoloured (json_array (json_lookup (config_color config) ''channelAdjustment''))"
    and "createLedColorsAdjustment pw (length (config_leds config)) (config_color config) = Inr adj"
    and "createMessageForwarder (json_object (json_lookup config ''forwarder'')) = Inr fwd"
    and "createColorSmoothing junk2 junk3 (json_object (json_lookup config ''smoothing'')) = Inr smooth"
  shows "if None \<in> set (mca_ledAdjustments adj)
    then hyp_create pw clk effs (junk1, junk2, junk3) config = Inl RuntimeError
    else \<exists>cfg h. hyp_create pw clk effs (junk1, junk2, junk3) config = Inr h \<and> core_at pw clk cfg junk1 h \<and>
      cfg_leds cfg = config_leds config \<and> cfg_clones cfg = config_clones config"
proof -
  let ?dev = "json_object (json_lookup config ''device'')"
  define cfg where "cfg =
      \<lparr>hc_leds = led_entries (json_lookup config ''leds''), hc_order = createColorOrder ?dev, hc_adjustment = adj, hc_smooth = smooth,
       hc_mapping = mappingTypeToInt (json_string [] (json_lookup (config_color config) ''imageToLedMappingType'')),
       hc_ledCount = Some (json_int (int (length (config_leds config))) (json_lookup ?dev ''ledCount'')),
       hc_effects = effs, hc_forwarding = forwardingEnabled fwd\<rparr>"
  have leds: "cfg_leds cfg = config_leds config" "cfg_clones cfg = config_clones config"
    by (simp_all add: cfg_def config_leds_def config_clones_def)
  note adj = createLedColorsAdjustment_ok [OF assms(3,2)]
  have eq: "hyp_create pw clk effs (junk1, junk2, junk3) config =
      (if None \<in> set (mca_ledAdjustments adj) then Inl RuntimeError else hyp_new pw clk cfg junk1)"
    using assms(3-5) adj(1)
    by (simp add: hyp_create_def Let_def config_leds_def [symmetric] config_color_def [symmetric] cfg_def)
  show ?thesis
  proof (cases "None \<in> set (mca_ledAdjustments adj)")
    case False
    then have "fst (mca_verifyAdjustments pw adj)" using adj(1) by simp
    then have "cfg_ok pw cfg"
      using assms(1) adj(2) createColorSmoothing_fresh [OF assms(5)] leds by (simp add: cfg_ok_def) (simp add: cfg_def)
    moreover from this obtain h where "hyp_new pw clk cfg junk1 = Inr h" using hyp_new_ok by blast
    ultimately show ?thesis using False eq leds by (auto simp: core_at_def intro: reachable.Start)
  qed (simp add: eq)
qed

definition tiny_config :: "(string \<times> json) list" where
  "tiny_config =
     [(''leds'', JArray [JObject [(''index'', JDouble 0)], JObject [(''index'', JDouble 1)]]),
      (''color'', JObject [(''channelAdjustment'', JArray [JObject [(''leds'', JString ''*'')]])])]"

lemma tiny_config_leds:
  "led_entries (json_lookup tiny_config ''leds'') =
     map (\<lambda>i. \<lparr>cfg_index = i, cfg_clone = Some (-1), cfg_hmin = 0, cfg_hmax = 0, cfg_vmin = 0, cfg_vmax = 0, cfg_order = None\<rparr>) [0, 1]"
  by (simp add: tiny_config_def led_entries_def led_entry_def json_lookup_def Let_def)

lemma tiny_config_layout: "length (config_leds tiny_config) = 2" "config_clones tiny_config = []"
  "layout_ok (config_leds tiny_config) (config_clones tiny_config)"
  unfolding config_leds_def config_clones_def tiny_config_leds
  by (simp_all add: createLedString_def createLedStringClone_def clone_of_def Let_def layout_ok_def clones_ok_def backward_def)

lemma tiny_config_adjustment:
  "\<exists>adj. createLedColorsAdjustment pw 2 (config_color tiny_config) = Inr adj \<and> None \<notin> set (mca_ledAdjustments adj)"
proof -
  let ?m = "mca_addAdjustment (mca_new 2) (createColorAdjustment pw [(''leds'', JString ''*'')])"
  have i: "ca_id (createColorAdjustment pw [(''leds'', JString ''*'')]) = ''default''"
    by (simp add: createColorAdjustment_def json_lookup_def)
  have "trimmed ''*'' = ''*''" by (rule trimmed_id) (simp add: is_space_def)
  moreover have "as_unsigned 1 = 1" by (simp add: as_unsigned_def)
  ultimately have "createLedColorsAdjustment pw 2 (config_color tiny_config) = mca_setAdjustmentForLed ?m ''default'' 0 1"
    by (simp add: createLedColorsAdjustment_def config_color_def tiny_config_def json_lookup_def add_adjustment_def i Let_def
        res_bind_def split: sum.split)
  moreover have "length (mca_ledAdjustments ?m) = 2" "mca_getAdjustment ?m ''default'' = Some 0"
    by (simp_all add: mca_addAdjustment_def mca_new_def mca_getAdjustment_def i)
  ultimately obtain m' where "createLedColorsAdjustment pw 2 (config_color tiny_config) = Inr m'"
      "length (mca_ledAdjustments m') = 2" "\<forall>j < 2. mca_ledAdjustments m' ! j = Some 0"
    using setAdjustmentForLed_effect [of 0 1 ?m "''default''"] by auto
  then show ?thesis by (auto simp: in_set_conv_nth)
qed

theorem config_starts_witness:
  "\<exists>cfg h. hyp_create (\<lambda>x y. 1) (\<lambda>n. int n) [] (7, 0, 0) tiny_config = Inr h \<and> core_at (\<lambda>x y. 1) (\<lambda>n. int n) cfg 7 h \<and>
     length (cfg_leds cfg) = 2"
proof -
  obtain adj where adj: "createLedColorsAdjustment (\<lambda>x y. 1) (length (config_leds tiny_config)) (config_color tiny_config) = Inr adj"
      "None \<notin> set (mca_ledAdjustments adj)"
    using tiny_config_adjustment tiny_config_layout(1) by metis
  have plain: "list_all uncoloured (json_array (json_lookup (config_color tiny_config) ''channelAdjustment''))"
    by (simp add: config_color_def tiny_config_def json_lookup_def uncoloured_def)
  have fwd: "createMessageForwarder (json_object (json_lookup tiny_config ''forwarder'')) = Inr fw_new"
    by (simp add: createMessageForwarder_def tiny_config_def json_lookup_def)
  have "dbl (1000 / 25 :: rat) = of_int 40" using dbl.rnd_int [of 40] by simp
  then have "\<exists>s. createColorSmoothing 0 0 (json_object (json_lookup tiny_config ''smoothing'')) = Inr s"
    by (simp add: createColorSmoothing_def tiny_config_def json_lookup_def Let_def trunc_rat_def)
  with config_starts [OF tiny_config_layout(3) plain adj(1) fwd, of 0 0 _ "\<lambda>n. int n" "[]" 7] adj(2) tiny_config_layout(1)
  show ?thesis by force
qed

end
