(* ===== verification/Resampler.thy ===== *)
theory Resampler
  imports Images Doubles "HOL-Library.Signed_Division"
begin

text \<open>
  From the memory of a frame grabber to a picture (\<open>libsrc/utils/ImageResampler.cpp\<close>, with
  \<open>utils/VideoMode.h\<close> and \<open>utils/PixelFormat.h\<close>): cropping, decimation, the conversion of the pixel
  formats and the picture the result is written to.  Sums of sizes are taken to fit an \<open>int\<close>, the
  offset of a pixel is checked.
\<close>

section \<open>Modes and formats\<close>

datatype VideoMode = VIDEO_2D | VIDEO_3DSBS | VIDEO_3DTAB

text \<open>\<open>utils/GrabbingMode.h\<close>: what the player does, for the grabbers and the checker of Kodi.\<close>

datatype GrabbingMode =
    GRABBINGMODE_OFF | GRABBINGMODE_VIDEO | GRABBINGMODE_PAUSE | GRABBINGMODE_PHOTO | GRABBINGMODE_AUDIO
  | GRABBINGMODE_MENU | GRABBINGMODE_SCREENSAVER | GRABBINGMODE_INVALID

datatype PixelFormat =
    PIXELFORMAT_YUYV | PIXELFORMAT_UYVY | PIXELFORMAT_BGR16 | PIXELFORMAT_BGR24 | PIXELFORMAT_RGB32
  | PIXELFORMAT_BGR32 | PIXELFORMAT_NO_CHANGE

definition tolower :: "char \<Rightarrow> char" where
  "tolower c = (let n = of_char c :: nat in if 65 \<le> n \<and> n \<le> 90 then char_of (n + 32) else c)"

definition parse3DMode :: "string \<Rightarrow> VideoMode" where
  "parse3DMode videoMode =
     (let videoMode = map tolower videoMode in
      if videoMode = ''3DTAB'' then VIDEO_3DTAB
      else if videoMode = ''3DSBS'' then VIDEO_3DSBS
      else VIDEO_2D)"

definition parsePixelFormat :: "string \<Rightarrow> PixelFormat" where
  "parsePixelFormat pixelFormat =
     (let pixelFormat = map tolower pixelFormat in
      if pixelFormat = ''yuyv'' then PIXELFORMAT_YUYV
      else if pixelFormat = ''uyvy'' then PIXELFORMAT_UYVY
      else if pixelFormat = ''bgr16'' then PIXELFORMAT_BGR16
      else if pixelFormat = ''bgr24'' then PIXELFORMAT_BGR24
      else if pixelFormat = ''rgb32'' then PIXELFORMAT_RGB32
      else if pixelFormat = ''bgr32'' then PIXELFORMAT_BGR32
      else PIXELFORMAT_NO_CHANGE)"

section \<open>The resampler\<close>

record resampler =
  rs_horizontalDecimation :: int
  rs_verticalDecimation :: int
  rs_cropLeft :: int
  rs_cropRight :: int
  rs_cropTop :: int
  rs_cropBottom :: int
  rs_videoMode :: VideoMode

definition rs_new :: resampler where
  "rs_new = \<lparr>rs_horizontalDecimation = 1, rs_verticalDecimation = 1, rs_cropLeft = 0, rs_cropRight = 0,
     rs_cropTop = 0, rs_cropBottom = 0, rs_videoMode = VIDEO_2D\<rparr>"

definition setHorizontalPixelDecimation :: "int \<Rightarrow> resampler \<Rightarrow> resampler" where
  "setHorizontalPixelDecimation decimator r = r\<lparr>rs_horizontalDecimation := decimator\<rparr>"

definition setVerticalPixelDecimation :: "int \<Rightarrow> resampler \<Rightarrow> resampler" where
  "setVerticalPixelDecimation decimator r = r\<lparr>rs_verticalDecimation := decimator\<rparr>"

definition setCropping :: "int \<Rightarrow> int \<Rightarrow> int \<Rightarrow> int \<Rightarrow> resampler \<Rightarrow> resampler" where
  "setCropping cropLeft cropRight cropTop cropBottom r =
     r\<lparr>rs_cropLeft := cropLeft, rs_cropRight := cropRight, rs_cropTop := cropTop, rs_cropBottom := cropBottom\<rparr>"

definition set3D :: "VideoMode \<Rightarrow> resampler \<Rightarrow> resampler" where
  "set3D mode r = r\<lparr>rs_videoMode := mode\<rparr>"

text \<open>Colours from luma and chroma; \<open>>> 8\<close> of a negative number rounds down.\<close>

definition clamp_u8 :: "int \<Rightarrow> byte" where
  "clamp_u8 x = (if x < 0 then 0 else if x > 255 then 255 else u8 x)"

definition yuv2rgb :: "byte \<Rightarrow> byte \<Rightarrow> byte \<Rightarrow> ColorRgb" where
  "yuv2rgb y u v =
     (let c = uint y - 16; d = uint u - 128; e = uint v - 128
      in rgb (clamp_u8 ((298 * c + 409 * e + 128) div 256))
           (clamp_u8 ((298 * c - 100 * d - 208 * e + 128) div 256))
           (clamp_u8 ((298 * c + 516 * d + 128) div 256)))"

definition int32 :: "int \<Rightarrow> int res" where
  "int32 n = (if - (2 ^ 31) \<le> n \<and> n < 2 ^ 31 then Inr n else Inl Undefined)"

definition data_at :: "byte list \<Rightarrow> int \<Rightarrow> byte res" where
  "data_at data i = (if 0 \<le> i then peek data (nat i) else Inl Undefined)"

text \<open>The bytes a pixel is made of, relative to its own, and the colour they give.\<close>

definition pixel_bytes :: "PixelFormat \<Rightarrow> bool \<Rightarrow> int list" where
  "pixel_bytes fmt ev =
     (case fmt of
        PIXELFORMAT_UYVY \<Rightarrow> [1, if ev then 0 else -2, if ev then 2 else 0]
      | PIXELFORMAT_YUYV \<Rightarrow> [0, if ev then 1 else -1, if ev then 3 else 1]
      | PIXELFORMAT_BGR16 \<Rightarrow> [0, 1]
      | PIXELFORMAT_NO_CHANGE \<Rightarrow> []
      | _ \<Rightarrow> [0, 1, 2])"

definition pixel_size :: "PixelFormat \<Rightarrow> int" where
  "pixel_size fmt =
     (case fmt of PIXELFORMAT_BGR24 \<Rightarrow> 3 | PIXELFORMAT_RGB32 \<Rightarrow> 4 | PIXELFORMAT_BGR32 \<Rightarrow> 4
      | PIXELFORMAT_NO_CHANGE \<Rightarrow> 0 | _ \<Rightarrow> 2)"

definition pixel_color :: "PixelFormat \<Rightarrow> byte list \<Rightarrow> ColorRgb" where
  "pixel_color fmt bs =
     (case fmt of
        PIXELFORMAT_UYVY \<Rightarrow> yuv2rgb (bs ! 0) (bs ! 1) (bs ! 2)
      | PIXELFORMAT_YUYV \<Rightarrow> yuv2rgb (bs ! 0) (bs ! 1) (bs ! 2)
      | PIXELFORMAT_BGR16 \<Rightarrow>
          rgb (bs ! 1 AND 0xF8)
            (push_bit 2 (push_bit 3 (bs ! 1 AND 0x7) OR drop_bit 5 (bs ! 0 AND 0xE0)))
            (push_bit 3 (bs ! 0 AND 0x1F))
      | PIXELFORMAT_RGB32 \<Rightarrow> rgb (bs ! 0) (bs ! 1) (bs ! 2)
      | _ \<Rightarrow> rgb (bs ! 2) (bs ! 1) (bs ! 0))"

fun read_bytes :: "byte list \<Rightarrow> int \<Rightarrow> int list \<Rightarrow> byte list res" where
  "read_bytes data index [] = Inr []"
| "read_bytes data index (k # ks) =
     res_bind (data_at data (index + k)) (\<lambda>b. res_bind (read_bytes data index ks) (\<lambda>bs. Inr (b # bs)))"

definition source_pixel :: "PixelFormat \<Rightarrow> byte list \<Rightarrow> int \<Rightarrow> int \<Rightarrow> int \<Rightarrow> ColorRgb res" where
  "source_pixel fmt data lineLength xSource ySource =
     res_bind (int32 (lineLength * ySource + xSource * pixel_size fmt)) (\<lambda>index.
     res_bind (read_bytes data index (pixel_bytes fmt (even xSource))) (\<lambda>bs. Inr (pixel_color fmt bs)))"

definition out_size :: "int \<Rightarrow> int \<Rightarrow> int \<Rightarrow> int \<Rightarrow> int res" where
  "out_size n crop crop' decimation =
     (if decimation = 0 then Inl Undefined
      else Inr ((n - crop - crop' - decimation sdiv 2 + decimation - 1) sdiv decimation))"

definition put_pixel ::
  "PixelFormat \<Rightarrow> byte list \<Rightarrow> int \<Rightarrow> nat \<Rightarrow> nat \<Rightarrow> int \<Rightarrow> int \<Rightarrow> ColorRgb image \<Rightarrow> ColorRgb image res" where
  "put_pixel fmt data lineLength xDest yDest xSource ySource im =
     (if fmt = PIXELFORMAT_NO_CHANGE then Inr im
      else res_bind (source_pixel fmt data lineLength xSource ySource) (\<lambda>c. img_put im xDest yDest c))"

definition processImage ::
  "(nat \<Rightarrow> ColorRgb) \<Rightarrow> byte list \<Rightarrow> int \<Rightarrow> int \<Rightarrow> int \<Rightarrow> PixelFormat \<Rightarrow> resampler \<Rightarrow> ColorRgb image \<Rightarrow> ColorRgb image res" where
  "processImage junk data width height lineLength fmt r im =
     (let hd = rs_horizontalDecimation r; vd = rs_verticalDecimation r;
          cropRight = (if rs_videoMode r = VIDEO_3DSBS then width sdiv 2 else rs_cropRight r);
          cropBottom = (if rs_videoMode r = VIDEO_3DTAB then height sdiv 2 else rs_cropBottom r)
      in res_bind (out_size width (rs_cropLeft r) cropRight hd) (\<lambda>outputWidth.
         res_bind (out_size height (rs_cropTop r) cropBottom vd) (\<lambda>outputHeight.
         let im = (if img_height im \<noteq> as_unsigned outputHeight \<and> img_width im \<noteq> as_unsigned outputWidth
                   then img_resize junk (as_unsigned outputWidth) (as_unsigned outputHeight) im else im)
         in index_loop (\<lambda>yDest. index_loop (\<lambda>xDest.
              put_pixel fmt data lineLength xDest yDest
                (rs_cropLeft r + hd sdiv 2 + int xDest * hd) (rs_cropTop r + vd sdiv 2 + int yDest * vd))
              [0 ..< nat outputWidth]) [0 ..< nat outputHeight] im)))"

section \<open>The modes of the command line and of the configuration\<close>

text \<open>
  The text of a 3D mode is converted to lower case and then compared with upper-case names: no
  text selects a 3D mode.
\<close>

theorem parse3DMode_always_2D: "parse3DMode videoMode = VIDEO_2D"
proof -
  have low: "tolower c \<noteq> CHR ''D''" for c
  proof
    assume "tolower c = CHR ''D''"
    then have n: "(of_char (tolower c) :: nat) = 68" by simp
    then show False
      by (cases "65 \<le> (of_char c :: nat) \<and> (of_char c :: nat) \<le> 90") (auto simp: tolower_def Let_def)
  qed
  have "CHR ''D'' \<notin> set (map tolower videoMode)" unfolding set_map image_iff using low by metis
  then have "map tolower videoMode \<noteq> ''3DTAB''" "map tolower videoMode \<noteq> ''3DSBS''" by (metis list.set_intros)+
  then show ?thesis by (simp add: parse3DMode_def)
qed

section \<open>Writing a rectangle\<close>

definition pix :: "ColorRgb image \<Rightarrow> nat \<Rightarrow> nat \<Rightarrow> ColorRgb" where
  "pix im x y = img_pixels im ! toIndex im x y"

definition same_size :: "ColorRgb image \<Rightarrow> ColorRgb image \<Rightarrow> bool" where
  "same_size im' im \<longleftrightarrow> img_wf im' \<and> img_width im' = img_width im \<and> img_height im' = img_height im"

lemma img_at_pix: "img_wf im \<Longrightarrow> x < img_width im \<Longrightarrow> y < img_height im \<Longrightarrow> img_at im x y = Inr (pix im x y)"
  by (simp add: img_at_ok pix_def)

lemma img_put_pix:
  assumes "img_wf im" "x < img_width im" "y < img_height im"
  shows "\<exists>im'. img_put im x y p = Inr im' \<and> same_size im' im \<and>
    (\<forall>x' < img_width im. \<forall>y'. pix im' x' y' = (if x' = x \<and> y' = y then p else pix im x' y'))"
proof -
  have i: "toIndex im x y < length (img_pixels im)"
    using index_in_image [OF assms(2,3)] assms(1) by (simp add: toIndex_def img_wf_def)
  let ?im = "im\<lparr>img_pixels := (img_pixels im)[toIndex im x y := p]\<rparr>"
  have "pix ?im x' y' = (if x' = x \<and> y' = y then p else pix im x' y')" if "x' < img_width im" for x' y'
    using toIndex_inj [OF that assms(2), of y' y] i by (auto simp: pix_def toIndex_def nth_list_update)
  moreover have "img_put im x y p = Inr ?im" "same_size ?im im"
    using i assms(1) by (simp_all add: img_put_def poke_ok same_size_def img_wf_def)
  ultimately show ?thesis by blast
qed

lemma row_loop:
  assumes step: "\<And>x im'. x < w \<Longrightarrow> same_size im' im \<Longrightarrow> f x im' = img_put im' x y (g x)"
    and "img_wf im" "w \<le> img_width im" "y < img_height im"
  shows "\<exists>im'. index_loop f [0 ..< w] im = Inr im' \<and> same_size im' im \<and>
    (\<forall>x < img_width im. \<forall>y'. pix im' x y' = (if y' = y \<and> x < w then g x else pix im x y'))"
proof -
  have "\<exists>im'. index_loop f [0 ..< m] im = Inr im' \<and> same_size im' im \<and>
    (\<forall>x < img_width im. \<forall>y'. pix im' x y' = (if y' = y \<and> x < m then g x else pix im x y'))" if "m \<le> w" for m
    using that
  proof (induction m)
    case (Suc m)
    then obtain im1 where im1: "index_loop f [0 ..< m] im = Inr im1" "same_size im1 im"
      "\<forall>x < img_width im. \<forall>y'. pix im1 x y' = (if y' = y \<and> x < m then g x else pix im x y')" by auto
    from img_put_pix [of im1 m y "g m"] im1(2) Suc.prems assms(3,4) obtain im2 where
      im2: "img_put im1 m y (g m) = Inr im2" "same_size im2 im1"
        "\<forall>x < img_width im. \<forall>y'. pix im2 x y' = (if x = m \<and> y' = y then g m else pix im1 x y')"
      by (auto simp: same_size_def)
    have "pix im2 x y' = (if y' = y \<and> x < Suc m then g x else pix im x y')" if "x < img_width im" for x y'
      using im1(3) im2(3) that by (auto simp: less_Suc_eq)
    moreover have "index_loop f [0 ..< Suc m] im = Inr im2"
      using im1(1,2) im2(1) step [of m im1] Suc.prems by (simp add: index_loop_append)
    moreover have "same_size im2 im" using im1(2) im2(2) by (simp add: same_size_def)
    ultimately show ?case by blast
  qed (simp add: same_size_def assms(2))
  then show ?thesis by blast
qed

lemma rect_loop:
  assumes step: "\<And>x y im'. x < w \<Longrightarrow> y < h \<Longrightarrow> same_size im' im \<Longrightarrow> f y x im' = img_put im' x y (g x y)"
    and "img_wf im" "w \<le> img_width im" "h \<le> img_height im"
  shows "\<exists>im'. index_loop (\<lambda>y. index_loop (f y) [0 ..< w]) [0 ..< h] im = Inr im' \<and> same_size im' im \<and>
    (\<forall>x < img_width im. \<forall>y < img_height im. pix im' x y = (if y < h \<and> x < w then g x y else pix im x y))"
proof -
  have "\<exists>im'. index_loop (\<lambda>y. index_loop (f y) [0 ..< w]) [0 ..< m] im = Inr im' \<and> same_size im' im \<and>
    (\<forall>x < img_width im. \<forall>y < img_height im. pix im' x y = (if y < m \<and> x < w then g x y else pix im x y))" if "m \<le> h" for m
    using that
  proof (induction m)
    case (Suc m)
    then obtain im1 where im1: "index_loop (\<lambda>y. index_loop (f y) [0 ..< w]) [0 ..< m] im = Inr im1" "same_size im1 im"
      "\<forall>x < img_width im. \<forall>y < img_height im. pix im1 x y = (if y < m \<and> x < w then g x y else pix im x y)" by auto
    have "f m x im' = img_put im' x m (g x m)" if "x < w" "same_size im' im1" for x im'
      using step [of x m im'] that im1(2) Suc.prems by (simp add: same_size_def)
    from row_loop [of w im1 "f m" m "\<lambda>x. g x m", OF this] im1(2) Suc.prems assms(3,4) obtain im2 where
      im2: "index_loop (f m) [0 ..< w] im1 = Inr im2" "same_size im2 im1"
        "\<forall>x < img_width im. \<forall>y'. pix im2 x y' = (if y' = m \<and> x < w then g x m else pix im1 x y')"
      by (auto simp: same_size_def)
    have "pix im2 x y = (if y < Suc m \<and> x < w then g x y else pix im x y)" if "x < img_width im" "y < img_height im" for x y
      using im1(3) im2(3) that by (auto simp: less_Suc_eq)
    moreover have "index_loop (\<lambda>y. index_loop (f y) [0 ..< w]) [0 ..< Suc m] im = Inr im2"
      using im1(1) im2(1) by (simp add: index_loop_append)
    moreover have "same_size im2 im" using im1(2) im2(2) by (simp add: same_size_def)
    ultimately show ?case by blast
  qed (simp add: same_size_def assms(2))
  then show ?thesis by blast
qed

section \<open>Frames that fit their memory\<close>

definition frame_ok :: "PixelFormat \<Rightarrow> byte list \<Rightarrow> int \<Rightarrow> int \<Rightarrow> int \<Rightarrow> bool" where
  "frame_ok fmt data width height lineLength \<longleftrightarrow>
     0 \<le> width \<and> width < 2 ^ 31 \<and> 0 \<le> height \<and> height < 2 ^ 31 \<and> fmt \<noteq> PIXELFORMAT_NO_CHANGE \<and>
     width * pixel_size fmt \<le> lineLength \<and> lineLength * height \<le> int (length data) \<and> lineLength * height < 2 ^ 31 \<and>
     (fmt \<in> {PIXELFORMAT_UYVY, PIXELFORMAT_YUYV} \<longrightarrow> even width)"

definition frame_color :: "PixelFormat \<Rightarrow> byte list \<Rightarrow> int \<Rightarrow> int \<Rightarrow> int \<Rightarrow> ColorRgb" where
  "frame_color fmt data lineLength x y =
     pixel_color fmt (map (\<lambda>k. data ! nat (lineLength * y + x * pixel_size fmt + k)) (pixel_bytes fmt (even x)))"

lemma read_bytes_ok:
  "\<forall>k \<in> set ks. 0 \<le> index + k \<and> index + k < int (length data) \<Longrightarrow>
     read_bytes data index ks = Inr (map (\<lambda>k. data ! nat (index + k)) ks)"
  by (induction ks) (simp_all add: data_at_def peek_ok nat_less_iff)

lemma pixel_bytes_range:
  assumes "k \<in> set (pixel_bytes fmt ev)" "0 \<le> x" "x < width" "ev \<longleftrightarrow> even x"
    and "fmt \<in> {PIXELFORMAT_UYVY, PIXELFORMAT_YUYV} \<Longrightarrow> even width"
  shows "0 \<le> x * pixel_size fmt + k" "x * pixel_size fmt + k < width * pixel_size fmt"
proof -
  have odd: "1 \<le> x" if "\<not> ev" using that assms(2,4) by (cases "x = 0") auto
  have nxt: "x + 1 < width" if "ev" "even width" using that assms(3,4) by (cases "x + 1 = width") auto
  have "x + 1 \<le> width" using assms(3) by simp
  then show "0 \<le> x * pixel_size fmt + k" "x * pixel_size fmt + k < width * pixel_size fmt"
    using assms(1,2,5) odd nxt
    by (cases fmt; cases ev; auto simp: pixel_bytes_def pixel_size_def)+
qed

lemma source_pixel_ok:
  assumes "frame_ok fmt data width height lineLength" "0 \<le> x" "x < width" "0 \<le> y" "y < height"
  shows "source_pixel fmt data lineLength x y = Inr (frame_color fmt data lineLength x y)"
proof -
  note ok = assms(1) [unfolded frame_ok_def]
  let ?i = "lineLength * y + x * pixel_size fmt"
  have ps: "0 \<le> pixel_size fmt" by (cases fmt) (simp_all add: pixel_size_def)
  have wl: "0 \<le> width * pixel_size fmt" using ps ok by simp
  then have l: "0 \<le> lineLength" using ok by linarith
  have "lineLength * (y + 1) \<le> lineLength * height" using assms(5) l by (intro mult_left_mono) simp_all
  then have row: "lineLength * y + lineLength \<le> lineLength * height" by (simp add: distrib_left)
  have rng: "0 \<le> ?i + k \<and> ?i + k < lineLength * height" if "k \<in> set (pixel_bytes fmt (even x))" for k
    using pixel_bytes_range [OF that assms(2,3) refl] ok row l assms(4) by (auto simp: add.assoc)
  have "x * pixel_size fmt \<le> width * pixel_size fmt" using assms(3) ps by (intro mult_right_mono) simp_all
  then have "0 \<le> ?i" "?i < 2 ^ 31" using row ok l assms(2,4) ps by simp_all
  then have "int32 ?i = Inr ?i" by (simp add: int32_def)
  moreover have "\<forall>k \<in> set (pixel_bytes fmt (even x)). 0 \<le> ?i + k \<and> ?i + k < int (length data)"
    using rng ok by fastforce
  ultimately show ?thesis by (simp add: source_pixel_def read_bytes_ok frame_color_def)
qed

text \<open>The size of the result along one side and the position a pixel is taken from.\<close>

definition cells :: "int \<Rightarrow> int \<Rightarrow> int \<Rightarrow> int \<Rightarrow> nat" where
  "cells n crop crop' d = nat ((n - crop - crop' - d div 2 + d - 1) div d)"

definition src_pos :: "int \<Rightarrow> int \<Rightarrow> nat \<Rightarrow> int" where
  "src_pos crop d i = crop + d div 2 + int i * d"

lemma cells_facts:
  assumes "1 \<le> d" "0 \<le> crop" "0 \<le> crop'" "crop + crop' \<le> n"
  shows "out_size n crop crop' d = Inr (int (cells n crop crop' d))"
    "i < cells n crop crop' d \<Longrightarrow> 0 \<le> src_pos crop d i \<and> src_pos crop d i < n - crop'"
    "int (cells n crop crop' d) \<le> n" "d sdiv 2 = d div 2"
proof -
  let ?q = "n - crop - crop' - d div 2 + d - 1"
  have q: "0 \<le> ?q" using assms by linarith
  show half: "d sdiv 2 = d div 2" using assms(1) by (simp add: signed_divide_int_def)
  have "?q sdiv d = ?q div d"
    using q assms(1) by (auto simp: signed_divide_int_def sgn_if)
  then show "out_size n crop crop' d = Inr (int (cells n crop crop' d))"
    using q assms(1) half by (simp add: out_size_def cells_def pos_imp_zdiv_nonneg_iff)
  have c: "int (cells n crop crop' d) = ?q div d" using q assms(1) by (simp add: cells_def pos_imp_zdiv_nonneg_iff)
  have "?q div d * d = ?q - ?q mod d" by (simp add: minus_mod_eq_div_mult)
  moreover have "0 \<le> ?q mod d" using assms(1) by simp
  ultimately have m: "int (cells n crop crop' d) * d \<le> ?q" using c by simp
  show "0 \<le> src_pos crop d i \<and> src_pos crop d i < n - crop'" if "i < cells n crop crop' d"
  proof -
    have "(int i + 1) * d \<le> int (cells n crop crop' d) * d" using that assms(1) by (intro mult_right_mono) simp_all
    with m show ?thesis using assms by (auto simp: src_pos_def distrib_right)
  qed
  show "int (cells n crop crop' d) \<le> n"
  proof (cases "cells n crop crop' d = 0")
    case False
    have "int (cells n crop crop' d) - 1 \<le> (int (cells n crop crop' d) - 1) * d" using False assms(1) by (simp add: mult_le_cancel_left1)
    with m show ?thesis using assms by (simp add: left_diff_distrib)
  qed (use assms in simp)
qed

definition eff_right :: "resampler \<Rightarrow> int \<Rightarrow> int" where
  "eff_right r width = (if rs_videoMode r = VIDEO_3DSBS then width div 2 else rs_cropRight r)"

definition eff_bottom :: "resampler \<Rightarrow> int \<Rightarrow> int" where
  "eff_bottom r height = (if rs_videoMode r = VIDEO_3DTAB then height div 2 else rs_cropBottom r)"

definition crop_ok :: "resampler \<Rightarrow> int \<Rightarrow> int \<Rightarrow> bool" where
  "crop_ok r width height \<longleftrightarrow>
     1 \<le> rs_horizontalDecimation r \<and> 1 \<le> rs_verticalDecimation r \<and>
     0 \<le> rs_cropLeft r \<and> 0 \<le> rs_cropRight r \<and> 0 \<le> rs_cropTop r \<and> 0 \<le> rs_cropBottom r \<and>
     rs_cropLeft r + eff_right r width \<le> width \<and> rs_cropTop r + eff_bottom r height \<le> height"

definition out_w :: "resampler \<Rightarrow> int \<Rightarrow> nat" where
  "out_w r width = cells width (rs_cropLeft r) (eff_right r width) (rs_horizontalDecimation r)"

definition out_h :: "resampler \<Rightarrow> int \<Rightarrow> nat" where
  "out_h r height = cells height (rs_cropTop r) (eff_bottom r height) (rs_verticalDecimation r)"

definition shown_color :: "PixelFormat \<Rightarrow> byte list \<Rightarrow> int \<Rightarrow> resampler \<Rightarrow> nat \<Rightarrow> nat \<Rightarrow> ColorRgb" where
  "shown_color fmt data lineLength r x y =
     frame_color fmt data lineLength (src_pos (rs_cropLeft r) (rs_horizontalDecimation r) x)
       (src_pos (rs_cropTop r) (rs_verticalDecimation r) y)"

definition fitted :: "(nat \<Rightarrow> ColorRgb) \<Rightarrow> nat \<Rightarrow> nat \<Rightarrow> ColorRgb image \<Rightarrow> ColorRgb image" where
  "fitted junk w h im = (if img_height im \<noteq> h \<and> img_width im \<noteq> w then img_resize junk w h im else im)"

text \<open>With a valid cropping the run is a loop over the cells.\<close>

definition put_cell :: "PixelFormat \<Rightarrow> byte list \<Rightarrow> int \<Rightarrow> resampler \<Rightarrow> nat \<Rightarrow> nat \<Rightarrow> ColorRgb image \<Rightarrow> ColorRgb image res" where
  "put_cell fmt data lineLength r y x =
     put_pixel fmt data lineLength x y (src_pos (rs_cropLeft r) (rs_horizontalDecimation r) x)
       (src_pos (rs_cropTop r) (rs_verticalDecimation r) y)"

definition side_ok :: "int \<Rightarrow> int \<Rightarrow> bool" where
  "side_ok width height \<longleftrightarrow> 0 \<le> width \<and> width < 2 ^ 31 \<and> 0 \<le> height \<and> height < 2 ^ 31"

lemma crop_facts:
  assumes "side_ok width height" "crop_ok r width height"
  shows "out_size width (rs_cropLeft r) (eff_right r width) (rs_horizontalDecimation r) = Inr (int (out_w r width))"
    "out_size height (rs_cropTop r) (eff_bottom r height) (rs_verticalDecimation r) = Inr (int (out_h r height))"
    "int (out_w r width) \<le> width" "int (out_h r height) \<le> height"
    "rs_horizontalDecimation r sdiv 2 = rs_horizontalDecimation r div 2" "rs_verticalDecimation r sdiv 2 = rs_verticalDecimation r div 2"
    "x < out_w r width \<Longrightarrow> 0 \<le> src_pos (rs_cropLeft r) (rs_horizontalDecimation r) x \<and>
       src_pos (rs_cropLeft r) (rs_horizontalDecimation r) x < width"
    "y < out_h r height \<Longrightarrow> 0 \<le> src_pos (rs_cropTop r) (rs_verticalDecimation r) y \<and>
       src_pos (rs_cropTop r) (rs_verticalDecimation r) y < height"
proof -
  note fo = assms(1) [unfolded side_ok_def] and co = assms(2) [unfolded crop_ok_def]
  have e: "0 \<le> eff_right r width" "0 \<le> eff_bottom r height" using fo co by (simp_all add: eff_right_def eff_bottom_def)
  note cw = cells_facts [of "rs_horizontalDecimation r" "rs_cropLeft r" "eff_right r width" width]
    and ch = cells_facts [of "rs_verticalDecimation r" "rs_cropTop r" "eff_bottom r height" height]
  show "out_size width (rs_cropLeft r) (eff_right r width) (rs_horizontalDecimation r) = Inr (int (out_w r width))"
    "int (out_w r width) \<le> width" "rs_horizontalDecimation r sdiv 2 = rs_horizontalDecimation r div 2"
    using cw co e by (simp_all add: out_w_def)
  show "out_size height (rs_cropTop r) (eff_bottom r height) (rs_verticalDecimation r) = Inr (int (out_h r height))"
    "int (out_h r height) \<le> height" "rs_verticalDecimation r sdiv 2 = rs_verticalDecimation r div 2"
    using ch co e by (simp_all add: out_h_def)
  show "x < out_w r width \<Longrightarrow> 0 \<le> src_pos (rs_cropLeft r) (rs_horizontalDecimation r) x \<and>
       src_pos (rs_cropLeft r) (rs_horizontalDecimation r) x < width"
    using cw(2) [of x] co e by (simp add: out_w_def)
  show "y < out_h r height \<Longrightarrow> 0 \<le> src_pos (rs_cropTop r) (rs_verticalDecimation r) y \<and>
       src_pos (rs_cropTop r) (rs_verticalDecimation r) y < height"
    using ch(2) [of y] co e by (simp add: out_h_def)
qed

lemma processImage_loop:
  assumes "side_ok width height" "crop_ok r width height"
  shows "processImage junk data width height lineLength fmt r im =
    index_loop (\<lambda>y. index_loop (put_cell fmt data lineLength r y) [0 ..< out_w r width]) [0 ..< out_h r height]
      (fitted junk (out_w r width) (out_h r height) im)"
proof -
  note fo = assms(1) [unfolded side_ok_def]
  note c = crop_facts [OF assms]
  have h: "width sdiv 2 = width div 2" "height sdiv 2 = height div 2"
    using fo by (auto simp: signed_divide_int_def sgn_if)
  have eff: "(if rs_videoMode r = VIDEO_3DSBS then width sdiv 2 else rs_cropRight r) = eff_right r width"
    "(if rs_videoMode r = VIDEO_3DTAB then height sdiv 2 else rs_cropBottom r) = eff_bottom r height"
    by (simp_all add: h eff_right_def eff_bottom_def)
  have u: "as_unsigned (int (out_w r width)) = out_w r width" "as_unsigned (int (out_h r height)) = out_h r height"
    using c(3,4) fo by (simp_all add: as_unsigned_id)
  have "put_cell fmt data lineLength r y = (\<lambda>x. put_pixel fmt data lineLength x y
      (rs_cropLeft r + rs_horizontalDecimation r div 2 + int x * rs_horizontalDecimation r)
      (rs_cropTop r + rs_verticalDecimation r div 2 + int y * rs_verticalDecimation r))" for y
    by (intro ext) (simp add: put_cell_def src_pos_def)
  then show ?thesis
    unfolding processImage_def Let_def eff c fitted_def by (simp add: u c)
qed

text \<open>A cell whose source is not readable ends the run.\<close>

lemma processImage_unreadable:
  assumes "side_ok width height" "crop_ok r width height" "fmt \<noteq> PIXELFORMAT_NO_CHANGE" "x < out_w r width" "y < out_h r height"
    and "source_pixel fmt data lineLength (src_pos (rs_cropLeft r) (rs_horizontalDecimation r) x)
      (src_pos (rs_cropTop r) (rs_verticalDecimation r) y) = Inl Undefined"
  shows "processImage junk data width height lineLength fmt r im = Inl Undefined"
proof -
  have rd: "read_bytes data i ks = Inl Undefined \<or> (\<exists>bs. read_bytes data i ks = Inr bs)" for i ks
    by (induction ks) (auto simp: data_at_def peek_def)
  have "source_pixel fmt data lineLength a b = Inl Undefined \<or> (\<exists>c. source_pixel fmt data lineLength a b = Inr c)" for a b
    using rd [of "lineLength * b + a * pixel_size fmt" "pixel_bytes fmt (even a)"] by (auto simp: source_pixel_def int32_def)
  then have cell: "put_cell fmt data lineLength r y x s = Inl Undefined \<or> (\<exists>s'. put_cell fmt data lineLength r y x s = Inr s' \<and> True)" for x y s
    unfolding put_cell_def put_pixel_def
    by (metis (no_types, lifting) img_put_def poke_def res_bind_simps)
  have bad: "put_cell fmt data lineLength r y x s = Inl Undefined" for s
    using assms(3,6) by (simp add: put_cell_def put_pixel_def)
  have row: "index_loop (put_cell fmt data lineLength r y) [0 ..< out_w r width] s = Inl Undefined \<or>
      (\<exists>s'. index_loop (put_cell fmt data lineLength r y) [0 ..< out_w r width] s = Inr s' \<and> True)" for y s
    by (rule index_loop_either [where P = "\<lambda>_. True"]) (use cell in auto)
  have bad_row: "index_loop (put_cell fmt data lineLength r y) [0 ..< out_w r width] s = Inl Undefined" for s
    by (rule index_loop_fails [where P = "\<lambda>_. True" and i = x]) (use cell bad assms(4) in auto)
  show ?thesis unfolding processImage_loop [OF assms(1,2)]
    by (rule index_loop_fails [where P = "\<lambda>_. True" and i = y]) (use row bad_row assms(5) in auto)
qed

text \<open>When the frame fits its memory too, the loop writes the colours of the cells.\<close>

lemma processImage_eq:
  assumes "frame_ok fmt data width height lineLength" "crop_ok r width height"
  obtains f where
    "processImage junk data width height lineLength fmt r im =
       index_loop (\<lambda>y. index_loop (f y) [0 ..< out_w r width]) [0 ..< out_h r height] (fitted junk (out_w r width) (out_h r height) im)"
    "\<And>x y im'. x < out_w r width \<Longrightarrow> y < out_h r height \<Longrightarrow> f y x im' = img_put im' x y (shown_color fmt data lineLength r x y)"
proof -
  have so: "side_ok width height" and fmt: "fmt \<noteq> PIXELFORMAT_NO_CHANGE" using assms(1) by (simp_all add: frame_ok_def side_ok_def)
  have "put_cell fmt data lineLength r y x im' = img_put im' x y (shown_color fmt data lineLength r x y)"
    if "x < out_w r width" "y < out_h r height" for x y im'
    using crop_facts(7,8) [OF so assms(2)] that source_pixel_ok [OF assms(1)] fmt
    by (simp add: put_cell_def put_pixel_def shown_color_def)
  then show thesis by (rule that [OF processImage_loop [OF so assms(2)]])
qed

lemma processImage_rect:
  assumes "frame_ok fmt data width height lineLength" "crop_ok r width height" "img_wf im"
    and "out_w r width \<le> img_width (fitted junk (out_w r width) (out_h r height) im)"
    and "out_h r height \<le> img_height (fitted junk (out_w r width) (out_h r height) im)"
  shows "\<exists>im'. processImage junk data width height lineLength fmt r im = Inr im' \<and>
    same_size im' (fitted junk (out_w r width) (out_h r height) im) \<and>
    (\<forall>x < img_width im'. \<forall>y < img_height im'. img_at im' x y =
      Inr (if y < out_h r height \<and> x < out_w r width then shown_color fmt data lineLength r x y
           else pix (fitted junk (out_w r width) (out_h r height) im) x y))"
proof -
  obtain f where f: "processImage junk data width height lineLength fmt r im =
       index_loop (\<lambda>y. index_loop (f y) [0 ..< out_w r width]) [0 ..< out_h r height] (fitted junk (out_w r width) (out_h r height) im)"
    "\<And>x y im'. x < out_w r width \<Longrightarrow> y < out_h r height \<Longrightarrow> f y x im' = img_put im' x y (shown_color fmt data lineLength r x y)"
    using processImage_eq [OF assms(1,2)] by blast
  have wf: "img_wf (fitted junk (out_w r width) (out_h r height) im)" using assms(3) by (simp add: fitted_def)
  obtain im' where im': "processImage junk data width height lineLength fmt r im = Inr im'"
      "same_size im' (fitted junk (out_w r width) (out_h r height) im)"
      "\<forall>x < img_width (fitted junk (out_w r width) (out_h r height) im). \<forall>y < img_height (fitted junk (out_w r width) (out_h r height) im).
        pix im' x y = (if y < out_h r height \<and> x < out_w r width then shown_color fmt data lineLength r x y
           else pix (fitted junk (out_w r width) (out_h r height) im) x y)"
    using rect_loop [of "out_w r width" "out_h r height" _ f "shown_color fmt data lineLength r", OF f(2) wf assms(4,5)] f(1) by auto
  with assms(3) show ?thesis by (auto simp: same_size_def img_at_pix)
qed

lemma fitted_exact:
  assumes "img_width im = w \<longleftrightarrow> img_height im = h"
  shows "img_width (fitted junk w h im) = w" "img_height (fitted junk w h im) = h"
  using assms by (auto simp: fitted_def img_resize_def Let_def)

lemma resample_exact_size:
  assumes "frame_ok fmt data width height lineLength" "crop_ok r width height" "img_wf im"
    and "img_width im = out_w r width \<longleftrightarrow> img_height im = out_h r height"
  shows "\<exists>im'. processImage junk data width height lineLength fmt r im = Inr im' \<and> img_wf im' \<and>
    img_width im' = out_w r width \<and> img_height im' = out_h r height"
  using processImage_rect [OF assms(1-3), of junk] fitted_exact [OF assms(4), of junk] by (auto simp: same_size_def)

text \<open>
  C14.  Grabbing is exact: when the frame fits its memory, the cropping leaves something, and both sides
  of the given picture are right or both are wrong, no byte outside the frame is read, and the
  picture has, at every position, the colour of the middle pixel of its cell.  With one side right
  and the other wrong the picture is not resized (\<open>framebuffer_overflow\<close>).
\<close>

theorem resample_exact:
  assumes "frame_ok fmt data width height lineLength" "crop_ok r width height" "img_wf im"
    and "img_width im = out_w r width \<longleftrightarrow> img_height im = out_h r height"
  shows "\<exists>im'. processImage junk data width height lineLength fmt r im = Inr im' \<and> img_wf im' \<and>
    img_width im' = out_w r width \<and> img_height im' = out_h r height \<and>
    (\<forall>x < out_w r width. \<forall>y < out_h r height. img_at im' x y = Inr (shown_color fmt data lineLength r x y))"
  using processImage_rect [OF assms(1-3), of junk] fitted_exact [OF assms(4), of junk] by (auto simp: same_size_def)

text \<open>
  A grabber that keeps its picture between frames shows a wrong one after a change of the mode:
  switching from 2D to side by side changes only the width of the result, so the picture is not
  resized; its left part is overwritten and its right part keeps the old frame.
\<close>

theorem resample_3d_keeps_old_half:
  assumes "frame_ok fmt data width height lineLength" "frame_ok fmt data' width height lineLength"
    and "rs_videoMode r = VIDEO_2D" "crop_ok r width height" "crop_ok (set3D VIDEO_3DSBS r) width height" "rs_cropRight r \<le> width div 2"
    and "img_wf im0" "processImage junk data width height lineLength fmt r im0 = Inr im"
    and "img_width im0 = out_w r width \<longleftrightarrow> img_height im0 = out_h r height"
  shows "\<exists>im'. processImage junk data' width height lineLength fmt (set3D VIDEO_3DSBS r) im = Inr im' \<and>
    img_width im' = out_w r width \<and> img_height im' = out_h r height \<and>
    (\<forall>x < out_w r width. \<forall>y < out_h r height. img_at im' x y =
      (if x < out_w (set3D VIDEO_3DSBS r) width then Inr (shown_color fmt data' lineLength r x y) else img_at im x y))"
proof -
  let ?r = "set3D VIDEO_3DSBS r"
  have im: "img_wf im" "img_width im = out_w r width" "img_height im = out_h r height"
    using resample_exact [OF assms(1,4,7,9), of junk] assms(8) by auto
  have h: "out_h ?r height = out_h r height" using assms(3) by (simp add: out_h_def eff_bottom_def set3D_def)
  have keep: "fitted junk (out_w ?r width) (out_h r height) im = im" using im by (simp add: fitted_def)
  have d: "0 < rs_horizontalDecimation r" using assms(4) by (simp add: crop_ok_def)
  have "(width - rs_cropLeft r - width div 2 - rs_horizontalDecimation r div 2 + rs_horizontalDecimation r - 1) div rs_horizontalDecimation r
      \<le> (width - rs_cropLeft r - rs_cropRight r - rs_horizontalDecimation r div 2 + rs_horizontalDecimation r - 1) div rs_horizontalDecimation r"
    using assms(6) d by (intro zdiv_mono1) simp_all
  then have le: "out_w ?r width \<le> out_w r width"
    using assms(3) by (simp add: out_w_def cells_def eff_right_def set3D_def nat_mono)
  have s: "shown_color fmt data' lineLength ?r = shown_color fmt data' lineLength r" by (intro ext) (simp add: shown_color_def set3D_def)
  from processImage_rect [OF assms(2,5) im(1), of junk] show ?thesis
    unfolding keep h s using le im img_at_pix [OF im(1)] by (auto simp: same_size_def)
qed

section \<open>The frame buffer of Linux\<close>

text \<open>
  \<open>grabFrame\<close> of \<open>FramebufferFrameGrabber.cpp\<close>, from the resolution the driver reports and the mapped
  memory; the size of the picture is the one configured.
\<close>

record fb_grabber =
  fb_width :: nat
  fb_height :: nat
  fb_resampler :: resampler

definition fb_format :: "nat \<Rightarrow> PixelFormat option" where
  "fb_format bits_per_pixel =
     (if bits_per_pixel = 16 then Some PIXELFORMAT_BGR16
      else if bits_per_pixel = 24 then Some PIXELFORMAT_BGR24
      else if bits_per_pixel = 32 then Some PIXELFORMAT_BGR32
      else None)"

definition fb_grabFrame ::
  "(nat \<Rightarrow> ColorRgb) \<Rightarrow> nat \<Rightarrow> nat \<Rightarrow> nat \<Rightarrow> byte list \<Rightarrow> fb_grabber \<Rightarrow> ColorRgb image \<Rightarrow> (fb_grabber \<times> ColorRgb image) res" where
  "fb_grabFrame junk xres yres bits_per_pixel mapped g im =
     (let bytesPerPixel = bits_per_pixel div 8; capSize = xres * yres * bytesPerPixel in
      case fb_format bits_per_pixel of
        None \<Rightarrow> Inr (g, im)
      | Some pixelFormat \<Rightarrow>
          if fb_width g = 0 \<or> fb_height g = 0 then Inl Undefined
          else (let r = setVerticalPixelDecimation (int (yres div fb_height g))
                          (setHorizontalPixelDecimation (int (xres div fb_width g)) (fb_resampler g))
            in res_bind (processImage junk (take capSize mapped) (int xres) (int yres) (int (xres * bytesPerPixel)) pixelFormat r im)
                 (\<lambda>im. Inr (g\<lparr>fb_resampler := r\<rparr>, im))))"

lemma processImage_overflows:
  assumes "frame_ok fmt data width height lineLength" "crop_ok r width height"
    and "img_height im = out_h r height" "0 < out_h r height" "img_width im + 2 \<le> out_w r width"
    and "length (img_pixels im) = img_width im * img_height im + 1"
  shows "processImage junk data width height lineLength fmt r im = Inl Undefined"
proof -
  let ?w = "out_w r width" and ?h = "out_h r height"
  define P where "P s \<longleftrightarrow> img_width s = img_width im \<and> length (img_pixels s) = length (img_pixels im)" for s :: "ColorRgb image"
  have "P im" by (simp add: P_def)
  have fit: "fitted junk ?w ?h im = im" using assms(3) by (simp add: fitted_def)
  obtain f where f: "processImage junk data width height lineLength fmt r im =
       index_loop (\<lambda>y. index_loop (f y) [0 ..< ?w]) [0 ..< ?h] (fitted junk ?w ?h im)"
    "\<And>x y im'. x < ?w \<Longrightarrow> y < ?h \<Longrightarrow> f y x im' = img_put im' x y (shown_color fmt data lineLength r x y)"
    using processImage_eq [OF assms(1,2)] by blast
  have step: "f y x s = Inl Undefined \<or> (\<exists>s'. f y x s = Inr s' \<and> P s')" if "x < ?w" "y < ?h" "P s" for x y s
    using that f(2) by (auto simp: img_put_def poke_def P_def)
  have row: "index_loop (f y) [0 ..< ?w] s = Inl Undefined \<or> (\<exists>s'. index_loop (f y) [0 ..< ?w] s = Inr s' \<and> P s')"
    if "y < ?h" "P s" for y s
    using that step by (intro index_loop_either [where P = P]) auto
  have last: "f (?h - 1) (?w - 1) s = Inl Undefined" if "P s" for s
  proof -
    have "img_width im * ?h = (?h - 1) * img_width im + img_width im" using assms(4) by (cases ?h) simp_all
    then have "length (img_pixels im) \<le> (?h - 1) * img_width im + (?w - 1)" using assms(3,5,6) by simp
    then show ?thesis using f(2) assms(4,5) that by (simp add: img_put_def poke_def toIndex_def P_def)
  qed
  have row_last: "index_loop (f (?h - 1)) [0 ..< ?w] s = Inl Undefined" if "P s" for s
    by (rule index_loop_fails [where P = P and i = "?w - 1"]) (use that step last assms(4,5) in auto)
  have "index_loop (\<lambda>y. index_loop (f y) [0 ..< ?w]) [0 ..< ?h] im = Inl Undefined"
    by (rule index_loop_fails [where P = P and i = "?h - 1"]) (use row row_last assms(4) \<open>P im\<close> in auto)
  then show ?thesis using f(1) fit by simp
qed

text \<open>The frame of a frame buffer, and the number of cells of one side.\<close>

definition fb_ok :: "nat \<Rightarrow> nat \<Rightarrow> byte list \<Rightarrow> fb_grabber \<Rightarrow> bool" where
  "fb_ok xres yres mapped g \<longleftrightarrow>
     xres * yres * 4 \<le> length mapped \<and> xres * yres * 4 < 2 ^ 31 \<and> 0 < fb_width g \<and> 0 < fb_height g \<and>
     fb_width g \<le> xres \<and> fb_height g \<le> yres \<and> fb_resampler g = rs_new"

definition fb_cells :: "nat \<Rightarrow> nat \<Rightarrow> nat" where
  "fb_cells res n = (let d = res div n in (res - d div 2 + d - 1) div d)"

lemma fb_cells_dvd: "n dvd res \<Longrightarrow> 0 < res \<Longrightarrow> fb_cells res n = n"
proof -
  assume "n dvd res" "0 < res"
  then obtain d where d: "res = n * d" "0 < n" "0 < d" by (auto elim!: dvdE)
  have "d \<le> res" "d div 2 < d" using d by simp_all
  then have sum: "res - d div 2 + d - 1 = (d - 1 - d div 2) + n * d" unfolding d(1) [symmetric] by linarith
  have "(d - 1 - d div 2 + n * d) div d = n" using d(3) by (subst div_mult_self1) simp_all
  moreover have "res div n = d" using d by simp
  ultimately show "fb_cells res n = n" by (simp only: fb_cells_def Let_def sum)
qed

lemma fb_frame:
  assumes "fb_ok xres yres mapped g"
  defines "r \<equiv> setVerticalPixelDecimation (int (yres div fb_height g))
                          (setHorizontalPixelDecimation (int (xres div fb_width g)) (fb_resampler g))"
  shows "frame_ok PIXELFORMAT_BGR32 (take (xres * yres * 4) mapped) (int xres) (int yres) (int (xres * 4))"
    "crop_ok r (int xres) (int yres)" "out_w r (int xres) = fb_cells xres (fb_width g)" "out_h r (int yres) = fb_cells yres (fb_height g)"
    "fb_grabFrame junk xres yres 32 mapped g im =
       res_bind (processImage junk (take (xres * yres * 4) mapped) (int xres) (int yres) (int (xres * 4)) PIXELFORMAT_BGR32 r im)
         (\<lambda>im. Inr (g\<lparr>fb_resampler := r\<rparr>, im))"
proof -
  note ok = assms(1) [unfolded fb_ok_def]
  have pos: "0 < xres" "0 < yres" using ok by linarith+
  have "xres \<le> xres * yres * 4" "yres \<le> xres * yres * 4" using pos by simp_all
  then have lt: "xres < 2 ^ 31" "yres < 2 ^ 31" using ok by linarith+
  have "int (xres * 4) * int yres = int (xres * yres * 4)" by simp
  moreover have "int (xres * yres * 4) < int (2 ^ 31)" using ok by (simp only: of_nat_less_iff)
  moreover have "length (take (xres * yres * 4) mapped) = xres * yres * 4" using ok by simp
  ultimately show "frame_ok PIXELFORMAT_BGR32 (take (xres * yres * 4) mapped) (int xres) (int yres) (int (xres * 4))"
    using lt by (simp add: frame_ok_def pixel_size_def)
  have d: "0 < xres div fb_width g" "0 < yres div fb_height g" using ok by (simp_all add: div_greater_zero_iff)
  show "crop_ok r (int xres) (int yres)"
    using d ok by (simp add: crop_ok_def r_def setVerticalPixelDecimation_def setHorizontalPixelDecimation_def rs_new_def
        eff_right_def eff_bottom_def)
  have cell: "cells (int res) 0 0 (int d) = (res - d div 2 + d - 1) div d" if "0 < d" "d \<le> res" for res d
  proof -
    have "int res - int d div 2 + int d - 1 = int (res - d div 2 + d - 1)" using that by (simp add: of_nat_diff zdiv_int)
    then have "cells (int res) 0 0 (int d) = nat (int (res - d div 2 + d - 1) div int d)" by (simp only: cells_def diff_zero)
    then show ?thesis by (simp only: zdiv_int [symmetric] nat_int)
  qed
  have cells: "cells (int res) 0 0 (int (res div n)) = fb_cells res n" if "0 < res div n" for res n
    unfolding fb_cells_def Let_def using cell [OF that div_le_dividend] .
  show "out_w r (int xres) = fb_cells xres (fb_width g)" "out_h r (int yres) = fb_cells yres (fb_height g)"
    using d ok cells by (simp_all add: out_w_def out_h_def r_def setVerticalPixelDecimation_def
        setHorizontalPixelDecimation_def rs_new_def eff_right_def eff_bottom_def)
  show "fb_grabFrame junk xres yres 32 mapped g im =
       res_bind (processImage junk (take (xres * yres * 4) mapped) (int xres) (int yres) (int (xres * 4)) PIXELFORMAT_BGR32 r im)
         (\<lambda>im. Inr (g\<lparr>fb_resampler := r\<rparr>, im))"
    using ok by (simp add: fb_grabFrame_def fb_format_def r_def Let_def)
qed

text \<open>When the configured size divides the resolution, the picture keeps its size and is exact.\<close>

lemma framebuffer_exact:
  assumes "fb_ok xres yres mapped g" "fb_width g dvd xres" "fb_height g dvd yres"
    and "img_wf im" "img_width im = fb_width g" "img_height im = fb_height g"
  shows "\<exists>g' im'. fb_grabFrame junk xres yres 32 mapped g im = Inr (g', im') \<and>
    img_width im' = fb_width g \<and> img_height im' = fb_height g \<and>
    (\<forall>x < fb_width g. \<forall>y < fb_height g. img_at im' x y =
      Inr (shown_color PIXELFORMAT_BGR32 (take (xres * yres * 4) mapped) (int (xres * 4)) (fb_resampler g') x y))"
proof -
  have pos: "0 < xres" "0 < yres" using assms(1) unfolding fb_ok_def by linarith+
  note fr = fb_frame [OF assms(1)] and c = fb_cells_dvd [OF assms(2) pos(1)] fb_cells_dvd [OF assms(3) pos(2)]
  from resample_exact [OF fr(1,2) assms(4), of junk] assms(5,6) show ?thesis
    unfolding fr(3,4) c fr(5) by fastforce
qed

text \<open>
  C39.  The frame buffer grabber with a width that does not fit the resolution: the cells are counted
  from the resolution, and when they are at least two more than the configured width while the height
  fits, the picture is not resized and the pixels are written past its end.
\<close>

theorem framebuffer_overflow:
  assumes "fb_ok xres yres mapped g" "fb_height g dvd yres" "fb_width g + 2 \<le> fb_cells xres (fb_width g)"
  shows "fb_grabFrame junk xres yres 32 mapped g (img_new BLACK (fb_width g) (fb_height g)) = Inl Undefined"
proof -
  have pos: "0 < yres" "0 < fb_height g" using assms(1) unfolding fb_ok_def by linarith+
  note fr = fb_frame [OF assms(1)] and c = fb_cells_dvd [OF assms(2) pos(1)]
  let ?im = "img_new BLACK (fb_width g) (fb_height g)"
  have "img_width ?im = fb_width g" "img_height ?im = fb_height g" "length (img_pixels ?im) = fb_width g * fb_height g + 1"
    by (simp_all add: img_new_def)
  then show ?thesis
    using processImage_overflows [OF fr(1,2), of ?im junk] assms(3) pos(2) by (simp add: fr(3-5) c)
qed

theorem framebuffer_overflow_witness:
  "fb_grabFrame (\<lambda>i. BLACK) 15 8 32 (replicate 480 7) \<lparr>fb_width = 8, fb_height = 8, fb_resampler = rs_new\<rparr> (img_new BLACK 8 8) = Inl Undefined"
  using framebuffer_overflow [of 15 8 "replicate 480 7" "\<lparr>fb_width = 8, fb_height = 8, fb_resampler = rs_new\<rparr>" "\<lambda>i. BLACK"]
  by (simp add: fb_ok_def fb_cells_def)

theorem resample_exact_witness:
  "\<exists>im'. processImage (\<lambda>i. BLACK) [1, 2, 3, 4, 5, 6] 2 1 6 PIXELFORMAT_BGR24 rs_new (img_new BLACK 0 0) = Inr im' \<and>
     img_at im' 1 0 = Inr (rgb 6 5 4)"
proof -
  have f: "frame_ok PIXELFORMAT_BGR24 [1, 2, 3, 4, 5, 6] 2 1 6" by (simp add: frame_ok_def pixel_size_def)
  have c: "crop_ok rs_new 2 1" by (simp add: crop_ok_def rs_new_def eff_right_def eff_bottom_def)
  have o: "out_w rs_new 2 = 2" "out_h rs_new 1 = 1"
    by (simp_all add: out_w_def out_h_def cells_def rs_new_def eff_right_def eff_bottom_def)
  have s: "shown_color PIXELFORMAT_BGR24 [1, 2, 3, 4, 5, 6] 6 rs_new 1 0 = rgb 6 5 4"
    by (simp add: shown_color_def frame_color_def src_pos_def rs_new_def pixel_color_def pixel_bytes_def pixel_size_def)
  show ?thesis
    using resample_exact [OF f c, of "img_new BLACK 0 0" "\<lambda>i. BLACK"] s unfolding o by (fastforce simp: img_new_def img_wf_def)
qed

theorem resample_3d_keeps_old_half_witness:
  "\<exists>im im'. processImage (\<lambda>i. BLACK) [1, 2, 3, 4, 5, 6] 2 1 6 PIXELFORMAT_BGR24 rs_new (img_new BLACK 0 0) = Inr im \<and>
     processImage (\<lambda>i. BLACK) [9, 9, 9, 9, 9, 9] 2 1 6 PIXELFORMAT_BGR24 (set3D VIDEO_3DSBS rs_new) im = Inr im' \<and>
     img_width im' = 2 \<and> img_at im' 1 0 = img_at im 1 0"
proof -
  have f: "frame_ok PIXELFORMAT_BGR24 [1, 2, 3, 4, 5, 6] 2 1 6" "frame_ok PIXELFORMAT_BGR24 [9, 9, 9, 9, 9, 9] 2 1 6"
    by (simp_all add: frame_ok_def pixel_size_def)
  have c: "crop_ok rs_new 2 1" "crop_ok (set3D VIDEO_3DSBS rs_new) 2 1"
    by (simp_all add: crop_ok_def rs_new_def eff_right_def eff_bottom_def set3D_def)
  have o: "out_w rs_new 2 = 2" "out_h rs_new 1 = 1" "out_w (set3D VIDEO_3DSBS rs_new) 2 = 1"
    by (simp_all add: out_w_def out_h_def cells_def rs_new_def eff_right_def eff_bottom_def set3D_def)
  let ?im = "img_new BLACK 0 0"
  have im: "img_wf ?im" "img_width ?im = out_w rs_new 2 \<longleftrightarrow> img_height ?im = out_h rs_new 1" by (simp_all add: img_new_def img_wf_def o)
  obtain im1 where im1: "processImage (\<lambda>i. BLACK) [1, 2, 3, 4, 5, 6] 2 1 6 PIXELFORMAT_BGR24 rs_new ?im = Inr im1"
    using processImage_rect [OF f(1) c(1) im(1)] fitted_exact [OF im(2)] by (metis order_refl)
  have m: "rs_videoMode rs_new = VIDEO_2D" "rs_cropRight rs_new \<le> 2 div 2" by (simp_all add: rs_new_def)
  show ?thesis
    using resample_3d_keeps_old_half [OF f m(1) c m(2) im(1) im1 im(2)] im1 unfolding o by fastforce
qed

end
