(* ===== verification/Grabbers.thy ===== *)
theory Grabbers
  imports CoreClients Resampler Json
begin

text \<open>
  The grabbers: what all of them share (\<open>libsrc/hyperion/GrabberWrapper.cpp\<close>), the capture of video
  devices (\<open>libsrc/grabber/v4l2/V4L2Grabber.cpp\<close>, \<open>V4L2Wrapper.cpp\<close>) with its detection of a lost
  signal, and the one of the frame buffer (\<open>FramebufferWrapper.cpp\<close>).  Whether a device opens and
  starts, the formats its driver reports and the memory it fills are arguments.
\<close>

section \<open>The common part\<close>

text \<open>\<open>gw_images\<close> are the pictures emitted to the core and to other instances.\<close>

record grabber_wrapper =
  gw_name :: string
  gw_priority :: int
  gw_timer :: bool
  gw_forward :: bool
  gw_processor :: imgproc
  gw_component :: Components
  gw_images :: "(int \<times> ColorRgb image \<times> int) list"
  gw_timeout_ms :: int
  gw_ledColors :: "ColorRgb list"

definition gw_init :: "'a grabber_wrapper_scheme \<Rightarrow> hyperion \<Rightarrow> hyperion" where
  "gw_init g h = hyp_reportComponent COMP_BLACKBORDER (bp_enabled (ip_border (gw_processor g))) h"

definition gw_start :: "'a grabber_wrapper_scheme \<Rightarrow> hyperion \<Rightarrow> 'a grabber_wrapper_scheme \<times> hyperion" where
  "gw_start g h = (g\<lparr>gw_timer := True\<rparr>, hyp_registerPriority (gw_name g) (gw_priority g) h)"

definition gw_stop :: "'a grabber_wrapper_scheme \<Rightarrow> hyperion \<Rightarrow> 'a grabber_wrapper_scheme \<times> hyperion" where
  "gw_stop g h = (g\<lparr>gw_timer := False\<rparr>, hyp_unRegisterPriority (gw_name g) h)"

text \<open>\<open>start\<close> and \<open>stop\<close> are virtual; \<open>fwd\<close> is \<open>protoForwardingEnabled\<close> of the forwarder.\<close>

type_synonym 'a gw_action = "'a grabber_wrapper_scheme \<Rightarrow> hyperion \<Rightarrow> 'a grabber_wrapper_scheme \<times> hyperion"

definition gw_switch :: "'a gw_action \<Rightarrow> 'a gw_action \<Rightarrow> bool \<Rightarrow> bool \<Rightarrow> 'a gw_action" where
  "gw_switch start stop fwd enable g h =
     (if gw_timer g \<noteq> enable
      then (let (g, h) = (if enable then start g h else stop g h) in (g\<lparr>gw_forward := fwd\<rparr>, h))
      else (g, h))"

definition gw_componentStateChanged ::
  "'a gw_action \<Rightarrow> 'a gw_action \<Rightarrow> bool \<Rightarrow> Components \<Rightarrow> bool \<Rightarrow> 'a gw_action" where
  "gw_componentStateChanged start stop fwd cmp enable g h =
     (let (g, h) = (if cmp = gw_component g
                    then (let (g, h) = gw_switch start stop fwd enable g h in (g, hyp_reportComponent cmp (gw_timer g) h))
                    else (g, h))
      in if cmp = COMP_BLACKBORDER
         then (let g = (if bp_enabled (ip_border (gw_processor g)) \<noteq> enable
                        then g\<lparr>gw_processor := enableBlackBorderDetector enable (gw_processor g)\<rparr> else g)
               in (g, hyp_reportComponent cmp (bp_enabled (ip_border (gw_processor g))) h))
         else (g, h))"

definition gw_setGrabbingMode :: "'a gw_action \<Rightarrow> 'a gw_action \<Rightarrow> GrabbingMode \<Rightarrow> 'a gw_action" where
  "gw_setGrabbingMode start stop mode g h = (if mode = GRABBINGMODE_OFF then stop g h else start g h)"

definition gw_setColors ::
  "(nat \<Rightarrow> int) \<Rightarrow> ColorRgb list \<Rightarrow> int \<Rightarrow> 'a grabber_wrapper_scheme \<Rightarrow> hyperion \<Rightarrow> hyperion res" where
  "gw_setColors clk cs timeout_ms g h =
     hyp_setColors clk (gw_priority g) cs timeout_ms True (gw_component g) h"

text \<open>
  What the wrappers do with a picture: it is emitted, which the core takes as the picture of the
  channel (\<open>setImage\<close>), and processed to the colours of the leds.
\<close>

definition gw_newFrame ::
  "(nat \<Rightarrow> int) \<Rightarrow> nat \<Rightarrow> ColorRgb image \<Rightarrow> 'a grabber_wrapper_scheme \<Rightarrow> hyperion \<Rightarrow> ('a grabber_wrapper_scheme \<times> hyperion) res" where
  "gw_newFrame clk w im g h =
     (let g = g\<lparr>gw_images := gw_images g @ [(gw_priority g, im, gw_timeout_ms g)]\<rparr>;
          h = hyp_setImage (gw_priority g) im (gw_timeout_ms g) h
      in res_bind (ip_process_into w im (gw_ledColors g) (gw_processor g)) (\<lambda>(ip, cs).
         let g = g\<lparr>gw_processor := ip, gw_ledColors := cs\<rparr>
         in res_bind (gw_setColors clk cs (gw_timeout_ms g) g h) (\<lambda>h. Inr (g, h))))"

section \<open>Video devices\<close>

record v4l2_grabber =
  vg_pixelFormat :: PixelFormat
  vg_width :: int
  vg_height :: int
  vg_lineLength :: int
  vg_frameByteSize :: int
  vg_frameDecimation :: int
  vg_noSignalCounterThreshold :: int
  vg_noSignalThresholdColor :: ColorRgb
  vg_currentFrame :: int
  vg_noSignalCounter :: int
  vg_notifier :: "bool option"
  vg_resampler :: resampler
  vg_initialized :: bool
  vg_noSignalDetected :: bool
  vg_x_frac_min :: rat
  vg_y_frac_min :: rat
  vg_x_frac_max :: rat
  vg_y_frac_max :: rat

definition vg_new :: "PixelFormat \<Rightarrow> int \<Rightarrow> int \<Rightarrow> int \<Rightarrow> int \<Rightarrow> int \<Rightarrow> v4l2_grabber" where
  "vg_new fmt width height frameDecimation horizontalPixelDecimation verticalPixelDecimation =
     \<lparr>vg_pixelFormat = fmt, vg_width = width, vg_height = height, vg_lineLength = -1, vg_frameByteSize = -1,
      vg_frameDecimation = max 1 frameDecimation, vg_noSignalCounterThreshold = 50, vg_noSignalThresholdColor = BLACK,
      vg_currentFrame = 0, vg_noSignalCounter = 0, vg_notifier = None,
      vg_resampler = setVerticalPixelDecimation (max 1 verticalPixelDecimation)
        (setHorizontalPixelDecimation (max 1 horizontalPixelDecimation) rs_new),
      vg_initialized = False, vg_noSignalDetected = False,
      vg_x_frac_min = 1 / 4, vg_y_frac_min = 1 / 4, vg_x_frac_max = 3 / 4, vg_y_frac_max = 3 / 4\<rparr>"

definition vg_setCropping :: "int \<Rightarrow> int \<Rightarrow> int \<Rightarrow> int \<Rightarrow> v4l2_grabber \<Rightarrow> v4l2_grabber" where
  "vg_setCropping cropLeft cropRight cropTop cropBottom g =
     g\<lparr>vg_resampler := setCropping cropLeft cropRight cropTop cropBottom (vg_resampler g)\<rparr>"

definition vg_set3D :: "VideoMode \<Rightarrow> v4l2_grabber \<Rightarrow> v4l2_grabber" where
  "vg_set3D mode g = g\<lparr>vg_resampler := set3D mode (vg_resampler g)\<rparr>"

definition vg_setSignalThreshold :: "rat \<Rightarrow> rat \<Rightarrow> rat \<Rightarrow> int \<Rightarrow> v4l2_grabber \<Rightarrow> v4l2_grabber res" where
  "vg_setSignalThreshold r g b cnt vg =
     res_bind (rat_to_u8 (dbl (255 * r))) (\<lambda>r. res_bind (rat_to_u8 (dbl (255 * g))) (\<lambda>g.
     res_bind (rat_to_u8 (dbl (255 * b))) (\<lambda>b.
     Inr (vg\<lparr>vg_noSignalThresholdColor := rgb r g b, vg_noSignalCounterThreshold := max 1 cnt\<rparr>))))"

definition vg_setSignalDetectionOffset :: "rat \<Rightarrow> rat \<Rightarrow> rat \<Rightarrow> rat \<Rightarrow> v4l2_grabber \<Rightarrow> v4l2_grabber" where
  "vg_setSignalDetectionOffset horizontalMin verticalMin horizontalMax verticalMax g =
     g\<lparr>vg_x_frac_min := horizontalMin, vg_y_frac_min := verticalMin,
       vg_x_frac_max := horizontalMax, vg_y_frac_max := verticalMax\<rparr>"

subsection \<open>Opening\<close>

text \<open>
  \<open>init_device\<close> from the formats of the driver, its other calls taken to succeed: \<open>current\<close> is the
  format before, \<open>accepted\<close> the one after \<open>VIDIOC_S_FMT\<close>.  The request is what the driver is asked for.
\<close>

record v4l2_format =
  vf_width :: int
  vf_height :: int
  vf_pixelformat :: PixelFormat
  vf_bytesperline :: int

definition vg_request :: "v4l2_format \<Rightarrow> v4l2_grabber \<Rightarrow> v4l2_format" where
  "vg_request fmt g =
     (let fmt = (if vg_pixelFormat g \<in> {PIXELFORMAT_UYVY, PIXELFORMAT_YUYV, PIXELFORMAT_RGB32}
                 then fmt\<lparr>vf_pixelformat := vg_pixelFormat g\<rparr> else fmt)
      in if vg_width g > 0 \<or> vg_height g > 0
         then (let fmt = (if vg_width g > 0 then fmt\<lparr>vf_width := vg_width g\<rparr> else fmt)
               in if vf_height fmt > 0 then fmt\<lparr>vf_height := vg_height g\<rparr> else fmt)
         else fmt)"

definition vg_init_device :: "v4l2_format \<Rightarrow> (v4l2_format \<Rightarrow> v4l2_format) \<Rightarrow> v4l2_grabber \<Rightarrow> v4l2_grabber res" where
  "vg_init_device current accept g =
     (let g = g\<lparr>vg_lineLength := vf_bytesperline current\<rparr>; fmt = accept (vg_request current g);
          g = g\<lparr>vg_width := vf_width fmt, vg_height := vf_height fmt\<rparr>
      in if vf_pixelformat fmt \<in> {PIXELFORMAT_UYVY, PIXELFORMAT_YUYV}
         then Inr (g\<lparr>vg_pixelFormat := vf_pixelformat fmt, vg_frameByteSize := vg_width g * vg_height g * 2\<rparr>)
         else if vf_pixelformat fmt = PIXELFORMAT_RGB32
         then Inr (g\<lparr>vg_pixelFormat := PIXELFORMAT_RGB32, vg_frameByteSize := vg_width g * vg_height g * 4\<rparr>)
         else Inl RuntimeError)"

text \<open>
  \<open>init\<close> for a device given by its name: \<open>opened\<close> says whether it can be opened.  A failure is caught
  and closes the device again.
\<close>

definition vg_init :: "bool \<Rightarrow> v4l2_format \<Rightarrow> (v4l2_format \<Rightarrow> v4l2_format) \<Rightarrow> v4l2_grabber \<Rightarrow> v4l2_grabber" where
  "vg_init opened current accept g =
     (if vg_initialized g then g
      else if \<not> opened then g
      else case vg_init_device current accept (g\<lparr>vg_notifier := Some False\<rparr>) of
          Inr g \<Rightarrow> g\<lparr>vg_initialized := True\<rparr>
        | Inl e \<Rightarrow> g\<lparr>vg_notifier := None, vg_lineLength := vf_bytesperline current,
            vg_width := vf_width (accept (vg_request current g)), vg_height := vf_height (accept (vg_request current g))\<rparr>)"

text \<open>\<open>started\<close>: whether \<open>start_capturing\<close> succeeds; its exception leaves the notifier enabled.\<close>

definition vg_start ::
  "bool \<Rightarrow> v4l2_format \<Rightarrow> (v4l2_format \<Rightarrow> v4l2_format) \<Rightarrow> bool \<Rightarrow> v4l2_grabber \<Rightarrow> bool \<times> v4l2_grabber" where
  "vg_start opened current accept started g =
     (let g = vg_init opened current accept g
      in if vg_initialized g \<and> vg_notifier g = Some False
         then (started, g\<lparr>vg_notifier := Some True\<rparr>) else (False, g))"

definition vg_stop :: "v4l2_grabber \<Rightarrow> v4l2_grabber" where
  "vg_stop g = (if vg_notifier g = Some True then g\<lparr>vg_notifier := Some False\<rparr> else g)"

subsection \<open>Frames\<close>

definition rat_to_unsigned :: "rat \<Rightarrow> nat res" where
  "rat_to_unsigned x = (if 0 \<le> trunc_rat x \<and> trunc_rat x < 2 ^ 32 then Inr (nat (trunc_rat x)) else Inl Undefined)"

definition color_le :: "ColorRgb \<Rightarrow> ColorRgb \<Rightarrow> bool" where
  "color_le a b \<longleftrightarrow> red a \<le> red b \<and> green a \<le> green b \<and> blue a \<le> blue b"

text \<open>The loops over the area of the detection; they end at the first pixel with a signal.\<close>

definition no_signal :: "ColorRgb \<Rightarrow> ColorRgb image \<Rightarrow> nat list \<Rightarrow> nat list \<Rightarrow> bool res" where
  "no_signal threshold im xs ys =
     index_loop (\<lambda>x noSignal. if noSignal
         then index_loop (\<lambda>y noSignal. if noSignal
             then res_bind (img_at im x y) (\<lambda>c. Inr (color_le c threshold)) else Inr False) ys noSignal
         else Inr False) xs True"

text \<open>The counter of frames without signal, and whether the frame is passed on.\<close>

definition vg_signal :: "bool \<Rightarrow> v4l2_grabber \<Rightarrow> v4l2_grabber \<times> bool" where
  "vg_signal noSignal g =
     (let g = (if noSignal then g\<lparr>vg_noSignalCounter := vg_noSignalCounter g + 1\<rparr>
               else (if vg_noSignalCounter g \<ge> vg_noSignalCounterThreshold g then g\<lparr>vg_noSignalDetected := True\<rparr> else g)
                      \<lparr>vg_noSignalCounter := 0\<rparr>)
      in if vg_noSignalCounter g < vg_noSignalCounterThreshold g then (g, True)
         else if vg_noSignalCounter g = vg_noSignalCounterThreshold g then (g\<lparr>vg_noSignalDetected := False\<rparr>, False)
         else (g, False))"

definition vg_process_data :: "(nat \<Rightarrow> ColorRgb) \<Rightarrow> byte list \<Rightarrow> v4l2_grabber \<Rightarrow> (v4l2_grabber \<times> ColorRgb image option) res" where
  "vg_process_data junk data g =
     res_bind (processImage junk data (vg_width g) (vg_height g) (vg_lineLength g) (vg_pixelFormat g) (vg_resampler g)
                 (img_new BLACK 0 0)) (\<lambda>image.
     res_bind (rat_to_unsigned (dbl (of_nat (img_width image) * vg_x_frac_min g))) (\<lambda>xOffset.
     res_bind (rat_to_unsigned (dbl (of_nat (img_height image) * vg_y_frac_min g))) (\<lambda>yOffset.
     res_bind (rat_to_unsigned (dbl (of_nat (img_width image) * vg_x_frac_max g))) (\<lambda>xMax.
     res_bind (rat_to_unsigned (dbl (of_nat (img_height image) * vg_y_frac_max g))) (\<lambda>yMax.
     res_bind (no_signal (vg_noSignalThresholdColor g) image [xOffset ..< xMax] [yOffset ..< yMax]) (\<lambda>noSignal.
     let (g, emitted) = vg_signal noSignal g in Inr (g, if emitted then Some image else None)))))))"

text \<open>Every \<open>frameDecimation\<close>-th frame is looked at; the size that was read must be the expected one.\<close>

definition vg_process_image ::
  "(nat \<Rightarrow> ColorRgb) \<Rightarrow> byte list \<Rightarrow> int \<Rightarrow> v4l2_grabber \<Rightarrow> (v4l2_grabber \<times> ColorRgb image option) res" where
  "vg_process_image junk mem n g =
     (let g = g\<lparr>vg_currentFrame := vg_currentFrame g + 1\<rparr>
      in if vg_currentFrame g \<ge> vg_frameDecimation g
         then if n \<noteq> vg_frameByteSize g then Inr (g, None)
              else res_bind (vg_process_data junk mem g) (\<lambda>(g, im). Inr (g\<lparr>vg_currentFrame := 0\<rparr>, im))
         else Inr (g, None))"

section \<open>The wrapper of a video device\<close>

record v4l2_wrapper = grabber_wrapper +
  vw_grabber :: v4l2_grabber

text \<open>What the system does when the device is started.\<close>

record v4l2_device =
  vd_opened :: bool
  vd_current :: v4l2_format
  vd_accept :: "v4l2_format \<Rightarrow> v4l2_format"
  vd_started :: bool

definition vw_new :: "string \<Rightarrow> int \<Rightarrow> imgproc \<Rightarrow> bool \<Rightarrow> v4l2_grabber \<Rightarrow> hyperion \<Rightarrow> v4l2_wrapper \<times> hyperion" where
  "vw_new device prio ip fwd vg h =
     (let g = \<lparr>gw_name = ''V4L2:'' @ device, gw_priority = prio, gw_timer = False, gw_forward = fwd, gw_processor = ip,
               gw_component = COMP_V4L, gw_images = [], gw_timeout_ms = 1000,
               gw_ledColors = replicate (length (h_ledString h)) BLACK, vw_grabber = vg\<rparr>
      in (g, gw_init g h))"

definition vw_grabber_start :: "v4l2_device \<Rightarrow> v4l2_wrapper \<Rightarrow> bool \<times> v4l2_wrapper" where
  "vw_grabber_start dev g =
     (let (ok, vg) = vg_start (vd_opened dev) (vd_current dev) (vd_accept dev) (vd_started dev) (vw_grabber g)
      in (ok, g\<lparr>vw_grabber := vg\<rparr>))"

definition vw_start :: "v4l2_device \<Rightarrow> v4l2_wrapper \<Rightarrow> hyperion \<Rightarrow> v4l2_wrapper \<times> hyperion" where
  "vw_start dev g h = (let (ok, g) = vw_grabber_start dev g in if ok then gw_start g h else (g, h))"

definition vw_stop :: "v4l2_wrapper \<Rightarrow> hyperion \<Rightarrow> v4l2_wrapper \<times> hyperion" where
  "vw_stop g h = gw_stop (g\<lparr>vw_grabber := vg_stop (vw_grabber g)\<rparr>) h"

text \<open>The timer: the device rests while a channel with a smaller number is active.\<close>

definition vw_checkSources :: "v4l2_device \<Rightarrow> v4l2_wrapper \<Rightarrow> hyperion \<Rightarrow> v4l2_wrapper" where
  "vw_checkSources dev g h =
     (if list_ex (\<lambda>x. x < gw_priority g) (mux_getPriorities (h_muxer h))
      then g\<lparr>vw_grabber := vg_stop (vw_grabber g)\<rparr>
      else snd (vw_grabber_start dev g))"

datatype vw_event =
    VwFrame "byte list"
  | VwError
  | VwTimer v4l2_device
  | VwComponent v4l2_device bool Components bool
  | VwMode v4l2_device GrabbingMode

text \<open>A frame is read while the notifier of the device is enabled; \<open>w\<close> bits hold the sums of colours.\<close>

fun vw_step ::
  "(nat \<Rightarrow> int) \<Rightarrow> nat \<Rightarrow> (nat \<Rightarrow> ColorRgb) \<Rightarrow> vw_event \<Rightarrow> v4l2_wrapper \<Rightarrow> hyperion \<Rightarrow> (v4l2_wrapper \<times> hyperion) res" where
  "vw_step clk w junk (VwFrame mem) g h =
     (if vg_notifier (vw_grabber g) = Some True
      then res_bind (vg_process_image junk mem (int (length mem)) (vw_grabber g)) (\<lambda>(vg, im).
             let g = g\<lparr>vw_grabber := vg\<rparr>
             in case im of None \<Rightarrow> Inr (g, h) | Some im \<Rightarrow> gw_newFrame clk w im g h)
      else Inr (g, h))"
| "vw_step clk w junk VwError g h = Inr (vw_stop g h)"
| "vw_step clk w junk (VwTimer dev) g h = Inr (if gw_timer g then vw_checkSources dev g h else g, h)"
| "vw_step clk w junk (VwComponent dev fwd cmp enable) g h =
     Inr (gw_componentStateChanged (vw_start dev) vw_stop fwd cmp enable g h)"
| "vw_step clk w junk (VwMode dev mode) g h = Inr (gw_setGrabbingMode (vw_start dev) vw_stop mode g h)"

section \<open>The wrapper of the frame buffer\<close>

record fb_wrapper = grabber_wrapper +
  fbw_image :: "ColorRgb image"
  fbw_grabber :: fb_grabber

definition fbw_new :: "nat \<Rightarrow> nat \<Rightarrow> nat \<Rightarrow> int \<Rightarrow> imgproc \<Rightarrow> bool \<Rightarrow> hyperion \<Rightarrow> (fb_wrapper \<times> hyperion) res" where
  "fbw_new grabWidth grabHeight updateRate_Hz prio ip fwd h =
     (if updateRate_Hz = 0 then Inl Undefined
      else res_bind (ip_setSize grabWidth grabHeight ip) (\<lambda>ip'.
        let g = \<lparr>gw_name = ''FrameBuffer'', gw_priority = prio, gw_timer = False, gw_forward = fwd, gw_processor = ip',
                 gw_component = COMP_GRABBER, gw_images = [], gw_timeout_ms = 2 * int (1000 div updateRate_Hz),
                 gw_ledColors = replicate (length (h_ledString h)) BLACK, fbw_image = img_new BLACK grabWidth grabHeight,
                 fbw_grabber = \<lparr>fb_width = grabWidth, fb_height = grabHeight, fb_resampler = rs_new\<rparr>\<rparr>
        in Inr (g, gw_init g h)))"

definition fbw_setVideoMode :: "VideoMode \<Rightarrow> fb_wrapper \<Rightarrow> fb_wrapper" where
  "fbw_setVideoMode mode g =
     g\<lparr>fbw_grabber := (fbw_grabber g)\<lparr>fb_resampler := set3D mode (fb_resampler (fbw_grabber g))\<rparr>\<rparr>"

definition fbw_action ::
  "(nat \<Rightarrow> int) \<Rightarrow> nat \<Rightarrow> (nat \<Rightarrow> ColorRgb) \<Rightarrow> nat \<Rightarrow> nat \<Rightarrow> nat \<Rightarrow> byte list \<Rightarrow> fb_wrapper \<Rightarrow> hyperion \<Rightarrow> (fb_wrapper \<times> hyperion) res" where
  "fbw_action clk w junk xres yres bits mapped g h =
     res_bind (fb_grabFrame junk xres yres bits mapped (fbw_grabber g) (fbw_image g)) (\<lambda>(fb, im).
     gw_newFrame clk w im (g\<lparr>fbw_grabber := fb, fbw_image := im\<rparr>) h)"

section \<open>The gate for frames without a signal\<close>

text \<open>Which frames of a run pass, from whether each has no signal.\<close>

fun vg_gate :: "bool list \<Rightarrow> v4l2_grabber \<Rightarrow> bool list" where
  "vg_gate [] g = []"
| "vg_gate (b # bs) g = (let (g, emitted) = vg_signal b g in emitted # vg_gate bs g)"

text \<open>The number of frames without a signal at the end of a run, on top of \<open>n\<close> before it.\<close>

fun dark_run :: "nat \<Rightarrow> bool list \<Rightarrow> nat" where
  "dark_run n [] = n"
| "dark_run n (b # bs) = dark_run (if b then Suc n else 0) bs"

lemma dark_run_snoc: "dark_run n (bs @ [b]) = (if b then Suc (dark_run n bs) else 0)"
  by (induction bs arbitrary: n) simp_all

lemma dark_run_all: "dark_run n (replicate k True) = n + k"
  by (induction k arbitrary: n) simp_all

lemma dark_run_ge: "k \<le> dark_run 0 bs \<longleftrightarrow> k \<le> length bs \<and> list_all id (drop (length bs - k) bs)"
proof (induction bs arbitrary: k rule: rev_induct)
  case (snoc b bs)
  show ?case
  proof (cases k)
    case (Suc m)
    then show ?thesis using snoc.IH [of m] by (auto simp: dark_run_snoc)
  qed simp
qed simp

lemma vg_signal_counter:
  "0 \<le> vg_noSignalCounter g \<Longrightarrow> vg_noSignalCounter (fst (vg_signal b g)) = (if b then vg_noSignalCounter g + 1 else 0)"
  "vg_noSignalCounterThreshold (fst (vg_signal b g)) = vg_noSignalCounterThreshold g"
  "1 \<le> vg_noSignalCounterThreshold g \<Longrightarrow> snd (vg_signal b g) \<longleftrightarrow> (if b then vg_noSignalCounter g + 1 else 0) < vg_noSignalCounterThreshold g"
  by (auto simp: vg_signal_def Let_def)

lemma vg_gate_dark:
  assumes "1 \<le> vg_noSignalCounterThreshold g" "vg_noSignalCounter g = int n" "i < length bs"
  shows "length (vg_gate bs g) = length bs"
    "vg_gate bs g ! i \<longleftrightarrow> int (dark_run n (take (Suc i) bs)) < vg_noSignalCounterThreshold g"
proof -
  show "length (vg_gate bs g) = length bs" by (induction bs arbitrary: g) (simp_all add: Let_def split_beta)
  show "vg_gate bs g ! i \<longleftrightarrow> int (dark_run n (take (Suc i) bs)) < vg_noSignalCounterThreshold g"
    using assms
  proof (induction bs arbitrary: g n i)
    case (Cons b bs)
    let ?g = "fst (vg_signal b g)" and ?n = "if b then Suc n else 0"
    have g: "vg_noSignalCounter ?g = int ?n" "vg_noSignalCounterThreshold ?g = vg_noSignalCounterThreshold g"
      using Cons.prems(2) vg_signal_counter(1) [of g b] vg_signal_counter(2) [of b g] by simp_all
    have e: "snd (vg_signal b g) \<longleftrightarrow> int ?n < vg_noSignalCounterThreshold g"
      using vg_signal_counter(3) [OF Cons.prems(1), of b] Cons.prems(2) by (simp add: add.commute)
    show ?case
    proof (cases i)
      case 0
      then show ?thesis using e by (simp add: split_beta)
    next
      case (Suc j)
      then show ?thesis using Cons.IH [of ?g ?n j] Cons.prems(1,3) g by (simp add: split_beta)
    qed
  qed simp
qed

text \<open>
  The gate for a lost signal: from a start with the counter at zero, a frame is passed on exactly
  when fewer frames than the threshold have arrived or one of the last frames, as many as the
  threshold says, has a signal.
\<close>

theorem signal_gate_exact:
  assumes "1 \<le> vg_noSignalCounterThreshold g" "vg_noSignalCounter g = 0" "i < length bs"
  shows "vg_gate bs g ! i \<longleftrightarrow>
    int (Suc i) < vg_noSignalCounterThreshold g \<or>
    list_ex Not (drop (Suc i - nat (vg_noSignalCounterThreshold g)) (take (Suc i) bs))"
proof -
  let ?k = "nat (vg_noSignalCounterThreshold g)" and ?bs = "take (Suc i) bs"
  have "vg_gate bs g ! i \<longleftrightarrow> \<not> ?k \<le> dark_run 0 ?bs"
    using vg_gate_dark(2) [OF assms(1) _ assms(3), of 0] assms(1,2) by simp linarith
  also have "\<dots> \<longleftrightarrow> \<not> (?k \<le> Suc i \<and> list_all id (drop (Suc i - ?k) ?bs))"
    using dark_run_ge [of ?k ?bs] assms(3) by (simp only: length_take min_absorb2 Suc_le_eq)
  also have "\<dots> \<longleftrightarrow> int (Suc i) < vg_noSignalCounterThreshold g \<or> list_ex Not (drop (Suc i - ?k) ?bs)"
  proof -
    have "list_all id xs \<longleftrightarrow> \<not> list_ex Not xs" for xs by (induction xs) simp_all
    moreover have "?k \<le> Suc i \<longleftrightarrow> \<not> int (Suc i) < vg_noSignalCounterThreshold g" using assms(1) by (simp add: nat_le_iff not_less)
    ultimately show ?thesis by blast
  qed
  finally show ?thesis .
qed

theorem signal_gate_exact_witness:
  "vg_gate [True, True, False, True, True] ((vg_new PIXELFORMAT_YUYV 4 2 1 1 1)\<lparr>vg_noSignalCounterThreshold := 2\<rparr>)
     = [True, False, True, True, False]"
proof -
  let ?g = "(vg_new PIXELFORMAT_YUYV 4 2 1 1 1)\<lparr>vg_noSignalCounterThreshold := 2\<rparr>" and ?bs = "[True, True, False, True, True]"
  have g: "1 \<le> vg_noSignalCounterThreshold ?g" "vg_noSignalCounter ?g = 0" by (simp_all add: vg_new_def)
  have "length (vg_gate ?bs ?g) = 5" using vg_gate_dark(1) [OF g(1), of 0 0 ?bs] g(2) by simp
  moreover have "vg_gate ?bs ?g ! i = [True, False, True, True, False] ! i" if "i < 5" for i
  proof -
    from that have "i \<in> {0, 1, 2, 3, 4}" by auto
    then show ?thesis using signal_gate_exact [OF g, of i ?bs] by (auto simp: vg_new_def)
  qed
  ultimately show ?thesis by (intro nth_equalityI) simp_all
qed

section \<open>Frames of a device are processed safely\<close>

text \<open>
  The formats considered: lines without padding, an even width for the formats with shared chroma, a
  valid cropping, and a result with room for the borders the processor may remove (\<open>k\<close> is the margin).
\<close>

definition fmt_fits :: "nat \<Rightarrow> nat \<Rightarrow> resampler \<Rightarrow> int \<Rightarrow> int \<Rightarrow> int \<Rightarrow> PixelFormat \<Rightarrow> bool" where
  "fmt_fits w k r lineLength width height fmt \<longleftrightarrow>
     side_ok width height \<and> fmt \<in> {PIXELFORMAT_UYVY, PIXELFORMAT_YUYV, PIXELFORMAT_RGB32} \<and>
     lineLength = width * pixel_size fmt \<and> lineLength * height < 2 ^ 31 \<and>
     (fmt \<in> {PIXELFORMAT_UYVY, PIXELFORMAT_YUYV} \<longrightarrow> even width) \<and> crop_ok r width height \<and>
     2 * (out_w r width div 3 + k) < out_w r width \<and> 2 * (out_h r height div 3 + k) < out_h r height \<and>
     255 * (out_w r width * out_h r height) < 2 ^ w \<and> out_w r width * out_h r height < 2 ^ 32"

definition unit_fracs :: "v4l2_grabber \<Rightarrow> bool" where
  "unit_fracs g \<longleftrightarrow> list_all (\<lambda>f. 0 \<le> f \<and> f \<le> 1) [vg_x_frac_min g, vg_y_frac_min g, vg_x_frac_max g, vg_y_frac_max g]"

definition vg_fits :: "nat \<Rightarrow> nat \<Rightarrow> v4l2_grabber \<Rightarrow> bool" where
  "vg_fits w k g \<longleftrightarrow>
     fmt_fits w k (vg_resampler g) (vg_lineLength g) (vg_width g) (vg_height g) (vg_pixelFormat g) \<and>
     vg_frameByteSize g = vg_width g * vg_height g * pixel_size (vg_pixelFormat g)"

definition vg_inv :: "nat \<Rightarrow> nat \<Rightarrow> resampler \<Rightarrow> v4l2_grabber \<Rightarrow> bool" where
  "vg_inv w k r g \<longleftrightarrow> unit_fracs g \<and> vg_resampler g = r \<and> (vg_initialized g \<longrightarrow> vg_fits w k g) \<and>
     (vg_notifier g \<noteq> None \<longrightarrow> vg_initialized g)"

definition dev_ok :: "nat \<Rightarrow> nat \<Rightarrow> resampler \<Rightarrow> v4l2_device \<Rightarrow> bool" where
  "dev_ok w k r dev \<longleftrightarrow> (\<forall>req.
     let f = vd_accept dev req
     in vf_pixelformat f \<in> {PIXELFORMAT_UYVY, PIXELFORMAT_YUYV, PIXELFORMAT_RGB32} \<longrightarrow>
        fmt_fits w k r (vf_bytesperline (vd_current dev)) (vf_width f) (vf_height f) (vf_pixelformat f))"

lemma vg_init_device_fits:
  assumes "dev_ok w k (vg_resampler g) dev" "vg_init_device (vd_current dev) (vd_accept dev) g = Inr g'"
  shows "vg_fits w k g'" "unit_fracs g' = unit_fracs g" "vg_resampler g' = vg_resampler g" "vg_notifier g' = vg_notifier g"
proof -
  let ?f = "vd_accept dev (vg_request (vd_current dev) (g\<lparr>vg_lineLength := vf_bytesperline (vd_current dev)\<rparr>))"
  have "vf_pixelformat ?f \<in> {PIXELFORMAT_UYVY, PIXELFORMAT_YUYV, PIXELFORMAT_RGB32}"
    using assms(2) by (auto simp: vg_init_device_def Let_def split: if_splits)
  then have "fmt_fits w k (vg_resampler g) (vf_bytesperline (vd_current dev)) (vf_width ?f) (vf_height ?f) (vf_pixelformat ?f)"
    using assms(1) unfolding dev_ok_def Let_def by blast
  then show "vg_fits w k g'" "unit_fracs g' = unit_fracs g" "vg_resampler g' = vg_resampler g" "vg_notifier g' = vg_notifier g"
    using assms(2) by (auto simp: vg_init_device_def Let_def vg_fits_def pixel_size_def unit_fracs_def split: if_splits)
qed

lemma vg_inv_init:
  assumes "vg_inv w k r g" "dev_ok w k r dev"
  shows "vg_inv w k r (vg_init opened (vd_current dev) (vd_accept dev) g)"
proof -
  have r: "dev_ok w k (vg_resampler (g\<lparr>vg_notifier := Some False\<rparr>)) dev" using assms by (simp add: vg_inv_def)
  show ?thesis
  proof (cases "vg_initialized g \<or> \<not> opened")
    case True
    then show ?thesis using assms(1) by (auto simp: vg_init_def)
  next
    case closed: False
    show ?thesis
    proof (cases "vg_init_device (vd_current dev) (vd_accept dev) (g\<lparr>vg_notifier := Some False\<rparr>)")
      case (Inl e)
      then show ?thesis using assms(1) closed by (simp add: vg_init_def vg_inv_def unit_fracs_def)
    next
      case (Inr g')
      note fits = vg_init_device_fits [OF r Inr]
      have "vg_inv w k r (g'\<lparr>vg_initialized := True\<rparr>)"
        using fits assms(1) by (simp add: vg_inv_def unit_fracs_def vg_fits_def)
      then show ?thesis using closed Inr by (simp add: vg_init_def)
    qed
  qed
qed

lemma vg_inv_start:
  assumes "vg_inv w k r g" "dev_ok w k r dev"
  shows "vg_inv w k r (snd (vg_start opened (vd_current dev) (vd_accept dev) started g))"
  using vg_inv_init [OF assms, of opened]
  by (auto simp: vg_start_def vg_inv_def unit_fracs_def vg_fits_def Let_def)

lemma vg_inv_stop: "vg_inv w k r g \<Longrightarrow> vg_inv w k r (vg_stop g)"
  by (auto simp: vg_stop_def vg_inv_def unit_fracs_def vg_fits_def)

lemma vg_inv_signal: "vg_inv w k r g \<Longrightarrow> vg_inv w k r (fst (vg_signal b g))"
  by (auto simp: vg_signal_def vg_inv_def unit_fracs_def vg_fits_def Let_def)

lemma vg_inv_currentFrame [simp]: "vg_inv w k r (g\<lparr>vg_currentFrame := c\<rparr>) \<longleftrightarrow> vg_inv w k r g"
  unfolding vg_inv_def unit_fracs_def vg_fits_def by simp

lemma area_bound:
  assumes "0 \<le> f" "f \<le> 1" "n < 2 ^ 32"
  shows "\<exists>m \<le> n. rat_to_unsigned (dbl (of_nat n * f)) = Inr m"
proof -
  have n: "(of_nat n :: rat) = of_int (int n)" by simp
  have "0 \<le> dbl (of_nat n * f)" using assms by (intro dbl.rnd_nonneg) simp
  then have "0 \<le> trunc_rat (dbl (of_nat n * f))" by (rule trunc_rat_sign)
  moreover have "dbl (of_nat n * f) \<le> of_int (int n)"
    using assms by (intro dbl.rnd_le) (simp_all add: mult_left_le)
  then have "trunc_rat (dbl (of_nat n * f)) \<le> int n" using trunc_rat_mono trunc_rat_of_int by metis
  ultimately show ?thesis using assms(3) by (simp add: rat_to_unsigned_def)
qed

lemma no_signal_ok:
  assumes "img_wf im" "\<forall>x \<in> set xs. x < img_width im" "\<forall>y \<in> set ys. y < img_height im"
  shows "\<exists>b. no_signal thr im xs ys = Inr b"
proof -
  have col: "\<exists>b'. index_loop (\<lambda>y noSignal. if noSignal
             then res_bind (img_at im x y) (\<lambda>c. Inr (color_le c thr)) else Inr False) ys b = Inr b'" if "x < img_width im" for x b
    using assms(3) by (induction ys arbitrary: b) (auto simp: img_at_ok [OF assms(1) that])
  have "\<exists>b'. index_loop (\<lambda>x noSignal. if noSignal
         then index_loop (\<lambda>y noSignal. if noSignal
             then res_bind (img_at im x y) (\<lambda>c. Inr (color_le c thr)) else Inr False) ys noSignal
         else Inr False) xs b = Inr b'" for b
    using assms(2)
  proof (induction xs arbitrary: b)
    case (Cons x xs)
    from col [of x b] Cons.prems obtain b' where "index_loop (\<lambda>y noSignal. if noSignal
             then res_bind (img_at im x y) (\<lambda>c. Inr (color_le c thr)) else Inr False) ys b = Inr b'" by auto
    with Cons show ?case by (cases b) simp_all
  qed simp
  then show ?thesis by (simp add: no_signal_def)
qed

text \<open>The picture of a frame with all its bytes, and that picture is one the processor takes.\<close>

lemma vg_process_data_ok:
  assumes "vg_inv w k r g" "vg_initialized g" "int (length mem) = vg_frameByteSize g"
  shows "\<exists>g' im. vg_process_data junk mem g = Inr (g', im) \<and> vg_inv w k r g' \<and> vg_initialized g' \<and>
    (\<forall>i. im = Some i \<longrightarrow> img_wf i \<and> img_width i = out_w r (vg_width g) \<and> img_height i = out_h r (vg_height g))"
proof -
  have f: "fmt_fits w k r (vg_lineLength g) (vg_width g) (vg_height g) (vg_pixelFormat g)"
    "vg_frameByteSize g = vg_width g * vg_height g * pixel_size (vg_pixelFormat g)" "unit_fracs g" "vg_resampler g = r"
    using assms(1,2) by (auto simp: vg_inv_def vg_fits_def)
  note ff = f(1) [unfolded fmt_fits_def]
  have fo: "frame_ok (vg_pixelFormat g) mem (vg_width g) (vg_height g) (vg_lineLength g)"
    using ff f(2) assms(3) by (auto simp: frame_ok_def side_ok_def mult.commute mult.left_commute)
  have co: "crop_ok r (vg_width g) (vg_height g)" using ff by simp
  let ?w = "out_w r (vg_width g)" and ?h = "out_h r (vg_height g)"
  have pos: "0 < ?w" "0 < ?h" using ff by linarith+
  then have "img_width (img_new BLACK 0 0) = ?w \<longleftrightarrow> img_height (img_new BLACK 0 0) = ?h" by (simp add: img_new_def)
  then obtain im where im: "processImage junk mem (vg_width g) (vg_height g) (vg_lineLength g) (vg_pixelFormat g) r (img_new BLACK 0 0) = Inr im"
      "img_wf im" "img_width im = ?w" "img_height im = ?h"
    using resample_exact_size [OF fo co] by (metis img_wf_constructors(2))
  have lt: "?w < 2 ^ 32" "?h < 2 ^ 32"
    using crop_facts(3,4) [OF _ co] ff by (auto simp: side_ok_def)
  have fr: "0 \<le> vg_x_frac_min g" "vg_x_frac_min g \<le> 1" "0 \<le> vg_y_frac_min g" "vg_y_frac_min g \<le> 1"
    "0 \<le> vg_x_frac_max g" "vg_x_frac_max g \<le> 1" "0 \<le> vg_y_frac_max g" "vg_y_frac_max g \<le> 1"
    using f(3) by (simp_all add: unit_fracs_def)
  obtain x0 y0 x1 y1 where o:
    "rat_to_unsigned (dbl (of_nat ?w * vg_x_frac_min g)) = Inr x0" "rat_to_unsigned (dbl (of_nat ?h * vg_y_frac_min g)) = Inr y0"
    "rat_to_unsigned (dbl (of_nat ?w * vg_x_frac_max g)) = Inr x1" "x1 \<le> ?w"
    "rat_to_unsigned (dbl (of_nat ?h * vg_y_frac_max g)) = Inr y1" "y1 \<le> ?h"
    using area_bound [OF fr(1,2) lt(1)] area_bound [OF fr(3,4) lt(2)] area_bound [OF fr(5,6) lt(1)] area_bound [OF fr(7,8) lt(2)] by blast
  have "\<exists>b. no_signal (vg_noSignalThresholdColor g) im [x0 ..< x1] [y0 ..< y1] = Inr b"
    using o(4,6) im(3,4) by (intro no_signal_ok [OF im(2)]) auto
  then obtain b where "no_signal (vg_noSignalThresholdColor g) im [x0 ..< x1] [y0 ..< y1] = Inr b" by blast
  then have "vg_process_data junk mem g = (let (g, emitted) = vg_signal b g in Inr (g, if emitted then Some im else None))"
    using im o by (simp add: vg_process_data_def f(4))
  moreover have "vg_initialized (fst (vg_signal b g))" using assms(2) by (auto simp: vg_signal_def Let_def)
  ultimately show ?thesis using vg_inv_signal [OF assms(1), of b] im by (auto simp: split_beta Let_def)
qed

section \<open>Sessions of a video device\<close>

lemma process_into_ok:
  assumes "ip_inv ip" "roomy (ip_border ip) im" "accumulates w im" "length cs = length (ip_leds ip)"
  shows "\<exists>ip' cs'. ip_process_into w im cs ip = Inr (ip', cs') \<and> ip_inv ip' \<and> ip_same ip' ip \<and> length cs' = length (ip_leds ip)"
proof -
  obtain ip' cs' where p: "ip_process w im ip = Inr (ip', cs')" "ip_inv ip'" "ip_same ip' ip" "length cs' = length (ip_leds ip)"
    using ip_process_ok [OF assms(1-3)] by blast
  then obtain ip1 m where m: "ip_setSize (img_width im) (img_height im) ip = Inr ip1" "verifyBorder im ip1 = Inr ip'"
      "ip_map ip' = Some m" "ip_colors w im ip' = Inr cs'"
    by (auto simp: ip_process_def ip_colors_def res_bind_Inr_iff split: option.splits)
  have "map_ok (ip_leds ip') m" using p(2) m(3) by (simp add: ip_inv_def)
  then have "itl_new (itl_width m) (itl_height m) (itl_horizontalBorder m) (itl_verticalBorder m) (ip_leds ip') = Inr m"
    by (simp add: map_ok_def)
  then have "length (itl_colorsMap m) = length (ip_leds ip')"
    by (auto simp: itl_new_def Let_def split: if_splits dest!: arg_cong [where f = "\<lambda>m. length (itl_colorsMap m)"])
  then have len: "length (itl_colorsMap m) = length cs" using assms(4) p(3) by (simp add: ip_same_def)
  have "(if ip_mappingType ip' = 1 then getUniLedColor_into w m im cs else getMeanLedColor_into w m im cs) = Inr cs'"
    using m(3,4) len by (auto simp: ip_colors_def getUniLedColor_def getMeanLedColor_def getUniLedColor_into_def
        getMeanLedColor_into_def map_replicate_const split: if_splits)
  then have "ip_process_into w im cs ip = Inr (ip', cs')" using m by (simp add: ip_process_into_def)
  with p show ?thesis by blast
qed

lemma gw_newFrame_ok:
  assumes "core_at pw clk cfg junk h" "ip_inv (gw_processor g)" "roomy (ip_border (gw_processor g)) im" "accumulates w im"
    and "length (gw_ledColors g) = length (cfg_leds cfg)" "length (ip_leds (gw_processor g)) = length (cfg_leds cfg)"
    and "gw_priority g \<noteq> LOWEST_PRIORITY"
  shows "\<exists>ip cs h'. gw_newFrame clk w im g h = Inr
      (g\<lparr>gw_images := gw_images g @ [(gw_priority g, im, gw_timeout_ms g)], gw_processor := ip, gw_ledColors := cs\<rparr>, h') \<and>
    core_at pw clk cfg junk h' \<and> ip_inv ip \<and> ip_same ip (gw_processor g) \<and> length cs = length (cfg_leds cfg)"
proof -
  obtain ip cs where p: "ip_process_into w im (gw_ledColors g) (gw_processor g) = Inr (ip, cs)" "ip_inv ip" "ip_same ip (gw_processor g)"
      "length cs = length (cfg_leds cfg)"
    using process_into_ok [OF assms(2-4)] assms(5,6) by metis
  have "core_at pw clk cfg junk (hyp_setImage (gw_priority g) im (gw_timeout_ms g) h)" using assms(1) by simp
  from core_at_setColors [OF this p(4)] assms(7) obtain h' where
    "hyp_setColors clk (gw_priority g) cs (gw_timeout_ms g) True (gw_component g) (hyp_setImage (gw_priority g) im (gw_timeout_ms g) h) = Inr h'"
    "core_at pw clk cfg junk h'" by blast
  moreover from this p(1) have "gw_newFrame clk w im g h = Inr
      (g\<lparr>gw_images := gw_images g @ [(gw_priority g, im, gw_timeout_ms g)], gw_processor := ip, gw_ledColors := cs\<rparr>, h')"
    by (simp add: gw_newFrame_def gw_setColors_def Let_def)
  ultimately show ?thesis using p(2-4) by blast
qed

definition vw_inv :: "nat \<Rightarrow> nat \<Rightarrow> nat \<Rightarrow> resampler \<Rightarrow> v4l2_wrapper \<Rightarrow> bool" where
  "vw_inv w n k r g \<longleftrightarrow> vg_inv w k r (vw_grabber g) \<and> ip_inv (gw_processor g) \<and>
     length (ip_leds (gw_processor g)) = n \<and> length (gw_ledColors g) = n \<and>
     unat (bp_blurRemoveCnt (ip_border (gw_processor g))) = k \<and> gw_priority g \<noteq> LOWEST_PRIORITY"

fun vw_event_ok :: "nat \<Rightarrow> nat \<Rightarrow> resampler \<Rightarrow> vw_event \<Rightarrow> bool" where
  "vw_event_ok w k r (VwTimer dev) \<longleftrightarrow> dev_ok w k r dev"
| "vw_event_ok w k r (VwComponent dev fwd cmp enable) \<longleftrightarrow> dev_ok w k r dev"
| "vw_event_ok w k r (VwMode dev mode) \<longleftrightarrow> dev_ok w k r dev"
| "vw_event_ok w k r _ \<longleftrightarrow> True"

lemma vw_start_ok:
  assumes "vw_inv w n k r g" "dev_ok w k r dev" "core_at pw clk cfg junk h"
  shows "vw_inv w n k r (snd (vw_grabber_start dev g))"
    "vw_inv w n k r (fst (vw_start dev g h)) \<and> core_at pw clk cfg junk (snd (vw_start dev g h))"
proof -
  show a: "vw_inv w n k r (snd (vw_grabber_start dev g))"
    using assms(1) vg_inv_start [OF _ assms(2), of "vw_grabber g"]
    by (simp add: vw_grabber_start_def vw_inv_def split_beta)
  then show "vw_inv w n k r (fst (vw_start dev g h)) \<and> core_at pw clk cfg junk (snd (vw_start dev g h))"
    using assms(3) by (auto simp: vw_start_def gw_start_def vw_inv_def split_beta)
qed

lemma vw_stop_ok:
  assumes "vw_inv w n k r g" "core_at pw clk cfg junk h"
  shows "vw_inv w n k r (fst (vw_stop g h)) \<and> core_at pw clk cfg junk (snd (vw_stop g h))"
  using assms vg_inv_stop by (simp add: vw_stop_def gw_stop_def vw_inv_def)

lemma vw_component_ok:
  assumes "vw_inv w n k r g" "dev_ok w k r dev" "core_at pw clk cfg junk h"
    and s: "gw_componentStateChanged (vw_start dev) vw_stop fwd cmp enable g h = (g', h')"
  shows "vw_inv w n k r g' \<and> core_at pw clk cfg junk h'"
proof -
  have switch: "vw_inv w n k r (fst (gw_switch (vw_start dev) vw_stop fwd enable g h)) \<and>
      core_at pw clk cfg junk (snd (gw_switch (vw_start dev) vw_stop fwd enable g h))"
    using assms(1,3) vw_start_ok(2) [OF assms(1-3)] vw_stop_ok [OF assms(1,3)]
    by (simp add: gw_switch_def split_beta) (simp add: vw_inv_def)
  let ?a = "if cmp = gw_component g
      then (let (g, h) = gw_switch (vw_start dev) vw_stop fwd enable g h in (g, hyp_reportComponent cmp (gw_timer g) h)) else (g, h)"
  have a: "vw_inv w n k r (fst ?a) \<and> core_at pw clk cfg junk (snd ?a)"
    using switch assms(1,3) by (simp add: split_beta)
  have bb: "vw_inv w n k r (x\<lparr>gw_processor := enableBlackBorderDetector enable (gw_processor x)\<rparr>)" if "vw_inv w n k r x" for x
    using that by (simp add: vw_inv_def enableBlackBorderDetector_def bp_setEnabled_def ip_inv_def known_mode_def)
  obtain x y where xy: "?a = (x, y)" by fastforce
  then have "vw_inv w n k r x" "core_at pw clk cfg junk y" using a by (simp_all del: split_paired_All)
  moreover have "gw_componentStateChanged (vw_start dev) vw_stop fwd cmp enable g h =
      (if cmp = COMP_BLACKBORDER
       then (let x' = (if bp_enabled (ip_border (gw_processor x)) \<noteq> enable
                        then x\<lparr>gw_processor := enableBlackBorderDetector enable (gw_processor x)\<rparr> else x)
               in (x', hyp_reportComponent cmp (bp_enabled (ip_border (gw_processor x'))) y))
       else (x, y))"
    unfolding gw_componentStateChanged_def Let_def [of ?a] xy by simp
  ultimately show ?thesis using bb [of x] s by (auto simp: Let_def split: if_splits)
qed

lemma vw_frame_ok:
  assumes "vw_inv w (length (cfg_leds cfg)) k r g" "core_at pw clk cfg junk h"
  shows "\<exists>g' h'. vw_step clk w zero (VwFrame mem) g h = Inr (g', h') \<and> vw_inv w (length (cfg_leds cfg)) k r g' \<and> core_at pw clk cfg junk h'"
proof (cases "vg_notifier (vw_grabber g) = Some True")
  case on: True
  let ?vg = "vw_grabber g"
  let ?vg' = "?vg\<lparr>vg_currentFrame := vg_currentFrame ?vg + 1\<rparr>"
  have inv: "vg_inv w k r ?vg" using assms(1) by (simp add: vw_inv_def)
  have inv': "vg_inv w k r ?vg'" "vg_initialized ?vg'" using inv on by (simp, simp add: vg_inv_def)
  show ?thesis
  proof (cases "vg_currentFrame ?vg' \<ge> vg_frameDecimation ?vg' \<and> int (length mem) = vg_frameByteSize ?vg'")
    case False
    then have "vg_process_image zero mem (int (length mem)) ?vg = Inr (?vg', None)"
      by (simp only: vg_process_image_def Let_def) auto
    then show ?thesis using on assms inv' by (auto simp: vw_inv_def)
  next
    case True
    from vg_process_data_ok [OF inv', of mem zero] True obtain vg1 im where
      d: "vg_process_data zero mem ?vg' = Inr (vg1, im)" "vg_inv w k r vg1" "vg_initialized vg1"
        "\<And>i. im = Some i \<Longrightarrow> img_wf i \<and> img_width i = out_w r (vg_width ?vg') \<and> img_height i = out_h r (vg_height ?vg')"
      by blast
    let ?vg2 = "vg1\<lparr>vg_currentFrame := 0\<rparr>" let ?g = "g\<lparr>vw_grabber := ?vg2\<rparr>"
    have p: "vg_process_image zero mem (int (length mem)) ?vg = Inr (?vg2, im)"
      using True d(1) by (simp only: vg_process_image_def Let_def) auto
    have g2: "vw_inv w (length (cfg_leds cfg)) k r ?g"
      using assms(1) d(2) by (simp add: vw_inv_def)
    show ?thesis
    proof (cases im)
      case None
      then show ?thesis using on p g2 assms(2) by simp
    next
      case (Some i)
      have "fmt_fits w k r (vg_lineLength ?vg') (vg_width ?vg') (vg_height ?vg') (vg_pixelFormat ?vg')"
        using inv' by (auto simp: vg_inv_def vg_fits_def)
      note f = this [unfolded fmt_fits_def]
      have lt: "out_w r (vg_width ?vg') < 2 ^ 31" "out_h r (vg_height ?vg') < 2 ^ 31"
        using crop_facts(3,4) [of "vg_width ?vg'" "vg_height ?vg'" r] f by (auto simp: side_ok_def)
      have "roomy (ip_border (gw_processor ?g)) i" "accumulates w i"
        using d(4) [OF Some] f lt g2 by (simp_all add: roomy_def accumulates_def vw_inv_def)
      moreover have "ip_inv (gw_processor ?g)" "length (gw_ledColors ?g) = length (cfg_leds cfg)"
        "length (ip_leds (gw_processor ?g)) = length (cfg_leds cfg)" "gw_priority ?g \<noteq> LOWEST_PRIORITY"
        using g2 by (simp_all add: vw_inv_def)
      ultimately obtain ip cs h' where n: "gw_newFrame clk w i ?g h = Inr
          (?g\<lparr>gw_images := gw_images ?g @ [(gw_priority ?g, i, gw_timeout_ms ?g)], gw_processor := ip, gw_ledColors := cs\<rparr>, h')"
          "core_at pw clk cfg junk h'" "ip_inv ip" "ip_same ip (gw_processor ?g)" "length cs = length (cfg_leds cfg)"
        using gw_newFrame_ok [OF assms(2), of ?g i w] by blast
      then show ?thesis using on p Some g2 by (auto simp: vw_inv_def ip_same_def same_config_def)
    qed
  qed
qed (use assms in simp)

lemma vw_step_ok:
  assumes "vw_inv w (length (cfg_leds cfg)) k r g" "vw_event_ok w k r ev" "core_at pw clk cfg junk h"
  shows "\<exists>g' h'. vw_step clk w zero ev g h = Inr (g', h') \<and> vw_inv w (length (cfg_leds cfg)) k r g' \<and> core_at pw clk cfg junk h'"
proof (cases ev)
  case (VwFrame mem)
  then show ?thesis using vw_frame_ok [OF assms(1,3)] by simp
next
  case VwError
  then show ?thesis using vw_stop_ok [OF assms(1,3)] by (simp add: prod_eq_iff)
next
  case (VwTimer dev)
  then have "vw_inv w (length (cfg_leds cfg)) k r (vw_checkSources dev g h)"
    using assms vw_start_ok(1) vg_inv_stop by (auto simp: vw_checkSources_def vw_inv_def)
  then show ?thesis using VwTimer assms by simp
next
  case (VwComponent dev fwd cmp enable)
  then show ?thesis using vw_component_ok [OF assms(1) _ assms(3), of dev fwd cmp enable] assms(2)
    by (simp del: split_paired_Ex) (metis surj_pair)
next
  case (VwMode dev mode)
  then show ?thesis using vw_start_ok(2) [OF assms(1) _ assms(3)] vw_stop_ok [OF assms(1,3)] assms(2)
    by (simp add: gw_setGrabbingMode_def prod_eq_iff)
qed

interpretation v4l2: core_session "vw_step clk w zero" "vw_inv w (length (cfg_leds cfg)) k r" "vw_event_ok w k r"
    "core_at pw clk cfg junk" for clk w zero k r pw cfg junk
  by unfold_locales (rule vw_step_ok)

text \<open>
  C11.  A video device keeps the core running: with frames of any content, and with changes of components,
  grabbing modes, read errors and checks of the sources in between, no byte outside a frame is read,
  every picture is processed and the core stays in a reachable state.  Asked is that the grabber and
  every format it is opened with agree (\<open>vw_inv\<close>, \<open>vw_event_ok\<close>): a line length that belongs to the
  format it delivers, an even width where the format has pairs of pixels, a cropping that leaves
  something, a picture with room for borders and margin whose sums fit the accumulators; that the
  area of the signal detection is given by fractions between zero and one, the image processor is
  made for the leds of the core, and the channel is not the lowest.  Frames of another size than
  the reported one are dropped.
\<close>

theorem v4l2_session_served:
  assumes "cfg_ok pw cfg" "reachable pw clk cfg junk h"
    and "vw_inv w (length (cfg_leds cfg)) k r g" "list_all (vw_event_ok w k r) evs"
  shows "\<exists>g' h'. session (vw_step clk w zero) evs g h = Inr (g', h') \<and> reachable pw clk cfg junk h' \<and>
    vw_inv w (length (cfg_leds cfg)) k r g'"
proof -
  have "core_at pw clk cfg junk h" using assms(1,2) by (simp add: core_at_def)
  from v4l2.session_ok [OF assms(3,4) this] show ?thesis unfolding core_at_def by blast
qed

definition demo_device :: v4l2_device where
  "demo_device =
     \<lparr>vd_opened = True, vd_current = \<lparr>vf_width = 16, vf_height = 16, vf_pixelformat = PIXELFORMAT_YUYV, vf_bytesperline = 32\<rparr>,
      vd_accept = (\<lambda>_. \<lparr>vf_width = 16, vf_height = 16, vf_pixelformat = PIXELFORMAT_YUYV, vf_bytesperline = 32\<rparr>),
      vd_started = True\<rparr>"

lemma demo_resampler: "vg_resampler (vg_new PIXELFORMAT_YUYV 16 16 1 1 1) = rs_new"
  by (simp add: vg_new_def rs_new_def setVerticalPixelDecimation_def setHorizontalPixelDecimation_def)

lemma demo_fits: "fmt_fits 32 1 rs_new 32 16 16 PIXELFORMAT_YUYV"
  by (simp add: fmt_fits_def side_ok_def pixel_size_def crop_ok_def rs_new_def eff_right_def eff_bottom_def
      out_w_def out_h_def cells_def)

lemma demo_device_ok: "dev_ok 32 1 rs_new demo_device"
  using demo_fits by (simp add: dev_ok_def demo_device_def Let_def)

definition demo_wrapper :: "int \<Rightarrow> v4l2_wrapper" where
  "demo_wrapper prio =
     \<lparr>gw_name = ''V4L2'', gw_priority = prio, gw_timer = False, gw_forward = False,
      gw_processor = ip_new (cfg_leds demo_cfg) (bp_new True 600 50 10 1 ''osd'' 0), gw_component = COMP_V4L, gw_images = [],
      gw_timeout_ms = 1000, gw_ledColors = replicate (length (cfg_leds demo_cfg)) BLACK,
      vw_grabber = vg_new PIXELFORMAT_YUYV 16 16 1 1 1\<rparr>"

lemma demo_wrapper_inv: "prio \<noteq> LOWEST_PRIORITY \<Longrightarrow> vw_inv 32 (length (cfg_leds demo_cfg)) 1 rs_new (demo_wrapper prio)"
proof -
  have "vg_inv 32 1 rs_new (vg_new PIXELFORMAT_YUYV 16 16 1 1 1)"
    using demo_resampler by (simp add: vg_inv_def) (simp add: vg_new_def unit_fracs_def)
  moreover have "list_all led_wf (cfg_leds demo_cfg)" using createLedString_wf by (simp add: list_all_iff)
  ultimately show "prio \<noteq> LOWEST_PRIORITY \<Longrightarrow> vw_inv 32 (length (cfg_leds demo_cfg)) 1 rs_new (demo_wrapper prio)"
    by (simp add: demo_wrapper_def vw_inv_def ip_new_def ip_inv_def known_mode_def bp_new_def)
qed

theorem v4l2_session_served_witness:
  "\<exists>h g' h'. hyp_new (\<lambda>x y. 1) (\<lambda>n. int n) demo_cfg 7 = Inr h \<and>
     session (vw_step (\<lambda>n. int n) 32 (\<lambda>i. BLACK))
       [VwMode demo_device GRABBINGMODE_VIDEO, VwFrame (replicate 512 200), VwTimer demo_device, VwError] (demo_wrapper 240) h = Inr (g', h')"
proof -
  obtain h where h: "hyp_new (\<lambda>x y. 1) (\<lambda>n. int n) demo_cfg 7 = Inr h"
    using hyp_new_ok [OF demo_cfg_ok, of "\<lambda>n. int n" 7] by blast
  then have r: "reachable (\<lambda>x y. 1) (\<lambda>n. int n) demo_cfg 7 h" by (rule reachable.Start)
  have i: "vw_inv 32 (length (cfg_leds demo_cfg)) 1 rs_new (demo_wrapper 240)" by (rule demo_wrapper_inv) (simp add: LOWEST_PRIORITY_def)
  have "list_all (vw_event_ok 32 1 rs_new)
      [VwMode demo_device GRABBINGMODE_VIDEO, VwFrame (replicate 512 200), VwTimer demo_device, VwError]"
    using demo_device_ok by simp
  from v4l2_session_served [OF demo_cfg_ok r i this] h show ?thesis by blast
qed

section \<open>Yielding to other sources\<close>

text \<open>
  The check of the sources: at the timer of a running grabber its device delivers frames
  afterwards exactly when no channel with a smaller number is active.  A grabber on a number above the
  lowest channel, as the daemon's defaults 890 and 900 are, therefore stops at its first check.
\<close>

theorem v4l2_yields_to_sources:
  assumes "cfg_ok pw cfg" "reachable pw clk cfg junk h"
    and "gw_timer g" "vg_initialized (vw_grabber g)" "vg_notifier (vw_grabber g) \<noteq> None"
  shows "\<exists>g'. vw_step clk w zero (VwTimer dev) g h = Inr (g', h) \<and> gw_timer g' \<and>
    (vg_notifier (vw_grabber g') = Some True \<longleftrightarrow> (\<forall>p < gw_priority g. mux_abs (h_muxer h) p = None)) \<and>
    (LOWEST_PRIORITY < gw_priority g \<longrightarrow> vg_notifier (vw_grabber g') = Some False)"
proof -
  have "core_ok (cfg_leds cfg) (cfg_clones cfg) (cfg_hwLeds cfg) h" using reachable_core_ok [OF assms(2,1)] by simp
  then have wf: "mux_wf (h_muxer h)" using core_okD(1) by (auto simp: mux_ok_def)
  then have keys: "p \<in> set (mux_getPriorities (h_muxer h)) \<longleftrightarrow> mux_abs (h_muxer h) p \<noteq> None" for p
    by (auto simp: mux_abs_def mux_getPriorities_def mux_wf_def qm.find_in_keys)
  let ?g = "vw_checkSources dev g h"
  have some: "list_ex (\<lambda>x. x < gw_priority g) (mux_getPriorities (h_muxer h)) \<longleftrightarrow> \<not> (\<forall>p < gw_priority g. mux_abs (h_muxer h) p = None)"
    using keys by (auto simp: list_ex_iff)
  have "vg_notifier (vw_grabber ?g) = Some True \<longleftrightarrow> \<not> list_ex (\<lambda>x. x < gw_priority g) (mux_getPriorities (h_muxer h))"
    "vg_notifier (vw_grabber ?g) \<noteq> None" "gw_timer ?g"
    using assms(3-5)
    by (auto simp: vw_checkSources_def vg_stop_def vw_grabber_start_def vg_start_def vg_init_def Let_def)
  then have on: "vg_notifier (vw_grabber ?g) = Some True \<longleftrightarrow> (\<forall>p < gw_priority g. mux_abs (h_muxer h) p = None)"
    "vg_notifier (vw_grabber ?g) \<noteq> None" "gw_timer ?g"
    using some by blast+
  have "mux_abs (h_muxer h) LOWEST_PRIORITY \<noteq> None" using mux_wf_keys_nonempty [OF wf] keys by simp
  then have "LOWEST_PRIORITY < gw_priority g \<Longrightarrow> vg_notifier (vw_grabber ?g) = Some False" using on(1,2) by (cases "vg_notifier (vw_grabber ?g)") auto
  with on assms(3) show ?thesis by simp
qed

theorem v4l2_yields_to_sources_witness:
  "\<exists>h g g'. hyp_new (\<lambda>x y. 1) (\<lambda>n. int n) demo_cfg 7 = Inr h \<and> g = fst (vw_start demo_device (demo_wrapper 890) h) \<and>
     vg_notifier (vw_grabber g) = Some True \<and>
     vw_step (\<lambda>n. int n) 32 (\<lambda>i. BLACK) (VwTimer demo_device) g h = Inr (g', h) \<and> vg_notifier (vw_grabber g') = Some False"
proof -
  obtain h where h: "hyp_new (\<lambda>x y. 1) (\<lambda>n. int n) demo_cfg 7 = Inr h"
    using hyp_new_ok [OF demo_cfg_ok, of "\<lambda>n. int n" 7] by blast
  then have r: "reachable (\<lambda>x y. 1) (\<lambda>n. int n) demo_cfg 7 h" by (rule reachable.Start)
  let ?g = "fst (vw_start demo_device (demo_wrapper 890) h)"
  have g: "gw_timer ?g" "vg_initialized (vw_grabber ?g)" "vg_notifier (vw_grabber ?g) = Some True" "gw_priority ?g = 890"
    by (simp_all add: vw_start_def vw_grabber_start_def vg_start_def vg_init_def vg_init_device_def demo_device_def
        demo_wrapper_def vg_new_def gw_start_def Let_def)
  show ?thesis
    using v4l2_yields_to_sources [OF demo_cfg_ok r g(1,2), of 32 "\<lambda>i. BLACK" demo_device] g h by (auto simp: LOWEST_PRIORITY_def)
qed

section \<open>The length of a line\<close>

text \<open>
  The length of a line is taken from the format before the requested one is set.  When the driver
  accepts a smaller picture, the offset of the last row, counted with the old length, lies behind the
  frame: the first frame of exactly the announced size is read outside its memory.
\<close>

theorem v4l2_line_length_stale:
  assumes "vg_init_device current accept g = Inr g'" "side_ok (vg_width g') (vg_height g')"
    and "crop_ok (vg_resampler g') (vg_width g') (vg_height g')"
    and "0 < out_w (vg_resampler g') (vg_width g')" "0 < out_h (vg_resampler g') (vg_height g')"
    and "vg_frameByteSize g' \<le> vf_bytesperline current *
      src_pos (rs_cropTop (vg_resampler g')) (rs_verticalDecimation (vg_resampler g')) (out_h (vg_resampler g') (vg_height g') - 1)"
    and "int (length mem) = vg_frameByteSize g'"
  shows "vg_process_data zero mem g' = Inl Undefined"
proof -
  let ?r = "vg_resampler g'" and ?fmt = "vg_pixelFormat g'"
  let ?x = "src_pos (rs_cropLeft ?r) (rs_horizontalDecimation ?r) 0"
  let ?y = "src_pos (rs_cropTop ?r) (rs_verticalDecimation ?r) (out_h ?r (vg_height g') - 1)"
  have g': "vg_lineLength g' = vf_bytesperline current" "?fmt \<in> {PIXELFORMAT_UYVY, PIXELFORMAT_YUYV, PIXELFORMAT_RGB32}"
    using assms(1) by (auto simp: vg_init_device_def Let_def split: if_splits)
  have x: "0 \<le> ?x" using crop_facts(7) [OF assms(2,3,4)] by simp
  have ps: "0 \<le> pixel_size ?fmt" by (cases ?fmt) (simp_all add: pixel_size_def)
  let ?i = "vg_lineLength g' * ?y + ?x * pixel_size ?fmt"
  have "0 \<le> ?x * pixel_size ?fmt" using x ps by simp
  then have "int (length mem) \<le> ?i" using assms(6,7) unfolding g'(1) by linarith
  then have "read_bytes mem ?i (pixel_bytes ?fmt b) = Inl Undefined" for b
    using g'(2) by (cases ?fmt) (auto simp: pixel_bytes_def data_at_def peek_def)
  then have "source_pixel ?fmt mem (vg_lineLength g') ?x ?y = Inl Undefined"
    by (simp add: source_pixel_def int32_def)
  moreover have "?fmt \<noteq> PIXELFORMAT_NO_CHANGE" using g'(2) by auto
  ultimately have "processImage zero mem (vg_width g') (vg_height g') (vg_lineLength g') ?fmt ?r im = Inl Undefined" for im
    using processImage_unreadable [OF assms(2,3) _ assms(4), of ?fmt "out_h ?r (vg_height g') - 1"] assms(5) by simp
  then show ?thesis by (simp add: vg_process_data_def)
qed

theorem v4l2_line_length_stale_witness:
  "\<exists>g'. vg_init_device \<lparr>vf_width = 640, vf_height = 480, vf_pixelformat = PIXELFORMAT_YUYV, vf_bytesperline = 1280\<rparr>
      (\<lambda>req. req\<lparr>vf_bytesperline := 2 * vf_width req\<rparr>) (vg_new PIXELFORMAT_YUYV 32 16 1 1 1) = Inr g' \<and>
    vg_frameByteSize g' = 1024 \<and> vg_process_data (\<lambda>i. BLACK) (replicate 1024 0) g' = Inl Undefined"
proof -
  let ?cur = "\<lparr>vf_width = 640, vf_height = 480, vf_pixelformat = PIXELFORMAT_YUYV, vf_bytesperline = 1280\<rparr>"
  let ?acc = "\<lambda>req :: v4l2_format. req\<lparr>vf_bytesperline := 2 * vf_width req\<rparr>"
  obtain g' where g': "vg_init_device ?cur ?acc (vg_new PIXELFORMAT_YUYV 32 16 1 1 1) = Inr g'" "vg_frameByteSize g' = 1024"
      "vg_width g' = 32" "vg_height g' = 16" "vg_resampler g' = rs_new"
    by (simp add: vg_init_device_def vg_request_def Let_def vg_new_def rs_new_def setVerticalPixelDecimation_def
        setHorizontalPixelDecimation_def)
  have o: "out_w rs_new 32 = 32" "out_h rs_new 16 = 16" "crop_ok rs_new 32 16" "side_ok 32 16"
    by (simp_all add: out_w_def out_h_def cells_def crop_ok_def rs_new_def eff_right_def eff_bottom_def side_ok_def)
  have s: "src_pos (rs_cropTop rs_new) (rs_verticalDecimation rs_new) 15 = 15" by (simp add: src_pos_def rs_new_def)
  show ?thesis
    using v4l2_line_length_stale [OF g'(1), of "replicate 1024 0" "\<lambda>i. BLACK"] g' o s by auto
qed

end
