(* ===== verification/Kodi.thy ===== *)
theory Kodi
  imports Resampler Json Hyperion
begin

text \<open>
  The checker of Kodi (\<open>libsrc/kodivideochecker/KODIVideoChecker.cpp\<close>): a client that asks the media
  player what it does and tells the grabbers when to grab and in which video mode.  A message is the
  result of the JSON parser; the socket is the list of the requests written to it.
\<close>

section \<open>State\<close>

datatype kodi_request =
    ActivePlayerRequest | CurrentPlayingItemRequest int | CheckScreensaverRequest | GetStereoscopicMode
  | GetKodiVersion | GetCurrentPlaybackState int

text \<open>\<open>kc_grabbing\<close> and \<open>kc_video\<close> are the modes emitted so far.\<close>

record kodi =
  kc_grabVideo :: bool
  kc_grabPhoto :: bool
  kc_grabAudio :: bool
  kc_grabMenu :: bool
  kc_grabPause :: bool
  kc_grabScreensaver :: bool
  kc_enable3DDetection :: bool
  kc_previousGrabbingMode :: GrabbingMode
  kc_previousVideoMode :: VideoMode
  kc_currentPlaybackState :: bool
  kc_currentPlayerID :: int
  kc_kodiVersion :: int
  kc_active :: bool
  kc_playbackInitialized :: bool
  kc_sent :: "kodi_request list"
  kc_grabbing :: "GrabbingMode list"
  kc_video :: "VideoMode list"

definition kc_new :: "bool \<Rightarrow> bool \<Rightarrow> bool \<Rightarrow> bool \<Rightarrow> bool \<Rightarrow> bool \<Rightarrow> bool \<Rightarrow> kodi" where
  "kc_new grabVideo grabPhoto grabAudio grabMenu grabPause grabScreensaver enable3DDetection =
     \<lparr>kc_grabVideo = grabVideo, kc_grabPhoto = grabPhoto, kc_grabAudio = grabAudio, kc_grabMenu = grabMenu,
      kc_grabPause = grabPause, kc_grabScreensaver = grabScreensaver, kc_enable3DDetection = enable3DDetection,
      kc_previousGrabbingMode = GRABBINGMODE_INVALID, kc_previousVideoMode = VIDEO_2D,
      kc_currentPlaybackState = False, kc_currentPlayerID = 0, kc_kodiVersion = 0, kc_active = False,
      kc_playbackInitialized = False, kc_sent = [], kc_grabbing = [], kc_video = []\<rparr>"

definition kc_write :: "kodi_request \<Rightarrow> kodi \<Rightarrow> kodi" where
  "kc_write r k = k\<lparr>kc_sent := kc_sent k @ [r]\<rparr>"

definition kc_emitVideoMode :: "VideoMode \<Rightarrow> kodi \<Rightarrow> kodi" where
  "kc_emitVideoMode m k = k\<lparr>kc_video := kc_video k @ [m]\<rparr>"

definition kc_setGrabbingMode :: "GrabbingMode \<Rightarrow> kodi \<Rightarrow> kodi" where
  "kc_setGrabbingMode m k =
     (if m = kc_previousGrabbingMode k then k
      else k\<lparr>kc_grabbing := kc_grabbing k @ [m], kc_previousGrabbingMode := m\<rparr>)"

definition kc_setVideoMode :: "VideoMode \<Rightarrow> kodi \<Rightarrow> kodi" where
  "kc_setVideoMode m k =
     (if m = kc_previousVideoMode k then k else (kc_emitVideoMode m k)\<lparr>kc_previousVideoMode := m\<rparr>)"

definition grab_if :: "bool \<Rightarrow> GrabbingMode \<Rightarrow> GrabbingMode" where
  "grab_if b m = (if b then m else GRABBINGMODE_OFF)"

definition kc_menu :: "kodi \<Rightarrow> kodi" where
  "kc_menu k = kc_setGrabbingMode (grab_if (kc_grabMenu k) GRABBINGMODE_MENU) k"

text \<open>The mode while something plays or pauses.\<close>

definition kc_playing :: "bool \<Rightarrow> GrabbingMode \<Rightarrow> kodi \<Rightarrow> kodi" where
  "kc_playing flag m k =
     kc_setGrabbingMode (if kc_currentPlaybackState k then grab_if flag m
       else grab_if (kc_grabPause k) GRABBINGMODE_PAUSE) k"

section \<open>Starting and stopping\<close>

definition kc_start :: "kodi \<Rightarrow> kodi" where
  "kc_start k = k\<lparr>kc_active := True\<rparr>"

definition kc_stop :: "kodi \<Rightarrow> kodi" where
  "kc_stop k = k\<lparr>kc_active := False\<rparr>"

text \<open>The configuration again; an active checker is stopped, and the slot meant to restart it has no name.\<close>

definition kc_setConfig :: "bool \<Rightarrow> bool \<Rightarrow> bool \<Rightarrow> bool \<Rightarrow> bool \<Rightarrow> bool \<Rightarrow> bool \<Rightarrow> kodi \<Rightarrow> kodi" where
  "kc_setConfig grabVideo grabPhoto grabAudio grabMenu grabPause grabScreensaver enable3DDetection k =
     (let k = k\<lparr>kc_grabVideo := grabVideo, kc_grabPhoto := grabPhoto, kc_grabAudio := grabAudio, kc_grabMenu := grabMenu,
                kc_grabPause := grabPause, kc_grabScreensaver := grabScreensaver,
                kc_enable3DDetection := enable3DDetection, kc_previousGrabbingMode := GRABBINGMODE_INVALID,
                kc_previousVideoMode := VIDEO_2D, kc_kodiVersion := 0\<rparr>
      in if kc_active k then kc_stop k else k)"

definition kc_componentStateChanged :: "Components \<Rightarrow> bool \<Rightarrow> kodi \<Rightarrow> hyperion \<Rightarrow> kodi \<times> hyperion" where
  "kc_componentStateChanged cmp enable k h =
     (if cmp = COMP_KODICHECKER
      then (let k = (if kc_active k \<noteq> enable then (if enable then kc_start k else kc_stop k) else k)
            in (k, hyp_reportComponent cmp (kc_active k) h))
      else (k, h))"

definition kc_connected :: "kodi \<Rightarrow> kodi" where
  "kc_connected k =
     kc_write CheckScreensaverRequest (kc_write ActivePlayerRequest (k\<lparr>kc_playbackInitialized := False\<rparr>))"

definition kc_disconnected :: "kodi \<Rightarrow> kodi" where
  "kc_disconnected k =
     k\<lparr>kc_previousGrabbingMode := GRABBINGMODE_INVALID, kc_previousVideoMode := VIDEO_2D, kc_kodiVersion := 0\<rparr>"

section \<open>Messages\<close>

text \<open>\<open>contains(\<dots>, Qt::CaseInsensitive)\<close> for a text of letters and digits.\<close>

definition contains_nocase :: "string \<Rightarrow> string \<Rightarrow> bool" where
  "contains_nocase s t =
     (let s = map tolower s; t = map tolower t
      in list_ex (\<lambda>i. take (length t) (drop i s) = t) [0 ..< Suc (length s)])"

abbreviation sub :: "json \<Rightarrow> string \<Rightarrow> json" where
  "sub v key \<equiv> json_lookup (json_object v) key"

definition kc_activePlayers :: "json list \<Rightarrow> kodi \<Rightarrow> kodi" where
  "kc_activePlayers resultArray k =
     (let k = kc_emitVideoMode VIDEO_2D k;
          player = (case resultArray of [] \<Rightarrow> JUndefined | p # _ \<Rightarrow> p);
          type = json_string [] (sub player ''type'');
          prevCurrentPlayerID = kc_currentPlayerID k;
          k = k\<lparr>kc_currentPlayerID := json_int 0 (sub player ''playerid'')\<rparr>
      in if \<not> kc_playbackInitialized k \<and> prevCurrentPlayerID = 0 \<and> kc_currentPlayerID k \<noteq> 0
         then (kc_write (GetCurrentPlaybackState (kc_currentPlayerID k)) k)\<lparr>kc_playbackInitialized := True\<rparr>
         else if type = ''video''
         then (let k = kc_playing (kc_grabVideo k) GRABBINGMODE_VIDEO k
               in kc_write (CurrentPlayingItemRequest (kc_currentPlayerID k)) k)
         else if type = ''picture'' then kc_playing (kc_grabPhoto k) GRABBINGMODE_PHOTO k
         else if type = ''audio'' then kc_playing (kc_grabAudio k) GRABBINGMODE_AUDIO k
         else k)"

definition kc_playingItem :: "json \<Rightarrow> kodi \<Rightarrow> kodi" where
  "kc_playingItem result k =
     (if kc_kodiVersion k \<ge> 13 then kc_write GetStereoscopicMode k
      else if json_contains (json_object (sub result ''item'')) ''file''
      then (let filename = json_string [] (sub (sub result ''item'') ''file'')
            in if contains_nocase filename ''3DSBS'' \<or> contains_nocase filename ''HSBS'' then kc_setVideoMode VIDEO_3DSBS k
               else if contains_nocase filename ''3DTAB'' \<or> contains_nocase filename ''HTAB'' then kc_setVideoMode VIDEO_3DTAB k
               else kc_setVideoMode VIDEO_2D k)
      else kc_menu k)"

definition kc_screensaver :: "bool \<Rightarrow> json \<Rightarrow> kodi \<Rightarrow> kodi" where
  "kc_screensaver online result k =
     (if json_contains (json_object result) ''System.ScreenSaverActive''
      then (let k = (if json_bool False (sub result ''System.ScreenSaverActive'')
                     then kc_setGrabbingMode (grab_if (kc_grabScreensaver k) GRABBINGMODE_SCREENSAVER) k
                     else kc_write ActivePlayerRequest k)
            in if online \<and> kc_kodiVersion k = 0 then kc_write GetKodiVersion k else k)
      else kc_menu k)"

definition kc_stereoscopic :: "json \<Rightarrow> kodi \<Rightarrow> kodi" where
  "kc_stereoscopic result k =
     (if json_contains (json_object (sub result ''stereoscopicmode'')) ''mode''
      then (let mode = json_string [] (sub (sub result ''stereoscopicmode'') ''mode'')
            in if mode = ''split_vertical'' then kc_setVideoMode VIDEO_3DSBS k
               else if mode = ''split_horizontal'' then kc_setVideoMode VIDEO_3DTAB k else k)
      else kc_menu k)"

definition kc_reply :: "bool \<Rightarrow> int \<Rightarrow> json \<Rightarrow> kodi \<Rightarrow> kodi" where
  "kc_reply online i result k =
     (if i = 666 then
        (case result of JArray (p # ps) \<Rightarrow> kc_activePlayers (p # ps) k | _ \<Rightarrow> kc_menu k)
      else if i = 667 then kc_playingItem result k
      else if i = 668 then kc_screensaver online result k
      else if i = 669 then kc_stereoscopic result k
      else if i = 670 then
        (if json_contains (json_object (sub result ''version'')) ''major''
         then k\<lparr>kc_kodiVersion := json_int 0 (sub (sub result ''version'') ''major'')\<rparr> else kc_menu k)
      else if i = 671 then
        (if json_contains (json_object result) ''speed''
         then k\<lparr>kc_currentPlaybackState := (json_int 0 (sub result ''speed'') \<noteq> 0)\<rparr> else kc_menu k)
      else k)"

definition kc_playerSpeed :: "json \<Rightarrow> kodi \<Rightarrow> kodi" where
  "kc_playerSpeed params k =
     (let player = sub (sub params ''data'') ''player''
      in if json_contains (json_object player) ''speed''
         then k\<lparr>kc_playbackInitialized := True, kc_currentPlaybackState := (json_int 0 (sub player ''speed'') \<noteq> 0)\<rparr>
         else k)"

definition kc_notification :: "string \<Rightarrow> json \<Rightarrow> kodi \<Rightarrow> kodi" where
  "kc_notification method params k =
     (if method = ''Player.OnPlay'' then kc_write ActivePlayerRequest (kc_playerSpeed params k)
      else if method = ''Player.OnStop'' then kc_setVideoMode VIDEO_2D (kc_menu k)
      else if method = ''Player.OnPause''
      then (let k = kc_playerSpeed params k in kc_setGrabbingMode (grab_if (kc_grabPause k) GRABBINGMODE_PAUSE) k)
      else if method = ''GUI.OnScreensaverActivated''
      then kc_setGrabbingMode (grab_if (kc_grabScreensaver k) GRABBINGMODE_SCREENSAVER) k
      else if method = ''GUI.OnScreensaverDeactivated'' then kc_write ActivePlayerRequest k
      else if method = ''Playlist.OnAdd'' \<and> sub (sub (sub params ''data'') ''item'') ''type'' = JString ''picture''
      then kc_setGrabbingMode (grab_if (kc_grabPhoto k) GRABBINGMODE_PHOTO) k
      else if method = ''Input.OnInputFinished''
      then (let k = kc_write CheckScreensaverRequest (kc_write ActivePlayerRequest k)
            in if kc_currentPlayerID k \<noteq> 0 then kc_write (GetCurrentPlaybackState (kc_currentPlayerID k)) k else k)
      else k)"

text \<open>\<open>doc\<close> is \<open>None\<close> when the text cannot be parsed.\<close>

definition kc_receiveReply :: "bool \<Rightarrow> json option \<Rightarrow> kodi \<Rightarrow> kodi" where
  "kc_receiveReply online doc k =
     (case doc of
        Some (JObject obj) \<Rightarrow>
          if json_contains obj ''id'' then kc_reply online (json_int 0 (json_lookup obj ''id'')) (json_lookup obj ''result'') k
          else if json_contains obj ''method''
          then kc_notification (json_string [] (json_lookup obj ''method'')) (json_lookup obj ''params'') k
          else k
      | _ \<Rightarrow> k)"

datatype kodi_event = KodiMessage bool "json option" | KodiConnected | KodiDisconnected | KodiStart | KodiStop

fun kc_step :: "kodi_event \<Rightarrow> kodi \<Rightarrow> kodi" where
  "kc_step (KodiMessage online doc) k = kc_receiveReply online doc k"
| "kc_step KodiConnected k = kc_connected k"
| "kc_step KodiDisconnected k = kc_disconnected k"
| "kc_step KodiStart k = kc_start k"
| "kc_step KodiStop k = kc_stop k"

section \<open>What is emitted\<close>

text \<open>The modes the settings allow: each content has its own flag, and nothing is grabbed otherwise.\<close>

fun kc_allowed :: "kodi \<Rightarrow> GrabbingMode \<Rightarrow> bool" where
  "kc_allowed k GRABBINGMODE_VIDEO = kc_grabVideo k"
| "kc_allowed k GRABBINGMODE_PHOTO = kc_grabPhoto k"
| "kc_allowed k GRABBINGMODE_AUDIO = kc_grabAudio k"
| "kc_allowed k GRABBINGMODE_MENU = kc_grabMenu k"
| "kc_allowed k GRABBINGMODE_PAUSE = kc_grabPause k"
| "kc_allowed k GRABBINGMODE_SCREENSAVER = kc_grabScreensaver k"
| "kc_allowed k GRABBINGMODE_OFF = True"
| "kc_allowed k GRABBINGMODE_INVALID = False"

definition kc_wf :: "kodi \<Rightarrow> bool" where
  "kc_wf k \<longleftrightarrow> list_all (kc_allowed k) (kc_grabbing k) \<and>
     kc_previousGrabbingMode k \<in> {GRABBINGMODE_INVALID, last (GRABBINGMODE_INVALID # kc_grabbing k)}"

text \<open>What a step may change: the flags are only written by a new configuration.\<close>

definition kc_flags :: "kodi \<Rightarrow> bool list" where
  "kc_flags k = [kc_grabVideo k, kc_grabPhoto k, kc_grabAudio k, kc_grabMenu k, kc_grabPause k, kc_grabScreensaver k]"

definition kc_keeps :: "(kodi \<Rightarrow> kodi) \<Rightarrow> bool" where
  "kc_keeps f \<longleftrightarrow> (\<forall>k. kc_wf k \<longrightarrow> kc_wf (f k) \<and> kc_flags (f k) = kc_flags k)"

lemma kc_keepsI: "(\<And>k. kc_wf k \<Longrightarrow> kc_wf (f k) \<and> kc_flags (f k) = kc_flags k) \<Longrightarrow> kc_keeps f"
  by (simp add: kc_keeps_def)

lemma kc_allowed_cong: "kc_flags k = kc_flags k' \<Longrightarrow> kc_allowed k = kc_allowed k'"
proof
  fix m
  assume "kc_flags k = kc_flags k'"
  then show "kc_allowed k m = kc_allowed k' m"
    by (cases m) (simp_all add: kc_flags_def)
qed

lemma kc_flags_upd [simp]:
  "kc_flags (k\<lparr>kc_sent := x1\<rparr>) = kc_flags k" "kc_flags (k\<lparr>kc_grabbing := x2\<rparr>) = kc_flags k"
  "kc_flags (k\<lparr>kc_video := x3\<rparr>) = kc_flags k" "kc_flags (k\<lparr>kc_previousGrabbingMode := x4\<rparr>) = kc_flags k"
  "kc_flags (k\<lparr>kc_previousVideoMode := x5\<rparr>) = kc_flags k" "kc_flags (k\<lparr>kc_currentPlaybackState := x6\<rparr>) = kc_flags k"
  "kc_flags (k\<lparr>kc_currentPlayerID := x7\<rparr>) = kc_flags k" "kc_flags (k\<lparr>kc_kodiVersion := x8\<rparr>) = kc_flags k"
  "kc_flags (k\<lparr>kc_active := x9\<rparr>) = kc_flags k" "kc_flags (k\<lparr>kc_playbackInitialized := x10\<rparr>) = kc_flags k"
  by (simp_all add: kc_flags_def)

lemma kc_allowed_upd [simp]:
  "kc_allowed (k\<lparr>kc_sent := x1\<rparr>) = kc_allowed k" "kc_allowed (k\<lparr>kc_grabbing := x2\<rparr>) = kc_allowed k"
  "kc_allowed (k\<lparr>kc_video := x3\<rparr>) = kc_allowed k" "kc_allowed (k\<lparr>kc_previousGrabbingMode := x4\<rparr>) = kc_allowed k"
  "kc_allowed (k\<lparr>kc_previousVideoMode := x5\<rparr>) = kc_allowed k" "kc_allowed (k\<lparr>kc_currentPlaybackState := x6\<rparr>) = kc_allowed k"
  "kc_allowed (k\<lparr>kc_currentPlayerID := x7\<rparr>) = kc_allowed k" "kc_allowed (k\<lparr>kc_kodiVersion := x8\<rparr>) = kc_allowed k"
  "kc_allowed (k\<lparr>kc_active := x9\<rparr>) = kc_allowed k" "kc_allowed (k\<lparr>kc_playbackInitialized := x10\<rparr>) = kc_allowed k"
  by (rule kc_allowed_cong, simp)+

lemma kc_wf_upd [simp]:
  "kc_wf (k\<lparr>kc_sent := x1\<rparr>) = kc_wf k" "kc_wf (k\<lparr>kc_video := x3\<rparr>) = kc_wf k"
  "kc_wf (k\<lparr>kc_previousVideoMode := x5\<rparr>) = kc_wf k" "kc_wf (k\<lparr>kc_currentPlaybackState := x6\<rparr>) = kc_wf k"
  "kc_wf (k\<lparr>kc_currentPlayerID := x7\<rparr>) = kc_wf k" "kc_wf (k\<lparr>kc_kodiVersion := x8\<rparr>) = kc_wf k"
  "kc_wf (k\<lparr>kc_active := x9\<rparr>) = kc_wf k" "kc_wf (k\<lparr>kc_playbackInitialized := x10\<rparr>) = kc_wf k"
  by (simp_all add: kc_wf_def)

lemma kc_setGrabbingMode_keeps:
  assumes "kc_wf k" and "kc_allowed k m"
  shows "kc_wf (kc_setGrabbingMode m k) \<and> kc_flags (kc_setGrabbingMode m k) = kc_flags k"
  using assms by (auto simp: kc_setGrabbingMode_def kc_wf_def)

lemma kc_allowed_grab_if:
  "kc_allowed k (grab_if (kc_grabVideo k) GRABBINGMODE_VIDEO)"
  "kc_allowed k (grab_if (kc_grabPhoto k) GRABBINGMODE_PHOTO)"
  "kc_allowed k (grab_if (kc_grabAudio k) GRABBINGMODE_AUDIO)"
  "kc_allowed k (grab_if (kc_grabMenu k) GRABBINGMODE_MENU)"
  "kc_allowed k (grab_if (kc_grabPause k) GRABBINGMODE_PAUSE)"
  "kc_allowed k (grab_if (kc_grabScreensaver k) GRABBINGMODE_SCREENSAVER)"
  by (simp_all add: grab_if_def)

lemmas kc_mode_keeps = kc_setGrabbingMode_keeps [OF _ kc_allowed_grab_if(1)] kc_setGrabbingMode_keeps [OF _ kc_allowed_grab_if(2)]
  kc_setGrabbingMode_keeps [OF _ kc_allowed_grab_if(3)] kc_setGrabbingMode_keeps [OF _ kc_allowed_grab_if(4)]
  kc_setGrabbingMode_keeps [OF _ kc_allowed_grab_if(5)] kc_setGrabbingMode_keeps [OF _ kc_allowed_grab_if(6)]

lemma kc_setVideoMode_keeps [simp]:
  "kc_wf (kc_setVideoMode m k) = kc_wf k" "kc_flags (kc_setVideoMode m k) = kc_flags k"
  by (simp_all add: kc_setVideoMode_def kc_emitVideoMode_def)

lemma kc_write_keeps [simp]: "kc_wf (kc_write r k) = kc_wf k" "kc_flags (kc_write r k) = kc_flags k"
  by (simp_all add: kc_write_def)

lemma kc_emitVideoMode_keeps [simp]:
  "kc_wf (kc_emitVideoMode m k) = kc_wf k" "kc_flags (kc_emitVideoMode m k) = kc_flags k"
  by (simp_all add: kc_emitVideoMode_def)

lemma kc_playerSpeed_keeps [simp]:
  "kc_wf (kc_playerSpeed p k) = kc_wf k" "kc_flags (kc_playerSpeed p k) = kc_flags k"
  by (simp_all add: kc_playerSpeed_def Let_def)

lemma kc_menu_keeps: "kc_wf k \<Longrightarrow> kc_wf (kc_menu k) \<and> kc_flags (kc_menu k) = kc_flags k"
  by (simp add: kc_menu_def kc_mode_keeps)

lemma kc_playing_keeps:
  assumes "kc_wf k" and "kc_allowed k (grab_if flag m)"
  shows "kc_wf (kc_playing flag m k) \<and> kc_flags (kc_playing flag m k) = kc_flags k"
  using assms by (auto simp: kc_playing_def kc_mode_keeps kc_setGrabbingMode_keeps)

lemmas kc_playing_each = kc_playing_keeps [OF _ kc_allowed_grab_if(1)] kc_playing_keeps [OF _ kc_allowed_grab_if(2)]
  kc_playing_keeps [OF _ kc_allowed_grab_if(3)]

lemma kc_activePlayers_keeps:
  "kc_wf k \<Longrightarrow> kc_wf (kc_activePlayers ps k) \<and> kc_flags (kc_activePlayers ps k) = kc_flags k"
  unfolding kc_activePlayers_def Let_def
  by (split if_splits | (rule conjI impI)+ | simp add: kc_playing_keeps grab_if_def kc_emitVideoMode_def)+

lemma kc_playingItem_keeps:
  "kc_wf k \<Longrightarrow> kc_wf (kc_playingItem r k) \<and> kc_flags (kc_playingItem r k) = kc_flags k"
  by (simp add: kc_playingItem_def Let_def kc_menu_keeps)

lemma kc_screensaver_keeps:
  "kc_wf k \<Longrightarrow> kc_wf (kc_screensaver online r k) \<and> kc_flags (kc_screensaver online r k) = kc_flags k"
  by (simp add: kc_screensaver_def Let_def kc_menu_keeps kc_mode_keeps)

lemma kc_stereoscopic_keeps:
  "kc_wf k \<Longrightarrow> kc_wf (kc_stereoscopic r k) \<and> kc_flags (kc_stereoscopic r k) = kc_flags k"
  by (simp add: kc_stereoscopic_def Let_def kc_menu_keeps)

lemma kc_reply_keeps: "kc_wf k \<Longrightarrow> kc_wf (kc_reply online i r k) \<and> kc_flags (kc_reply online i r k) = kc_flags k"
  by (simp add: kc_reply_def kc_playingItem_keeps kc_screensaver_keeps kc_stereoscopic_keeps kc_menu_keeps
      kc_activePlayers_keeps split: json.split list.split)

lemma kc_notification_keeps:
  "kc_wf k \<Longrightarrow> kc_wf (kc_notification m p k) \<and> kc_flags (kc_notification m p k) = kc_flags k"
  by (auto simp: kc_notification_def Let_def kc_menu_keeps kc_mode_keeps)

lemma kc_step_keeps: "kc_wf k \<Longrightarrow> kc_wf (kc_step e k) \<and> kc_flags (kc_step e k) = kc_flags k"
proof (cases e)
  case (KodiMessage online doc)
  then show "kc_wf k \<Longrightarrow> ?thesis"
    by (auto simp: kc_receiveReply_def kc_reply_keeps kc_notification_keeps split: option.split json.split)
next
  case KodiDisconnected
  then show "kc_wf k \<Longrightarrow> ?thesis"
    by (auto simp: kc_disconnected_def kc_wf_def)
qed (simp_all add: kc_connected_def kc_start_def kc_stop_def)

lemma kc_run_keeps: "kc_wf k \<Longrightarrow> kc_wf (fold kc_step es k) \<and> kc_flags (fold kc_step es k) = kc_flags k"
  by (induction es arbitrary: k) (simp_all add: kc_step_keeps)

section \<open>Properties\<close>

lemma kc_new_wf: "kc_wf (kc_new gv gp ga gm gz gs e3)"
  by (simp add: kc_new_def kc_wf_def)

text \<open>
  C23.  Whatever Kodi sends, in whatever order, and however often the connection breaks: every grabbing
  mode the checker has announced is OFF or one whose own setting is on, it never announces INVALID, and
  the mode it remembers is INVALID (nothing known, after a disconnect) or the last one announced.
\<close>

theorem kodi_grabs_only_configured:
  "let k = fold kc_step es (kc_new gv gp ga gm gz gs e3)
   in list_all (kc_allowed (kc_new gv gp ga gm gz gs e3)) (kc_grabbing k) \<and>
      kc_previousGrabbingMode k \<in> {GRABBINGMODE_INVALID, last (GRABBINGMODE_INVALID # kc_grabbing k)}"
  using kc_run_keeps [OF kc_new_wf [of gv gp ga gm gz gs e3], of es]
  by (metis (no_types, lifting) kc_allowed_cong kc_wf_def)

text \<open>The two replies Kodi gives for a running video.\<close>

definition player_reply :: "int \<Rightarrow> json" where
  "player_reply player = JObject [(''id'', JDouble 666),
     (''result'', JArray [JObject [(''playerid'', JDouble (of_int player)), (''type'', JString ''video'')]])]"

definition item_reply :: "string \<Rightarrow> json" where
  "item_reply file = JObject [(''id'', JDouble 667), (''result'', JObject [(''item'', JObject [(''file'', JString file)])])]"

lemma kc_setGrabbingMode_sel [simp]:
  "kc_video (kc_setGrabbingMode m k) = kc_video k" "kc_previousVideoMode (kc_setGrabbingMode m k) = kc_previousVideoMode k"
  "kc_kodiVersion (kc_setGrabbingMode m k) = kc_kodiVersion k" "kc_playbackInitialized (kc_setGrabbingMode m k) = kc_playbackInitialized k"
  by (simp_all add: kc_setGrabbingMode_def)

lemma kc_playing_sel [simp]:
  "kc_video (kc_playing b m k) = kc_video k" "kc_previousVideoMode (kc_playing b m k) = kc_previousVideoMode k"
  "kc_kodiVersion (kc_playing b m k) = kc_kodiVersion k" "kc_playbackInitialized (kc_playing b m k) = kc_playbackInitialized k"
  by (simp_all add: kc_playing_def)

lemma player_reply_step:
  assumes "kc_playbackInitialized k"
  shows "kc_video (kc_step (KodiMessage online (Some (player_reply player))) k) = kc_video k @ [VIDEO_2D]"
    and "kc_previousVideoMode (kc_step (KodiMessage online (Some (player_reply player))) k) = kc_previousVideoMode k"
    and "kc_kodiVersion (kc_step (KodiMessage online (Some (player_reply player))) k) = kc_kodiVersion k"
    and "kc_playbackInitialized (kc_step (KodiMessage online (Some (player_reply player))) k)"
  using assms by (simp_all add: player_reply_def kc_receiveReply_def kc_reply_def kc_activePlayers_def
      json_contains_def json_lookup_def kc_emitVideoMode_def kc_write_def Let_def)

lemma item_reply_step:
  assumes "kc_kodiVersion k < 13"
  shows "kc_step (KodiMessage online (Some (item_reply file))) k =
    (if contains_nocase file ''3DSBS'' \<or> contains_nocase file ''HSBS'' then kc_setVideoMode VIDEO_3DSBS k
     else if contains_nocase file ''3DTAB'' \<or> contains_nocase file ''HTAB'' then kc_setVideoMode VIDEO_3DTAB k
     else kc_setVideoMode VIDEO_2D k)"
  using assms by (simp add: item_reply_def kc_receiveReply_def kc_reply_def kc_playingItem_def
      json_contains_def json_lookup_def)

text \<open>
  A film in 3D side by side on a Kodi before version 13.  The first time, the two replies switch the
  grabbers to 2D and then to the 3D mode.  When the same replies arrive again (after a pause, say), the
  2D mode is announced again, without being remembered, and the 3D mode, which is still remembered, is
  not: the grabbers stay in 2D for the rest of the film.
\<close>

theorem kodi_video_mode_lost:
  assumes "kc_playbackInitialized k" and "kc_kodiVersion k < 13" and "contains_nocase file ''3DSBS''"
    and "kc_previousVideoMode k = VIDEO_2D"
  shows "let play = [KodiMessage True (Some (player_reply player)), KodiMessage True (Some (item_reply file))];
             first = fold kc_step play k; again = fold kc_step play first
         in kc_video first = kc_video k @ [VIDEO_2D, VIDEO_3DSBS] \<and>
            kc_video again = kc_video k @ [VIDEO_2D, VIDEO_3DSBS, VIDEO_2D] \<and>
            kc_previousVideoMode again = VIDEO_3DSBS"
proof -
  define play where "play k = kc_step (KodiMessage True (Some (player_reply player))) k" for k
  define item where "item k = kc_step (KodiMessage True (Some (item_reply file))) k" for k
  note p = player_reply_step [where online = True and player = player, folded play_def]
  have first: "item (play k) = kc_setVideoMode VIDEO_3DSBS (play k)"
    using assms p(3) [OF assms(1)] by (simp add: item_def item_reply_step del: kc_step.simps)
  have initialized: "kc_playbackInitialized (item (play k))"
    using p(3,4) [OF assms(1)]
    by (simp add: first kc_setVideoMode_def kc_emitVideoMode_def)
  have version: "kc_kodiVersion (play (item (play k))) < 13"
    using p(3) [OF initialized] p(3) [OF assms(1)] assms(2)
    by (simp add: first kc_setVideoMode_def kc_emitVideoMode_def)
  have second: "item (play (item (play k))) = kc_setVideoMode VIDEO_3DSBS (play (item (play k)))"
    using assms(3) version by (simp add: item_def item_reply_step del: kc_step.simps)
  show ?thesis
    using p [OF assms(1)] p [OF initialized] assms(4) first second
    by (simp add: Let_def play_def [symmetric] item_def [symmetric] kc_setVideoMode_def kc_emitVideoMode_def del: kc_step.simps)
qed

theorem kodi_video_mode_lost_witness:
  "kc_video (fold kc_step
      [KodiMessage True (Some (player_reply 1)), KodiMessage True (Some (item_reply ''Film.3dsbs.mkv'')),
       KodiMessage True (Some (player_reply 1)), KodiMessage True (Some (item_reply ''Film.3dsbs.mkv''))]
      ((kc_new True True True True True True True)\<lparr>kc_playbackInitialized := True\<rparr>)) = [VIDEO_2D, VIDEO_3DSBS, VIDEO_2D]"
proof -
  have "contains_nocase ''Film.3dsbs.mkv'' ''3DSBS''"
    by code_simp
  then show ?thesis
    using kodi_video_mode_lost [of "(kc_new True True True True True True True)\<lparr>kc_playbackInitialized := True\<rparr>"
        "''Film.3dsbs.mkv''" 1]
    by (simp add: kc_new_def Let_def)
qed

end
