(* ===== verification/Remote.thy ===== *)
theory Remote
  imports JsonServer Forwarder ProtoServer
begin

text \<open>
  The command-line client \<open>hyperion-remote\<close> (\<open>src/hyperion-remote/JsonConnection.cpp\<close>,
  \<open>hyperion-remote.cpp\<close>) and the options that carry colours (\<open>libsrc/commandline\<close>): which message each
  command sends, how the reply is read, and that the server of the other side understands the
  messages.  Objects are lists of members in the order of their keys.  The parser and the printer of
  JSON, base64, the named colours and the connection of the socket are arguments.
\<close>

section \<open>The connection\<close>

text \<open>\<open>up\<close> says whether the host can be reached.\<close>

definition rm_connect :: "string \<Rightarrow> bool \<Rightarrow> (string \<times> nat) res" where
  "rm_connect address up =
     (let parts = split_at (CHR '':'') address in
      if length parts \<noteq> 2 then Inl RuntimeError
      else (let (port, ok) = toUShort (parts ! 1)
            in if \<not> ok then Inl RuntimeError
               else if \<not> up then Inl RuntimeError else Inr (parts ! 0, port)))"

text \<open>Data are read, piece by piece, until there is a line; without further data the read fails.\<close>

fun rm_read :: "string list \<Rightarrow> string \<Rightarrow> string res" where
  "rm_read chunks buf =
     (if CHR 0x0A \<in> set buf then Inr buf
      else case chunks of [] \<Rightarrow> Inl RuntimeError | ch # chs \<Rightarrow> rm_read chs (buf @ ch))"

declare rm_read.simps [simp del]

type_synonym json_reader = "string \<Rightarrow> (string \<times> nat) + (string \<times> json) list"

text \<open>The line that is written, and what becomes of the answer: everything read is parsed.\<close>

definition rm_line :: "((string \<times> json) list \<Rightarrow> string) \<Rightarrow> (string \<times> json) list \<Rightarrow> string" where
  "rm_line ser message = ser message @ [CHR 0x0A]"

definition rm_sendMessage :: "json_reader \<Rightarrow> bool \<Rightarrow> string list \<Rightarrow> (string \<times> json) list res" where
  "rm_sendMessage parse written chunks =
     (if \<not> written then Inl RuntimeError
      else res_bind (rm_read chunks []) (\<lambda>s. case parse s of Inl e \<Rightarrow> Inl RuntimeError | Inr obj \<Rightarrow> Inr obj))"

definition rm_parseReply :: "(string \<times> json) list \<Rightarrow> bool res" where
  "rm_parseReply reply =
     (if json_bool False (json_lookup reply ''success'') then Inr True else Inl RuntimeError)"

section \<open>The messages\<close>

definition jint :: "int \<Rightarrow> json" where
  "jint n = JDouble (of_int n)"

definition color_numbers :: "ColorRgb \<Rightarrow> json list" where
  "color_numbers c = [jint (uint (red c)), jint (uint (green c)), jint (uint (blue c))]"

text \<open>The members whose value is present.\<close>

definition members :: "(string \<times> json option) list \<Rightarrow> (string \<times> json) list" where
  "members kvs = List.map_filter (\<lambda>(k, v). map_option (Pair k) v) kvs"

definition if_positive :: "int \<Rightarrow> json option" where
  "if_positive duration = (if duration > 0 then Some (jint duration) else None)"

record remote_adjustment =
  ra_id :: "string option"
  ra_red :: "ColorRgb option"
  ra_green :: "ColorRgb option"
  ra_blue :: "ColorRgb option"
  ra_cyan :: "ColorRgb option"
  ra_magenta :: "ColorRgb option"
  ra_yellow :: "ColorRgb option"
  ra_white :: "ColorRgb option"
  ra_black :: "ColorRgb option"
  ra_gammaR :: "rat option"
  ra_gammaG :: "rat option"
  ra_gammaB :: "rat option"
  ra_backlightThreshold :: "rat option"
  ra_backlightColored :: "int option"
  ra_brightness :: "rat option"

datatype remote_request =
    RqColor "ColorRgb list" int int
  | RqImage "ColorRgb image" int int
  | RqEffect string string int int
  | RqCreateEffect string string string
  | RqDeleteEffect string
  | RqServerInfo
  | RqClear int
  | RqClearAll
  | RqComponent string bool
  | RqSource int
  | RqSourceAuto
  | RqConfig string
  | RqSetConfig string
  | RqAdjustment remote_adjustment
  | RqMapping string

text \<open>The text of arguments: empty, an object, or an error that is thrown.\<close>

definition rm_args :: "json_reader \<Rightarrow> string \<Rightarrow> json option res" where
  "rm_args parse s =
     (if s = [] then Inr None
      else case parse s of Inl e \<Rightarrow> Inl RuntimeError | Inr obj \<Rightarrow> Inr (Some (JObject obj)))"

definition rm_color :: "ColorRgb option \<Rightarrow> json option" where
  "rm_color c = map_option (\<lambda>c. JArray (color_numbers c)) c"

definition rm_adjust :: "remote_adjustment \<Rightarrow> (string \<times> json) list" where
  "rm_adjust a = members
     [(''backlightColored'', map_option (\<lambda>b. JBool (b \<noteq> 0)) (ra_backlightColored a)),
      (''backlightThreshold'', map_option JDouble (ra_backlightThreshold a)),
      (''black'', rm_color (ra_black a)), (''blue'', rm_color (ra_blue a)),
      (''brightness'', map_option JDouble (ra_brightness a)), (''cyan'', rm_color (ra_cyan a)),
      (''gammaBlue'', map_option JDouble (ra_gammaB a)), (''gammaGreen'', map_option JDouble (ra_gammaG a)),
      (''gammaRed'', map_option JDouble (ra_gammaR a)), (''green'', rm_color (ra_green a)),
      (''id'', map_option JString (ra_id a)), (''magenta'', rm_color (ra_magenta a)),
      (''red'', rm_color (ra_red a)), (''white'', rm_color (ra_white a)), (''yellow'', rm_color (ra_yellow a))]"

text \<open>One message per command.  \<open>enc\<close> encodes base64; a picture has been converted to opaque pixels.\<close>

definition rm_setColor :: "ColorRgb list \<Rightarrow> int \<Rightarrow> int \<Rightarrow> (string \<times> json) list res" where
  "rm_setColor colors prio duration =
     (if colors = [] then Inl Undefined
      else Inr (members [(''color'', Some (JArray (concat (map color_numbers colors)))), (''command'', Some (JString ''color'')),
                         (''duration'', if_positive duration), (''priority'', Some (jint prio))]))"

definition rm_setImage :: "(byte list \<Rightarrow> string) \<Rightarrow> ColorRgb image \<Rightarrow> int \<Rightarrow> int \<Rightarrow> (string \<times> json) list res" where
  "rm_setImage enc im prio duration =
     Inr (members [(''command'', Some (JString ''image'')), (''duration'', if_positive duration),
       (''imagedata'', Some (JString (enc (raw_bytes (take (img_width im * img_height im) (img_pixels im)))))),
       (''imageheight'', Some (jint (int (img_height im)))), (''imagewidth'', Some (jint (int (img_width im)))),
       (''priority'', Some (jint prio))])"

definition rm_setEffect :: "json_reader \<Rightarrow> string \<Rightarrow> string \<Rightarrow> int \<Rightarrow> int \<Rightarrow> (string \<times> json) list res" where
  "rm_setEffect parse name args prio duration =
     res_bind (rm_args parse args) (\<lambda>args.
       Inr (members [(''command'', Some (JString ''effect'')), (''duration'', if_positive duration),
         (''effect'', Some (JObject (members [(''args'', args), (''name'', Some (JString name))]))),
         (''priority'', Some (jint prio))]))"

definition rm_createEffect :: "json_reader \<Rightarrow> string \<Rightarrow> string \<Rightarrow> string \<Rightarrow> (string \<times> json) list res" where
  "rm_createEffect parse name script args =
     res_bind (rm_args parse args) (\<lambda>args.
       Inr (members [(''args'', args), (''command'', Some (JString ''create-effect'')),
         (''name'', Some (JString name)), (''script'', Some (JString script))]))"

definition rm_deleteEffect :: "string \<Rightarrow> (string \<times> json) list res" where
  "rm_deleteEffect name =
     Inr [(''command'', JString ''delete-effect''), (''name'', JString name)]"

definition rm_getServerInfo :: "(string \<times> json) list res" where
  "rm_getServerInfo = Inr [(''command'', JString ''serverinfo'')]"

definition rm_clear :: "int \<Rightarrow> (string \<times> json) list res" where
  "rm_clear prio = Inr [(''command'', JString ''clear''), (''priority'', jint prio)]"

definition rm_clearAll :: "(string \<times> json) list res" where
  "rm_clearAll = Inr [(''command'', JString ''clearall'')]"

definition rm_setComponentState :: "string \<Rightarrow> bool \<Rightarrow> (string \<times> json) list res" where
  "rm_setComponentState cmp st =
     Inr [(''command'', JString ''componentstate''),
          (''componentstate'', JObject [(''component'', JString cmp), (''state'', JBool st)])]"

definition rm_setSource :: "int \<Rightarrow> (string \<times> json) list res" where
  "rm_setSource prio = Inr [(''command'', JString ''sourceselect''), (''priority'', jint prio)]"

definition rm_setSourceAutoSelect :: "(string \<times> json) list res" where
  "rm_setSourceAutoSelect = Inr [(''auto'', JBool True), (''command'', JString ''sourceselect'')]"

definition rm_getConfig :: "string \<Rightarrow> (string \<times> json) list res" where
  "rm_getConfig t =
     (if t = ''schema'' \<or> t = ''config''
      then Inr [(''command'', JString ''config''), (''subcommand'', JString (if t = ''schema'' then ''getschema'' else ''getconfig''))]
      else Inl AssertFail)"

definition rm_setConfig :: "json_reader \<Rightarrow> string \<Rightarrow> (string \<times> json) list res" where
  "rm_setConfig parse s =
     res_bind (rm_args parse s) (\<lambda>args.
       Inr (members [(''command'', Some (JString ''config'')), (''config'', args), (''subcommand'', Some (JString ''setconfig''))]))"

definition rm_setAdjustment :: "remote_adjustment \<Rightarrow> (string \<times> json) list res" where
  "rm_setAdjustment a =
     Inr [(''adjustment'', JObject (rm_adjust a)), (''command'', JString ''adjustment'')]"

definition rm_setLedMapping :: "string \<Rightarrow> (string \<times> json) list res" where
  "rm_setLedMapping t = Inr [(''command'', JString ''processing''), (''mappingType'', JString t)]"

fun rm_message :: "json_reader \<Rightarrow> (byte list \<Rightarrow> string) \<Rightarrow> remote_request \<Rightarrow> (string \<times> json) list res" where
  "rm_message parse enc (RqColor colors prio duration) = rm_setColor colors prio duration"
| "rm_message parse enc (RqImage im prio duration) = rm_setImage enc im prio duration"
| "rm_message parse enc (RqEffect name args prio duration) = rm_setEffect parse name args prio duration"
| "rm_message parse enc (RqCreateEffect name script args) = rm_createEffect parse name script args"
| "rm_message parse enc (RqDeleteEffect name) = rm_deleteEffect name"
| "rm_message parse enc RqServerInfo = rm_getServerInfo"
| "rm_message parse enc (RqClear prio) = rm_clear prio"
| "rm_message parse enc RqClearAll = rm_clearAll"
| "rm_message parse enc (RqComponent cmp st) = rm_setComponentState cmp st"
| "rm_message parse enc (RqSource prio) = rm_setSource prio"
| "rm_message parse enc RqSourceAuto = rm_setSourceAutoSelect"
| "rm_message parse enc (RqConfig t) = rm_getConfig t"
| "rm_message parse enc (RqSetConfig s) = rm_setConfig parse s"
| "rm_message parse enc (RqAdjustment a) = rm_setAdjustment a"
| "rm_message parse enc (RqMapping t) = rm_setLedMapping t"

lemmas rm_message_defs [simp] = rm_setColor_def rm_setImage_def rm_setEffect_def rm_createEffect_def rm_deleteEffect_def rm_getServerInfo_def rm_clear_def rm_clearAll_def rm_setComponentState_def rm_setSource_def rm_setSourceAutoSelect_def rm_getConfig_def rm_setConfig_def rm_setAdjustment_def rm_setLedMapping_def

text \<open>
  What a command returns: the commands that ask for data take the object of the reply, the others the
  flag of success.
\<close>

definition rm_answer :: "remote_request \<Rightarrow> string option" where
  "rm_answer r = (case r of RqServerInfo \<Rightarrow> Some ''info'' | RqConfig t \<Rightarrow> Some ''result'' | _ \<Rightarrow> None)"

definition rm_result :: "remote_request \<Rightarrow> (string \<times> json) list \<Rightarrow> (string \<times> json) list res" where
  "rm_result r reply =
     res_bind (rm_parseReply reply) (\<lambda>_. case rm_answer r of
         None \<Rightarrow> Inr []
       | Some key \<Rightarrow> if is_JObject (json_lookup reply key) then Inr (json_object (json_lookup reply key)) else Inl RuntimeError)"

section \<open>What is sent is accepted\<close>

lemma members_simps [simp]:
  "members [] = []" "members ((k, None) # kvs) = members kvs" "members ((k, Some v) # kvs) = (k, v) # members kvs"
  by (simp_all add: members_def)

lemma map_of_members:
  "distinct (map fst kvs) \<Longrightarrow> map_of (members kvs) k = Option.bind (map_of kvs k) id"
proof (induction kvs)
  case (Cons kv kvs)
  obtain k' v where kv: "kv = (k', v)" by (cases kv)
  have "k' \<notin> dom (map_of kvs)" using Cons.prems kv by (simp add: dom_map_of_conv_image_fst)
  then have "map_of kvs k' = None" by blast
  with Cons kv show ?case by (cases v) auto
qed simp

lemma keys_members: "set (map fst (members kvs)) \<subseteq> set (map fst kvs)"
proof (induction kvs)
  case (Cons kv kvs)
  obtain k v where "kv = (k, v)" by (cases kv)
  with Cons show ?case by (cases v) auto
qed simp

lemma jint_simps [simp]:
  "json_int d (jint n) = (if - (2 ^ 31) \<le> n \<and> n < 2 ^ 31 then n else d)" "is_JDouble (jint n)"
  "json_double 0 (jint n) = of_int n"
  by (simp_all add: jint_def)

lemma jint_fits:
  "accepts ign (jint n) [(''type'', JString ''integer'')]"
  "accepts ign (jint n) [(''required'', JBool False), (''type'', JString ''integer'')]"
  "1 \<le> n \<Longrightarrow> n \<le> 253 \<Longrightarrow> accepts ign (jint n) channel_schema"
  by (simp_all add: accepts_iff attr_accepts_def attribute_names wrong_type_def channel_schema_def jint_def)

text \<open>The members of the messages, for the schema of every command.\<close>

lemmas accepts_simps = accepts_iff attr_accepts_def attribute_names wrong_type_def json_lookup_def json_contains_def
  jint_def if_positive_def

definition in_range :: "rat \<Rightarrow> rat option \<Rightarrow> bool" where
  "in_range n v \<longleftrightarrow> (case v of None \<Rightarrow> True | Some x \<Rightarrow> 0 \<le> x \<and> x \<le> n)"

definition ra_valid :: "remote_adjustment \<Rightarrow> bool" where
  "ra_valid a \<longleftrightarrow> in_range 1 (ra_brightness a) \<and> in_range 1 (ra_backlightThreshold a) \<and>
     in_range 100 (ra_gammaR a) \<and> in_range 100 (ra_gammaG a) \<and> in_range 100 (ra_gammaB a)"

definition rm_valid :: "remote_request \<Rightarrow> bool" where
  "rm_valid r =
     (case r of
        RqColor colors prio duration \<Rightarrow> colors \<noteq> [] \<and> 1 \<le> prio \<and> prio \<le> 253
      | RqImage im prio duration \<Rightarrow> 1 \<le> prio \<and> prio \<le> 253
      | RqEffect name args prio duration \<Rightarrow> 1 \<le> prio \<and> prio \<le> 253
      | RqClear prio \<Rightarrow> 1 \<le> prio \<and> prio \<le> 253
      | RqComponent cmp st \<Rightarrow> cmp \<in> {''SMOOTHING'', ''BLACKBORDER'', ''KODICHECKER'', ''FORWARDER'',
          ''UDPLISTENER'', ''BOBLIGHTSERVER'', ''GRABBER'', ''V4L''}
      | RqSource prio \<Rightarrow> 0 \<le> prio \<and> prio \<le> 255
      | RqMapping t \<Rightarrow> t = ''multicolor_mean'' \<or> t = ''unicolor_mean''
      | RqCreateEffect name script args \<Rightarrow> args \<noteq> []
      | RqSetConfig s \<Rightarrow> False
      | RqAdjustment a \<Rightarrow> ra_valid a
      | _ \<Rightarrow> True)"

definition accepted :: "(string \<times> json) list \<Rightarrow> bool" where
  "accepted m \<longleftrightarrow> checkJson m '':schema'' False = None \<and>
     checkJson m ('':schema-'' @ json_string [] (json_lookup m ''command'')) False = None"

lemma acceptedI:
  assumes "map_of schema_resources ('':schema-'' @ json_string [] (json_lookup m ''command'')) = Some sch"
    and "accepts False (JObject m) schema_base" "accepts False (JObject m) sch"
  shows "accepted m"
proof -
  have "map_of schema_resources '':schema'' = Some schema_base" by (simp add: schema_resources_def)
  with assms show ?thesis by (simp add: accepted_def checkJson_accepts)
qed

lemma base_fits:
  assumes "json_lookup m ''command'' \<in> set [JString ''color'', JString ''image'', JString ''effect'', JString ''create-effect'',
    JString ''delete-effect'', JString ''serverinfo'', JString ''clear'', JString ''clearall'', JString ''adjustment'',
    JString ''sourceselect'', JString ''config'', JString ''componentstate'', JString ''processing'']"
  shows "accepts False (JObject m) schema_base"
proof -
  have "map_of m ''command'' \<noteq> None" using assms by (auto simp: json_lookup_def split: option.splits)
  then show ?thesis
    using assms by (auto simp: accepts_iff attr_accepts_def attribute_names wrong_type_def schema_base_def json_contains_def json_lookup_def)
qed

lemma color_accepted:
  assumes "rm_valid (RqColor colors prio duration)" "rm_message parse enc (RqColor colors prio duration) = Inr m"
  shows "accepted m"
proof (rule acceptedI [where sch = schema_color])
  have len: "3 \<le> length (concat (map color_numbers colors))"
    using assms(1) by (cases colors) (simp_all add: rm_valid_def color_numbers_def)
  have items: "list_all (\<lambda>x. accepts False x [(''type'', JString ''integer'')]) (concat (map color_numbers colors))"
    by (auto simp: list_all_iff color_numbers_def jint_fits)
  have m: "m = members [(''color'', Some (JArray (concat (map color_numbers colors)))), (''command'', Some (JString ''color'')),
      (''duration'', if_positive duration), (''priority'', Some (jint prio))]"
    using assms by (simp add: rm_valid_def)
  show "map_of schema_resources ('':schema-'' @ json_string [] (json_lookup m ''command'')) = Some schema_color"
    by (simp add: m json_lookup_def schema_resources_def)
  show "accepts False (JObject m) schema_base"
    by (rule base_fits) (simp add: m json_lookup_def)
  have "accepts False (JArray (concat (map color_numbers colors)))
      [(''items'', JObject [(''type'', JString ''integer'')]), (''minItems'', JDouble 3), (''required'', JBool True), (''type'', JString ''array'')]"
    using len items by (simp add: accepts_iff [of _ "JArray _"] attr_accepts_def attribute_names wrong_type_def)
  then show "accepts False (JObject m) schema_color"
    using assms(1) jint_fits(3) [of prio False] jint_fits(2) [of False duration]
    by (cases "duration > 0") (simp_all add: accepts_iff [of _ "JObject _"] accepts_iff [of _ "JString _"] attr_accepts_def
        attribute_names wrong_type_def schema_color_def m rm_valid_def if_positive_def json_lookup_def json_contains_def channel_schema_def)
qed

lemmas object_fits = accepts_iff [of _ "JObject _"] accepts_iff [of _ "JString _"] accepts_iff [of _ "JBool _"]
  attr_accepts_def attribute_names wrong_type_def json_lookup_def json_contains_def

lemma image_accepted:
  assumes "rm_valid (RqImage im prio duration)" "rm_message parse enc (RqImage im prio duration) = Inr m"
  shows "accepted m"
proof (rule acceptedI [where sch = schema_image])
  define d where "d = enc (raw_bytes (take (img_width im * img_height im) (img_pixels im)))"
  have m: "m = members [(''command'', Some (JString ''image'')), (''duration'', if_positive duration),
      (''imagedata'', Some (JString d)), (''imageheight'', Some (jint (int (img_height im)))),
      (''imagewidth'', Some (jint (int (img_width im)))), (''priority'', Some (jint prio))]"
    using assms by (simp add: d_def)
  show "map_of schema_resources ('':schema-'' @ json_string [] (json_lookup m ''command'')) = Some schema_image"
    by (simp add: m json_lookup_def schema_resources_def)
  show "accepts False (JObject m) schema_base" by (rule base_fits) (simp add: m json_lookup_def)
  have "accepts False (jint (int n)) [(''minimum'', JDouble 0), (''required'', JBool True), (''type'', JString ''integer'')]" for n
    by (simp add: accepts_iff attr_accepts_def attribute_names wrong_type_def jint_def)
  then show "accepts False (JObject m) schema_image"
    using assms(1) jint_fits(3) [of prio False] jint_fits(2) [of False duration]
    by (cases "duration > 0") (simp_all add: object_fits schema_image_def m rm_valid_def if_positive_def channel_schema_def)
qed

lemma rm_args_shape: "rm_args parse s = Inr v \<Longrightarrow> v = None \<and> s = [] \<or> s \<noteq> [] \<and> (\<exists>obj. v = Some (JObject obj))"
  by (auto simp: rm_args_def split: if_splits sum.splits)

lemma args_fits:
  "accepts ign (JObject obj) [(''required'', JBool b), (''type'', JString ''object'')]"
  by (simp add: object_fits)

lemma effect_accepted:
  assumes "rm_valid (RqEffect name args prio duration)" "rm_message parse enc (RqEffect name args prio duration) = Inr m"
  shows "accepted m"
proof (rule acceptedI [where sch = schema_effect])
  obtain v where v: "rm_args parse args = Inr v" using assms(2) by (cases "rm_args parse args") simp_all
  define e where "e = members [(''args'', v), (''name'', Some (JString name))]"
  have m: "m = members [(''command'', Some (JString ''effect'')), (''duration'', if_positive duration),
      (''effect'', Some (JObject e)), (''priority'', Some (jint prio))]"
    using assms(2) v by (simp add: e_def)
  show "map_of schema_resources ('':schema-'' @ json_string [] (json_lookup m ''command'')) = Some schema_effect"
    by (simp add: m json_lookup_def schema_resources_def)
  show "accepts False (JObject m) schema_base"
    by (rule base_fits) (simp add: m json_lookup_def)
  have name: "accepts False (JString name) [(''required'', JBool True), (''type'', JString ''string'')]"
    by (simp add: object_fits)
  have e: "accepts False (JObject e)
     [(''additionalProperties'', JBool False),
      (''properties'', JObject [
           (''args'', JObject [(''required'', JBool False), (''type'', JString ''object'')]),
           (''name'', JObject [(''required'', JBool True), (''type'', JString ''string'')])]),
         (''required'', JBool True), (''type'', JString ''object'')]"
    using rm_args_shape [OF v] name args_fits [of False _ False]
    unfolding accepts_iff [of False "JObject e"]
    by (auto simp: e_def attr_accepts_def attribute_names wrong_type_def json_lookup_def json_contains_def)
  show "accepts False (JObject m) schema_effect"
    using e assms(1) jint_fits(3) [of prio False] jint_fits(2) [of False duration]
    unfolding accepts_iff [of False "JObject m"]
    by (cases "duration > 0") (simp_all add: accepts_iff [of _ "JString _"] attr_accepts_def attribute_names
        wrong_type_def json_lookup_def json_contains_def schema_effect_def m rm_valid_def if_positive_def channel_schema_def)
qed

text \<open>An object of a schema that lists its properties and allows no others.\<close>

lemma object_schemaI:
  assumes "list_all (\<lambda>(p, pv). if json_contains obj p then accepts ign (json_lookup obj p) (json_object pv)
      else \<not> json_bool False (json_lookup (json_object pv) ''required'')) ps"
    and "list_all (\<lambda>(p, v). p \<in> set (map fst ps)) obj"
  shows "accepts ign (JObject obj) [(''additionalProperties'', JBool False), (''properties'', JObject ps),
     (''required'', JBool b), (''type'', JString ''object'')]"
proof -
  have "list_all (\<lambda>(p, pv). if json_contains obj p then accepts ign (json_lookup obj p) (json_object pv)
      else \<not> json_bool False (json_lookup (json_object pv) ''required'') \<or> ign) ps"
    using assms(1) by (rule list.pred_mono_strong) (auto split: if_splits)
  with assms(2) show ?thesis
    unfolding accepts_iff [of ign "JObject obj"]
    by (simp add: attr_accepts_def attribute_names wrong_type_def json_lookup_def [of "_ # _"])
      (auto simp: list_all_iff split: if_splits)
qed

lemmas field_simps' = json_lookup_def json_contains_def accepts_iff [of _ "JString _"] accepts_iff [of _ "JBool _"]
  accepts_iff [of _ "jint _"] attr_accepts_def attribute_names wrong_type_def

lemma clear_accepted: "1 \<le> p \<Longrightarrow> p \<le> 253 \<Longrightarrow> accepted [(''command'', JString ''clear''), (''priority'', jint p)]"
  by (rule acceptedI [where sch = schema_clear], simp add: json_lookup_def schema_resources_def,
      rule base_fits, simp add: json_lookup_def, unfold schema_clear_def, rule object_schemaI)
    (simp_all add: field_simps' accepts_iff [of _ "JDouble _"] jint_def)

lemma clearall_accepted: "accepted [(''command'', JString ''clearall'')]"
  by (rule acceptedI [where sch = schema_clearall], simp add: json_lookup_def schema_resources_def,
      rule base_fits, simp add: json_lookup_def, unfold schema_clearall_def, rule object_schemaI)
    (simp_all add: field_simps')

lemma serverinfo_accepted: "accepted [(''command'', JString ''serverinfo'')]"
  by (rule acceptedI [where sch = schema_serverinfo], simp add: json_lookup_def schema_resources_def,
      rule base_fits, simp add: json_lookup_def, unfold schema_serverinfo_def, rule object_schemaI)
    (simp_all add: field_simps' accepts_iff [of _ "JDouble _"] jint_def)

lemma source_accepted: "0 \<le> p \<Longrightarrow> p \<le> 255 \<Longrightarrow> accepted [(''command'', JString ''sourceselect''), (''priority'', jint p)]"
  by (rule acceptedI [where sch = schema_sourceselect], simp add: json_lookup_def schema_resources_def,
      rule base_fits, simp add: json_lookup_def, unfold schema_sourceselect_def, rule object_schemaI)
    (simp_all add: field_simps' accepts_iff [of _ "JDouble _"] jint_def)

lemma auto_accepted: "accepted [(''auto'', JBool True), (''command'', JString ''sourceselect'')]"
  by (rule acceptedI [where sch = schema_sourceselect], simp add: json_lookup_def schema_resources_def,
      rule base_fits, simp add: json_lookup_def, unfold schema_sourceselect_def, rule object_schemaI)
    (simp_all add: field_simps' accepts_iff [of _ "JDouble _"] jint_def)

lemma config_accepted: "s \<in> {''getconfig'', ''getschema''} \<Longrightarrow> accepted [(''command'', JString ''config''), (''subcommand'', JString s)]"
  by (rule acceptedI [where sch = schema_config], simp add: json_lookup_def schema_resources_def,
      rule base_fits, simp add: json_lookup_def, unfold schema_config_def, rule object_schemaI)
    (auto simp: field_simps')

lemma mapping_accepted: "t \<in> {''multicolor_mean'', ''unicolor_mean''} \<Longrightarrow> accepted [(''command'', JString ''processing''), (''mappingType'', JString t)]"
  by (rule acceptedI [where sch = schema_processing], simp add: json_lookup_def schema_resources_def,
      rule base_fits, simp add: json_lookup_def, unfold schema_processing_def, rule object_schemaI)
    (auto simp: field_simps')

lemma delete_accepted: "accepted [(''command'', JString ''delete-effect''), (''name'', JString name)]"
  by (rule acceptedI [where sch = schema_delete_effect], simp add: json_lookup_def schema_resources_def,
      rule base_fits, simp add: json_lookup_def, unfold schema_delete_effect_def, rule object_schemaI)
    (simp_all add: field_simps' accepts_iff [of _ "JDouble _"] jint_def)

lemma create_accepted:
  "accepted [(''args'', JObject obj), (''command'', JString ''create-effect''), (''name'', JString name), (''script'', JString script)]"
proof -
  have "accepts False (JObject obj) [(''required'', JBool True), (''type'', JString ''object'')]"
    by (rule args_fits)
  then show ?thesis
    by (intro acceptedI [where sch = schema_create_effect], simp add: json_lookup_def schema_resources_def,
      intro base_fits, simp add: json_lookup_def, unfold schema_create_effect_def, intro object_schemaI)
      (simp_all add: field_simps')
qed

lemma component_accepted:
  assumes "rm_valid (RqComponent cmp st)"
  shows "accepted [(''command'', JString ''componentstate''),
      (''componentstate'', JObject [(''component'', JString cmp), (''state'', JBool st)])]"
proof -
  have "accepts False (JObject [(''component'', JString cmp), (''state'', JBool st)])
     [(''additionalProperties'', JBool False),
         (''properties'', JObject [
           (''component'', JObject [
             (''enum'', JArray [
               JString ''SMOOTHING'', JString ''BLACKBORDER'', JString ''KODICHECKER'',
               JString ''FORWARDER'', JString ''UDPLISTENER'', JString ''BOBLIGHTSERVER'',
               JString ''GRABBER'', JString ''V4L'']),
             (''required'', JBool True),
             (''type'', JString ''string'')]),
           (''state'', JObject [(''required'', JBool True), (''type'', JString ''bool'')])]),
         (''required'', JBool True),
         (''type'', JString ''object'')]"
    using assms by (intro object_schemaI) (auto simp: field_simps' rm_valid_def)
  then show ?thesis
    by (intro acceptedI [where sch = schema_componentstate], simp add: json_lookup_def schema_resources_def,
      intro base_fits, simp add: json_lookup_def, unfold schema_componentstate_def, intro object_schemaI)
      (simp_all add: field_simps')
qed

text \<open>
  Writing a configuration never works: the message \<open>hyperion-remote\<close> sends for it carries a
  subcommand that the schema of the server does not list, so whatever the configuration is, the
  server answers with an error and changes nothing.
\<close>

theorem remote_setconfig_rejected:
  assumes "rm_message parse enc (RqSetConfig s) = Inr m" and "je_parse E text = Inr m"
  shows "\<exists>errors. handleMessage E text c h = Some (Inr (sendErrorReply (ErrSchema errors) [] 0 c, h))"
proof -
  obtain v where m: "m = members [(''command'', Some (JString ''config'')), (''config'', v), (''subcommand'', Some (JString ''setconfig''))]"
    using assms(1) by (cases "rm_args parse s") auto
  have "\<not> accepts False (JObject m) schema_config"
    by (cases v) (simp_all add: m accepts_iff [of _ "JObject (_ # _)"] field_simps' schema_config_def)
  moreover have "map_of schema_resources '':schema-config'' = Some schema_config" by (simp add: schema_resources_def)
  ultimately have "checkJson m '':schema-config'' False \<noteq> None" by (simp add: checkJson_accepts)
  moreover have "json_lookup m ''command'' = JString ''config''" by (simp add: m json_lookup_def)
  ultimately show ?thesis
    using assms(2) by (cases "checkJson m '':schema'' False"; cases "checkJson m '':schema-config'' False") (auto simp: handleMessage_def)
qed

section \<open>Adjustments\<close>

lemma lookup_members:
  assumes "distinct (map fst kvs)"
  shows "json_contains (members kvs) k \<longleftrightarrow> (\<exists>v. map_of kvs k = Some (Some v))"
    and "map_of kvs k = Some (Some v) \<Longrightarrow> json_lookup (members kvs) k = v"
    and "map_of kvs k \<in> {None, Some None} \<Longrightarrow> json_lookup (members kvs) k = JUndefined"
  using map_of_members [OF assms] by (auto simp: json_contains_def json_lookup_def split: option.splits)
    (metis bind.bind_lunit bind_eq_Some_conv id_apply not_None_eq)

lemma member_fits:
  assumes "distinct (map fst kvs)" "map_of kvs p = Some v" "\<And>x. v = Some x \<Longrightarrow> accepts ign x (json_object pv)"
    and "\<not> json_bool False (json_lookup (json_object pv) ''required'')"
  shows "if json_contains (members kvs) p then accepts ign (json_lookup (members kvs) p) (json_object pv)
      else \<not> json_bool False (json_lookup (json_object pv) ''required'')"
  using assms(2-4) lookup_members [OF assms(1)] by (cases v) auto

definition color_schema :: "(string \<times> json) list" where
  "color_schema =
     [(''items'', JObject [(''maximum'', JDouble 255), (''minimum'', JDouble 0), (''type'', JString ''integer'')]),
      (''maxItems'', JDouble 3), (''minItems'', JDouble 3), (''required'', JBool False), (''type'', JString ''array'')]"

definition unit_schema :: "rat \<Rightarrow> (string \<times> json) list" where
  "unit_schema n =
     [(''maximum'', JDouble n), (''minimum'', JDouble 0), (''required'', JBool False), (''type'', JString ''number'')]"

lemma color_fits: "rm_color c = Some v \<Longrightarrow> accepts ign v color_schema"
proof -
  assume "rm_color c = Some v"
  then obtain d where v: "v = JArray (color_numbers d)" by (auto simp: rm_color_def)
  have n: "0 \<le> n \<Longrightarrow> n \<le> 255 \<Longrightarrow>
      accepts ign (jint n) [(''maximum'', JDouble 255), (''minimum'', JDouble 0), (''type'', JString ''integer'')]" for n
    by (simp add: accepts_iff attr_accepts_def attribute_names wrong_type_def jint_def)
  have "accepts ign (jint (uint x)) [(''maximum'', JDouble 255), (''minimum'', JDouble 0), (''type'', JString ''integer'')]" for x :: byte
    using uint_lt2p [of x] by (intro n) simp_all
  then show ?thesis
    unfolding v accepts_iff [of _ "JArray _"]
    by (simp add: attr_accepts_def attribute_names wrong_type_def color_schema_def color_numbers_def)
qed

lemma unit_fits: "0 \<le> x \<Longrightarrow> x \<le> n \<Longrightarrow> accepts ign (JDouble x) (unit_schema n)"
  by (simp add: accepts_iff attr_accepts_def attribute_names wrong_type_def unit_schema_def)

lemma number_fits: "in_range n v \<Longrightarrow> map_option JDouble v = Some x \<Longrightarrow> accepts ign x (unit_schema n)"
  by (auto simp: in_range_def unit_fits)

definition adjustment_fields :: "(string \<times> json) list" where
  "adjustment_fields = [
        (''backlightColored'', JObject [(''required'', JBool False), (''type'', JString ''boolean'')]),
        (''backlightThreshold'', JObject (unit_schema 1)), (''black'', JObject color_schema), (''blue'', JObject color_schema),
        (''brightness'', JObject (unit_schema 1)), (''cyan'', JObject color_schema), (''gammaBlue'', JObject (unit_schema 100)),
        (''gammaGreen'', JObject (unit_schema 100)), (''gammaRed'', JObject (unit_schema 100)), (''green'', JObject color_schema),
        (''id'', JObject [(''required'', JBool False), (''type'', JString ''string'')]), (''magenta'', JObject color_schema),
        (''red'', JObject color_schema), (''white'', JObject color_schema), (''yellow'', JObject color_schema)]"

lemma adjustment_accepted:
  assumes "ra_valid a"
  shows "accepted [(''adjustment'', JObject (rm_adjust a)), (''command'', JString ''adjustment'')]"
proof (rule acceptedI [where sch = schema_adjustment])
  have opt: "\<not> json_bool False (json_lookup (json_object (JObject color_schema)) ''required'')"
    "\<not> json_bool False (json_lookup (json_object (JObject (unit_schema n))) ''required'')" for n
    by (simp_all add: color_schema_def unit_schema_def json_lookup_def)
  have c: "rm_color v = Some x \<Longrightarrow> accepts False x (json_object (JObject color_schema))" for v x
    by (simp add: color_fits)
  have n: "in_range k v \<Longrightarrow> map_option JDouble v = Some x \<Longrightarrow> accepts False x (json_object (JObject (unit_schema k)))" for k v x
    by (simp add: number_fits)
  have flag: "accepts False (JBool b) [(''required'', JBool False), (''type'', JString ''boolean'')]"
    "accepts False (JString s) [(''required'', JBool False), (''type'', JString ''string'')]" for b s
    by (simp_all add: field_simps')
  have adjust: "accepts False (JObject (rm_adjust a)) [(''additionalProperties'', JBool False),
      (''properties'', JObject adjustment_fields),
      (''required'', JBool True), (''type'', JString ''object'')]"
  proof (rule object_schemaI)
    show "list_all (\<lambda>(p, v). p \<in> set (map fst adjustment_fields)) (rm_adjust a)"
      using keys_members by (fastforce simp: list_all_iff rm_adjust_def adjustment_fields_def)
  next
    show "list_all (\<lambda>(p, pv). if json_contains (rm_adjust a) p then accepts False (json_lookup (rm_adjust a) p) (json_object pv)
        else \<not> json_bool False (json_lookup (json_object pv) ''required'')) adjustment_fields"
      using assms unfolding list.pred_inject adjustment_fields_def split rm_adjust_def ra_valid_def
      by (intro conjI TrueI member_fits opt c n; (simp add: flag json_lookup_def; fail)?; fastforce simp: flag)
  qed
  show "map_of schema_resources ('':schema-'' @ json_string []
      (json_lookup [(''adjustment'', JObject (rm_adjust a)), (''command'', JString ''adjustment'')] ''command'')) = Some schema_adjustment"
    by (simp add: json_lookup_def schema_resources_def)
  show "accepts False (JObject [(''adjustment'', JObject (rm_adjust a)), (''command'', JString ''adjustment'')]) schema_base"
    by (rule base_fits) (simp add: json_lookup_def)
  show "accepts False (JObject [(''adjustment'', JObject (rm_adjust a)), (''command'', JString ''adjustment'')]) schema_adjustment"
    using adjust unfolding schema_adjustment_def adjustment_fields_def color_schema_def unit_schema_def
    by (intro object_schemaI) (simp_all add: field_simps')
qed

text \<open>Every message of a valid command passes both schemas of the server.\<close>

lemma remote_accepted:
  assumes "rm_valid r" "rm_message parse enc r = Inr m"
  shows "accepted m"
proof (cases r)
  case (RqCreateEffect name script args)
  with assms obtain obj where "rm_args parse args = Inr (Some (JObject obj))"
    using rm_args_shape [of parse args] by (cases "rm_args parse args") (auto simp: rm_valid_def)
  with RqCreateEffect assms(2) show ?thesis using create_accepted by auto
next
  case (RqConfig t)
  with assms(2) have "m \<in> {[(''command'', JString ''config''), (''subcommand'', JString ''getschema'')],
      [(''command'', JString ''config''), (''subcommand'', JString ''getconfig'')]}" by (auto split: if_splits)
  then show ?thesis using config_accepted [of "''getschema''"] config_accepted [of "''getconfig''"] by auto
qed (use assms color_accepted image_accepted effect_accepted clear_accepted clearall_accepted serverinfo_accepted
    source_accepted auto_accepted mapping_accepted delete_accepted component_accepted adjustment_accepted
    in \<open>auto simp: rm_valid_def\<close>)

section \<open>What the server does with it\<close>

text \<open>A duration that is not positive means no timeout.\<close>

definition rm_timeout :: "int \<Rightarrow> int" where
  "rm_timeout duration = (if duration > 0 then duration else -1)"

definition set_and_reply ::
  "json_env \<Rightarrow> int \<Rightarrow> ColorRgb list \<Rightarrow> int \<Rightarrow> Components \<Rightarrow> string \<Rightarrow> json_client \<Rightarrow> hyperion \<Rightarrow> (json_client \<times> hyperion) res" where
  "set_and_reply E prio cs duration cmp command c h =
     res_bind (hyp_setColors (je_clock E) prio cs (rm_timeout duration) True cmp h) (\<lambda>h. Inr (sendSuccessReply command 0 c, h))"

text \<open>
  What an adjustment asks for: every colour that is given is set, the others stay, and so do the numbers
  of the transformation, whose setters are called in the order of the code.
\<close>

definition when_given :: "'a option \<Rightarrow> ('a \<Rightarrow> 'b \<Rightarrow> 'b) \<Rightarrow> 'b \<Rightarrow> 'b" where
  "when_given v f y = (case v of None \<Rightarrow> y | Some x \<Rightarrow> f x y)"

definition chosen_channel :: "ColorRgb option \<Rightarrow> RgbChannelAdjustment \<Rightarrow> RgbChannelAdjustment" where
  "chosen_channel c = when_given c (\<lambda>c _. chan_setAdjustment (red c) (green c) (blue c))"

definition chosen_transform :: "pow_fun \<Rightarrow> remote_adjustment \<Rightarrow> RgbTransform \<Rightarrow> RgbTransform" where
  "chosen_transform pw x tr =
     when_given (ra_brightness x) (\<lambda>v tr. tr_setBrightness pw tr v)
     (when_given (ra_backlightColored x) (\<lambda>v tr. tr_setBacklightColored tr (v \<noteq> 0))
     (when_given (ra_backlightThreshold x) (\<lambda>v tr. tr_setBacklightThreshold pw tr v)
     (when_given (ra_gammaB x) (\<lambda>v tr. tr_setGamma pw tr (tr_gammaR tr) (tr_gammaG tr) v)
     (when_given (ra_gammaG x) (\<lambda>v tr. tr_setGamma pw tr (tr_gammaR tr) v (tr_gammaB tr))
     (when_given (ra_gammaR x) (\<lambda>v tr. tr_setGamma pw tr v (tr_gammaG tr) (tr_gammaB tr)) tr)))))"

definition chosen_adjustment :: "pow_fun \<Rightarrow> remote_adjustment \<Rightarrow> ColorAdjustment \<Rightarrow> ColorAdjustment" where
  "chosen_adjustment pw x a = a\<lparr>
     ca_rgbRedAdjustment := chosen_channel (ra_red x) (ca_rgbRedAdjustment a),
     ca_rgbGreenAdjustment := chosen_channel (ra_green x) (ca_rgbGreenAdjustment a),
     ca_rgbBlueAdjustment := chosen_channel (ra_blue x) (ca_rgbBlueAdjustment a),
     ca_rgbCyanAdjustment := chosen_channel (ra_cyan x) (ca_rgbCyanAdjustment a),
     ca_rgbMagentaAdjustment := chosen_channel (ra_magenta x) (ca_rgbMagentaAdjustment a),
     ca_rgbYellowAdjustment := chosen_channel (ra_yellow x) (ca_rgbYellowAdjustment a),
     ca_rgbBlackAdjustment := chosen_channel (ra_black x) (ca_rgbBlackAdjustment a),
     ca_rgbWhiteAdjustment := chosen_channel (ra_white x) (ca_rgbWhiteAdjustment a),
     ca_rgbTransform := chosen_transform pw x (ca_rgbTransform a)\<rparr>"

definition adjust_and_reply :: "json_env \<Rightarrow> remote_adjustment \<Rightarrow> json_client \<Rightarrow> hyperion \<Rightarrow> handled" where
  "adjust_and_reply E x c h =
     (let mca = h_adjustment h; ids = mca_adjustmentIds mca
      in if ids = [] then Some (Inl Undefined)
         else (case mca_getAdjustment mca (case ra_id x of None \<Rightarrow> hd ids | Some name \<Rightarrow> name) of
             None \<Rightarrow> Some (Inr (c, h))
           | Some i \<Rightarrow> Some (res_bind (hyp_adjustmentsUpdated (je_clock E) (h\<lparr>h_adjustment :=
                 mca\<lparr>mca_adjustment := (mca_adjustment mca)[i := chosen_adjustment (je_pow E) x (mca_adjustment mca ! i)]\<rparr>\<rparr>))
               (\<lambda>h. Inr (sendSuccessReply ''adjustment'' 0 c, h)))))"

text \<open>
  What a command asks for: the request to the core of the server, and the answer.  \<open>m\<close> is the message,
  which the server passes on to its own slaves.
\<close>

fun rm_intent :: "json_env \<Rightarrow> json_reader \<Rightarrow> remote_request \<Rightarrow> (string \<times> json) list \<Rightarrow> json_client \<Rightarrow> hyperion \<Rightarrow> handled" where
  "rm_intent E parse (RqColor colors prio duration) m c h =
     Some (set_and_reply E prio (map (\<lambda>i. colors ! (i mod length colors)) [0 ..< length (h_ledString h)]) duration COMP_COLOR
       ''color'' (forwardJsonMessage m c) h)"
| "rm_intent E parse (RqImage im prio duration) m c h =
     Some (res_bind (client_picture (je_width E) (int (img_width im)) (int (img_height im))
         (raw_bytes (take (img_width im * img_height im) (img_pixels im))) (jc_processor c)) (\<lambda>(ip, im', cs).
       set_and_reply E prio cs duration COMP_INVALID ''image'' ((forwardJsonMessage m c)\<lparr>jc_processor := ip\<rparr>) h))"
| "rm_intent E parse (RqEffect name args prio duration) m c h =
     (let script_args = (if args = [] then [] else case parse args of Inr obj \<Rightarrow> obj | Inl e \<Rightarrow> [])
      in Some (Inr (sendSuccessReply ''effect'' 0 (forwardJsonMessage m c),
           snd (ee_runEffect name script_args prio (rm_timeout duration) [] h))))"
| "rm_intent E parse (RqClear prio) m c h =
     Some (res_bind (hyp_clear (je_clock E) prio h) (\<lambda>h. Inr (sendSuccessReply ''clear'' 0 (forwardJsonMessage m c), h)))"
| "rm_intent E parse RqClearAll m c h =
     Some (res_bind (hyp_clearall (je_clock E) h) (\<lambda>h. Inr (sendSuccessReply ''clearall'' 0 (forwardJsonMessage m c), h)))"
| "rm_intent E parse (RqComponent cmp st) m c h =
     Some (Inr (sendSuccessReply ''componentstate'' 0 c, hyp_setComponentState (stringToComponent cmp) st h))"
| "rm_intent E parse (RqSource prio) m c h =
     (let (success, h) = hyp_setCurrentSourcePriority prio h
      in Some (Inr (if success then sendSuccessReply ''sourceselect'' 0 c
           else sendErrorReply (ErrText ''setting current priority failed'') ''sourceselect'' 0 c, h)))"
| "rm_intent E parse RqSourceAuto m c h =
     Some (res_bind (hyp_setSourceAutoSelectEnabled (je_clock E) True h) (\<lambda>h. Inr (sendSuccessReply ''sourceselect'' 0 c, h)))"
| "rm_intent E parse (RqMapping t) m c h =
     Some (Inr (sendSuccessReply ''processing'' 0 c, hyp_setLedMappingType (mappingTypeToInt t) h))"
| "rm_intent E parse (RqAdjustment a) m c h = adjust_and_reply E a c h"
| "rm_intent E parse r m c h = None"

text \<open>The commands that act on the core; the others ask for data or work on files, by handlers outside the model.\<close>

fun rm_acts :: "remote_request \<Rightarrow> bool" where
  "rm_acts (RqCreateEffect name script args) \<longleftrightarrow> False"
| "rm_acts (RqDeleteEffect name) \<longleftrightarrow> False"
| "rm_acts RqServerInfo \<longleftrightarrow> False"
| "rm_acts (RqConfig t) \<longleftrightarrow> False"
| "rm_acts (RqSetConfig s) \<longleftrightarrow> False"
| "rm_acts r \<longleftrightarrow> True"

text \<open>The numbers are those of an \<open>int\<close>, and the size of a picture is counted in one.\<close>

fun rm_sized :: "remote_request \<Rightarrow> bool" where
  "rm_sized (RqColor colors prio duration) \<longleftrightarrow> duration < 2 ^ 31"
| "rm_sized (RqImage im prio duration) \<longleftrightarrow> duration < 2 ^ 31 \<and> img_wf im \<and> img_width im < 2 ^ 31 \<and> img_height im < 2 ^ 31 \<and>
     img_width im * img_height im * 3 < 2 ^ 31"
| "rm_sized (RqEffect name args prio duration) \<longleftrightarrow> duration < 2 ^ 31"
| "rm_sized r \<longleftrightarrow> True"

lemma accepted_handled:
  assumes "accepted m" "je_parse E text = Inr m" "json_lookup m ''tan'' = JUndefined"
  shows "handleMessage E text c h = handleCommand E m (json_string [] (json_lookup m ''command'')) 0 c h"
  using assms by (simp add: handleMessage_def accepted_def Let_def)

lemma color_at_numbers:
  assumes "i < length colors"
  shows "color_at (concat (map color_numbers colors)) i = colors ! i"
proof -
  have len: "length (concat (map color_numbers cs)) = 3 * length cs" for cs
    by (induction cs) (simp_all add: color_numbers_def)
  have byte: "concat (map color_numbers colors) ! (3 * i + k) = color_numbers (colors ! i) ! k" if "k < 3" for k
    using assms
  proof (induction colors arbitrary: i)
    case (Cons c cs)
    then show ?case using that by (cases i; cases k) (auto simp: nth_append color_numbers_def nth_Cons split: nat.split)
  qed simp
  have num: "json_int 0 (jint (uint x)) = uint x" for x :: byte
  proof -
    have "- (2 ^ 31) \<le> uint x" "uint x < 2 ^ 31" using uint_lt2p [of x] order_trans [OF _ uint_ge_0 [of x], of "- (2 ^ 31)"] by simp_all
    then show ?thesis by simp
  qed
  show ?thesis
    using assms len [of colors] byte [of 0] byte [of 1] byte [of 2] num
    by (simp add: color_at_def color_numbers_def u8_def Let_def del: jint_simps(1))
qed

lemma color_arrives:
  assumes "rm_valid (RqColor colors prio duration)" "rm_message parse enc (RqColor colors prio duration) = Inr m" "duration < 2 ^ 31"
  shows "handleCommand E m ''color'' 0 c h = rm_intent E parse (RqColor colors prio duration) m c h"
proof -
  let ?js = "concat (map color_numbers colors)"
  have m: "m = members [(''color'', Some (JArray ?js)), (''command'', Some (JString ''color'')),
      (''duration'', if_positive duration), (''priority'', Some (jint prio))]"
    using assms by (simp add: rm_valid_def)
  have len: "length ?js = 3 * length colors"
    by (induction colors) (simp_all add: color_numbers_def)
  have ne: "colors \<noteq> []" using assms(1) by (simp add: rm_valid_def)
  then have "0 < length colors" by simp
  then have "3 \<le> length ?js" using len by linarith
  from color_data_repeats [OF this]
  have "color_data n ?js = Some (Inr (map (\<lambda>i. colors ! (i mod length colors)) [0 ..< n]))" for n
    using ne by (simp add: len color_at_numbers)
  moreover have "json_lookup m ''color'' = JArray ?js" "json_int 0 (json_lookup m ''priority'') = prio"
    "json_int (- 1) (json_lookup m ''duration'') = rm_timeout duration"
    using assms(1,3) by (simp_all add: m json_lookup_def if_positive_def rm_timeout_def rm_valid_def)
  moreover have "command_of ''color'' = CmdColor" by code_simp
  ultimately show ?thesis
    by (simp add: handleCommand_def handleColorCommand_def set_and_reply_def Let_def)
qed

lemma image_arrives:
  assumes "rm_valid (RqImage im prio duration)" "rm_message parse enc (RqImage im prio duration) = Inr m"
    and "rm_sized (RqImage im prio duration)" "\<And>bs. je_b64 E (enc bs) = bs"
  shows "handleCommand E m ''image'' 0 c h = rm_intent E parse (RqImage im prio duration) m c h"
proof -
  let ?w = "img_width im" and ?h = "img_height im"
  let ?bs = "raw_bytes (take (?w * ?h) (img_pixels im))"
  have m: "m = members [(''command'', Some (JString ''image'')), (''duration'', if_positive duration),
      (''imagedata'', Some (JString (enc ?bs))), (''imageheight'', Some (jint (int ?h))),
      (''imagewidth'', Some (jint (int ?w))), (''priority'', Some (jint prio))]"
    using assms(2) by simp
  have size3: "?w < 2 ^ 31" "?h < 2 ^ 31" "?w * ?h * 3 < 2 ^ 31" "length ?bs = ?w * ?h * 3"
    using assms(3) by (simp_all add: img_wf_def)
  have area: "mul_int (int ?w) (int ?h) = Inr (int (?w * ?h))" "mul_int (int (?w * ?h)) 3 = Inr (int (length ?bs))"
    using size3 by (simp_all add: mul_int_def flip: of_nat_mult)
  moreover have "json_int 0 (json_lookup m ''imagewidth'') = int ?w" "json_int 0 (json_lookup m ''imageheight'') = int ?h"
    "json_int 0 (json_lookup m ''priority'') = prio" "json_int (- 1) (json_lookup m ''duration'') = rm_timeout duration"
    "json_string [] (json_lookup m ''imagedata'') = enc ?bs"
    using assms(1,3) by (simp_all add: m json_lookup_def if_positive_def rm_timeout_def rm_valid_def)
  moreover have "command_of ''image'' = CmdImage" by code_simp
  ultimately show ?thesis
    using assms(4) by (simp add: handleCommand_def handleImageCommand_def set_and_reply_def Let_def)
qed

lemma effect_arrives:
  assumes "rm_valid (RqEffect name args prio duration)" "rm_message parse enc (RqEffect name args prio duration) = Inr m" "duration < 2 ^ 31"
  shows "handleCommand E m ''effect'' 0 c h = rm_intent E parse (RqEffect name args prio duration) m c h"
proof -
  obtain v where v: "rm_args parse args = Inr v" using assms(2) by (cases "rm_args parse args") simp_all
  define e where "e = members [(''args'', v), (''name'', Some (JString name))]"
  have m: "m = members [(''command'', Some (JString ''effect'')), (''duration'', if_positive duration),
      (''effect'', Some (JObject e)), (''priority'', Some (jint prio))]"
    using assms(2) v by (simp add: e_def)
  have "json_object (json_lookup m ''effect'') = e" "json_int 0 (json_lookup m ''priority'') = prio"
    "json_int (- 1) (json_lookup m ''duration'') = rm_timeout duration" "json_string [] (json_lookup m ''pythonScript'') = []"
    using assms(1,3) by (simp_all add: m json_lookup_def if_positive_def rm_timeout_def rm_valid_def)
  moreover have "json_string [] (json_lookup e ''name'') = name" by (cases v) (simp_all add: e_def json_lookup_def)
  moreover have "json_contains e ''args'' \<longleftrightarrow> v \<noteq> None" "v = Some x \<Longrightarrow> json_lookup e ''args'' = x" for x
    by (cases v; simp add: e_def json_contains_def json_lookup_def)+
  moreover have "command_of ''effect'' = CmdEffect" by code_simp
  ultimately show ?thesis
    using v by (auto simp: rm_args_def handleCommand_def handleEffectCommand_def Let_def split: prod.split if_splits sum.splits)
qed

lemma command_codes:
  "command_of ''clear'' = CmdClear" "command_of ''clearall'' = CmdClearall" "command_of ''componentstate'' = CmdComponentState"
  "command_of ''sourceselect'' = CmdSourceSelect" "command_of ''processing'' = CmdProcessing"
  "command_of ''adjustment'' = CmdAdjustment" "command_of ''config'' = CmdOther" "command_of ''serverinfo'' = CmdOther"
  "command_of ''create-effect'' = CmdOther" "command_of ''delete-effect'' = CmdOther"
  by code_simp+

lemma components_known:
  "cmp \<in> {''SMOOTHING'', ''BLACKBORDER'', ''KODICHECKER'', ''FORWARDER'', ''UDPLISTENER'', ''BOBLIGHTSERVER'', ''GRABBER'', ''V4L''} \<Longrightarrow>
     stringToComponent cmp \<noteq> COMP_INVALID"
  by (elim insertE emptyE; simp only:) code_simp+

lemma if_member_members:
  assumes "distinct (map fst kvs)" "map_of kvs k = Some v"
  shows "if_member (members kvs) k upd a = when_given v upd a"
  using lookup_members [OF assms(1)] assms(2)
  by (cases v) (auto simp: if_member_def when_given_def)

lemma set_color_numbers: "set_channel (json_array (JArray (color_numbers c))) a = chan_setAdjustment (red c) (green c) (blue c)"
proof -
  have num: "u8 (json_int 0 (jint (uint x))) = x" for x :: byte
  proof -
    have "- (2 ^ 31) \<le> uint x" "uint x < 2 ^ 31" using uint_lt2p [of x] order_trans [OF _ uint_ge_0 [of x], of "- (2 ^ 31)"] by simp_all
    then show ?thesis by (simp add: u8_def)
  qed
  show ?thesis
    by (simp add: set_channel_def color_numbers_def num chan_setAdjustmentR_def chan_setAdjustmentG_def chan_setAdjustmentB_def
        chan_setAdjustment_def Let_def del: jint_simps(1))
qed

lemma color_member: "when_given (rm_color c) (\<lambda>v. upd (set_channel (json_array v))) a =
    when_given c (\<lambda>c. upd (\<lambda>_. chan_setAdjustment (red c) (green c) (blue c))) a"
proof -
  have "set_channel (json_array (JArray (color_numbers c))) = (\<lambda>_. chan_setAdjustment (red c) (green c) (blue c))" for c
    by (intro ext set_color_numbers)
  then show ?thesis by (cases c) (simp_all add: when_given_def rm_color_def)
qed

lemma given_channel:
  "when_given c (\<lambda>c. ca_rgbRedAdjustment_update (\<lambda>_. chan_setAdjustment (red c) (green c) (blue c))) a =
     a\<lparr>ca_rgbRedAdjustment := chosen_channel c (ca_rgbRedAdjustment a)\<rparr>"
  "when_given c (\<lambda>c. ca_rgbGreenAdjustment_update (\<lambda>_. chan_setAdjustment (red c) (green c) (blue c))) a =
     a\<lparr>ca_rgbGreenAdjustment := chosen_channel c (ca_rgbGreenAdjustment a)\<rparr>"
  "when_given c (\<lambda>c. ca_rgbBlueAdjustment_update (\<lambda>_. chan_setAdjustment (red c) (green c) (blue c))) a =
     a\<lparr>ca_rgbBlueAdjustment := chosen_channel c (ca_rgbBlueAdjustment a)\<rparr>"
  "when_given c (\<lambda>c. ca_rgbCyanAdjustment_update (\<lambda>_. chan_setAdjustment (red c) (green c) (blue c))) a =
     a\<lparr>ca_rgbCyanAdjustment := chosen_channel c (ca_rgbCyanAdjustment a)\<rparr>"
  "when_given c (\<lambda>c. ca_rgbMagentaAdjustment_update (\<lambda>_. chan_setAdjustment (red c) (green c) (blue c))) a =
     a\<lparr>ca_rgbMagentaAdjustment := chosen_channel c (ca_rgbMagentaAdjustment a)\<rparr>"
  "when_given c (\<lambda>c. ca_rgbYellowAdjustment_update (\<lambda>_. chan_setAdjustment (red c) (green c) (blue c))) a =
     a\<lparr>ca_rgbYellowAdjustment := chosen_channel c (ca_rgbYellowAdjustment a)\<rparr>"
  "when_given c (\<lambda>c. ca_rgbBlackAdjustment_update (\<lambda>_. chan_setAdjustment (red c) (green c) (blue c))) a =
     a\<lparr>ca_rgbBlackAdjustment := chosen_channel c (ca_rgbBlackAdjustment a)\<rparr>"
  "when_given c (\<lambda>c. ca_rgbWhiteAdjustment_update (\<lambda>_. chan_setAdjustment (red c) (green c) (blue c))) a =
     a\<lparr>ca_rgbWhiteAdjustment := chosen_channel c (ca_rgbWhiteAdjustment a)\<rparr>"
  by (cases c; simp add: when_given_def chosen_channel_def)+

lemma adjust_keys:
  "if_member (rm_adjust x) ''red'' upd y = when_given (rm_color (ra_red x)) upd y"
  "if_member (rm_adjust x) ''green'' upd y = when_given (rm_color (ra_green x)) upd y"
  "if_member (rm_adjust x) ''blue'' upd y = when_given (rm_color (ra_blue x)) upd y"
  "if_member (rm_adjust x) ''cyan'' upd y = when_given (rm_color (ra_cyan x)) upd y"
  "if_member (rm_adjust x) ''magenta'' upd y = when_given (rm_color (ra_magenta x)) upd y"
  "if_member (rm_adjust x) ''yellow'' upd y = when_given (rm_color (ra_yellow x)) upd y"
  "if_member (rm_adjust x) ''black'' upd y = when_given (rm_color (ra_black x)) upd y"
  "if_member (rm_adjust x) ''white'' upd y = when_given (rm_color (ra_white x)) upd y"
  "if_member (rm_adjust x) ''id'' upd y = when_given (map_option JString (ra_id x)) upd y"
  "if_member (rm_adjust x) ''backlightColored'' upd y = when_given (map_option (\<lambda>b. JBool (b \<noteq> 0)) (ra_backlightColored x)) upd y"
  "if_member (rm_adjust x) ''backlightThreshold'' upd y = when_given (map_option JDouble (ra_backlightThreshold x)) upd y"
  "if_member (rm_adjust x) ''brightness'' upd y = when_given (map_option JDouble (ra_brightness x)) upd y"
  "if_member (rm_adjust x) ''gammaBlue'' upd y = when_given (map_option JDouble (ra_gammaB x)) upd y"
  "if_member (rm_adjust x) ''gammaGreen'' upd y = when_given (map_option JDouble (ra_gammaG x)) upd y"
  "if_member (rm_adjust x) ''gammaRed'' upd y = when_given (map_option JDouble (ra_gammaR x)) upd y"
  unfolding rm_adjust_def by (rule if_member_members; simp)+

lemma channels_adjusted:
  "adjust_channels (rm_adjust x) a = (chosen_adjustment pw x a)\<lparr>ca_rgbTransform := ca_rgbTransform a\<rparr>"
  unfolding adjust_channels_def Let_def chosen_adjustment_def
  by (simp add: adjust_keys color_member given_channel)

lemma given_option: "when_given (map_option g v) upd y = when_given v (\<lambda>x. upd (g x)) y"
  by (cases v) (simp_all add: when_given_def)

lemma transform_adjusted: "adjust_transform pw (rm_adjust x) tr = chosen_transform pw x tr"
  unfolding adjust_transform_def Let_def chosen_transform_def
  by (simp add: adjust_keys given_option)

lemma adjustment_named:
  "json_string d (json_lookup (rm_adjust x) ''id'') = (case ra_id x of None \<Rightarrow> d | Some name \<Rightarrow> name)"
proof -
  have "if_member (rm_adjust x) ''id'' (\<lambda>v _. json_string d v) d = when_given (ra_id x) (\<lambda>v _. v) d"
    by (simp add: adjust_keys given_option)
  then show ?thesis
    by (cases "ra_id x") (auto simp: if_member_def when_given_def json_contains_def json_lookup_def split: if_splits option.splits)
qed

lemma adjustment_arrives:
  "handleAdjustmentCommand (je_pow E) (je_clock E) [(''adjustment'', JObject (rm_adjust x)), (''command'', JString ''adjustment'')]
     ''adjustment'' 0 c h = adjust_and_reply E x c h"
proof -
  have "(adjust_channels (rm_adjust x) a)\<lparr>ca_rgbTransform := adjust_transform pw (rm_adjust x) (ca_rgbTransform (adjust_channels (rm_adjust x) a))\<rparr> =
      chosen_adjustment pw x a" for pw a
    unfolding channels_adjusted [of x a pw] transform_adjusted by (simp add: chosen_adjustment_def)
  then show ?thesis
    by (simp add: handleAdjustmentCommand_def adjust_and_reply_def adjustment_named json_lookup_def [of "[_, _]"] Let_def split: option.split)
qed

lemma other_arrives:
  assumes "rm_valid r" "rm_message parse enc r = Inr m" "rm_acts r"
    and "\<not> (\<exists>cs p d. r = RqColor cs p d)" "\<not> (\<exists>im p d. r = RqImage im p d)" "\<not> (\<exists>n a p d. r = RqEffect n a p d)"
  shows "handleCommand E m (json_string [] (json_lookup m ''command'')) 0 c h = rm_intent E parse r m c h"
proof (cases r)
  case (RqComponent cmp st)
  then have "stringToComponent cmp \<noteq> COMP_INVALID" using assms(1) components_known by (simp add: rm_valid_def)
  with RqComponent assms(2) show ?thesis
    by (auto simp: handleCommand_def command_codes handleComponentStateCommand_def json_lookup_def)
next
  case (RqAdjustment a)
  with assms(2) have "m = [(''adjustment'', JObject (rm_adjust a)), (''command'', JString ''adjustment'')]" by simp
  with RqAdjustment adjustment_arrives [of E a c h] show ?thesis
    by (simp add: handleCommand_def command_codes json_lookup_def)
qed (use assms in \<open>auto simp: rm_valid_def handleCommand_def command_codes handleClearCommand_def handleClearallCommand_def
    handleSourceSelectCommand_def handleProcessingCommand_def json_lookup_def json_contains_def Let_def
    res_bind_def split: prod.split sum.split if_splits\<close>)

lemma no_tan: "rm_message parse enc r = Inr m \<Longrightarrow> json_lookup m ''tan'' = JUndefined"
proof -
  have eff: "json_lookup (members [(''command'', Some a), (''duration'', d), (''effect'', Some b), (''priority'', Some e)]) ''tan'' = JUndefined" for a b d e
    by (cases d) (simp_all add: json_lookup_def)
  have create: "json_lookup (members [(''args'', d), (''command'', Some a), (''name'', Some b), (''script'', Some e)]) ''tan'' = JUndefined"
     "json_lookup (members [(''command'', Some a), (''config'', d), (''subcommand'', Some b)]) ''tan'' = JUndefined" for a b d e
    by (cases d; simp add: json_lookup_def)+
  assume m: "rm_message parse enc r = Inr m"
  show ?thesis
  proof (cases r)
    case (RqEffect name args prio duration)
    with m show ?thesis by (cases "rm_args parse args") (auto simp: eff simp del: members_simps)
  next
    case (RqCreateEffect name script args)
    with m show ?thesis by (cases "rm_args parse args") (auto simp: create simp del: members_simps)
  next
    case (RqSetConfig s)
    with m show ?thesis by (cases "rm_args parse s") (auto simp: create simp del: members_simps)
  qed (use m in \<open>auto simp: json_lookup_def if_positive_def split: if_splits\<close>)
qed

text \<open>
  C17.  The command-line client and the server understand each other: for every valid command of
  \<open>hyperion-remote\<close> that acts on the core -- colours, a picture, an effect, clearing, a component, a
  source, the mapping, an adjustment; not \<open>serverinfo\<close>, the configuration and effect files, whose
  handlers are outside the model -- with a duration and a picture size within an \<open>int\<close>, the message
  passes the schemas of the server and leads to exactly the request the command stands for: the
  colours given, repeated over all leds, on the channel and with the timeout given; the same picture;
  the effect with its arguments; the channel, component, source or mapping named; each adjustment
  colour and number set as given and the others left alone.  The serialisation of the message and
  base64 are those of Qt, which read back what they write.
\<close>

theorem remote_commands_arrive:
  assumes "rm_valid r" "rm_sized r" "rm_acts r" "rm_message parse enc r = Inr m"
    and "je_parse E (ser m) = Inr m" "\<And>bs. je_b64 E (enc bs) = bs"
  shows "handleMessage E (ser m) c h = rm_intent E parse r m c h"
proof -
  have "handleMessage E (ser m) c h = handleCommand E m (json_string [] (json_lookup m ''command'')) 0 c h"
    using accepted_handled [OF remote_accepted [OF assms(1,4)] assms(5) no_tan [OF assms(4)]] .
  also have "\<dots> = rm_intent E parse r m c h"
  proof (cases r)
    case (RqColor colors prio duration)
    then have "json_lookup m ''command'' = JString ''color''" using assms(1,4) by (auto simp: rm_valid_def json_lookup_def)
    with RqColor assms color_arrives show ?thesis by simp
  next
    case (RqImage im prio duration)
    then have "json_lookup m ''command'' = JString ''image''" using assms(4) by (auto simp: json_lookup_def)
    with RqImage assms image_arrives show ?thesis by simp
  next
    case (RqEffect name args prio duration)
    then have "json_lookup m ''command'' = JString ''effect''"
      using assms(4) by (cases "rm_args parse args") (auto simp: json_lookup_def)
    with RqEffect assms effect_arrives show ?thesis by simp
  qed (rule other_arrives [OF assms(1,4,3)]; simp)+
  finally show ?thesis .
qed

definition demo_remote :: remote_request where
  "demo_remote = RqColor [rgb 255 0 0, rgb 0 0 255] 50 2000"

definition demo_remote_message :: "(string \<times> json) list" where
  "demo_remote_message = [(''color'', JArray (map jint [255, 0, 0, 0, 0, 255])), (''command'', JString ''color''),
     (''duration'', jint 2000), (''priority'', jint 50)]"

definition demo_remote_env :: json_env where
  "demo_remote_env = \<lparr>je_parse = (\<lambda>s. Inr demo_remote_message), je_b64 = map (\<lambda>c. of_nat (of_char c)), je_pow = (\<lambda>x y. 1),
     je_clock = int, je_width = 64, je_other = (\<lambda>m cmd tn c h. Some (Inr (c, h)))\<rparr>"

theorem remote_commands_arrive_witness:
  "\<forall>c h. handleMessage demo_remote_env ''line'' c h =
     Some (set_and_reply demo_remote_env 50 (map (\<lambda>i. [rgb 255 0 0, rgb 0 0 255] ! (i mod 2)) [0 ..< length (h_ledString h)])
       2000 COMP_COLOR ''color'' (forwardJsonMessage demo_remote_message c) h)"
proof (intro allI)
  fix c h
  have b64: "je_b64 demo_remote_env (map (\<lambda>b. char_of (unat b)) bs) = bs" for bs :: "byte list"
    by (induction bs) (simp_all add: demo_remote_env_def unsigned_less [where ?'b = 8, simplified] mod_less)
  have "handleMessage demo_remote_env ((\<lambda>m. ''line'') demo_remote_message) c h =
      rm_intent demo_remote_env (je_parse demo_remote_env) demo_remote demo_remote_message c h"
    by (rule remote_commands_arrive [where enc = "\<lambda>bs. map (\<lambda>b. char_of (unat b)) bs", OF _ _ _ _ _ b64])
      (simp_all add: demo_remote_def demo_remote_env_def demo_remote_message_def rm_valid_def color_numbers_def if_positive_def)
  then show "handleMessage demo_remote_env ''line'' c h =
     Some (set_and_reply demo_remote_env 50 (map (\<lambda>i. [rgb 255 0 0, rgb 0 0 255] ! (i mod 2)) [0 ..< length (h_ledString h)])
       2000 COMP_COLOR ''color'' (forwardJsonMessage demo_remote_message c) h)"
    by (simp add: demo_remote_def numeral_2_eq_2)
qed

theorem remote_setconfig_rejected_witness:
  "\<exists>m. rm_message (\<lambda>s. Inr []) (\<lambda>bs. []) (RqSetConfig ''{}'') = Inr m \<and>
     (\<forall>c h. \<exists>errors. handleMessage (demo_remote_env\<lparr>je_parse := \<lambda>s. Inr m\<rparr>) ''line'' c h =
       Some (Inr (sendErrorReply (ErrSchema errors) [] 0 c, h)))"
proof -
  obtain m where m: "rm_message (\<lambda>s. Inr []) (\<lambda>bs. []) (RqSetConfig ''{}'') = Inr m" by (simp add: rm_args_def)
  have "je_parse (demo_remote_env\<lparr>je_parse := \<lambda>s. Inr m\<rparr>) ''line'' = Inr m" by simp
  from remote_setconfig_rejected [OF m this] m show ?thesis by blast
qed

section \<open>The answer\<close>

text \<open>\<open>txt\<close> is the text of an error, which carries what the parser or the checker say.\<close>

definition reply_object :: "(reply_error \<Rightarrow> string) \<Rightarrow> json_reply \<Rightarrow> (string \<times> json) list" where
  "reply_object txt r =
     (case r of
        SuccessReply command tn \<Rightarrow> [(''command'', JString command), (''success'', JBool True), (''tan'', jint tn)]
      | ErrorReply e command tn \<Rightarrow> [(''command'', JString command), (''error'', JString (txt e)), (''success'', JBool False), (''tan'', jint tn)])"

lemma rm_read_line:
  assumes "CHR 0x0A \<notin> set line" "CHR 0x0A \<notin> set buf" "buf @ concat chunks = line @ [CHR 0x0A]"
  shows "rm_read chunks buf = Inr (line @ [CHR 0x0A])"
  using assms(2,3)
proof (induction chunks arbitrary: buf)
  case Nil
  then show ?case by (metis append_Nil2 concat.simps(1) in_set_conv_decomp)
next
  case (Cons ch chs)
  show ?case
  proof (cases "CHR 0x0A \<in> set (buf @ ch)")
    case False
    with Cons show ?thesis by (subst rm_read.simps) simp
  next
    case True
    have "concat chs = []"
    proof (rule ccontr)
      assume "concat chs \<noteq> []"
      then have "buf @ ch @ butlast (concat chs) = line"
        using Cons.prems(2) by (metis append_assoc butlast_append butlast_snoc concat.simps(2) append_is_Nil_conv)
      with True assms(1) show False by auto
    qed
    then have "buf @ ch = line @ [CHR 0x0A]" using Cons.prems(2) by (metis append_Nil2 concat.simps(2))
    with Cons.prems(1) show ?thesis by (subst rm_read.simps, simp, subst rm_read.simps) simp
  qed
qed

text \<open>
  However the reply is cut into pieces, the client takes it as one line, and returns without an
  exception exactly when the server has answered with success.
\<close>

lemma remote_answered:
  assumes "CHR 0x0A \<notin> set line" "concat chunks = line @ [CHR 0x0A]"
    and "parse (line @ [CHR 0x0A]) = Inr (reply_object txt rep)" "rm_answer r = None"
  shows "res_bind (rm_sendMessage parse True chunks) (rm_result r) =
    (case rep of SuccessReply command tn \<Rightarrow> Inr [] | ErrorReply e command tn \<Rightarrow> Inl RuntimeError)"
  using rm_read_line [OF assms(1), of "[]" chunks] assms
  by (cases rep) (simp_all add: rm_sendMessage_def rm_result_def rm_parseReply_def reply_object_def json_lookup_def)

section \<open>Colours on the command line\<close>

definition hex_value :: "char \<Rightarrow> nat option" where
  "hex_value ch =
     (let n = of_char ch :: nat
      in if 48 \<le> n \<and> n \<le> 57 then Some (n - 48)
         else if 65 \<le> n \<and> n \<le> 70 then Some (n - 55)
         else if 97 \<le> n \<and> n \<le> 102 then Some (n - 87) else None)"

definition is_hex :: "char \<Rightarrow> bool" where
  "is_hex ch \<longleftrightarrow> hex_value ch \<noteq> None"

text \<open>Two digits of a text, from position \<open>i\<close>.\<close>

definition hex_byte :: "string \<Rightarrow> nat \<Rightarrow> byte" where
  "hex_byte s i = of_nat (16 * the (hex_value (s ! i)) + the (hex_value (s ! (i + 1))))"

text \<open>
  A colour of Qt: \<open>named\<close> knows the names; after \<open>#\<close> the channels have one to four hexadecimal digits, of
  which the first two count, with eight digits the first two are the alpha channel.
\<close>

definition hex_color :: "string \<Rightarrow> ColorRgb option" where
  "hex_color s =
     (if \<not> list_all is_hex s then None
      else if length s = 3
      then (let d = \<lambda>i. of_nat (17 * the (hex_value (s ! i))) in Some (rgb (d 0) (d 1) (d 2)))
      else if length s = 6 then Some (rgb (hex_byte s 0) (hex_byte s 2) (hex_byte s 4))
      else if length s = 8 then Some (rgb (hex_byte s 2) (hex_byte s 4) (hex_byte s 6))
      else if length s = 9 then Some (rgb (hex_byte s 0) (hex_byte s 3) (hex_byte s 6))
      else if length s = 12 then Some (rgb (hex_byte s 0) (hex_byte s 4) (hex_byte s 8))
      else None)"

definition qcolor :: "(string \<Rightarrow> ColorRgb option) \<Rightarrow> string \<Rightarrow> ColorRgb option" where
  "qcolor named s = (if s \<noteq> [] \<and> hd s = CHR ''#'' then hex_color (tl s) else named s)"

text \<open>An invalid colour is all zero.\<close>

definition color_or_zero :: "ColorRgb option \<Rightarrow> ColorRgb" where
  "color_or_zero c = (case c of None \<Rightarrow> BLACK | Some c \<Rightarrow> c)"

text \<open>\<open>validate\<close> of one colour: the answer, and the colour that is kept.\<close>

definition color_option :: "(string \<Rightarrow> ColorRgb option) \<Rightarrow> bool \<Rightarrow> string \<Rightarrow> bool \<times> ColorRgb option" where
  "color_option named isSet value =
     (case qcolor named value of
        Some c \<Rightarrow> (True, Some c)
      | None \<Rightarrow> (case qcolor named (CHR ''#'' # value) of
            Some c \<Rightarrow> (True, Some c)
          | None \<Rightarrow> (\<not> isSet, None)))"

text \<open>
  The regular expression for repeated colours: its match without a final line break, and the captured
  texts, which are the match and the last repetition of the group.
\<close>

definition hex_match :: "string \<Rightarrow> string option" where
  "hex_match value =
     (let t = (if value \<noteq> [] \<and> last value = CHR 0x0A then butlast value else value)
      in if t \<noteq> [] \<and> 6 dvd length t \<and> list_all is_hex t then Some t else None)"

definition colors_option :: "(string \<Rightarrow> ColorRgb option) \<Rightarrow> bool \<Rightarrow> string \<Rightarrow> bool \<times> ColorRgb list" where
  "colors_option named isSet value =
     (case qcolor named value of
        Some c \<Rightarrow> (True, [c])
      | None \<Rightarrow> (case hex_match value of
            Some t \<Rightarrow> (True, map (\<lambda>m. color_or_zero (qcolor named (CHR ''#'' # m))) [t, drop (length t - 6) t])
          | None \<Rightarrow> (\<not> isSet, [])))"

text \<open>
  The option is documented to take several colours in a row, but of a text of at least two
  colours only two are made: the second is the last colour of the text, and the first is none of
  them -- black for three and more colours, and for two colours a mixture of digits of both.
\<close>

theorem colors_option_wrong:
  assumes "list_all is_hex (concat cs)" "\<forall>s \<in> set cs. length s = 6" "2 \<le> length cs" "named (concat cs) = None"
  shows "\<exists>first. colors_option named isSet (concat cs) = (True, [first, color_or_zero (hex_color (last cs))]) \<and>
    (3 \<le> length cs \<longrightarrow> first = BLACK) \<and>
    (length cs = 2 \<longrightarrow> first = rgb (hex_byte (cs ! 0) 0) (hex_byte (cs ! 0) 4) (hex_byte (cs ! 1) 2))"
proof -
  let ?t = "concat cs"
  have len: "length ?t = 6 * length cs" using assms(2) by (induction cs) simp_all
  obtain ds d where cs: "cs = ds @ [d]" using assms(3) by (cases cs rule: rev_cases) auto
  have d: "length d = 6" using assms(2) cs by simp
  have "length ?t \<noteq> 0" using assms(3) len by linarith
  then have ne: "?t \<noteq> []" by (rule contrapos_nn) (simp only: list.size)
  have nohash: "hd ?t \<noteq> CHR ''#''" "last ?t \<noteq> CHR 0x0A"
  proof -
    have "\<forall>x \<in> set ?t. is_hex x" using assms(1) by (simp only: list_all_iff)
    then have "is_hex (hd ?t)" "is_hex (last ?t)" using hd_in_set [OF ne] last_in_set [OF ne] by metis+
    moreover have "\<not> is_hex (CHR ''#'')" "\<not> is_hex (CHR 0x0A)" by (simp_all add: is_hex_def hex_value_def)
    ultimately show "hd ?t \<noteq> CHR ''#''" "last ?t \<noteq> CHR 0x0A" by metis+
  qed
  have last: "drop (length ?t - 6) ?t = d" using d by (simp add: cs)
  define first where "first = color_or_zero (hex_color ?t)"
  have "colors_option named isSet ?t = (True, [first, color_or_zero (hex_color d)])"
    using assms(1,4) ne nohash len last by (simp add: colors_option_def qcolor_def hex_match_def first_def Let_def)
  moreover have "first = BLACK" if "3 \<le> length cs"
  proof -
    have "length ?t \<notin> {3, 6, 8, 9, 12}" using len that by auto
    then show ?thesis by (simp add: first_def hex_color_def color_or_zero_def)
  qed
  moreover have "first = rgb (hex_byte (cs ! 0) 0) (hex_byte (cs ! 0) 4) (hex_byte (cs ! 1) 2)" if two: "length cs = 2"
  proof -
    obtain a b where ab: "cs = [a, b]" using two by (cases cs; cases "tl cs") auto
    then have "length a = 6" "length b = 6" using assms(2) by simp_all
    then show ?thesis
      using assms(1) len two by (simp add: ab first_def hex_color_def color_or_zero_def hex_byte_def nth_append)
  qed
  ultimately show ?thesis by (auto simp: cs)
qed

theorem colors_option_wrong_witness:
  "colors_option (\<lambda>s. None) True ''FF000000FF00'' = (True, [rgb 255 0 255, rgb 0 255 0])"
proof -
  have "list_all is_hex (concat [''FF0000'', ''00FF00''])" by code_simp
  from colors_option_wrong [OF this, of "\<lambda>s. None" True]
  have "colors_option (\<lambda>s. None) True ''FF000000FF00'' = (True,
      [rgb (hex_byte ''FF0000'' 0) (hex_byte ''FF0000'' 4) (hex_byte ''00FF00'' 2), color_or_zero (hex_color ''00FF00'')])" by auto
  moreover have "hex_byte ''FF0000'' 0 = 255" "hex_byte ''FF0000'' 4 = 0" "hex_byte ''00FF00'' 2 = 255"
     "color_or_zero (hex_color ''00FF00'') = rgb 0 255 0"
    by (simp_all add: hex_byte_def hex_value_def hex_color_def is_hex_def color_or_zero_def numeral_eq_Suc)
  ultimately show ?thesis by simp
qed

section \<open>The command line\<close>

text \<open>The options of \<open>hyperion-remote\<close> with their values; the gamma is the same for all channels.\<close>

record remote_options =
  ro_priority :: int
  ro_duration :: int
  ro_color :: "ColorRgb list option"
  ro_image :: "ColorRgb image option"
  ro_effect :: "string option"
  ro_effectFile :: string
  ro_effectArgs :: string
  ro_createEffect :: "string option"
  ro_deleteEffect :: "string option"
  ro_list :: bool
  ro_clear :: bool
  ro_clearall :: bool
  ro_enable :: "string option"
  ro_disable :: "string option"
  ro_adjustment :: remote_adjustment
  ro_mapping :: "string option"
  ro_source :: "int option"
  ro_sourceAuto :: bool
  ro_sourceOff :: bool
  ro_configGet :: bool
  ro_schemaGet :: bool
  ro_configSet :: "string option"

definition ro_colorAdjust :: "remote_options \<Rightarrow> bool" where
  "ro_colorAdjust opts =
     (let a = ro_adjustment opts
      in ra_red a \<noteq> None \<or> ra_green a \<noteq> None \<or> ra_blue a \<noteq> None \<or> ra_cyan a \<noteq> None \<or> ra_magenta a \<noteq> None \<or>
         ra_yellow a \<noteq> None \<or> ra_white a \<noteq> None \<or> ra_black a \<noteq> None \<or> ra_gammaR a \<noteq> None \<or> ra_brightness a \<noteq> None \<or>
         ra_backlightThreshold a \<noteq> None \<or> ra_backlightColored a \<noteq> None)"

definition ro_commands :: "remote_options \<Rightarrow> bool list" where
  "ro_commands opts =
     [ro_color opts \<noteq> None, ro_image opts \<noteq> None, ro_effect opts \<noteq> None, ro_createEffect opts \<noteq> None,
      ro_deleteEffect opts \<noteq> None, ro_list opts, ro_clear opts, ro_clearall opts, ro_enable opts \<noteq> None,
      ro_disable opts \<noteq> None, ro_colorAdjust opts, ro_source opts \<noteq> None, ro_sourceAuto opts, ro_sourceOff opts,
      ro_configGet opts, ro_schemaGet opts, ro_configSet opts \<noteq> None, ro_mapping opts \<noteq> None]"

text \<open>Exactly one command must be given; \<open>None\<close> is the exit with the help.\<close>

definition remote_main :: "remote_options \<Rightarrow> remote_request option" where
  "remote_main opts =
     (if length (filter id (ro_commands opts)) \<noteq> 1 then None
      else if ro_color opts \<noteq> None then Some (RqColor (the (ro_color opts)) (ro_priority opts) (ro_duration opts))
      else if ro_image opts \<noteq> None then Some (RqImage (the (ro_image opts)) (ro_priority opts) (ro_duration opts))
      else if ro_effect opts \<noteq> None
      then Some (RqEffect (the (ro_effect opts)) (ro_effectArgs opts) (ro_priority opts) (ro_duration opts))
      else if ro_createEffect opts \<noteq> None
      then Some (RqCreateEffect (the (ro_createEffect opts)) (ro_effectFile opts) (ro_effectArgs opts))
      else if ro_deleteEffect opts \<noteq> None then Some (RqDeleteEffect (the (ro_deleteEffect opts)))
      else if ro_list opts then Some RqServerInfo
      else if ro_clear opts then Some (RqClear (ro_priority opts))
      else if ro_clearall opts then Some RqClearAll
      else if ro_enable opts \<noteq> None then Some (RqComponent (the (ro_enable opts)) True)
      else if ro_disable opts \<noteq> None then Some (RqComponent (the (ro_disable opts)) False)
      else if ro_sourceOff opts then Some (RqSource 255)
      else if ro_source opts \<noteq> None then Some (RqSource (the (ro_source opts)))
      else if ro_sourceAuto opts then Some RqSourceAuto
      else if ro_configGet opts then Some (RqConfig ''config'')
      else if ro_schemaGet opts then Some (RqConfig ''schema'')
      else if ro_configSet opts \<noteq> None then Some (RqSetConfig (the (ro_configSet opts)))
      else if ro_mapping opts \<noteq> None then Some (RqMapping (the (ro_mapping opts)))
      else if ro_colorAdjust opts then Some (RqAdjustment (ro_adjustment opts))
      else None)"

text \<open>A single command is always carried out: no combination of options falls through the tests.\<close>

lemma remote_main_total: "remote_main opts = None \<longleftrightarrow> length (filter id (ro_commands opts)) \<noteq> 1"
proof
  assume none: "remote_main opts = None"
  show "length (filter id (ro_commands opts)) \<noteq> 1"
  proof
    assume one: "length (filter id (ro_commands opts)) = 1"
    then have "True \<in> set (ro_commands opts)" by (metis filter_False id_apply length_0_conv zero_neq_one)
    then show False using none one by (auto simp: remote_main_def ro_commands_def split: if_splits)
  qed
qed (simp add: remote_main_def)

end
