(* ===== verification/Http.thy ===== *)
theory Http
  imports QtText
begin

text \<open>
  The HTTP server of the web configuration (\<open>libsrc/webconfig/QtHttpClientWrapper.cpp\<close>, \<open>QtHttpRequest.cpp\<close>,
  \<open>QtHttpReply.cpp\<close>): the parser of a connection as a state machine over the lines it reads, and the replies.
  Texts and bytes are strings of Latin-1 characters.  What answers a parsed request is the argument
  \<open>handler\<close>, which also works on a state of its own; \<open>order\<close> is the order in which the hash of the
  headers lists its keys, \<open>fresh\<close> the reply as it is constructed, with the date of that moment.
\<close>

section \<open>Bytes\<close>

definition is_ascii_space :: "char \<Rightarrow> bool" where
  "is_ascii_space c \<longleftrightarrow> (let n = of_char c :: nat in 9 \<le> n \<and> n \<le> 13 \<or> n = 32)"

definition trimmed_bytes :: "string \<Rightarrow> string" where
  "trimmed_bytes s = rev (dropWhile is_ascii_space (rev (dropWhile is_ascii_space s)))"

definition lower_ascii :: "string \<Rightarrow> string" where
  "lower_ascii s = map (\<lambda>c. let n = of_char c :: nat in if 65 \<le> n \<and> n \<le> 90 then char_of (n + 32) else c) s"

definition number_text :: "int \<Rightarrow> string" where
  "number_text n = (if n < 0 then CHR ''-'' # decimal (nat (- n)) else decimal (nat n))"

fun hexadecimal :: "nat \<Rightarrow> string" where
  "hexadecimal n =
     (let d = ''0123456789abcdef'' ! (n mod 16) in if n < 16 then [d] else hexadecimal (n div 16) @ [d])"

declare hexadecimal.simps [simp del]

definition CRLF :: string where
  "CRLF = [CHR 0x0D, CHR 0x0A]"

text \<open>\<open>fromPercentEncoding\<close>; a character that is no hexadecimal digit counts with its code.\<close>

definition percent_value :: "char \<Rightarrow> nat" where
  "percent_value c =
     (let n = of_char c
      in if 48 \<le> n \<and> n \<le> 57 then n - 48
         else if 97 \<le> n \<and> n \<le> 102 then n - 87
         else if 65 \<le> n \<and> n \<le> 70 then n - 55 else n)"

fun from_percent :: "string \<Rightarrow> string" where
  "from_percent (c # a # b # s) =
     (if c = CHR ''%'' then char_of (push_bit 4 (percent_value a) OR percent_value b) # from_percent s
      else c # from_percent (a # b # s))"
| "from_percent s = s"

text \<open>\<open>readLine\<close>: up to a line break, or everything when there is none.\<close>

definition take_line :: "string \<Rightarrow> string \<times> string" where
  "take_line s =
     (let l = takeWhile (\<lambda>c. c \<noteq> CHR 0x0A) s; r = drop (length l) s
      in case r of [] \<Rightarrow> (l, []) | nl # rest \<Rightarrow> (l @ [nl], rest))"

lemma take_line_shorter: "s \<noteq> [] \<Longrightarrow> length (snd (take_line s)) < length s"
  by (cases "drop (length (takeWhile (\<lambda>c. c \<noteq> CHR 0x0A) s)) s")
    (auto simp: take_line_def Let_def dest!: arg_cong [where f = length])

section \<open>Requests\<close>

type_synonym headers = "string \<Rightarrow> string option"

record http_request =
  wq_url :: string
  wq_command :: string
  wq_data :: string
  wq_headers :: headers
  wq_postData :: "string \<Rightarrow> string option"

definition addHeader :: "string \<Rightarrow> string \<Rightarrow> headers \<Rightarrow> headers" where
  "addHeader header value hs =
     (let key = trimmed_bytes header in if key \<noteq> [] then hs(key \<mapsto> value) else hs)"

definition getHeader :: "headers \<Rightarrow> string \<Rightarrow> string" where
  "getHeader hs header = (case hs header of None \<Rightarrow> [] | Some v \<Rightarrow> v)"

definition wq_new :: http_request where
  "wq_new = \<lparr>wq_url = [], wq_command = [], wq_data = [],
     wq_headers = addHeader ''Connection'' ''Keep-Alive'' (addHeader ''Content-Length'' ''0'' Map.empty),
     wq_postData = Map.empty\<rparr>"

definition content_length :: "http_request \<Rightarrow> int" where
  "content_length q = fst (toInt (getHeader (wq_headers q) ''Content-Length''))"

text \<open>The fields of a form; only the part up to a second \<open>=\<close> is the value.\<close>

definition post_fields :: "string \<Rightarrow> string \<Rightarrow> string option" where
  "post_fields data =
     fold (\<lambda>part m. let kv = split_at (CHR ''='') part
        in m(kv ! 0 \<mapsto> (if length kv > 1 then from_percent (kv ! 1) else [])))
       (split_at (CHR ''&'') data) Map.empty"

section \<open>Replies\<close>

record http_reply =
  wr_useChunked :: bool
  wr_statusCode :: nat
  wr_data :: string
  wr_headers :: headers

definition wr_new :: "string \<Rightarrow> string \<Rightarrow> http_reply" where
  "wr_new date serverName = \<lparr>wr_useChunked = False, wr_statusCode = 200, wr_data = [],
     wr_headers = addHeader ''Server'' serverName (addHeader ''Date'' date Map.empty)\<rparr>"

definition wr_append :: "string \<Rightarrow> http_reply \<Rightarrow> http_reply" where
  "wr_append data r = r\<lparr>wr_data := wr_data r @ data\<rparr>"

definition wr_header :: "string \<Rightarrow> string \<Rightarrow> http_reply \<Rightarrow> http_reply" where
  "wr_header header value r = r\<lparr>wr_headers := addHeader header value (wr_headers r)\<rparr>"

definition status_text :: "nat \<Rightarrow> string" where
  "status_text code =
     (if code = 200 then ''OK.'' else if code = 400 then ''Bad request !''
      else if code = 403 then ''Forbidden !'' else if code = 404 then ''Not found !'' else [])"

section \<open>The connection\<close>

datatype parsing_status = ParsingError | AwaitingRequest | AwaitingHeaders | AwaitingContent | RequestParsed

record http_client =
  hc_status :: parsing_status
  hc_request :: "http_request option"
  hc_out :: string
  hc_closed :: bool

definition hc_new :: http_client where
  "hc_new = \<lparr>hc_status = AwaitingRequest, hc_request = None, hc_out = [], hc_closed = False\<rparr>"

definition hc_write :: "string \<Rightarrow> http_client \<Rightarrow> http_client" where
  "hc_write data c = c\<lparr>hc_out := hc_out c @ data\<rparr>"

definition onReplySendHeaders :: "(headers \<Rightarrow> string list) \<Rightarrow> http_reply \<Rightarrow> http_client \<Rightarrow> http_reply \<times> http_client" where
  "onReplySendHeaders order r c =
     (let r = (if wr_useChunked r then wr_header ''Transfer-Encoding'' ''chunked'' r
               else wr_header ''Content-Length'' (decimal (length (wr_data r))) r)
      in (r, hc_write (''HTTP/1.1'' @ '' '' @ decimal (wr_statusCode r) @ '' '' @ status_text (wr_statusCode r) @ CRLF @
           concat (map (\<lambda>h. h @ '':'' @ '' '' @ getHeader (wr_headers r) h @ CRLF) (order (wr_headers r))) @ CRLF) c))"

definition onReplySendData :: "http_reply \<Rightarrow> http_client \<Rightarrow> http_reply \<times> http_client" where
  "onReplySendData r c =
     (if wr_useChunked r
      then (r\<lparr>wr_data := []\<rparr>, hc_write (hexadecimal (length (wr_data r)) @ CRLF @ wr_data r @ CRLF) c)
      else (r, hc_write (wr_data r) c))"

definition sendReplyToClient :: "(headers \<Rightarrow> string list) \<Rightarrow> http_reply \<Rightarrow> http_client \<Rightarrow> http_client" where
  "sendReplyToClient order r c =
     (let c = (if \<not> wr_useChunked r
               then (let (r, c) = onReplySendHeaders order r c in snd (onReplySendData r c))
               else hc_write (''0'' @ CRLF @ CRLF) c);
          c = (case hc_request c of None \<Rightarrow> c
               | Some q \<Rightarrow> (if lower_ascii (getHeader (wq_headers q) ''Connection'') = ''close'' then c\<lparr>hc_closed := True\<rparr> else c)
                           \<lparr>hc_request := None\<rparr>)
      in c\<lparr>hc_status := AwaitingRequest\<rparr>)"

text \<open>One line, in the state the parser is in; the request must be there for headers and content.\<close>

definition parse_request_line :: "string \<Rightarrow> http_client \<Rightarrow> http_client" where
  "parse_request_line line c =
     (let parts = split_skip (CHR '' '') (trimmed line)
      in if length parts = 3 \<and> parts ! 2 = ''HTTP/1.1''
         then c\<lparr>hc_request := Some (wq_new\<lparr>wq_url := parts ! 1, wq_command := parts ! 0\<rparr>), hc_status := AwaitingHeaders\<rparr>
         else c\<lparr>hc_status := ParsingError\<rparr>)"

definition parse_header :: "string \<Rightarrow> http_request \<Rightarrow> http_client \<Rightarrow> http_client" where
  "parse_header line q c =
     (let raw = trimmed_bytes line
      in if raw \<noteq> []
         then (let p = length (takeWhile (\<lambda>x. x \<noteq> CHR '':'') raw)
               in if 0 < p \<and> p < length raw
                  then (let header = trimmed_bytes (take p raw); value = trimmed_bytes (drop (p + 1) raw);
                            q = q\<lparr>wq_headers := addHeader header value (wq_headers q)\<rparr>;
                            (len, ok) = toInt value;
                            q = (if header = ''Content-Length'' \<and> ok
                                 then q\<lparr>wq_headers := addHeader ''Content-Length'' (number_text len) (wq_headers q)\<rparr> else q)
                        in c\<lparr>hc_request := Some q\<rparr>)
                  else c\<lparr>hc_status := ParsingError\<rparr>)
         else c\<lparr>hc_status := (if content_length q > 0 then AwaitingContent else RequestParsed)\<rparr>)"

definition parse_content :: "string \<Rightarrow> http_request \<Rightarrow> http_client \<Rightarrow> http_client" where
  "parse_content line q c =
     (let q = q\<lparr>wq_data := wq_data q @ line\<rparr>; c = c\<lparr>hc_request := Some q\<rparr>
      in if int (length (wq_data q)) = content_length q then c\<lparr>hc_status := RequestParsed\<rparr> else c)"

definition parse_line :: "string \<Rightarrow> http_client \<Rightarrow> http_client res" where
  "parse_line line c =
     (case hc_status c of
        AwaitingRequest \<Rightarrow> Inr (parse_request_line line c)
      | AwaitingHeaders \<Rightarrow> (case hc_request c of None \<Rightarrow> Inl Undefined | Some q \<Rightarrow> Inr (parse_header line q c))
      | AwaitingContent \<Rightarrow> (case hc_request c of None \<Rightarrow> Inl Undefined | Some q \<Rightarrow> Inr (parse_content line q c))
      | _ \<Rightarrow> Inr c)"

type_synonym 'w http_handler = "http_request \<Rightarrow> http_reply \<Rightarrow> 'w \<Rightarrow> (http_reply \<times> 'w) res"

definition request_parsed ::
  "(headers \<Rightarrow> string list) \<Rightarrow> http_reply \<Rightarrow> 'w http_handler \<Rightarrow> http_client \<Rightarrow> 'w \<Rightarrow> (http_client \<times> 'w) res" where
  "request_parsed order fresh handler c w =
     (case hc_request c of
        None \<Rightarrow> Inl Undefined
      | Some q \<Rightarrow>
          (let q = (if wq_command q = ''POST'' then q\<lparr>wq_postData := post_fields (wq_data q)\<rparr> else q);
               c = c\<lparr>hc_request := Some q\<rparr>
           in res_bind (handler q fresh w) (\<lambda>(r, w). Inr (sendReplyToClient order r c, w))))"

definition bad_request :: "(headers \<Rightarrow> string list) \<Rightarrow> http_reply \<Rightarrow> http_client \<Rightarrow> http_client" where
  "bad_request order fresh c =
     sendReplyToClient order (wr_append CRLF (wr_append ''<h1>Bad Request (HTTP parsing error) !</h1>''
       (fresh\<lparr>wr_statusCode := 400\<rparr>))) c"

text \<open>The loop over the bytes that have arrived; an error drops the rest, and so does the end of the connection.\<close>

function onClientDataReceived ::
  "(headers \<Rightarrow> string list) \<Rightarrow> http_reply \<Rightarrow> 'w http_handler \<Rightarrow> string \<Rightarrow> http_client \<Rightarrow> 'w \<Rightarrow> (http_client \<times> 'w) res" where
  "onClientDataReceived order fresh handler s c w =
     (if s = [] \<or> hc_closed c then Inr (c, w)
      else (let (line, rest) = take_line s
            in res_bind (parse_line line c) (\<lambda>c.
               case hc_status c of
                 RequestParsed \<Rightarrow> res_bind (request_parsed order fresh handler c w) (\<lambda>(c, w).
                     onClientDataReceived order fresh handler (snd (take_line s)) c w)
               | ParsingError \<Rightarrow> Inr (bad_request order fresh c, w)
               | _ \<Rightarrow> onClientDataReceived order fresh handler (snd (take_line s)) c w)))"
  by pat_completeness auto
termination
  by (relation "measure (\<lambda>(order, fresh, handler, s, c, w). length s)") (auto simp: take_line_shorter)

declare onClientDataReceived.simps [simp del]

section \<open>The state of a connection\<close>

text \<open>Between two arrivals a request is there exactly while its headers or its content are awaited.\<close>

definition hc_ok :: "http_client \<Rightarrow> bool" where
  "hc_ok c \<longleftrightarrow> hc_status c = AwaitingRequest \<and> hc_request c = None \<or>
     hc_status c \<in> {AwaitingHeaders, AwaitingContent} \<and> hc_request c \<noteq> None"

lemma hc_frame [simp]:
  "hc_status (sendReplyToClient order r c) = AwaitingRequest" "hc_request (sendReplyToClient order r c) = None"
proof -
  have "hc_request (snd (onReplySendData r c)) = hc_request c" "hc_request (snd (onReplySendHeaders order r c)) = hc_request c" for r c
    by (simp_all add: onReplySendData_def onReplySendHeaders_def hc_write_def Let_def)
  then show "hc_status (sendReplyToClient order r c) = AwaitingRequest" "hc_request (sendReplyToClient order r c) = None"
    by (auto simp: sendReplyToClient_def Let_def hc_write_def split: option.split prod.split)
qed

lemma hc_ok_reply [simp]: "hc_ok (sendReplyToClient order r c)"
  by (simp add: hc_ok_def)

text \<open>After a line the parser waits for more, has a request, or has found an error.\<close>

lemma parse_line_ok:
  assumes "hc_ok c"
  shows "\<exists>c'. parse_line line c = Inr c' \<and>
    (hc_ok c' \<or> hc_status c' = RequestParsed \<and> hc_request c' \<noteq> None \<or> hc_status c' = ParsingError)"
  using assms
  by (auto simp: hc_ok_def parse_line_def parse_request_line_def parse_header_def parse_content_def Let_def
      split: prod.split if_splits)

definition handler_total :: "'w http_handler \<Rightarrow> ('w \<Rightarrow> bool) \<Rightarrow> bool" where
  "handler_total handler P \<longleftrightarrow> (\<forall>q r w. P w \<longrightarrow> (\<exists>r' w'. handler q r w = Inr (r', w') \<and> P w'))"

lemma http_step:
  "s \<noteq> [] \<Longrightarrow> \<not> hc_closed c \<Longrightarrow> onClientDataReceived order fresh handler s c w =
     res_bind (parse_line (fst (take_line s)) c) (\<lambda>c.
       case hc_status c of
         RequestParsed \<Rightarrow> res_bind (request_parsed order fresh handler c w) (\<lambda>(c, w).
             onClientDataReceived order fresh handler (snd (take_line s)) c w)
       | ParsingError \<Rightarrow> Inr (bad_request order fresh c, w)
       | _ \<Rightarrow> onClientDataReceived order fresh handler (snd (take_line s)) c w)"
  by (subst onClientDataReceived.simps) (simp add: case_prod_beta)

lemma http_stop: "s = [] \<or> hc_closed c \<Longrightarrow> onClientDataReceived order fresh handler s c w = Inr (c, w)"
  by (subst onClientDataReceived.simps) auto

lemma http_received_ok:
  assumes "handler_total handler P" "hc_ok c" "P w"
  shows "\<exists>c' w'. onClientDataReceived order fresh handler s c w = Inr (c', w') \<and> hc_ok c' \<and> P w'"
  using assms(2,3)
proof (induction "length s" arbitrary: s c w rule: less_induct)
  case less
  show ?case
  proof (cases "s = [] \<or> hc_closed c")
    case True
    then show ?thesis using less.prems by (auto simp: http_stop)
  next
    case False
    let ?rest = "snd (take_line s)"
    have shorter: "length ?rest < length s" using False by (simp add: take_line_shorter)
    note IH = less.hyps [OF shorter]
    obtain c1 where c1: "parse_line (fst (take_line s)) c = Inr c1"
        "hc_ok c1 \<or> hc_status c1 = RequestParsed \<and> hc_request c1 \<noteq> None \<or> hc_status c1 = ParsingError"
      using parse_line_ok [OF less.prems(1)] by metis
    note step = http_step [of s c order fresh handler w] c1(1)
    from c1(2) show ?thesis
    proof (elim disjE conjE exE)
      assume ok: "hc_ok c1"
      then have "onClientDataReceived order fresh handler s c w = onClientDataReceived order fresh handler ?rest c1 w"
        using step False by (auto simp: hc_ok_def)
      with IH [OF ok less.prems(2)] show ?thesis by simp
    next
      assume parsed: "hc_status c1 = RequestParsed" "hc_request c1 \<noteq> None"
      then obtain q where q: "hc_request c1 = Some q" by blast
      let ?q = "if wq_command q = ''POST'' then q\<lparr>wq_postData := post_fields (wq_data q)\<rparr> else q"
      obtain r w' where r: "handler ?q fresh w = Inr (r, w')" "P w'"
        using assms(1) less.prems(2) unfolding handler_total_def by blast
      then have "request_parsed order fresh handler c1 w = Inr (sendReplyToClient order r (c1\<lparr>hc_request := Some ?q\<rparr>), w')"
        by (simp add: request_parsed_def q Let_def)
      then have "onClientDataReceived order fresh handler s c w =
          onClientDataReceived order fresh handler ?rest (sendReplyToClient order r (c1\<lparr>hc_request := Some ?q\<rparr>)) w'"
        using step False parsed by simp
      with IH [OF hc_ok_reply r(2)] show ?thesis by simp
    next
      assume "hc_status c1 = ParsingError"
      then have "onClientDataReceived order fresh handler s c w = Inr (bad_request order fresh c1, w)"
        using step False by simp
      then show ?thesis using less.prems(2) by (simp add: bad_request_def)
    qed
  qed
qed

text \<open>What arrives on a connection, piece by piece.\<close>

fun http_session ::
  "(headers \<Rightarrow> string list) \<Rightarrow> http_reply \<Rightarrow> 'w http_handler \<Rightarrow> string list \<Rightarrow> http_client \<Rightarrow> 'w \<Rightarrow> (http_client \<times> 'w) res" where
  "http_session order fresh handler [] c w = Inr (c, w)"
| "http_session order fresh handler (s # ss) c w =
     res_bind (onClientDataReceived order fresh handler s c w) (\<lambda>(c, w). http_session order fresh handler ss c w)"

text \<open>
  Whatever bytes a browser sends, in whatever pieces: the parser never uses a request that is
  not there, and between two pieces a request exists exactly while its headers or content are
  awaited -- as long as the handler of the requests does not fail.
\<close>

theorem http_session_safe:
  assumes "handler_total handler P" "P w"
  shows "\<exists>c' w'. http_session order fresh handler ss hc_new w = Inr (c', w') \<and> hc_ok c' \<and> P w'"
proof -
  have "\<exists>c' w'. http_session order fresh handler ss c w = Inr (c', w') \<and> hc_ok c' \<and> P w'" if "hc_ok c" "P w" for c w
    using that
  proof (induction ss arbitrary: c w)
    case (Cons s ss)
    from http_received_ok [OF assms(1) Cons.prems] obtain c1 w1 where
      "onClientDataReceived order fresh handler s c w = Inr (c1, w1)" "hc_ok c1" "P w1" by metis
    with Cons.IH show ?case by simp
  qed simp
  then show ?thesis using assms(2) by (simp add: hc_new_def hc_ok_def)
qed

theorem http_session_safe_witness:
  "\<exists>c' w'. http_session (\<lambda>hs. []) (wr_new [] []) (\<lambda>q r w. Inr (wr_append (wq_url q) r, w + 1)) [''GET / HTTP/1.1'' @ CRLF, CRLF] hc_new (0 :: nat) =
     Inr (c', w') \<and> hc_ok c'"
proof -
  have "handler_total (\<lambda>q r w. Inr (wr_append (wq_url q) r, w + 1)) (\<lambda>w :: nat. True)"
    by (simp add: handler_total_def)
  from http_session_safe [OF this] show ?thesis by blast
qed

section \<open>Requests arrive whole\<close>

text \<open>A request as a browser writes it; the length is announced when there is content.\<close>

definition header_line :: "string \<times> string \<Rightarrow> string" where
  "header_line h = fst h @ '': '' @ snd h @ CRLF"

definition http_text :: "string \<Rightarrow> string \<Rightarrow> (string \<times> string) list \<Rightarrow> string \<Rightarrow> string" where
  "http_text command url hs body =
     command @ '' '' @ url @ '' HTTP/1.1'' @ CRLF @ concat (map header_line hs) @
     (if body \<noteq> [] then header_line (''Content-Length'', decimal (length body)) else []) @ CRLF @ body"

definition plain_word :: "string \<Rightarrow> bool" where
  "plain_word s \<longleftrightarrow> s \<noteq> [] \<and> list_all (\<lambda>c. 33 \<le> (of_char c :: nat) \<and> (of_char c :: nat) \<le> 126) s"

definition plain_header :: "string \<times> string \<Rightarrow> bool" where
  "plain_header h \<longleftrightarrow> plain_word (fst h) \<and> CHR '':'' \<notin> set (fst h) \<and> fst h \<noteq> ''Content-Length'' \<and>
     CHR 0x0A \<notin> set (snd h) \<and> trimmed_bytes (snd h) = snd h"

definition with_headers :: "(string \<times> string) list \<Rightarrow> headers \<Rightarrow> headers" where
  "with_headers hs m = fold (\<lambda>h m. m(fst h \<mapsto> snd h)) hs m"

text \<open>The request the handler gets.\<close>

definition parsed_request :: "string \<Rightarrow> string \<Rightarrow> (string \<times> string) list \<Rightarrow> string \<Rightarrow> http_request" where
  "parsed_request command url hs body =
     (let q = wq_new\<lparr>wq_url := url, wq_command := command,
                     wq_headers := (with_headers hs (wq_headers wq_new))(''Content-Length'' \<mapsto> decimal (length body)), wq_data := body\<rparr>
      in if command = ''POST'' then q\<lparr>wq_postData := post_fields body\<rparr> else q)"

lemma take_line_break: "CHR 0x0A \<notin> set l \<Longrightarrow> take_line (l @ CHR 0x0A # rest) = (l @ [CHR 0x0A], rest)"
  by (simp add: take_line_def takeWhile_append)

lemma take_line_all: "CHR 0x0A \<notin> set l \<Longrightarrow> take_line l = (l, [])"
proof -
  assume "CHR 0x0A \<notin> set l"
  then have "takeWhile (\<lambda>c. c \<noteq> CHR 0x0A) l = l" by (auto simp: takeWhile_eq_all_conv)
  then show ?thesis by (simp only: take_line_def Let_def drop_all order.refl list.case)
qed

lemma take_line_crlf: "CHR 0x0A \<notin> set l \<Longrightarrow> take_line (l @ CRLF @ rest) = (l @ CRLF, rest)"
  using take_line_break [of "l @ [CHR 0x0D]" rest] by (simp add: CRLF_def)

text \<open>Stripping a string on both sides.\<close>

lemma strip_suffix:
  assumes "list_all P t"
  shows "dropWhile P (rev (dropWhile P (s @ t))) = dropWhile P (rev (dropWhile P s))"
proof (cases "\<forall>x \<in> set s. P x")
  case True
  then have "\<forall>x \<in> set (s @ t). P x" using assms by (auto simp: list_all_iff)
  then have "dropWhile P (s @ t) = []" by (simp only: dropWhile_eq_Nil_conv)
  moreover have "dropWhile P s = []" using True by (simp only: dropWhile_eq_Nil_conv)
  ultimately show ?thesis by (simp only:)
next
  case False
  then have "dropWhile P (s @ t) = dropWhile P s @ t" by (auto simp: dropWhile_append)
  moreover have "dropWhile P (rev t @ ys) = dropWhile P ys" for ys
    using assms by (intro dropWhile_append2) (simp add: list_all_iff)
  ultimately show ?thesis by simp
qed

lemma strip_last:
  assumes "rev (dropWhile P (rev (dropWhile P s))) = s" "s \<noteq> []"
  shows "\<not> P (last s)"
proof -
  let ?t = "dropWhile P (rev (dropWhile P s))"
  have "?t \<noteq> []" using assms by force
  then have "\<not> P (hd ?t)" by (rule hd_dropWhile)
  moreover have "last s = hd ?t" using assms \<open>?t \<noteq> []\<close> by (metis last_rev)
  ultimately show ?thesis by simp
qed

lemma trimmed_bytes_crlf: "trimmed_bytes (s @ CRLF) = trimmed_bytes s"
proof -
  have "list_all is_ascii_space CRLF" by (simp add: CRLF_def is_ascii_space_def)
  then show ?thesis by (simp add: trimmed_bytes_def strip_suffix)
qed

lemma trimmed_crlf: "trimmed (s @ CRLF) = trimmed s"
proof -
  have "list_all is_space CRLF" by (simp add: CRLF_def is_space_def)
  then show ?thesis by (simp add: trimmed_def strip_suffix)
qed

lemma plain_wordD:
  assumes "plain_word s" "c \<in> set s"
  shows "\<not> is_space c" "\<not> is_ascii_space c" "c \<noteq> CHR '' ''" "c \<noteq> CHR 0x0A"
proof -
  have n: "33 \<le> (of_char c :: nat)" "(of_char c :: nat) \<le> 126" using assms by (auto simp: plain_word_def list_all_iff)
  then show "\<not> is_space c" "\<not> is_ascii_space c" by (simp_all add: is_space_def is_ascii_space_def Let_def)
  have "(of_char (CHR '' '') :: nat) = 32" "(of_char (CHR 0x0A) :: nat) = 10" by simp_all
  with n show "c \<noteq> CHR '' ''" "c \<noteq> CHR 0x0A" by auto
qed

lemma trimmed_bytes_id:
  "s = [] \<or> \<not> is_ascii_space (hd s) \<and> \<not> is_ascii_space (last s) \<Longrightarrow> trimmed_bytes s = s"
proof -
  assume a: "s = [] \<or> \<not> is_ascii_space (hd s) \<and> \<not> is_ascii_space (last s)"
  have keep: "xs = [] \<or> \<not> is_ascii_space (hd xs) \<Longrightarrow> dropWhile is_ascii_space xs = xs" for xs
    by (cases xs) simp_all
  have "rev s = [] \<or> \<not> is_ascii_space (hd (rev s))" using a by (auto simp: hd_rev)
  with a show ?thesis by (auto simp: trimmed_bytes_def keep)
qed

lemma plain_trimmed: "plain_word s \<Longrightarrow> trimmed_bytes s = s"
  using plain_wordD(2) [of s "hd s"] plain_wordD(2) [of s "last s"] by (intro trimmed_bytes_id) (auto simp: plain_word_def)

lemma request_line_parsed:
  assumes "plain_word command" "plain_word url"
  shows "parse_request_line (command @ '' '' @ url @ '' HTTP/1.1'' @ CRLF) c =
    c\<lparr>hc_request := Some (wq_new\<lparr>wq_url := url, wq_command := command\<rparr>), hc_status := AwaitingHeaders\<rparr>"
proof -
  let ?l = "command @ '' '' @ url @ '' HTTP/1.1''"
  have ne: "command \<noteq> []" "url \<noteq> []" using assms by (simp_all add: plain_word_def)
  have "hd ?l = hd command" "last ?l = CHR ''1''" using ne by simp_all
  then have "\<not> is_space (hd ?l) \<and> \<not> is_space (last ?l)"
    using plain_wordD(1) [OF assms(1), of "hd command"] ne by (simp add: is_space_def)
  then have "trimmed ?l = ?l" by (intro trimmed_id) simp
  then have trim: "trimmed (command @ '' '' @ url @ '' HTTP/1.1'' @ CRLF) = join_with [CHR '' ''] [command, url, ''HTTP/1.1'']"
    using trimmed_crlf [of ?l] by simp
  have "\<forall>p \<in> set [command, url, ''HTTP/1.1'']. CHR '' '' \<notin> set p \<and> p \<noteq> []"
    using plain_wordD(3) [OF assms(1)] plain_wordD(3) [OF assms(2)] ne by auto
  from split_skip_join [OF this] show ?thesis unfolding parse_request_line_def trim Let_def by simp
qed

lemma header_parsed:
  assumes "plain_word key" "CHR '':'' \<notin> set key" "trimmed_bytes value = value"
    and "key = ''Content-Length'' \<Longrightarrow> snd (toInt value) \<Longrightarrow> number_text (fst (toInt value)) = value"
  shows "parse_header (header_line (key, value)) q c = c\<lparr>hc_request := Some (q\<lparr>wq_headers := (wq_headers q)(key \<mapsto> value)\<rparr>)\<rparr>"
proof -
  have key: "key \<noteq> []" "trimmed_bytes key = key" using assms(1) plain_trimmed by (auto simp: plain_word_def)
  have first: "\<not> is_ascii_space (hd (key @ s))" for s using plain_wordD(2) [OF assms(1), of "hd key"] key(1) by simp
  define raw where "raw = trimmed_bytes (key @ '': '' @ value @ CRLF)"
  have raw: "raw = key @ CHR '':'' # (if value = [] then [] else CHR '' '' # value)"
  proof (cases "value = []")
    case True
    have "raw = trimmed_bytes (key @ '': '')" using trimmed_bytes_crlf [of "key @ '': ''"] True by (simp add: raw_def)
    also have "\<dots> = key @ '':''"
    proof -
      have "dropWhile is_ascii_space (key @ '': '') = key @ '': ''" using first [of "'': ''"] key(1) by (cases key) simp_all
      then show ?thesis by (simp add: trimmed_bytes_def is_ascii_space_def)
    qed
    finally show ?thesis using True by simp
  next
    case False
    have lst: "\<not> is_ascii_space (last value)" using assms(3) False unfolding trimmed_bytes_def by (rule strip_last)
    have "trimmed_bytes (key @ '': '' @ value) = key @ '': '' @ value"
      using first [of "'': '' @ value"] lst False key(1) by (intro trimmed_bytes_id) simp
    then show ?thesis using trimmed_bytes_crlf [of "key @ '': '' @ value"] False by (simp add: raw_def)
  qed
  have p: "length (takeWhile (\<lambda>x. x \<noteq> CHR '':'') raw) = length key"
    using assms(2) by (auto simp: raw takeWhile_append)
  have value_trim: "trimmed_bytes (drop (length key + 1) raw) = value"
    using assms(3) by (cases "value = []") (simp_all add: raw trimmed_bytes_def is_ascii_space_def)
  have raw': "trimmed_bytes (header_line (key, value)) = raw" by (simp add: raw_def header_line_def)
  have "take (length key) raw = key" "raw \<noteq> []" "0 < length key" "length key < length raw" using key(1) by (simp_all add: raw)
  moreover have "trimmed_bytes ''Content-Length'' = ''Content-Length''" by code_simp
  ultimately show ?thesis
    using key assms(4) value_trim
    by (cases "toInt value") (auto simp: parse_header_def raw' p addHeader_def Let_def)
qed

lemma take_line_parts: "fst (take_line s) @ snd (take_line s) = s"
proof (cases "drop (length (takeWhile (\<lambda>c. c \<noteq> CHR 0x0A) s)) s")
  case Nil
  then show ?thesis
    using append_take_drop_id [of "length (takeWhile (\<lambda>c. c \<noteq> CHR 0x0A) s)" s]
    by (simp add: take_line_def Let_def takeWhile_eq_take [symmetric])
next
  case (Cons nl rest)
  then show ?thesis
    using takeWhile_dropWhile_id [of "\<lambda>c. c \<noteq> CHR 0x0A" s]
    by (simp add: take_line_def Let_def dropWhile_eq_drop [symmetric])
qed

lemma headers_received:
  assumes "list_all plain_header hs" "hc_status c = AwaitingHeaders" "hc_request c = Some q" "\<not> hc_closed c"
  shows "onClientDataReceived order fresh handler (concat (map header_line hs) @ rest) c w =
    onClientDataReceived order fresh handler rest (c\<lparr>hc_request := Some (q\<lparr>wq_headers := with_headers hs (wq_headers q)\<rparr>)\<rparr>) w"
  using assms
proof (induction hs arbitrary: c q)
  case Nil
  then have "c\<lparr>hc_request := Some (q\<lparr>wq_headers := with_headers [] (wq_headers q)\<rparr>)\<rparr> = c"
    by (cases c) (simp add: with_headers_def)
  then show ?case by simp
next
  case (Cons h hs)
  obtain k v where h: "h = (k, v)" by (cases h)
  have plain: "plain_word k" "CHR '':'' \<notin> set k" "k \<noteq> ''Content-Length''" "CHR 0x0A \<notin> set v" "trimmed_bytes v = v"
    using Cons.prems(1) by (simp_all add: h plain_header_def)
  have "CHR 0x0A \<notin> set (k @ '': '' @ v)" using plain plain_wordD(4) by auto
  from take_line_crlf [OF this]
  have line: "take_line (concat (map header_line (h # hs)) @ rest) = (header_line h, concat (map header_line hs) @ rest)"
    by (simp add: h header_line_def)
  have ne: "concat (map header_line (h # hs)) @ rest \<noteq> []" by (simp add: h header_line_def CRLF_def)
  let ?q = "q\<lparr>wq_headers := (wq_headers q)(k \<mapsto> v)\<rparr>"
  have "parse_line (header_line h) c = Inr (c\<lparr>hc_request := Some ?q\<rparr>)"
    using Cons.prems plain header_parsed [of k v q c] by (simp add: parse_line_def h)
  then have "onClientDataReceived order fresh handler (concat (map header_line (h # hs)) @ rest) c w =
      onClientDataReceived order fresh handler (concat (map header_line hs) @ rest) (c\<lparr>hc_request := Some ?q\<rparr>) w"
    using http_step [OF ne, of c] line Cons.prems by simp
  also have "\<dots> = onClientDataReceived order fresh handler rest
      (c\<lparr>hc_request := Some ?q\<rparr>\<lparr>hc_request := Some (?q\<lparr>wq_headers := with_headers hs (wq_headers ?q)\<rparr>)\<rparr>) w"
    using Cons.prems by (intro Cons.IH) simp_all
  finally show ?case by (simp add: with_headers_def h)
qed

lemma content_received:
  assumes "hc_status c = AwaitingContent" "hc_request c = Some q" "\<not> hc_closed c" "s \<noteq> []"
    and "int (length (wq_data q @ s)) = content_length q"
  shows "onClientDataReceived order fresh handler s c w =
    request_parsed order fresh handler (c\<lparr>hc_request := Some (q\<lparr>wq_data := wq_data q @ s\<rparr>), hc_status := RequestParsed\<rparr>) w"
  using assms
proof (induction "length s" arbitrary: s c q rule: less_induct)
  case less
  define line where "line = fst (take_line s)"
  define rest where "rest = snd (take_line s)"
  have s: "s = line @ rest" by (simp add: line_def rest_def take_line_parts)
  have shorter: "length rest < length s" using less.prems(4) by (simp add: rest_def take_line_shorter)
  let ?q = "q\<lparr>wq_data := wq_data q @ line\<rparr>" and ?c = "c\<lparr>hc_request := Some (q\<lparr>wq_data := wq_data q @ line\<rparr>)\<rparr>"
  have len: "content_length ?q = content_length q" by (simp add: content_length_def)
  have step: "onClientDataReceived order fresh handler s c w =
     res_bind (parse_line line c) (\<lambda>c.
       case hc_status c of
         RequestParsed \<Rightarrow> res_bind (request_parsed order fresh handler c w) (\<lambda>(c, w).
             onClientDataReceived order fresh handler rest c w)
       | ParsingError \<Rightarrow> Inr (bad_request order fresh c, w)
       | _ \<Rightarrow> onClientDataReceived order fresh handler rest c w)"
    unfolding line_def rest_def using less.prems by (intro http_step) simp_all
  have parse: "parse_line line c = Inr (if int (length (wq_data q @ line)) = content_length q
      then ?c\<lparr>hc_status := RequestParsed\<rparr> else ?c)"
    using less.prems(1,2) len by (simp add: parse_line_def parse_content_def Let_def)
  show ?case
  proof (cases "rest = []")
    case True
    then have "line = s" using s by simp
    moreover have "res_bind x (\<lambda>(c, w). onClientDataReceived order fresh handler [] c w) = x" for x
      by (cases x) (auto simp: http_stop)
    ultimately show ?thesis using step parse less.prems(5) True by simp
  next
    case False
    then have "length (wq_data q @ line) < length (wq_data q @ s)" using s by simp
    then have "int (length (wq_data q @ line)) \<noteq> content_length q" using less.prems(5) by linarith
    then have "onClientDataReceived order fresh handler s c w = onClientDataReceived order fresh handler rest ?c w"
      using step parse less.prems(1) by simp
    also have "\<dots> = request_parsed order fresh handler (?c\<lparr>hc_request := Some (?q\<lparr>wq_data := wq_data ?q @ rest\<rparr>),
        hc_status := RequestParsed\<rparr>) w"
      using less.prems s len by (intro less.hyps [OF shorter _ _ _ False]) simp_all
    finally show ?thesis by (simp add: s)
  qed
qed

text \<open>A line after which the parser waits for more.\<close>

lemma line_received:
  assumes "take_line (l @ s) = (l, s)" "l \<noteq> []" "\<not> hc_closed c" "parse_line l c = Inr c1"
    and "hc_status c1 \<noteq> RequestParsed" "hc_status c1 \<noteq> ParsingError"
  shows "onClientDataReceived order fresh handler (l @ s) c w = onClientDataReceived order fresh handler s c1 w"
  using assms http_step [of "l @ s" c order fresh handler w] by (cases "hc_status c1") simp_all

lemma with_headers_other: "\<forall>h \<in> set hs. fst h \<noteq> k \<Longrightarrow> with_headers hs m k = m k"
  by (induction hs arbitrary: m) (auto simp: with_headers_def)

lemma new_headers [simp]: "wq_headers wq_new ''Content-Length'' = Some ''0''"
proof -
  have "trimmed_bytes ''Content-Length'' = ''Content-Length''" "trimmed_bytes ''Connection'' = ''Connection''" by code_simp+
  then show ?thesis by (simp add: wq_new_def addHeader_def)
qed

text \<open>The blank line: the content is awaited, or there is none and the request is answered.\<close>

lemma blank_line:
  assumes "hc_status c = AwaitingHeaders" "hc_request c = Some q" "\<not> hc_closed c"
  shows "onClientDataReceived order fresh handler (CRLF @ s) c w =
    (if content_length q > 0 then onClientDataReceived order fresh handler s (c\<lparr>hc_status := AwaitingContent\<rparr>) w
     else res_bind (request_parsed order fresh handler (c\<lparr>hc_status := RequestParsed\<rparr>) w) (\<lambda>(c, w).
       onClientDataReceived order fresh handler s c w))"
proof -
  have "take_line (CRLF @ s) = (CRLF, s)" using take_line_crlf [of "[]" s] by simp
  moreover have "trimmed_bytes CRLF = []" by code_simp
  then have "parse_line CRLF c = Inr (c\<lparr>hc_status := (if content_length q > 0 then AwaitingContent else RequestParsed)\<rparr>)"
    using assms by (simp add: parse_line_def parse_header_def)
  moreover have "CRLF @ s \<noteq> []" by (simp add: CRLF_def)
  ultimately show ?thesis using assms http_step [of "CRLF @ s" c] by (cases "content_length q > 0") simp_all
qed

lemma number_text_of_nat: "number_text (int n) = decimal n"
  by (simp add: number_text_def)

text \<open>The announced length and the blank line.\<close>

definition with_length :: "nat \<Rightarrow> http_request \<Rightarrow> http_request" where
  "with_length n q = q\<lparr>wq_headers := (wq_headers q)(''Content-Length'' \<mapsto> decimal n)\<rparr>"

lemma content_length_with: "n < 2 ^ 31 \<Longrightarrow> content_length (with_length n q) = int n"
  by (simp add: content_length_def with_length_def getHeader_def toInt_digits)

lemma length_received:
  assumes "hc_status c = AwaitingHeaders" "hc_request c = Some q" "\<not> hc_closed c" "0 < n" "n < 2 ^ 31"
  shows "onClientDataReceived order fresh handler (header_line (''Content-Length'', decimal n) @ CRLF @ s) c w =
    onClientDataReceived order fresh handler s (c\<lparr>hc_request := Some (with_length n q), hc_status := AwaitingContent\<rparr>) w"
proof -
  let ?d = "decimal n" and ?key = "''Content-Length''"
  let ?c = "c\<lparr>hc_request := Some (with_length n q)\<rparr>"
  have plain: "plain_word ?key" "CHR '':'' \<notin> set ?key" by code_simp+
  have "trimmed_bytes ?d = ?d"
  proof (rule trimmed_bytes_id)
    have "is_digit c \<Longrightarrow> \<not> is_ascii_space c" for c by (auto simp: is_digit_def is_ascii_space_def Let_def)
    then show "?d = [] \<or> \<not> is_ascii_space (hd ?d) \<and> \<not> is_ascii_space (last ?d)"
      using decimal_plain by (metis hd_in_set last_in_set)
  qed
  then have "parse_header (header_line (?key, ?d)) q c = ?c"
    unfolding with_length_def using assms(5)
    by (intro header_parsed plain) (simp_all add: toInt_digits number_text_of_nat)
  then have parse: "parse_line (header_line (?key, ?d)) c = Inr ?c"
    using assms(1,2) by (simp add: parse_line_def)
  have "CHR 0x0A \<notin> set (?key @ '': '' @ ?d)" using decimal_no [of "CHR 0x0A"] by (simp add: is_digit_def)
  from take_line_crlf [OF this] have line: "take_line (header_line (?key, ?d) @ s) = (header_line (?key, ?d), s)" for s
    by (simp add: header_line_def)
  have "onClientDataReceived order fresh handler (header_line (?key, ?d) @ CRLF @ s) c w =
      onClientDataReceived order fresh handler (CRLF @ s) ?c w"
    by (rule line_received [OF line _ assms(3) parse]) (use assms(1) in \<open>simp_all add: header_line_def\<close>)
  moreover have "onClientDataReceived order fresh handler (CRLF @ s) ?c w =
      onClientDataReceived order fresh handler s (?c\<lparr>hc_status := AwaitingContent\<rparr>) w"
    using blank_line [of ?c "with_length n q" order fresh handler s w] assms content_length_with [OF assms(5), of q] by simp
  ultimately show ?thesis by simp
qed

text \<open>The part of a request after its own headers, with or without content.\<close>

lemma tail_received:
  assumes "hc_status c = AwaitingHeaders" "hc_request c = Some q" "\<not> hc_closed c"
    and "wq_data q = []" "wq_headers q ''Content-Length'' = Some ''0''" "length body < 2 ^ 31"
  shows "onClientDataReceived order fresh handler
      ((if body \<noteq> [] then header_line (''Content-Length'', decimal (length body)) else []) @ CRLF @ body) c w =
    request_parsed order fresh handler
      (c\<lparr>hc_request := Some (with_length (length body) q\<lparr>wq_data := body\<rparr>), hc_status := RequestParsed\<rparr>) w"
proof (cases "body = []")
  case True
  have zero: "decimal 0 = ''0''" by code_simp
  have "toInt ''0'' = (0, True)" by code_simp
  then have "\<not> content_length q > 0" using assms(5) by (simp add: content_length_def getHeader_def)
  moreover have "with_length 0 q\<lparr>wq_data := []\<rparr> = q"
    using assms(4,5) zero by (cases q) (auto simp: with_length_def fun_upd_idem_iff)
  then have "c\<lparr>hc_request := Some (with_length 0 q\<lparr>wq_data := []\<rparr>), hc_status := RequestParsed\<rparr> = c\<lparr>hc_status := RequestParsed\<rparr>"
    using assms(2) by (cases c) simp
  moreover have "res_bind x (\<lambda>(c, w). onClientDataReceived order fresh handler [] c w) = x" for x
    by (cases x) (auto simp: http_stop)
  ultimately show ?thesis using blank_line [OF assms(1-3), of order fresh handler "[]" w] True by simp
next
  case False
  let ?q = "with_length (length body) q"
  let ?c = "c\<lparr>hc_request := Some ?q, hc_status := AwaitingContent\<rparr>"
  have q: "wq_data ?q = []" using assms(4) by (simp add: with_length_def)
  have "onClientDataReceived order fresh handler body ?c w =
      request_parsed order fresh handler (?c\<lparr>hc_request := Some (?q\<lparr>wq_data := wq_data ?q @ body\<rparr>), hc_status := RequestParsed\<rparr>) w"
    using assms(3,6) False q by (intro content_received) (simp_all add: content_length_with)
  then show ?thesis using False q assms(6) length_received [OF assms(1-3), of "length body" order fresh handler body w] by simp
qed

text \<open>The request line and the headers.\<close>

definition request_head :: "string \<Rightarrow> string \<Rightarrow> (string \<times> string) list \<Rightarrow> string" where
  "request_head command url hs = command @ '' '' @ url @ '' HTTP/1.1'' @ CRLF @ concat (map header_line hs)"

definition begun_request :: "string \<Rightarrow> string \<Rightarrow> (string \<times> string) list \<Rightarrow> http_request" where
  "begun_request command url hs = wq_new\<lparr>wq_url := url, wq_command := command, wq_headers := with_headers hs (wq_headers wq_new)\<rparr>"

lemma head_received:
  assumes "plain_word command" "plain_word url" "list_all plain_header hs"
    and "hc_status c = AwaitingRequest" "\<not> hc_closed c"
  shows "onClientDataReceived order fresh handler (request_head command url hs @ rest) c w =
    onClientDataReceived order fresh handler rest
      (c\<lparr>hc_request := Some (begun_request command url hs), hc_status := AwaitingHeaders\<rparr>) w"
proof -
  let ?line = "command @ '' '' @ url @ '' HTTP/1.1'' @ CRLF"
  let ?q = "wq_new\<lparr>wq_url := url, wq_command := command\<rparr>"
  let ?c = "c\<lparr>hc_request := Some ?q, hc_status := AwaitingHeaders\<rparr>"
  have "CHR 0x0A \<notin> set (command @ '' '' @ url @ '' HTTP/1.1'')" using plain_wordD(4) assms(1,2) by auto
  from take_line_crlf [OF this] have line: "take_line (?line @ s) = (?line, s)" for s by simp
  have parse: "parse_line ?line c = Inr ?c" using assms(4) request_line_parsed [OF assms(1,2), of c] by (simp add: parse_line_def)
  have whole: "request_head command url hs @ rest = ?line @ concat (map header_line hs) @ rest" by (simp add: request_head_def)
  have "onClientDataReceived order fresh handler (request_head command url hs @ rest) c w =
      onClientDataReceived order fresh handler (concat (map header_line hs) @ rest) ?c w"
    unfolding whole by (rule line_received [OF line _ assms(5) parse]) simp_all
  also have "\<dots> = onClientDataReceived order fresh handler rest
      (?c\<lparr>hc_request := Some (?q\<lparr>wq_headers := with_headers hs (wq_headers ?q)\<rparr>)\<rparr>) w"
    using assms(3,5) by (intro headers_received) simp_all
  finally show ?thesis by (cases c) (simp add: begun_request_def)
qed

lemma request_delivered:
  assumes "plain_word command" "plain_word url" "list_all plain_header hs" "length body < 2 ^ 31"
    and "hc_status c = AwaitingRequest" "\<not> hc_closed c"
  shows "onClientDataReceived order fresh handler (http_text command url hs body) c w =
    res_bind (handler (parsed_request command url hs body) fresh w) (\<lambda>(r, w).
      Inr (sendReplyToClient order r (c\<lparr>hc_status := RequestParsed, hc_request := Some (parsed_request command url hs body)\<rparr>), w))"
proof -
  let ?tail = "(if body \<noteq> [] then header_line (''Content-Length'', decimal (length body)) else []) @ CRLF @ body"
  let ?q = "begun_request command url hs"
  let ?c = "c\<lparr>hc_request := Some ?q, hc_status := AwaitingHeaders\<rparr>"
  have "http_text command url hs body = request_head command url hs @ ?tail" by (simp add: http_text_def request_head_def)
  then have "onClientDataReceived order fresh handler (http_text command url hs body) c w =
      onClientDataReceived order fresh handler ?tail ?c w"
    using head_received [OF assms(1-3,5,6), of order fresh handler ?tail w] by (simp only:)
  also have "\<dots> = request_parsed order fresh handler
      (?c\<lparr>hc_request := Some (with_length (length body) ?q\<lparr>wq_data := body\<rparr>), hc_status := RequestParsed\<rparr>) w"
  proof (rule tail_received)
    have "\<forall>h \<in> set hs. fst h \<noteq> ''Content-Length''" using assms(3) by (auto simp: list_all_iff plain_header_def)
    then show "wq_headers ?q ''Content-Length'' = Some ''0''" by (simp add: with_headers_other begun_request_def)
  qed (use assms(4,6) in \<open>simp_all add: wq_new_def begun_request_def\<close>)
  finally show ?thesis by (simp add: request_parsed_def parsed_request_def begun_request_def with_length_def Let_def)
qed

text \<open>
  C19.  A request that arrives in one piece is parsed exactly: the handler is called once, with the
  command, the url, the headers (the last of a name counts), the content and, for POST, the fields
  of the form, and its reply is what is sent back.
\<close>

theorem http_request_delivered:
  assumes "plain_word command" "plain_word url" "list_all plain_header hs" "length body < 2 ^ 31"
    and "hc_status c = AwaitingRequest" "\<not> hc_closed c"
  shows "onClientDataReceived order fresh handler (http_text command url hs body) c w =
    res_bind (handler (parsed_request command url hs body) fresh w) (\<lambda>(r, w).
      Inr (sendReplyToClient order r (c\<lparr>hc_status := RequestParsed, hc_request := Some (parsed_request command url hs body)\<rparr>), w))"
  using request_delivered [OF assms] .

theorem http_request_delivered_witness:
  "onClientDataReceived (\<lambda>hs. []) (wr_new [] []) (\<lambda>q r w. Inr (r, q # w))
     (http_text ''POST'' ''/cgi/cfg_set'' [(''Host'', ''a b'')] ''cfg=%7B'') hc_new [] =
   Inr (sendReplyToClient (\<lambda>hs. []) (wr_new [] [])
          (hc_new\<lparr>hc_status := RequestParsed,
             hc_request := Some (parsed_request ''POST'' ''/cgi/cfg_set'' [(''Host'', ''a b'')] ''cfg=%7B'')\<rparr>),
        [parsed_request ''POST'' ''/cgi/cfg_set'' [(''Host'', ''a b'')] ''cfg=%7B''])"
proof -
  have "plain_word ''POST''" "plain_word ''/cgi/cfg_set''" "list_all plain_header [(''Host'', ''a b'')]" by code_simp+
  then show ?thesis by (subst http_request_delivered) (simp_all add: hc_new_def)
qed

lemma overrun_stays:
  assumes "hc_status c = AwaitingContent" "hc_request c = Some q" "content_length q < int (length (wq_data q))"
  shows "\<exists>c' q'. onClientDataReceived order fresh handler s c w = Inr (c', w) \<and> hc_out c' = hc_out c \<and>
    hc_status c' = AwaitingContent \<and> hc_request c' = Some q' \<and> content_length q' < int (length (wq_data q'))"
  using assms
proof (induction "length s" arbitrary: s c q rule: less_induct)
  case less
  show ?case
  proof (cases "s = [] \<or> hc_closed c")
    case True
    then show ?thesis using less.prems by (auto simp: http_stop)
  next
    case False
    let ?line = "fst (take_line s)" and ?rest = "snd (take_line s)"
    let ?q = "q\<lparr>wq_data := wq_data q @ ?line\<rparr>"
    have over: "content_length ?q < int (length (wq_data ?q))" using less.prems(3) by (simp add: content_length_def)
    then have "parse_line ?line c = Inr (c\<lparr>hc_request := Some ?q\<rparr>)"
      using less.prems by (simp add: parse_line_def parse_content_def content_length_def)
    then have "onClientDataReceived order fresh handler s c w = onClientDataReceived order fresh handler ?rest (c\<lparr>hc_request := Some ?q\<rparr>) w"
      using False less.prems(1) http_step [of s c order fresh handler w] by simp
    moreover have "length ?rest < length s" using False by (simp add: take_line_shorter)
    from less.hyps [OF this, of "c\<lparr>hc_request := Some ?q\<rparr>" ?q] less.prems(1) over
    have "\<exists>c' q'. onClientDataReceived order fresh handler ?rest (c\<lparr>hc_request := Some ?q\<rparr>) w = Inr (c', w) \<and> hc_out c' = hc_out c \<and>
      hc_status c' = AwaitingContent \<and> hc_request c' = Some q' \<and> content_length q' < int (length (wq_data q'))" by simp
    ultimately show ?thesis by simp
  qed
qed

lemma overrun_session:
  assumes "hc_status c = AwaitingContent" "hc_request c = Some q" "content_length q < int (length (wq_data q))"
  shows "\<exists>c'. http_session order fresh handler ss c w = Inr (c', w) \<and> hc_out c' = hc_out c \<and> hc_status c' = AwaitingContent"
  using assms
proof (induction ss arbitrary: c q)
  case (Cons s ss)
  from overrun_stays [OF Cons.prems, of order fresh handler s w] obtain c1 q1 where
    c1: "onClientDataReceived order fresh handler s c w = Inr (c1, w)" "hc_out c1 = hc_out c" and
    st: "hc_status c1 = AwaitingContent" "hc_request c1 = Some q1" "content_length q1 < int (length (wq_data q1))" by metis
  with Cons.IH [OF st] show ?case by simp
qed simp

text \<open>
  Content with a line longer than what is announced is never answered: the size is only
  compared for equality, so the connection waits for ever and swallows whatever comes later.
\<close>

theorem http_body_overrun:
  assumes "plain_word command" "plain_word url" "list_all plain_header hs" "0 < n" "n < 2 ^ 31"
    and "CHR 0x0A \<notin> set l" "n < length l" "hc_status c = AwaitingRequest" "\<not> hc_closed c"
  shows "\<exists>c'. http_session order fresh handler
      ((request_head command url hs @ header_line (''Content-Length'', decimal n) @ CRLF @ l) # later) c w = Inr (c', w) \<and>
    hc_out c' = hc_out c \<and> hc_status c' = AwaitingContent"
proof -
  let ?q = "with_length n (begun_request command url hs)"
  let ?c = "c\<lparr>hc_request := Some ?q, hc_status := AwaitingContent\<rparr>"
  let ?c1 = "?c\<lparr>hc_request := Some (?q\<lparr>wq_data := l\<rparr>)\<rparr>"
  have "onClientDataReceived order fresh handler
      (request_head command url hs @ header_line (''Content-Length'', decimal n) @ CRLF @ l) c w =
      onClientDataReceived order fresh handler l ?c w"
    unfolding head_received [OF assms(1-3,8,9)] by (subst length_received) (use assms(4,5,9) in simp_all)
  also have "\<dots> = onClientDataReceived order fresh handler (l @ []) ?c w" by simp
  also have "\<dots> = onClientDataReceived order fresh handler [] ?c1 w"
  proof (rule line_received)
    show "take_line (l @ []) = (l, [])" using assms(6) by (simp add: take_line_all)
    have "wq_data ?q = []" by (simp add: with_length_def begun_request_def wq_new_def)
    moreover have "content_length (?q\<lparr>wq_data := l\<rparr>) = int n"
      using content_length_with [OF assms(5)] by (simp add: content_length_def)
    ultimately show "parse_line l ?c = Inr ?c1" using assms(7) by (simp add: parse_line_def parse_content_def Let_def)
  qed (use assms(7,9) in auto)
  finally have first: "onClientDataReceived order fresh handler
      (request_head command url hs @ header_line (''Content-Length'', decimal n) @ CRLF @ l) c w = Inr (?c1, w)"
    by (simp add: http_stop)
  have "content_length (?q\<lparr>wq_data := l\<rparr>) < int (length l)"
    using content_length_with [OF assms(5)] assms(7) by (simp add: content_length_def)
  then have "\<exists>c'. http_session order fresh handler later ?c1 w = Inr (c', w) \<and> hc_out c' = hc_out ?c1 \<and> hc_status c' = AwaitingContent"
    by (intro overrun_session [of ?c1 "?q\<lparr>wq_data := l\<rparr>"]) simp_all
  then show ?thesis using first by simp
qed

theorem http_body_overrun_witness:
  "\<exists>c'. http_session (\<lambda>hs. []) (wr_new [] []) (\<lambda>q r w. Inr (r, q # w))
      [request_head ''POST'' ''/'' [] @ header_line (''Content-Length'', decimal 2) @ CRLF @ ''cfg'',
       request_head ''GET'' ''/'' [] @ CRLF] hc_new [] = Inr (c', []) \<and> hc_out c' = [] \<and> hc_status c' = AwaitingContent"
proof -
  have "plain_word ''POST''" "plain_word ''/''" by code_simp+
  from http_body_overrun [OF this, of "[]" 2 "''cfg''" hc_new]
  show ?thesis by (simp add: hc_new_def)
qed

lemma words_trimmed:
  assumes "ws \<noteq> []" "\<forall>p \<in> set ws. plain_word p" "list_all is_space t"
  shows "split_skip (CHR '' '') (trimmed (join_with [CHR '' ''] ws @ t)) = ws"
proof -
  have ne: "p \<noteq> []" "CHR '' '' \<notin> set p" if "p \<in> set ws" for p
    using assms(2) that plain_wordD(3) by (auto simp: plain_word_def)
  have ends: "join_with [CHR '' ''] ws \<noteq> [] \<and> hd (join_with [CHR '' ''] ws) \<in> set (hd ws) \<and>
      last (join_with [CHR '' ''] ws) \<in> set (last ws)"
    using assms(1) ne(1)
  proof (induction ws rule: induct_list012)
    case (3 x y zs)
    then show ?case by auto
  qed auto
  then have "\<not> is_space (hd (join_with [CHR '' ''] ws)) \<and> \<not> is_space (last (join_with [CHR '' ''] ws))"
    using plain_wordD(1) assms(1,2) by (meson hd_in_set last_in_set)
  then have "trimmed (join_with [CHR '' ''] ws) = join_with [CHR '' ''] ws" by (intro trimmed_id) simp
  then have "trimmed (join_with [CHR '' ''] ws @ t) = join_with [CHR '' ''] ws"
    using strip_suffix [OF assms(3)] by (simp add: trimmed_def)
  then show ?thesis using split_skip_join [of ws "CHR '' ''"] ne by simp
qed

text \<open>A proper beginning of a request line never counts as one.\<close>

lemma cut_line:
  assumes "plain_word command" "plain_word url" "0 < k" "k < length (command @ '' '' @ url @ '' HTTP/1.1'')"
  shows "\<not> (length (split_skip (CHR '' '') (trimmed (take k (command @ '' '' @ url @ '' HTTP/1.1'')))) = 3 \<and>
    split_skip (CHR '' '') (trimmed (take k (command @ '' '' @ url @ '' HTTP/1.1''))) ! 2 = ''HTTP/1.1'')"
proof -
  let ?line = "command @ '' '' @ url @ '' HTTP/1.1''"
  have part: "plain_word (take i w)" if "plain_word w" "0 < i" for i w
    using that by (auto simp: plain_word_def list_all_iff dest: in_set_takeD)
  have v: "plain_word ''HTTP/1.1''" by code_simp
  have sp: "list_all is_space '' ''" "list_all is_space []" by (simp_all add: is_space_def)
  note words = words_trimmed [of "[x]" "[]" for x] words_trimmed [of "[command]" "'' ''"]
    words_trimmed [of "[command, x]" "[]" for x] words_trimmed [of "[command, url]" "'' ''"]
    words_trimmed [of "[command, url, x]" "[]" for x]
  consider "k \<le> length command" | "k = length command + 1" | i where "0 < i" "i \<le> length url" "k = length command + 1 + i"
    | "k = length command + length url + 2" | i where "0 < i" "i < 8" "k = length command + length url + 2 + i"
  proof -
    have "k \<le> length command \<or> k = length command + 1 \<or> (0 < k - (length command + 1) \<and> k - (length command + 1) \<le> length url \<and>
        k = length command + 1 + (k - (length command + 1))) \<or> k = length command + length url + 2 \<or>
        (0 < k - (length command + length url + 2) \<and> k - (length command + length url + 2) < 8 \<and>
        k = length command + length url + 2 + (k - (length command + length url + 2)))"
      using assms(4) by auto
    then show ?thesis using that by blast
  qed
  then show ?thesis
  proof cases
    case 1
    then have "take k ?line = join_with [CHR '' ''] [take k command] @ []" by simp
    then show ?thesis using words(1) [OF _ _ sp(2), of "take k command"] part [OF assms(1,3)] by simp
  next
    case 2
    then have "take k ?line = join_with [CHR '' ''] [command] @ '' ''" by simp
    then show ?thesis using words(2) [OF _ _ sp(1)] assms(1) by simp
  next
    case 3
    then have "take k ?line = join_with [CHR '' ''] [command, take i url] @ []" by (simp add: Suc_le_eq)
    then show ?thesis using words(3) [OF _ _ sp(2), of "take i url"] assms(1) part [OF assms(2), of i] 3 by simp
  next
    case 4
    then have "take k ?line = join_with [CHR '' ''] [command, url] @ '' ''" by simp
    then show ?thesis using words(4) [OF _ _ sp(1)] assms(1,2) by simp
  next
    case 5
    then have "take k ?line = join_with [CHR '' ''] [command, url, take i ''HTTP/1.1''] @ []" by simp
    moreover have "length (take i ''HTTP/1.1'') \<noteq> length ''HTTP/1.1''" using 5 by simp
    then have "take i ''HTTP/1.1'' \<noteq> ''HTTP/1.1''" by metis
    ultimately show ?thesis using words(5) [OF _ _ sp(2), of "take i ''HTTP/1.1''"] assms(1,2) part [OF v 5(1)] by simp
  qed
qed

text \<open>
  A request line that arrives in two pieces is not put together again: whatever its first
  piece, it is taken for a line of its own and answered with 400.
\<close>

theorem http_cut_request:
  assumes "plain_word command" "plain_word url" "0 < k" "k < length (command @ '' '' @ url @ '' HTTP/1.1'')"
    and "hc_status c = AwaitingRequest" "\<not> hc_closed c"
  shows "onClientDataReceived order fresh handler (take k (command @ '' '' @ url @ '' HTTP/1.1'')) c w =
    Inr (bad_request order fresh (c\<lparr>hc_status := ParsingError\<rparr>), w)"
proof -
  let ?piece = "take k (command @ '' '' @ url @ '' HTTP/1.1'')"
  have "CHR 0x0A \<notin> set (command @ '' '' @ url @ '' HTTP/1.1'')" using plain_wordD(4) assms(1,2) by auto
  then have line: "take_line ?piece = (?piece, [])" by (intro take_line_all) (blast dest: in_set_takeD)
  have "parse_line ?piece c = Inr (c\<lparr>hc_status := ParsingError\<rparr>)"
    using assms(5) cut_line [OF assms(1-4)] unfolding parse_line_def parse_request_line_def Let_def by (simp only: if_False parsing_status.case)
  moreover have "?piece \<noteq> []" using assms(3,4) by (simp add: plain_word_def)
  ultimately show ?thesis using assms(6) line http_step [of ?piece c order fresh handler w] by (simp only: fst_conv) simp
qed

theorem http_cut_request_witness:
  "onClientDataReceived (\<lambda>hs. []) (wr_new [] []) (\<lambda>q r w. Inr (r, q # w)) ''GET /index.ht'' hc_new [] =
     Inr (bad_request (\<lambda>hs. []) (wr_new [] []) (hc_new\<lparr>hc_status := ParsingError\<rparr>), [])"
proof -
  have "plain_word ''GET''" "plain_word ''/index.html''" by code_simp+
  from http_cut_request [OF this, of 13 hc_new] show ?thesis by (simp add: hc_new_def)
qed

end
