(* ===== verification/WebServer.thy ===== *)
theory WebServer
  imports Http Json
begin

text \<open>
  What the web server answers (\<open>libsrc/webconfig/StaticFileServing.cpp\<close>, \<open>CgiHandler.cpp\<close>,
  \<open>WebConfig.cpp\<close>, \<open>writeJson\<close> of \<open>QJsonFactory.h\<close>): files below the document root and the commands
  under \<open>/cgi\<close>.  Files are a map from names to contents, scripts that were run are remembered; the path
  of an URL, the test for directories, the MIME type, the output of a script and the conversion of JSON
  texts are functions of the system.  An integer the code throws is a value \<open>Some e\<close>.
\<close>

section \<open>The system\<close>

text \<open>A directory counts as a file that cannot be read.\<close>

datatype disk_file = Readable string | Unreadable

record web_os =
  os_path :: "string \<Rightarrow> string"
  os_isDir :: "string \<Rightarrow> bool"
  os_writable :: "string \<Rightarrow> bool"
  os_mime :: "string \<Rightarrow> string"
  os_run :: "string \<Rightarrow> string"
  os_fromJson :: "string \<Rightarrow> string + json"
  os_toJson :: "(string \<times> json) list \<Rightarrow> string"

record web_site =
  ws_baseUrl :: string
  ws_config :: "(string \<times> json) list"
  ws_configFile :: string

record web_world =
  ww_files :: "string \<Rightarrow> disk_file option"
  ww_ran :: "string list"

definition writeJson :: "web_os \<Rightarrow> string \<Rightarrow> (string \<times> json) list \<Rightarrow> web_world \<Rightarrow> web_world" where
  "writeJson os name obj w =
     (if os_writable os name then w\<lparr>ww_files := (ww_files w)(name \<mapsto> Readable (os_toJson os obj))\<rparr> else w)"

section \<open>Commands\<close>

type_synonym cgi_state = "http_reply \<times> web_world"
type_synonym cgi_result = "(int option \<times> cgi_state) res"

text \<open>\<open>at(0)\<close> of an empty list is undefined.\<close>

definition cgi_arg :: "string list \<Rightarrow> string res" where
  "cgi_arg args = (case args of [] \<Rightarrow> Inl Undefined | a # _ \<Rightarrow> Inr a)"

definition cgi_then :: "cgi_result \<Rightarrow> (cgi_state \<Rightarrow> cgi_result) \<Rightarrow> cgi_result" where
  "cgi_then m f = res_bind m (\<lambda>(e, s). case e of Some _ \<Rightarrow> Inr (e, s) | None \<Rightarrow> f s)"

definition json_port :: "web_site \<Rightarrow> nat" where
  "json_port site =
     (if json_contains (ws_config site) ''jsonServer''
      then nat (json_int 19444 (json_lookup (json_object (json_lookup (ws_config site) ''jsonServer'')) ''port'') mod 2 ^ 16)
      else 19444)"

definition cmd_cfg_jsonserver :: "web_site \<Rightarrow> string list \<Rightarrow> cgi_state \<Rightarrow> cgi_result" where
  "cmd_cfg_jsonserver site args s =
     res_bind (cgi_arg args) (\<lambda>a.
       if a = ''cfg_jsonserver''
       then Inr (Some 0, (wr_append ('':'' @ decimal (json_port site)) (wr_header ''Content-Type'' ''text/plain'' (fst s)), snd s))
       else Inr (None, s))"

definition cmd_cfg_get :: "web_site \<Rightarrow> string list \<Rightarrow> cgi_state \<Rightarrow> cgi_result" where
  "cmd_cfg_get site args s =
     res_bind (cgi_arg args) (\<lambda>a.
       if a = ''cfg_get''
       then Inr (Some 0,
         (case ww_files (snd s) (ws_configFile site) of
            Some (Readable data) \<Rightarrow> (wr_append data (wr_header ''Content-Type'' ''text/plain'' (fst s)), snd s)
          | _ \<Rightarrow> s))
       else Inr (None, s))"

definition cmd_cfg_set :: "web_os \<Rightarrow> web_site \<Rightarrow> string list \<Rightarrow> http_request \<Rightarrow> cgi_state \<Rightarrow> cgi_result" where
  "cmd_cfg_set os site args q s =
     (let r = wr_header ''Content-Type'' ''text/plain'' (fst s); w = snd s
      in res_bind (cgi_arg args) (\<lambda>a.
        if a = ''cfg_set''
        then Inr (Some 0,
          (case wq_postData q ''cfg'' of
             Some cfg \<Rightarrow>
               (case os_fromJson os (from_percent cfg) of
                  Inr doc \<Rightarrow> (r, writeJson os (ws_configFile site) (json_object doc) w)
                | Inl err \<Rightarrow> (wr_append (''Error while validating json: '' @ err) r, w))
           | None \<Rightarrow> (r, w)))
        else Inr (None, (r, w))))"

definition contains_text :: "string \<Rightarrow> string \<Rightarrow> bool" where
  "contains_text s t \<longleftrightarrow> (\<exists>i \<in> set [0..<Suc (length s)]. take (length t) (drop i s) = t)"

definition ends_with :: "string \<Rightarrow> string \<Rightarrow> bool" where
  "ends_with s t \<longleftrightarrow> length t \<le> length s \<and> drop (length s - length t) s = t"

definition cmd_runscript :: "web_os \<Rightarrow> web_site \<Rightarrow> string list \<Rightarrow> cgi_state \<Rightarrow> cgi_result" where
  "cmd_runscript os site args s =
     res_bind (cgi_arg args) (\<lambda>a.
       if a = ''run''
       then (let script = join_with ''/'' (tl args)
             in if contains_text script ''..'' then Inr (Some 1, s)
                else (let script = ws_baseUrl site @ ''/server_scripts/'' @ script
                      in if ww_files (snd s) script \<noteq> None \<and> ends_with script ''.py''
                         then (let cmd = ''python '' @ script
                               in Inr (Some 0, (wr_append (os_run os cmd) (wr_header ''Content-Type'' ''text/plain'' (fst s)),
                                                (snd s)\<lparr>ww_ran := ww_ran (snd s) @ [cmd]\<rparr>)))
                         else Inr (Some 1, s)))
       else Inr (None, s))"

text \<open>\<open>exec\<close>: the commands one after the other until one throws; true when it returns without an exception.\<close>

definition cgi_exec :: "web_os \<Rightarrow> web_site \<Rightarrow> string list \<Rightarrow> http_request \<Rightarrow> cgi_state \<Rightarrow> (bool \<times> cgi_state) res" where
  "cgi_exec os site args q s =
     res_bind
       (cgi_then (cgi_then (cgi_then (cgi_then (cmd_cfg_jsonserver site args s)
          (cmd_cfg_get site args)) (cmd_cfg_set os site args q)) (cmd_runscript os site args))
          (\<lambda>s. Inr (Some 1, s)))
       (\<lambda>(e, s). Inr (e = Some 0, s))"

section \<open>Files\<close>

fun replace_text :: "string \<Rightarrow> string \<Rightarrow> string \<Rightarrow> string" where
  "replace_text before after [] = []"
| "replace_text before after (c # s) =
     (if before \<noteq> [] \<and> take (length before) (c # s) = before
      then after @ replace_text before after (drop (length before - 1) s)
      else c # replace_text before after s)"

definition add_page :: "string \<Rightarrow> (string \<Rightarrow> string) \<Rightarrow> string \<Rightarrow> web_world \<Rightarrow> http_reply \<Rightarrow> http_reply" where
  "add_page name f alt w r =
     (case ww_files w name of Some (Readable data) \<Rightarrow> wr_append (f data) r | _ \<Rightarrow> wr_append alt r)"

definition printErrorToReply :: "web_site \<Rightarrow> nat \<Rightarrow> string \<Rightarrow> web_world \<Rightarrow> http_reply \<Rightarrow> http_reply" where
  "printErrorToReply site code msg w r =
     (let r = wr_header ''Content-Type'' ''text/html'' (r\<lparr>wr_statusCode := code\<rparr>);
          r = add_page (ws_baseUrl site @ ''/errorpages/header.html'') id [] w r;
          r = add_page (ws_baseUrl site @ ''/errorpages/'' @ decimal code @ ''.html'') (replace_text ''{MESSAGE}'' msg)
                (decimal code @ '' - '' @ msg) w r
      in add_page (ws_baseUrl site @ ''/errorpages/footer.html'') id [] w r)"

definition index_path :: "web_os \<Rightarrow> web_site \<Rightarrow> string \<Rightarrow> string" where
  "index_path os site path =
     (let dir = os_isDir os (ws_baseUrl site @ ''/'' @ path)
      in if path = ''/'' \<or> path = [] then ''index.html''
         else if dir \<and> ends_with path ''/'' then path @ ''index.html''
         else if dir \<and> \<not> ends_with path ''/'' then path @ ''/index.html''
         else path)"

definition serve_file :: "web_os \<Rightarrow> web_site \<Rightarrow> string \<Rightarrow> web_world \<Rightarrow> http_reply \<Rightarrow> http_reply" where
  "serve_file os site path w r =
     (let path = index_path os site path; name = ws_baseUrl site @ ''/'' @ path
      in case ww_files w name of
           Some (Readable data) \<Rightarrow> wr_append data (wr_header ''Content-Type'' (os_mime os name) r)
         | Some Unreadable \<Rightarrow> printErrorToReply site 403 (''Requested file: '' @ path) w r
         | None \<Rightarrow> printErrorToReply site 404 (''Requested file: '' @ path) w r)"

definition onRequestNeedsReply :: "web_os \<Rightarrow> web_site \<Rightarrow> web_world http_handler" where
  "onRequestNeedsReply os site q r w =
     (if wq_command q = ''GET'' \<or> wq_command q = ''POST''
      then (let path = os_path os (wq_url q); uri_parts = split_skip (CHR ''/'') path
            in if uri_parts \<noteq> [] \<and> uri_parts ! 0 = ''cgi''
               then res_bind (cgi_exec os site (tl uri_parts) q (r, w)) (\<lambda>(ok, (r, w)).
                 Inr (if ok then (r, w) else (printErrorToReply site 500 (''script failed ('' @ path @ '')'') w r, w)))
               else Inr (serve_file os site path w r, w))
      else Inr (printErrorToReply site 405 (''Unhandled HTTP/1.1 method '' @ wq_command q) w r, w))"

section \<open>The configuration of the server\<close>

record web_config =
  wc_baseUrl :: string
  wc_port :: nat
  wc_server :: bool

definition wc_start :: "web_config \<Rightarrow> web_config" where
  "wc_start c = (if \<not> wc_server c then c\<lparr>wc_server := True\<rparr> else c)"

definition wc_stop :: "web_config \<Rightarrow> web_config" where
  "wc_stop c = (if wc_server c then c\<lparr>wc_server := False\<rparr> else c)"

definition wc_new :: "web_os \<Rightarrow> (string \<times> json) list \<Rightarrow> web_config" where
  "wc_new os config =
     (let c = \<lparr>wc_baseUrl = '':/webconfig'', wc_port = 8099, wc_server = False\<rparr>;
          (enable, c) =
            (if json_contains config ''webConfig''
             then (let web = json_object (json_lookup config ''webConfig'')
                   in (json_bool True (json_lookup web ''enable''),
                       c\<lparr>wc_port := nat (json_int (int (wc_port c)) (json_lookup web ''port'') mod 2 ^ 16),
                         wc_baseUrl := json_string (wc_baseUrl c) (json_lookup web ''document_root'')\<rparr>))
             else (True, c));
          c = (if wc_baseUrl c \<noteq> '':/webconfig'' \<and> trimmed (wc_baseUrl c) \<noteq> []
               then (if \<not> os_isDir os (wc_baseUrl c) then c\<lparr>wc_baseUrl := '':/webconfig''\<rparr> else c)
               else c\<lparr>wc_baseUrl := '':/webconfig''\<rparr>)
      in if enable then wc_start c else c)"

section \<open>Requests that fail\<close>

lemma cgi_exec_result:
  "cgi_exec os site [] q s = Inl Undefined"
  "args \<noteq> [] \<Longrightarrow> \<exists>ok s'. cgi_exec os site args q s = Inr (ok, s')"
proof -
  show "cgi_exec os site [] q s = Inl Undefined"
    by (simp add: cgi_exec_def cgi_then_def cmd_cfg_jsonserver_def cgi_arg_def)
  assume "args \<noteq> []"
  then obtain a as where args: "args = a # as" by (cases args) auto
  have total: "\<exists>e s'. cgi_then m f = Inr (e, s')" if "\<exists>e s'. m = Inr (e, s')" "\<And>s. \<exists>e s'. f s = Inr (e, s')" for m f
    using that by (fastforce simp: cgi_then_def split: option.split)
  have "\<exists>e s'. cmd_cfg_jsonserver site args s = Inr (e, s')" "\<exists>e s'. cmd_cfg_get site args s = Inr (e, s')"
    "\<exists>e s'. cmd_cfg_set os site args q s = Inr (e, s')" "\<exists>e s'. cmd_runscript os site args s = Inr (e, s')" for s
    by (simp_all add: args cgi_arg_def cmd_cfg_jsonserver_def cmd_cfg_get_def cmd_cfg_set_def cmd_runscript_def Let_def)
  note each = this
  have "\<exists>e s'. cgi_then (cgi_then (cgi_then (cgi_then (cmd_cfg_jsonserver site args s)
      (cmd_cfg_get site args)) (cmd_cfg_set os site args q)) (cmd_runscript os site args)) (\<lambda>s. Inr (Some 1, s)) = Inr (e, s')"
    by (intro total each) simp
  then show "\<exists>ok s'. cgi_exec os site args q s = Inr (ok, s')" by (auto simp: cgi_exec_def)
qed

text \<open>
  C21.  The only requests whose handling is undefined are GET and POST of \<open>/cgi\<close> without a command,
  where the code reads the first element of an empty list; every other one is answered.
\<close>

theorem web_request_undefined_exactly:
  "onRequestNeedsReply os site q r w = Inl e \<longleftrightarrow>
     e = Undefined \<and> (wq_command q = ''GET'' \<or> wq_command q = ''POST'') \<and>
     split_skip (CHR ''/'') (os_path os (wq_url q)) = [''cgi'']"
proof -
  let ?parts = "split_skip (CHR ''/'') (os_path os (wq_url q))"
  consider "?parts = []" | a where "?parts = [a]" | a b cs where "?parts = a # b # cs"
    by (cases ?parts) (metis list.exhaust)+
  then show ?thesis
  proof cases
    case 3
    obtain ok s' where "cgi_exec os site (b # cs) q (r, w) = Inr (ok, s')" using cgi_exec_result(2) by blast
    then show ?thesis using 3 by (auto simp: onRequestNeedsReply_def Let_def split: prod.split)
  qed (auto simp: onRequestNeedsReply_def Let_def cgi_exec_result)
qed

section \<open>Uploading the configuration\<close>

text \<open>What the page does with the bytes of the configuration: \<open>escape\<close>, and once more for the form.\<close>

definition hex_upper :: "nat \<Rightarrow> char" where
  "hex_upper d = ''0123456789ABCDEF'' ! d"

definition percent_encode :: "char list \<Rightarrow> string \<Rightarrow> string" where
  "percent_encode keep s = concat (map (\<lambda>c. if c \<in> set keep then [c]
     else [CHR ''%'', hex_upper (of_char c div 16), hex_upper (of_char c mod 16)]) s)"

definition letters_digits :: string where
  "letters_digits = ''ABCDEFGHIJKLMNOPQRSTUVWXYZabcdefghijklmnopqrstuvwxyz0123456789''"

definition js_escape :: "string \<Rightarrow> string" where
  "js_escape = percent_encode (letters_digits @ ''@*_+-./'')"

definition uri_component :: "string \<Rightarrow> string" where
  "uri_component = percent_encode (letters_digits @ ''-_.!~*()'')"

lemma from_percent_cons: "c \<noteq> CHR ''%'' \<Longrightarrow> from_percent (c # s) = c # from_percent s"
  by (cases s rule: from_percent.cases) auto

lemma percent_value_hex: "d < 16 \<Longrightarrow> percent_value (hex_upper d) = d"
proof -
  have "\<forall>d \<in> set [0..<16]. percent_value (hex_upper d) = d" by code_simp
  then show "d < 16 \<Longrightarrow> percent_value (hex_upper d) = d" by simp
qed

lemma percent_digits: "char_of (push_bit 4 (percent_value (hex_upper (of_char c div 16))) OR percent_value (hex_upper (of_char c mod 16))) = c"
proof -
  define n :: nat where "n = of_char c"
  have n: "n < 256" by (simp add: n_def)
  then have "percent_value (hex_upper (n div 16)) = n div 16" "percent_value (hex_upper (n mod 16)) = n mod 16"
    by (simp_all add: percent_value_hex)
  moreover have "push_bit 4 (n div 16) OR n mod 16 = n"
  proof -
    have "push_bit 4 (drop_bit 4 n) OR take_bit 4 n = n"
      by (rule bit_eqI) (auto simp: bit_or_iff bit_push_bit_iff bit_drop_bit_eq bit_take_bit_iff)
    then show ?thesis by (simp add: drop_bit_eq_div take_bit_eq_mod)
  qed
  ultimately show ?thesis by (simp add: n_def)
qed

lemma from_percent_encode: "CHR ''%'' \<notin> set keep \<Longrightarrow> from_percent (percent_encode keep s) = s"
proof (induction s)
  case (Cons c s)
  then show ?case
  proof (cases "c \<in> set keep")
    case True
    with Cons have "c \<noteq> CHR ''%''" by auto
    with True Cons show ?thesis by (simp add: percent_encode_def from_percent_cons)
  next
    case False
    with Cons show ?thesis by (simp add: percent_encode_def percent_digits)
  qed
qed (simp add: percent_encode_def)

lemma encoded_chars: "c \<in> set (percent_encode keep s) \<Longrightarrow> c \<in> set (keep @ ''%0123456789ABCDEF'')"
proof -
  have "\<forall>d \<in> set [0..<16]. hex_upper d \<in> set ''0123456789ABCDEF''" by code_simp
  then have hex: "d < 16 \<Longrightarrow> hex_upper d \<in> set ''0123456789ABCDEF''" for d by simp
  have "n < 256 \<Longrightarrow> n div 16 < 16" for n :: nat by linarith
  then have "(of_char x :: nat) div 16 < 16" "(of_char x :: nat) mod 16 < 16" for x :: char by simp_all
  note digit = hex [OF this(1)] hex [OF this(2)]
  assume "c \<in> set (percent_encode keep s)"
  then obtain x where x: "c \<in> set (if x \<in> set keep then [x] else [CHR ''%'', hex_upper (of_char x div 16), hex_upper (of_char x mod 16)])"
    unfolding percent_encode_def set_concat set_map by blast
  show ?thesis
  proof (cases "x \<in> set keep")
    case False
    then have "c = CHR ''%'' \<or> c = hex_upper (of_char x div 16) \<or> c = hex_upper (of_char x mod 16)" using x by simp
    then have "c \<in> set ''%0123456789ABCDEF''" using digit [of x] by (metis list.set_intros(1,2))
    then show ?thesis unfolding set_append by (rule UnI2)
  qed (use x in simp)
qed

lemma uri_component_chars: "CHR ''&'' \<notin> set (uri_component s)" "CHR ''='' \<notin> set (uri_component s)"
proof -
  have "CHR ''&'' \<notin> set ((letters_digits @ ''-_.!~*()'') @ ''%0123456789ABCDEF'')"
    "CHR ''='' \<notin> set ((letters_digits @ ''-_.!~*()'') @ ''%0123456789ABCDEF'')" by code_simp+
  then show "CHR ''&'' \<notin> set (uri_component s)" "CHR ''='' \<notin> set (uri_component s)"
    unfolding uri_component_def using encoded_chars by blast+
qed

lemma decoded_upload: "from_percent (from_percent (uri_component (js_escape s))) = s"
proof -
  have "CHR ''%'' \<notin> set (letters_digits @ ''-_.!~*()'')" "CHR ''%'' \<notin> set (letters_digits @ ''@*_+-./'')" by code_simp+
  then show ?thesis unfolding uri_component_def js_escape_def using from_percent_encode by metis
qed

lemma upload_field: "post_fields (''cfg='' @ uri_component u) ''cfg'' = Some (from_percent (uri_component u))"
proof -
  have "CHR ''&'' \<notin> set (''cfg='' @ uri_component u)" using uri_component_chars(1) [of u] by simp
  then have "split_at (CHR ''&'') (''cfg='' @ uri_component u) = [''cfg='' @ uri_component u]" by (rule split_at_none)
  moreover have "split_at (CHR ''='') (''cfg'' @ CHR ''='' # uri_component u) = [''cfg'', uri_component u]"
    using split_at_append [of "CHR ''=''" "''cfg''" "uri_component u"] split_at_none [OF uri_component_chars(2) [of u]] by simp
  ultimately show ?thesis by (simp add: post_fields_def Let_def)
qed

lemma reply_sent:
  assumes "\<not> wr_useChunked r" "hc_request c = Some q" "lower_ascii (getHeader (wq_headers q) ''Connection'') \<noteq> ''close''"
  shows "\<exists>pre. hc_out (sendReplyToClient order r c) = hc_out c @ pre @ wr_data r" "hc_closed (sendReplyToClient order r c) = hc_closed c"
  using assms
  by (auto simp: sendReplyToClient_def onReplySendHeaders_def onReplySendData_def hc_write_def wr_header_def Let_def)

text \<open>Kept open: the connection header of the request the handler gets.\<close>

lemma parsed_keeps_open:
  assumes "\<forall>h \<in> set hs. fst h \<noteq> ''Connection''"
  shows "lower_ascii (getHeader (wq_headers (parsed_request command url hs body)) ''Connection'') \<noteq> ''close''"
proof -
  have "trimmed_bytes ''Content-Length'' = ''Content-Length''" "trimmed_bytes ''Connection'' = ''Connection''" by code_simp+
  then have "wq_headers wq_new ''Connection'' = Some ''Keep-Alive''" by (simp add: wq_new_def addHeader_def)
  then have "wq_headers (parsed_request command url hs body) ''Connection'' = Some ''Keep-Alive''"
    using assms by (simp add: parsed_request_def Let_def with_headers_other)
  moreover have "lower_ascii ''Keep-Alive'' \<noteq> ''close''" by code_simp
  ultimately show ?thesis by (simp add: getHeader_def)
qed

lemma cfg_set_exec:
  assumes "wq_postData q ''cfg'' = Some cfg" "os_fromJson os (from_percent cfg) = Inr doc"
  shows "cgi_exec os site [''cfg_set''] q (r, w) =
    Inr (True, (wr_header ''Content-Type'' ''text/plain'' r, writeJson os (ws_configFile site) (json_object doc) w))"
  by (simp add: cgi_exec_def cgi_then_def cgi_arg_def cmd_cfg_jsonserver_def cmd_cfg_get_def cmd_cfg_set_def assms Let_def)

lemma cfg_set_handled:
  assumes "os_path os ''/cgi/cfg_set'' = ''/cgi/cfg_set''" "os_fromJson os bytes = Inr doc"
  shows "onRequestNeedsReply os site (parsed_request ''POST'' ''/cgi/cfg_set'' hs (''cfg='' @ uri_component (js_escape bytes))) r w =
    Inr (wr_header ''Content-Type'' ''text/plain'' r, writeJson os (ws_configFile site) (json_object doc) w)"
proof -
  let ?q = "parsed_request ''POST'' ''/cgi/cfg_set'' hs (''cfg='' @ uri_component (js_escape bytes))"
  have q: "wq_command ?q = ''POST''" "wq_url ?q = ''/cgi/cfg_set''" "wq_postData ?q ''cfg'' = Some (from_percent (uri_component (js_escape bytes)))"
    using upload_field by (simp_all add: parsed_request_def Let_def)
  have parts: "split_skip (CHR ''/'') ''/cgi/cfg_set'' = [''cgi'', ''cfg_set'']" by code_simp
  have "os_fromJson os (from_percent (from_percent (uri_component (js_escape bytes)))) = Inr doc" by (simp add: decoded_upload assms(2))
  note exec = cfg_set_exec [OF q(3) this, of site r w]
  show ?thesis
    unfolding onRequestNeedsReply_def q(1,2) assms(1) parts Let_def by (simp only: list.sel exec) simp
qed

lemma cfg_get_handled:
  assumes "os_path os ''/cgi/cfg_get'' = ''/cgi/cfg_get''" "ww_files w (ws_configFile site) = Some (Readable data)"
  shows "onRequestNeedsReply os site (parsed_request ''GET'' ''/cgi/cfg_get'' hs []) r w =
    Inr (wr_append data (wr_header ''Content-Type'' ''text/plain'' r), w)"
proof -
  let ?q = "parsed_request ''GET'' ''/cgi/cfg_get'' hs []"
  have q: "wq_command ?q = ''GET''" "wq_url ?q = ''/cgi/cfg_get''" by (simp_all add: parsed_request_def Let_def)
  have parts: "split_skip (CHR ''/'') ''/cgi/cfg_get'' = [''cgi'', ''cfg_get'']" by code_simp
  have "cgi_exec os site [''cfg_get''] ?q (r, w) = Inr (True, (wr_append data (wr_header ''Content-Type'' ''text/plain'' r), w))"
    by (simp add: cgi_exec_def cgi_then_def cgi_arg_def cmd_cfg_jsonserver_def cmd_cfg_get_def assms(2))
  then show ?thesis by (simp add: onRequestNeedsReply_def q assms(1) parts Let_def)
qed

lemma site_upload:
  assumes "list_all plain_header hs" "\<forall>h \<in> set hs. fst h \<noteq> ''Connection''"
    and "plain_word url" "length body < 2 ^ 31" "plain_word command" "hc_status c = AwaitingRequest" "\<not> hc_closed c"
    and "handler (parsed_request command url hs body) fresh w = Inr (r, w')" "\<not> wr_useChunked r"
  shows "\<exists>c' pre. onClientDataReceived order fresh handler (http_text command url hs body) c w = Inr (c', w') \<and>
    hc_status c' = AwaitingRequest \<and> \<not> hc_closed c' \<and> hc_out c' = hc_out c @ pre @ wr_data r"
proof -
  let ?q = "parsed_request command url hs body"
  let ?c = "c\<lparr>hc_status := RequestParsed, hc_request := Some ?q\<rparr>"
  have "hc_request ?c = Some ?q" by simp
  note sent = reply_sent [OF assms(9) this parsed_keeps_open [OF assms(2)], of order]
  have "onClientDataReceived order fresh handler (http_text command url hs body) c w = Inr (sendReplyToClient order r ?c, w')"
    using request_delivered [OF assms(5,3,1,4,6,7), of order fresh handler w] assms(8) by simp
  moreover have "\<not> hc_closed (sendReplyToClient order r ?c)" using sent(2) assms(7) by simp
  moreover obtain pre where "hc_out (sendReplyToClient order r ?c) = hc_out c @ pre @ wr_data r" using sent(1) by auto
  ultimately show ?thesis by auto
qed

text \<open>
  C18.  The configuration the page posts, escaped twice as its script does, is decoded to the same
  bytes, parsed and written, and the next request for the configuration on that connection is
  answered with what was written.
\<close>

theorem config_upload_served:
  assumes "os_path os ''/cgi/cfg_set'' = ''/cgi/cfg_set''" "os_path os ''/cgi/cfg_get'' = ''/cgi/cfg_get''"
    and "os_fromJson os bytes = Inr doc" "os_writable os (ws_configFile site)"
    and "list_all plain_header hs" "\<forall>h \<in> set hs. fst h \<noteq> ''Connection''"
    and "length (''cfg='' @ uri_component (js_escape bytes)) < 2 ^ 31"
  shows "\<exists>c out. http_session order (wr_new date name) (onRequestNeedsReply os site)
      [http_text ''POST'' ''/cgi/cfg_set'' hs (''cfg='' @ uri_component (js_escape bytes)), http_text ''GET'' ''/cgi/cfg_get'' hs []]
      hc_new w =
    Inr (c, w\<lparr>ww_files := (ww_files w)(ws_configFile site \<mapsto> Readable (os_toJson os (json_object doc)))\<rparr>) \<and>
    hc_out c = out @ os_toJson os (json_object doc)"
proof -
  let ?handler = "onRequestNeedsReply os site" and ?fresh = "wr_new date name"
  let ?body = "''cfg='' @ uri_component (js_escape bytes)"
  let ?w = "w\<lparr>ww_files := (ww_files w)(ws_configFile site \<mapsto> Readable (os_toJson os (json_object doc)))\<rparr>"
  have words: "plain_word ''POST''" "plain_word ''GET''" "plain_word ''/cgi/cfg_set''" "plain_word ''/cgi/cfg_get''" by code_simp+
  have plain: "\<not> wr_useChunked (wr_header a b ?fresh)" "\<not> wr_useChunked (wr_append d (wr_header a b ?fresh))"
    "wr_data (wr_append d (wr_header a b ?fresh)) = d" for a b d
    by (simp_all add: wr_header_def wr_append_def wr_new_def)
  have set: "?handler (parsed_request ''POST'' ''/cgi/cfg_set'' hs ?body) ?fresh w = Inr (wr_header ''Content-Type'' ''text/plain'' ?fresh, ?w)"
    using cfg_set_handled [OF assms(1,3), of site hs ?fresh w] assms(4) by (simp add: writeJson_def)
  have new: "hc_status hc_new = AwaitingRequest" "\<not> hc_closed hc_new" by (simp_all add: hc_new_def)
  obtain c1 where c1: "onClientDataReceived order ?fresh ?handler (http_text ''POST'' ''/cgi/cfg_set'' hs ?body) hc_new w = Inr (c1, ?w)"
      "hc_status c1 = AwaitingRequest" "\<not> hc_closed c1"
    using site_upload [where handler = ?handler and fresh = ?fresh, OF assms(5,6) words(3) assms(7) words(1) new set plain(1), of order] by blast
  have get: "?handler (parsed_request ''GET'' ''/cgi/cfg_get'' hs []) ?fresh ?w =
      Inr (wr_append (os_toJson os (json_object doc)) (wr_header ''Content-Type'' ''text/plain'' ?fresh), ?w)"
    using assms(2) by (intro cfg_get_handled) simp_all
  have "length ([] :: string) < 2 ^ 31" by simp
  from site_upload [where handler = ?handler and fresh = ?fresh, OF assms(5,6) words(4) this words(2) c1(2,3) get plain(2), of order]
  obtain c2 pre where "onClientDataReceived order ?fresh ?handler (http_text ''GET'' ''/cgi/cfg_get'' hs []) c1 ?w = Inr (c2, ?w)"
      "hc_out c2 = hc_out c1 @ pre @ os_toJson os (json_object doc)"
    unfolding plain(3) by blast
  then show ?thesis using c1(1) by (auto intro: exI [of _ "hc_out c1 @ pre"])
qed

definition demo_os :: web_os where
  "demo_os = \<lparr>os_path = id, os_isDir = (\<lambda>_. False), os_writable = (\<lambda>_. True), os_mime = (\<lambda>_. ''text/html''), os_run = id,
     os_fromJson = (\<lambda>s. if s = ''{}'' then Inr (JObject []) else Inl ''illegal value''), os_toJson = (\<lambda>obj. ''{ }'')\<rparr>"

definition demo_site :: web_site where
  "demo_site = \<lparr>ws_baseUrl = ''/srv/web'', ws_config = [], ws_configFile = ''/etc/hyperion.json''\<rparr>"

theorem config_upload_served_witness:
  "\<exists>c out. http_session (\<lambda>hs. []) (wr_new [] []) (onRequestNeedsReply demo_os demo_site)
      [http_text ''POST'' ''/cgi/cfg_set'' [] (''cfg='' @ uri_component (js_escape ''{}'')), http_text ''GET'' ''/cgi/cfg_get'' [] []]
      hc_new \<lparr>ww_files = Map.empty, ww_ran = []\<rparr> =
    Inr (c, \<lparr>ww_files = [''/etc/hyperion.json'' \<mapsto> Readable ''{ }''], ww_ran = []\<rparr>) \<and> hc_out c = out @ ''{ }''"
proof -
  have os: "os_path demo_os = id" "os_fromJson demo_os ''{}'' = Inr (JObject [])" "os_writable demo_os (ws_configFile demo_site)"
    "os_toJson demo_os obj = ''{ }''" "ws_configFile demo_site = ''/etc/hyperion.json''" for obj
    by (simp_all add: demo_os_def demo_site_def)
  have "length (''cfg='' @ uri_component (js_escape ''{}'')) = 14" by code_simp
  then have len: "length (''cfg='' @ uri_component (js_escape ''{}'')) < 2 ^ 31" by simp
  show ?thesis
    using config_upload_served [OF _ _ os(2,3) _ _ len, of "[]" "\<lambda>hs. []" "[]" "[]" "\<lparr>ww_files = Map.empty, ww_ran = []\<rparr>"]
    by (simp add: os)
qed

section \<open>Outside the document root\<close>

text \<open>How a file system reads a name, links aside, and absolute names.\<close>

fun resolve_parts :: "string list \<Rightarrow> string list \<Rightarrow> string list" where
  "resolve_parts st [] = rev st"
| "resolve_parts st (p # ps) =
     (if p = [] \<or> p = ''.'' then resolve_parts st ps
      else if p = ''..'' then resolve_parts (tl st) ps else resolve_parts (p # st) ps)"

definition resolve :: "string \<Rightarrow> string list" where
  "resolve name = resolve_parts [] (split_at (CHR ''/'') name)"

definition abs_name :: "string list \<Rightarrow> string" where
  "abs_name ps = concat (map (\<lambda>p. CHR ''/'' # p) ps)"

definition plain_part :: "string \<Rightarrow> bool" where
  "plain_part p \<longleftrightarrow> p \<noteq> [] \<and> p \<noteq> ''.'' \<and> p \<noteq> ''..'' \<and> CHR ''/'' \<notin> set p"

definition climbing_path :: "string list \<Rightarrow> string list \<Rightarrow> string" where
  "climbing_path home target = abs_name (replicate (length home) ''..'' @ target)"

lemma split_abs_name: "\<forall>p \<in> set ps. CHR ''/'' \<notin> set p \<Longrightarrow> split_at (CHR ''/'') (abs_name ps) = [] # ps"
proof (induction ps)
  case (Cons p ps)
  then show ?case
    by (cases ps) (auto simp: abs_name_def split_at_none split_at_cons_parts)
qed (simp add: abs_name_def)

lemma resolve_plain: "list_all plain_part ps \<Longrightarrow> resolve_parts st (ps @ qs) = resolve_parts (rev ps @ st) qs"
  by (induction ps arbitrary: st) (auto simp: plain_part_def)

lemma resolve_up: "n \<le> length st \<Longrightarrow> resolve_parts st (replicate n ''..'' @ qs) = resolve_parts (drop n st) qs"
  by (induction n arbitrary: st) (auto simp: drop_Suc)

lemma slash_free: "list_all plain_part ps \<Longrightarrow> \<forall>p \<in> set ps. CHR ''/'' \<notin> set p"
  by (auto simp: list_all_iff plain_part_def)

lemma resolve_abs: "list_all plain_part ps \<Longrightarrow> resolve (abs_name ps) = ps"
  using resolve_plain [of ps "[]" "[]"] by (simp add: resolve_def split_abs_name slash_free)

lemma resolve_climbing:
  assumes "list_all plain_part home" "list_all plain_part target"
  shows "resolve (abs_name home @ ''/'' @ climbing_path home target) = target"
proof -
  let ?up = "replicate (length home) ''..''"
  have "abs_name home @ ''/'' @ climbing_path home target = abs_name (home @ [] # ?up @ target)"
    by (simp add: abs_name_def climbing_path_def)
  moreover have "\<forall>p \<in> set (home @ [] # ?up @ target). CHR ''/'' \<notin> set p"
    using slash_free [OF assms(1)] slash_free [OF assms(2)] by auto
  ultimately have "resolve (abs_name home @ ''/'' @ climbing_path home target) = resolve_parts [] (home @ [] # ?up @ target)"
    by (simp add: resolve_def split_abs_name)
  also have "\<dots> = resolve_parts [] target"
    using resolve_plain [OF assms(1), of "[]"] resolve_up [of "length home" "rev home" target] by simp
  also have "\<dots> = target" using resolve_plain [OF assms(2), of "[]" "[]"] by simp
  finally show ?thesis .
qed

text \<open>
  C22.  When the document root is a directory, every readable file of the system is served: as many
  \<open>..\<close> as the root is deep lead out of it, and nothing in the path of a request is checked.
\<close>

theorem document_root_escaped:
  assumes "list_all plain_part home" "list_all plain_part target" "home \<noteq> []" "ws_baseUrl site = abs_name home"
    and "\<forall>a b. resolve a = resolve b \<longrightarrow> ww_files w a = ww_files w b \<and> os_isDir os a = os_isDir os b"
    and "ww_files w (abs_name target) = Some (Readable data)" "\<not> os_isDir os (abs_name target)"
    and "wq_command q = ''GET''" "os_path os (wq_url q) = climbing_path home target"
  shows "onRequestNeedsReply os site q r w =
    Inr (wr_append data (wr_header ''Content-Type'' (os_mime os (abs_name home @ ''/'' @ climbing_path home target)) r), w)"
proof -
  let ?path = "climbing_path home target"
  have "resolve (abs_name home @ ''/'' @ ?path) = resolve (abs_name target)"
    using resolve_climbing [OF assms(1,2)] resolve_abs [OF assms(2)] by simp
  with assms(5-7) have found: "ww_files w (abs_name home @ ''/'' @ ?path) = Some (Readable data)" "\<not> os_isDir os (abs_name home @ ''/'' @ ?path)"
    by metis+
  obtain n where n: "length home = Suc n" using assms(3) by (cases home) auto
  have "split_at (CHR ''/'') ?path = [] # replicate (length home) ''..'' @ target"
    unfolding climbing_path_def using slash_free [OF assms(2)] by (intro split_abs_name) auto
  then have parts: "split_skip (CHR ''/'') ?path \<noteq> [] \<and> split_skip (CHR ''/'') ?path ! 0 = ''..''"
    by (simp add: split_skip_def n)
  have "?path \<noteq> ''/''" "?path \<noteq> []" by (simp_all add: climbing_path_def abs_name_def n)
  then have "index_path os site ?path = ?path" using found(2) assms(4) by (simp add: index_path_def Let_def)
  then have "serve_file os site ?path w r = wr_append data (wr_header ''Content-Type'' (os_mime os (abs_name home @ ''/'' @ ?path)) r)"
    using found(1) assms(4) by (simp add: serve_file_def Let_def)
  with parts show ?thesis using assms(8,9) by (simp add: onRequestNeedsReply_def Let_def)
qed

theorem document_root_escaped_witness:
  "onRequestNeedsReply demo_os demo_site (wq_new\<lparr>wq_command := ''GET'', wq_url := ''/../../etc/passwd''\<rparr>) (wr_new [] [])
     \<lparr>ww_files = (\<lambda>a. if resolve a = [''etc'', ''passwd''] then Some (Readable ''root'') else None), ww_ran = []\<rparr> =
   Inr (wr_append ''root'' (wr_header ''Content-Type'' ''text/html'' (wr_new [] [])),
     \<lparr>ww_files = (\<lambda>a. if resolve a = [''etc'', ''passwd''] then Some (Readable ''root'') else None), ww_ran = []\<rparr>)"
proof -
  let ?w = "\<lparr>ww_files = (\<lambda>a. if resolve a = [''etc'', ''passwd''] then Some (Readable ''root'') else None), ww_ran = []\<rparr>"
  have plain: "list_all plain_part [''srv'', ''web'']" "list_all plain_part [''etc'', ''passwd'']" by code_simp+
  have path: "climbing_path [''srv'', ''web''] [''etc'', ''passwd''] = ''/../../etc/passwd''" by code_simp
  have base: "ws_baseUrl demo_site = abs_name [''srv'', ''web'']" by (simp add: demo_site_def abs_name_def)
  have os: "os_isDir demo_os a = False" "os_path demo_os = id" "os_mime demo_os a = ''text/html''" for a by (simp_all add: demo_os_def)
  from document_root_escaped [OF plain _ base, of ?w demo_os "''root''" "wq_new\<lparr>wq_command := ''GET'', wq_url := ''/../../etc/passwd''\<rparr>"]
  show ?thesis using resolve_abs [OF plain(2)] by (simp add: os path)
qed

section \<open>What a client can change\<close>

definition allowed_script :: "web_site \<Rightarrow> string \<Rightarrow> bool" where
  "allowed_script site cmd \<longleftrightarrow> (\<exists>x. cmd = ''python '' @ ws_baseUrl site @ ''/server_scripts/'' @ x \<and>
     \<not> contains_text x ''..'' \<and> ends_with cmd ''.py'')"

definition confined :: "web_site \<Rightarrow> web_world \<Rightarrow> web_world \<Rightarrow> bool" where
  "confined site w w' \<longleftrightarrow> (\<forall>name. name \<noteq> ws_configFile site \<longrightarrow> ww_files w' name = ww_files w name) \<and>
     (\<exists>cmds. ww_ran w' = ww_ran w @ cmds \<and> list_all (allowed_script site) cmds)"

lemma confined_refl [simp]: "confined site w w"
  by (simp add: confined_def)










lemma web_config_valid:
  "wc_port (wc_new os config) < 2 ^ 16"
  "wc_baseUrl (wc_new os config) = '':/webconfig'' \<or> os_isDir os (wc_baseUrl (wc_new os config))"
  by (auto simp: wc_new_def wc_start_def Let_def nat_less_iff)

end
