(* ===== verification/Spec2Isabelle.thy ===== *)
theory Spec2Isabelle
  imports BorderProcessor ImgProcessor CoreTheorems Devices Packets JsonServer WebSocket
    UdpListener Boblight ProtoServer HyperionConfig Grabbers Kodi Remote WebServer
begin

text \<open>
  This development models the core of the ambient-light daemon Hyperion (C++, under \<open>src/\<close>):
  how colours of many sources become the frames a led device receives.

  \<^bold>\<open>The program.\<close>  Clients, grabbers and effect threads put led colours on channels with a
  priority and an optional timeout (\<open>Hyperion::setColors\<close>).  The priority muxer keeps the active
  channels; \<open>Hyperion::update\<close> asks it for the current one, adjusts the colours, inserts the
  cloned leds, swaps the bytes of every led into its colour order, pads the frame and hands it to
  the smoothing or to the device.  Pictures become led colours in the image processor, which
  detects black borders and averages the pixels of every led.

  \<^bold>\<open>Theories.\<close>
  \<^item> \<open>Prelude\<close>, \<open>QMaps\<close>, \<open>Doubles\<close>, \<open>Json\<close>: results with errors (\<open>Inl Undefined\<close> for what C++ leaves
    undefined, other constructors for exceptions and failed asserts), bytes, buffers with checked
    access, sorted association lists for \<open>QMap\<close>, IEEE rounding of exact rationals, JSON values.
  \<^item> \<open>Components\<close> (\<open>Components.h\<close>, \<open>ComponentRegister.cpp\<close>), \<open>Muxer\<close> (\<open>PriorityMuxer.cpp\<close>: refinement of
    a map from priorities to inputs), \<open>Adjustment\<close> (\<open>RgbTransform.cpp\<close>, \<open>RgbChannelAdjustment.cpp\<close>,
    \<open>MultiColorAdjustment.cpp\<close>: definedness, exact sums, overflow of the coloured backlight).
  \<^item> \<open>Images\<close> (\<open>Image.h\<close>), \<open>BlackBorder\<close> and \<open>BorderProcessor\<close> (\<open>blackborder\<close>: detection on letterboxed
    pictures, when a border is adopted), \<open>LedConfig\<close> (\<open>LedString.h\<close>, \<open>createLedString\<close> of
    \<open>Hyperion.cpp\<close>), \<open>ImageToLeds\<close> (\<open>ImageToLedsMap\<close>: pixel maps and means), \<open>ImgProcessor\<close>
    (\<open>ImageProcessor\<close>: any sequence of pictures is safe).
  \<^item> \<open>Smoothing\<close> (\<open>LinearColorSmoothing.cpp\<close>: ticks approach the target, queue bounds).
  \<^item> \<open>LedDevices\<close>, \<open>SerialDrivers\<close>, \<open>SpiDrivers\<close>, \<open>Packets\<close>, \<open>Devices\<close> (\<open>leddevice\<close>): the locale of a driver
    that packs a frame into a buffer, its interpretation for every driver, what a strip reads back from
    the pulses and bytes, the packet drivers, and the base class with its refresh timer, measured
    against the documented one (a refresh repeats the last data).
  \<^item> \<open>LedOutput\<close> (clones, colour order, padding), \<open>Hyperion\<close> (the state and operations of the core,
    the effect engine and the event queue), \<open>UpdateProps\<close>, \<open>CoreRuns\<close> (requests, reachable states
    and their invariant) and \<open>CoreTheorems\<close>.
  \<^item> \<open>JsonSchema\<close> (\<open>QJsonSchemaChecker.cpp\<close>: the checker decides conformance, a meaning of schemas stated
    apart from it, with its three gaps named), \<open>JsonSchemas\<close> (the message
    schemas under \<open>jsonserver/schema\<close>), \<open>JsonServer\<close> (\<open>JsonClientConnection.cpp\<close>: from a parsed message to
    the calls of the core and the replies), \<open>WebSocket\<close> (the socket of that connection: lines, the
    handshake and frames of web sockets).
  \<^item> \<open>CoreClients\<close> states what every client of the core relies on (a locale, interpreted on the reachable
    states) and \<open>HyperionConfig\<close> reads the configuration up to the constructor of the core.  The clients:
    \<open>QtText\<close> (text functions), \<open>UdpListener\<close>, \<open>Boblight\<close>, \<open>Forwarder\<close> (\<open>MessageForwarder.cpp\<close>), \<open>ProtoServer\<close>
    (\<open>protoserver\<close>: framing, requests, forwarding to other instances).
  \<^item> \<open>Resampler\<close> (\<open>ImageResampler.cpp\<close>, the frame buffer), \<open>Grabbers\<close> (\<open>GrabberWrapper.cpp\<close>, \<open>V4L2Grabber.cpp\<close>,
    the wrappers) and \<open>Kodi\<close> (\<open>KODIVideoChecker.cpp\<close>).
  \<^item> \<open>Remote\<close> (\<open>hyperion-remote\<close>: its messages pass the schemas and lead to the requests they stand for),
    \<open>Http\<close> (\<open>QtHttpClientWrapper.cpp\<close>: the parser of a connection as a state machine, requests arrive whole or are
    lost) and \<open>WebServer\<close> (\<open>StaticFileServing.cpp\<close>, \<open>CgiHandler.cpp\<close>, \<open>WebConfig.cpp\<close>: what is answered, what a client
    can change).
  \<^item> This theory joins the core and the devices.

  \<^bold>\<open>Parameters.\<close>  The clock is a function from the number of the reading to milliseconds, \<open>pow\<close> of
  the C library a function, uninitialised memory an argument; transports are taken to succeed.  The
  parser of JSON texts, the base64 decoder, \<open>toFloat\<close>, the decoding of UTF-8 and the key of the web socket
  handshake, which are Qt's, are functions, and so are the encoding and decoding of protobuf messages.  Whether a socket binds
  or a video device opens and starts, the formats a driver reports and the memory of a frame are
  arguments of the steps.  For the web server the path of an URL, directories, MIME types, the output of a
  script and JSON texts are functions of a record, and the files a map.  The frame an \<open>LPD8806\<close> device
  sends when it is opened is not counted in what a device has sent.

  \<^bold>\<open>Not modelled.\<close>  Sockets and threads as such (an effect thread is a sequence of requests), the
  Python interpreter and drawing, the grabbers of platform libraries (X11, Amlogic, Dispmanx, OS X), the
  reports and streams of the JSON server, logging and the command-line tools but \<open>hyperion-remote\<close>.
  The exception handler around \<open>handleMessage\<close> of the JSON server, which would answer with an error, is left
  out: an exception there is the result of the message.  What a device has sent (\<open>ld_sent\<close>) is what it
  hands to its transport; \<open>ProviderRs232\<close> drops frames while an earlier one is being written.

  \<^bold>\<open>Simplifications of types.\<close>  Sides of pictures, led counts and indices are natural numbers; where the
  source computes with them in \<open>unsigned\<close> or \<open>int\<close>, the products are either written with their wrap-around
  or overflow (\<open>mul_int\<close>) or bounded by an explicit hypothesis.  In the gamma tables the value of \<open>pow\<close> is cut
  off to an unbounded integer before the clamping, where the source converts to a machine integer
  first; for a gamma that is not negative the power is at most one and the two agree.  Functions of Qt on texts and
  byte arrays (\<open>trimmed\<close>, \<open>split\<close>, \<open>toInt\<close>, \<open>toUInt\<close>, \<open>mid\<close>, \<open>indexOf\<close>, \<open>readLine\<close>) are definitions of their documented
  behaviour, mapped to the calls in the source.  In \<open>Http\<close> the specification of a request uses the same
  splitting of form fields as the parser, and an URL is a text whose path a parameter takes out.
\<close>

section \<open>From the core to the led device\<close>

lemma direct_frame:
  assumes "cfg_ok pw cfg" "reachable pw clk cfg junk h" "\<not> sm_enabled (h_smooth h)"
  obtains h' f where "hyp_update clk h = Inr h'" "sm_out (h_smooth h') = sm_out (h_smooth h) @ [f]"
    "length f = frame_size (cfg_leds cfg) (cfg_clones cfg) (cfg_hwLeds cfg)"
proof -
  have ok: "core_ok (cfg_leds cfg) (cfg_clones cfg) (cfg_hwLeds cfg) h" "layout_ok (cfg_leds cfg) (cfg_clones cfg)"
    using reachable_core_ok [OF assms(2,1)] by simp_all
  obtain h' info f where h': "hyp_update clk h = Inr h'" "hyp_ok (cfg_leds cfg) (cfg_clones cfg) (cfg_hwLeds cfg) h'"
      "mux_abs (h_muxer h') (getCurrentPriority h') = Some info"
      "frame_for (cfg_leds cfg) (cfg_clones cfg) (cfg_hwLeds cfg) (h_adjustment h') (getCurrentPriority h') info f"
      "delivered f (h_smooth h) (h_smooth h')"
    using hyp_update_ok [OF core_okD(5) [OF ok(1)] ok(2)] by metis
  show thesis
    using h'(1,5) assms(3) frame_for_length [OF h'(4,2) ok(2) h'(3)] that unfolding delivered_def by auto
qed

text \<open>
  C3.  From the core to the wire: with smoothing switched off, no cloned leds and as many
  hardware leds as configured ones, a led update in any reachable state hands the device a
  frame it can send, and what goes out is the protocol frame of those colours, whatever the
  device did before.
\<close>

theorem update_reaches_device:
  assumes "cfg_ok pw cfg" "reachable pw clk cfg junk h" "\<not> sm_enabled (h_smooth h)"
    and "cfg_clones cfg = []" "cfg_hwLeds cfg = length (cfg_leds cfg)"
    and "drv_ready drv (length (cfg_leds cfg))" "list_all (ld_op_ok (length (cfg_leds cfg))) ops"
  shows "\<exists>h' f d. hyp_update clk h = Inr h' \<and> sm_out (h_smooth h') = sm_out (h_smooth h) @ [f] \<and>
    ld_run (ops @ [LdSet f]) (ld_new drv (length (cfg_leds cfg)) iv) = Inr d \<and>
    last (ld_sent d) = drv_frame drv f"
proof -
  let ?n = "length (cfg_leds cfg)"
  obtain h' f where h': "hyp_update clk h = Inr h'" "sm_out (h_smooth h') = sm_out (h_smooth h) @ [f]"
      "length f = ?n"
    using direct_frame [OF assms(1-3)] assms(4,5) by (auto simp: frame_size_def)
  have ops: "list_all (ld_op_ok ?n) (ops @ [LdSet f])" using assms(7) h'(3) by simp
  have at: "ld_at drv ?n iv [] None (ld_new drv ?n iv)" using assms(6) by (simp add: ld_at_def ld_new_def)
  have shown_snoc: "shown n r lst (os @ [LdSet f]) = shown n r lst os @ [f]" for n r lst os
    by (induction n r lst os rule: shown.induct) (auto split: option.split)
  from ld_run_shown [OF at assms(6) ops] obtain d lst where
    d: "ld_run (ops @ [LdSet f]) (ld_new drv ?n iv) = Inr d"
      "ld_at drv ?n iv (shown ?n (iv > 0) None (ops @ [LdSet f])) lst d" by auto
  have "\<forall>cs \<in> set (shown ?n (iv > 0) None (ops @ [LdSet f])). length cs = ?n" using d(2) by (simp add: ld_at_def)
  from drv_send_all_frames [OF assms(6) this] d(2) have "ld_sent d = map (drv_frame drv) (shown ?n (iv > 0) None (ops @ [LdSet f]))"
    by (simp add: ld_at_def)
  then have "last (ld_sent d) = drv_frame drv f" by (simp add: shown_snoc)
  with h' d(1) show ?thesis by blast
qed

text \<open>A configuration without clones, for the witness.\<close>

definition plain_cfg :: hyperion_cfg where
  "plain_cfg = demo_cfg\<lparr>hc_leds := [demo_entry 0 None, demo_entry 1 None], hc_ledCount := None\<rparr>"

lemma plain_cfg_ok: "cfg_ok (\<lambda>x y. 1) plain_cfg"
  using demo_cfg_ok
  by (simp add: cfg_ok_def plain_cfg_def layout_ok_def clones_ok_def backward_def demo_entry_def
      createLedString_def createLedStringClone_def clone_of_def Let_def)

lemma plain_cfg_layout: "cfg_clones plain_cfg = []" "length (cfg_leds plain_cfg) = 2" "cfg_hwLeds plain_cfg = 2"
  by (simp_all add: plain_cfg_def demo_entry_def createLedString_def createLedStringClone_def clone_of_def
      cfg_hwLeds_def Let_def)

lemma smoothing_off_reachable:
  assumes "cfg_ok pw cfg"
  obtains h where "reachable pw clk cfg junk h" "\<not> sm_enabled (h_smooth h)"
proof -
  obtain h where "hyp_new pw clk cfg junk = Inr h" using hyp_new_ok [OF assms] by blast
  then have "reachable pw clk cfg junk h" by (rule reachable.Start)
  then have "reachable pw clk cfg junk (hyp_setComponentState COMP_SMOOTHING False h)"
    by (rule reachable.Request [where req = "ReqComponent COMP_SMOOTHING False"]) simp_all
  then show thesis by (rule that) (simp add: hyp_setComponentState_def sm_setEnable_def Let_def)
qed

theorem update_reaches_device_witness:
  "\<exists>h h' f d. reachable (\<lambda>x y. 1) (\<lambda>n. int n) plain_cfg 7 h \<and> hyp_update (\<lambda>n. int n) h = Inr h' \<and>
     sm_out (h_smooth h') = sm_out (h_smooth h) @ [f] \<and>
     ld_run ([LdOff] @ [LdSet f]) (ld_new APA102 2 0) = Inr d \<and> last (ld_sent d) = drv_frame APA102 f"
proof -
  obtain h where h: "reachable (\<lambda>x y. 1) (\<lambda>n. int n) plain_cfg 7 h" "\<not> sm_enabled (h_smooth h)"
    using smoothing_off_reachable [OF plain_cfg_ok] .
  have "cfg_hwLeds plain_cfg = length (cfg_leds plain_cfg)" "drv_ready APA102 (length (cfg_leds plain_cfg))"
    "list_all (ld_op_ok (length (cfg_leds plain_cfg))) [LdOff]"
    by (simp_all add: plain_cfg_layout)
  from update_reaches_device [OF plain_cfg_ok h plain_cfg_layout(1) this, of 0] h(1) show ?thesis
    unfolding plain_cfg_layout(2) by blast
qed

text \<open>
  C40.  With more hardware leds than the led string has, or with cloned leds, the frames are
  longer than the number of leds the device was constructed for.  The Adalight driver copies the
  whole frame into the buffer of the smaller size, so the first update handed to it writes past
  the end of the buffer.
\<close>

theorem larger_frames_overflow_adalight:
  assumes "cfg_ok pw cfg" "reachable pw clk cfg junk h" "\<not> sm_enabled (h_smooth h)"
    and "length (cfg_leds cfg) < cfg_hwLeds cfg \<or> cfg_clones cfg \<noteq> []"
  shows "\<exists>h' f. hyp_update clk h = Inr h' \<and> sm_out (h_smooth h') = sm_out (h_smooth h) @ [f] \<and>
    ld_run [LdSet f] (ld_new Adalight (length (cfg_leds cfg)) iv) = Inl Undefined"
proof -
  let ?n = "length (cfg_leds cfg)"
  obtain h' f where h': "hyp_update clk h = Inr h'" "sm_out (h_smooth h') = sm_out (h_smooth h) @ [f]"
      "length f = frame_size (cfg_leds cfg) (cfg_clones cfg) (cfg_hwLeds cfg)"
    using direct_frame [OF assms(1-3)] .
  have "?n < length f" using h'(3) assms(4) by (auto simp: frame_size_def less_max_iff_disj)
  then have "drv_put Adalight ?n f (drv_init Adalight ?n) = Inl Undefined" by (rule adalight_oversized)
  then have "ld_run [LdSet f] (ld_new Adalight ?n iv) = Inl Undefined"
    by (simp add: ld_setLedValues_def ld_write_def ld_new_def Let_def)
  with h' show ?thesis by blast
qed

theorem larger_frames_overflow_adalight_witness:
  "\<exists>h h' f. reachable (\<lambda>x y. 1) (\<lambda>n. int n) demo_cfg 7 h \<and> hyp_update (\<lambda>n. int n) h = Inr h' \<and>
     sm_out (h_smooth h') = sm_out (h_smooth h) @ [f] \<and>
     ld_run [LdSet f] (ld_new Adalight (length (cfg_leds demo_cfg)) 0) = Inl Undefined"
proof -
  obtain h where h: "reachable (\<lambda>x y. 1) (\<lambda>n. int n) demo_cfg 7 h" "\<not> sm_enabled (h_smooth h)"
    using smoothing_off_reachable [OF demo_cfg_ok] .
  have "cfg_clones demo_cfg \<noteq> []"
    by (simp add: demo_cfg_def demo_entry_def createLedStringClone_def clone_of_def Let_def make_clone_def)
  with larger_frames_overflow_adalight [OF demo_cfg_ok h, of 0] h(1) show ?thesis by blast
qed

end
